(* ===== verification/Prelude.thy ===== *)
theory Prelude
  imports Main "HOL-Library.Word" "HOL-Library.Sublist"
begin

text \<open>
  Shared ground of the development: the collections of facts the component proofs
  use, Go's error values, Go's 64-bit integers and random draws, and the relational
  reading of the SQL statements the program sends (an \<open>UPDATE\<close> and a \<open>DELETE\<close> over a
  table given as a list of rows, each with the number of rows it affects).
\<close>

named_theorems row_simps \<open>field laws of the row updates of a component\<close>
named_theorems inv_intros \<open>preservation lemmas of the component invariants\<close>

type_synonym go_int = int
type_synonym duration = int \<comment> \<open>nanoseconds, a Go int64\<close>
type_synonym pg_micros = int \<comment> \<open>microseconds, the resolution of timestamptz and interval\<close>

subsection \<open>Go errors\<close>

text \<open>
  An error value: the sentinels of the standard library the program tests for, the
  package-level sentinels (by their text), an error built at a call site (format and
  arguments), an error wrapping another with the \<open>%w\<close> verb, the join of several errors, a
  PostgreSQL error (by its SQLSTATE) and an error of application code.
  The absence of an error (\<open>nil\<close>) is \<open>None\<close>.
\<close>

datatype goerr =
    ErrCanceled
  | ErrDeadline
  | ErrNoRows
  | ErrEOF
  | ErrSentinel string
  | ErrPg string
  | ErrApp string
  | ErrMsg string "string list"
  | ErrWrap string "string list" goerr
  | ErrJoin "goerr list"

text \<open>\<open>errors.Is\<close> against a sentinel and \<open>errors.As\<close> to a PostgreSQL error: both walk
  the wrapped errors depth first.\<close>

fun errors_is :: "goerr \<Rightarrow> goerr \<Rightarrow> bool" where
  "errors_is (ErrWrap f as e) t = (ErrWrap f as e = t \<or> errors_is e t)"
| "errors_is (ErrJoin es) t = (ErrJoin es = t \<or> (\<exists>e \<in> set es. errors_is e t))"
| "errors_is e t = (e = t)"

fun first_some :: "('a \<Rightarrow> 'b option) \<Rightarrow> 'a list \<Rightarrow> 'b option" where
  "first_some f [] = None"
| "first_some f (x # xs) = (case f x of None \<Rightarrow> first_some f xs | Some y \<Rightarrow> Some y)"

lemma first_some_cong [fundef_cong]:
  "xs = ys \<Longrightarrow> (\<And>x. x \<in> set ys \<Longrightarrow> f x = g x) \<Longrightarrow> first_some f xs = first_some g ys"
proof (induction ys arbitrary: xs)
  case (Cons y ys)
  then show ?case by (auto split: option.split)
qed simp

fun errors_as_pg :: "goerr \<Rightarrow> string option" where
  "errors_as_pg (ErrPg code) = Some code"
| "errors_as_pg (ErrWrap f as e) = errors_as_pg e"
| "errors_as_pg (ErrJoin es) = first_some errors_as_pg es"
| "errors_as_pg e = None"

text \<open>\<open>errors.Join\<close> drops nil errors and is nil when nothing is left.\<close>

definition errors_join :: "goerr option list \<Rightarrow> goerr option" where
  "errors_join es =
     (let kept = map the (filter (\<lambda>e. e \<noteq> None) es)
      in if kept = [] then None else Some (ErrJoin kept))"

lemma errors_join_None_iff [simp]: "errors_join es = None \<longleftrightarrow> (\<forall>e \<in> set es. e = None)"
  by (auto simp: errors_join_def Let_def filter_empty_conv)

subsection \<open>64-bit integers and random draws\<close>

definition wrap64 :: "int \<Rightarrow> int" where
  "wrap64 x = (x + 2 ^ 63) mod 2 ^ 64 - 2 ^ 63"

definition int64_ok :: "int \<Rightarrow> bool" where
  "int64_ok x \<longleftrightarrow> - (2 ^ 63) \<le> x \<and> x < 2 ^ 63"

lemma wrap64_id [simp]: "int64_ok x \<Longrightarrow> wrap64 x = x"
  by (simp add: wrap64_def int64_ok_def)

lemma wrap64_ok [simp]: "int64_ok (wrap64 x)"
proof -
  have "(x + 2 ^ 63) mod 2 ^ 64 < 2 ^ 64" "0 \<le> (x + 2 ^ 63) mod 2 ^ 64"
    by (simp_all del: One_nat_def)
  then show ?thesis by (simp add: wrap64_def int64_ok_def)
qed

text \<open>\<open>rand.Int64N(n)\<close> panics on a non-positive bound (\<open>None\<close>) and otherwise returns a
  value below it; the raw draw is the second argument.\<close>

definition Int64N :: "int \<Rightarrow> int \<Rightarrow> int option" where
  "Int64N n draw = (if n \<le> 0 then None else Some (draw mod n))"

lemma Int64N_Some: "Int64N n draw = Some r \<Longrightarrow> 0 \<le> r \<and> r < n"
  by (auto simp: Int64N_def split: if_splits)

lemma Int64N_None_iff [simp]: "Int64N n draw = None \<longleftrightarrow> n \<le> 0"
  by (simp add: Int64N_def)

text \<open>Go's integer division truncates towards zero.\<close>

definition go_div :: "int \<Rightarrow> int \<Rightarrow> int" where
  "go_div a b = sgn a * sgn b * (\<bar>a\<bar> div \<bar>b\<bar>)"

lemma go_div_nonneg [simp]: "0 \<le> a \<Longrightarrow> 0 < b \<Longrightarrow> go_div a b = a div b"
  by (cases "a = 0") (simp_all add: go_div_def)

subsection \<open>Database timestamps\<close>

text \<open>A \<open>timestamptz\<close>: an instant in microseconds or the special value \<open>infinity\<close>, which is
  later than every instant.\<close>

datatype pgtime = At int | Infinity

instantiation pgtime :: linorder
begin

fun less_eq_pgtime :: "pgtime \<Rightarrow> pgtime \<Rightarrow> bool" where
  "less_eq_pgtime _ Infinity = True"
| "less_eq_pgtime Infinity (At _) = False"
| "less_eq_pgtime (At a) (At b) = (a \<le> b)"

definition less_pgtime :: "pgtime \<Rightarrow> pgtime \<Rightarrow> bool" where
  "less_pgtime a b = (a \<le> b \<and> \<not> b \<le> a)"

instance
proof
  fix x y z :: pgtime
  show "(x < y) = (x \<le> y \<and> \<not> y \<le> x)" by (simp add: less_pgtime_def)
  show "x \<le> x" by (cases x) simp_all
  show "x \<le> y \<Longrightarrow> y \<le> z \<Longrightarrow> x \<le> z" by (cases x; cases y; cases z) simp_all
  show "x \<le> y \<Longrightarrow> y \<le> x \<Longrightarrow> x = y" by (cases x; cases y) simp_all
  show "x \<le> y \<or> y \<le> x" by (cases x; cases y) auto
qed

end

lemma pgtime_less [simp]: "At a < At b \<longleftrightarrow> a < b" "At a < Infinity" "\<not> Infinity < t"
  by (auto simp: less_pgtime_def)

subsection \<open>SQL statements over a table\<close>

text \<open>
  \<open>UPDATE t SET f WHERE p\<close> and \<open>DELETE FROM t WHERE p\<close>: the new table and the number of
  rows affected (the command tag).
\<close>

definition sql_update :: "('r \<Rightarrow> bool) \<Rightarrow> ('r \<Rightarrow> 'r) \<Rightarrow> 'r list \<Rightarrow> 'r list \<times> nat" where
  "sql_update p f rows = (map (\<lambda>r. if p r then f r else r) rows, length (filter p rows))"

definition sql_delete :: "('r \<Rightarrow> bool) \<Rightarrow> 'r list \<Rightarrow> 'r list \<times> nat" where
  "sql_delete p rows = (filter (\<lambda>r. \<not> p r) rows, length (filter p rows))"

text \<open>
  What \<open>Exec\<close> reports: the statement ran, it failed without effect, or it took effect and
  the reply was lost.
\<close>

datatype exec_outcome = ExecOk | ExecFailed | ExecReplyLost

definition sql_exec :: "exec_outcome \<Rightarrow> ('t \<Rightarrow> 't \<times> nat) \<Rightarrow> 't \<Rightarrow> 't \<times> nat option" where
  "sql_exec out stmt t =
     (case out of
        ExecOk \<Rightarrow> (fst (stmt t), Some (snd (stmt t)))
      | ExecFailed \<Rightarrow> (t, None)
      | ExecReplyLost \<Rightarrow> (fst (stmt t), None))"

lemma sql_exec_table: "fst (sql_exec out stmt t) = t \<or> fst (sql_exec out stmt t) = fst (stmt t)"
  by (simp add: sql_exec_def split: exec_outcome.split)

lemma sql_update_none [simp]:
  "(\<forall>r \<in> set rows. \<not> p r) \<Longrightarrow> sql_update p f rows = (rows, 0)"
  by (auto simp: sql_update_def intro: map_idI)

lemma sql_delete_none [simp]:
  "(\<forall>r \<in> set rows. \<not> p r) \<Longrightarrow> sql_delete p rows = (rows, 0)"
  by (auto simp: sql_delete_def)

lemma sql_update_map:
  "(\<And>r. p r \<Longrightarrow> k (f r) = k r) \<Longrightarrow> map k (fst (sql_update p f rows)) = map k rows"
  by (simp add: sql_update_def)

lemma sql_delete_distinct:
  "distinct (map k rows) \<Longrightarrow> distinct (map k (fst (sql_delete p rows)))"
  by (simp add: sql_delete_def distinct_map_filter)

subsection \<open>Tables with a primary key\<close>

definition find_row :: "('r \<Rightarrow> 'k) \<Rightarrow> 'k \<Rightarrow> 'r list \<Rightarrow> 'r option" where
  "find_row k i rows = find (\<lambda>r. k r = i) rows"

lemma find_row_Nil [simp]: "find_row k i [] = None"
  by (simp add: find_row_def)

lemma find_row_Cons [simp]:
  "find_row k i (r # rows) = (if k r = i then Some r else find_row k i rows)"
  by (simp add: find_row_def)

lemma find_row_append [simp]:
  "find_row k i (xs @ ys) =
     (case find_row k i xs of None \<Rightarrow> find_row k i ys | Some r \<Rightarrow> Some r)"
  by (induction xs) auto

lemma find_row_None_iff: "find_row k i rows = None \<longleftrightarrow> i \<notin> k ` set rows"
  by (induction rows) auto

lemma find_row_SomeD: "find_row k i rows = Some r \<Longrightarrow> r \<in> set rows \<and> k r = i"
  by (induction rows) (auto split: if_splits)

lemma find_row_iff:
  "distinct (map k rows) \<Longrightarrow> find_row k i rows = Some r \<longleftrightarrow> r \<in> set rows \<and> k r = i"
proof (induction rows)
  case (Cons a rows)
  then show ?case by (auto simp: rev_image_eqI)
qed simp

lemma find_row_update:
  assumes "\<And>r. p r \<Longrightarrow> k (f r) = k r"
  shows "find_row k i (fst (sql_update p f rows)) =
           map_option (\<lambda>r. if p r then f r else r) (find_row k i rows)"
  using assms by (induction rows) (auto simp: sql_update_def)

lemma find_row_delete:
  assumes "distinct (map k rows)"
  shows "find_row k i (fst (sql_delete p rows)) =
           (case find_row k i rows of None \<Rightarrow> None | Some r \<Rightarrow> if p r then None else Some r)"
  using assms
proof (induction rows)
  case (Cons a rows)
  have "k a \<notin> k ` set rows" using Cons.prems by simp
  then have "k a = i \<Longrightarrow> find_row k i rows = None" by (auto simp: find_row_None_iff)
  with Cons show ?case by (auto simp: sql_delete_def)
qed (simp add: sql_delete_def)

text \<open>The rows a predicate pinned to one key selects: at most one.\<close>

lemma filter_key_count:
  assumes "distinct (map k rows)"
  shows "length (filter (\<lambda>r. k r = i \<and> q r) rows) =
           (case find_row k i rows of None \<Rightarrow> 0 | Some r \<Rightarrow> if q r then 1 else 0)"
  using assms
proof (induction rows)
  case (Cons a rows)
  have "k a \<notin> k ` set rows" using Cons.prems by simp
  then have none: "k a = i \<Longrightarrow> find_row k i rows = None" by (auto simp: find_row_None_iff)
  have IH: "length (filter (\<lambda>r. k r = i \<and> q r) rows) =
      (case find_row k i rows of None \<Rightarrow> 0 | Some r \<Rightarrow> if q r then 1 else 0)"
    using Cons by simp
  show ?case using none IH by (cases "k a = i") simp_all
qed simp

subsection \<open>Lists and options\<close>

declare option.map_ident [simp]

lemma map_remove1_distinct:
  "distinct (map f xs) \<Longrightarrow> x \<in> set xs \<Longrightarrow> map f (remove1 x xs) = remove1 (f x) (map f xs)"
proof (induction xs)
  case (Cons y ys)
  then show ?case by (cases "x = y") (auto simp: rev_image_eqI)
qed simp

lemma distinct_filter_eq: "distinct xs \<Longrightarrow> length (filter ((=) x) xs) \<le> 1"
proof (induction xs)
  case (Cons y ys)
  then show ?case by (cases "x = y") (auto simp: filter_empty_conv)
qed simp

lemma sort_key_sorted_map: "sorted (map f (sort_key f xs))"
  by simp

lemma take_sort_key_min:
  assumes "x \<in> set (take n (sort_key f xs))" and "y \<in> set xs"
    and "y \<notin> set (take n (sort_key f xs))"
  shows "f x \<le> f y"
proof -
  let ?s = "sort_key f xs"
  have "y \<in> set ?s" using assms(2) by simp
  then have y: "y \<in> set (drop n ?s)"
    using assms(3) by (metis append_take_drop_id set_append UnE)
  have "sorted (map f (take n ?s @ drop n ?s))" by simp
  then have "\<forall>a \<in> set (take n ?s). \<forall>b \<in> set (drop n ?s). f a \<le> f b"
    by (auto simp del: append_take_drop_id simp: sorted_append)
  with assms(1) y show ?thesis by blast
qed

end
