(* ===== verification/GoStrings.thy ===== *)
theory GoStrings
  imports Prelude
begin

text \<open>
  Go strings as byte lists and the functions of the standard packages \<open>strings\<close> and
  \<open>unicode/utf8\<close> that the program calls. A \<^typ>\<open>string\<close> is the list of the UTF-8 bytes of
  the Go string, so \<^const>\<open>length\<close> is Go's \<open>len\<close>.
\<close>

subsection \<open>Trimming white space\<close>

text \<open>
  The UTF-8 encodings of the runes for which \<open>unicode.IsSpace\<close> holds. A string starts
  (ends) with a white-space rune exactly when one of the encodings is a prefix (suffix).
\<close>

definition space_encodings :: "string list" where
  "space_encodings =
     [[CHR 0x20], [CHR 0x09], [CHR 0x0A], [CHR 0x0B], [CHR 0x0C], [CHR 0x0D],
      [CHR 0xC2, CHR 0x85], [CHR 0xC2, CHR 0xA0],
      [CHR 0xE1, CHR 0x9A, CHR 0x80],
      [CHR 0xE2, CHR 0x80, CHR 0x80], [CHR 0xE2, CHR 0x80, CHR 0x81],
      [CHR 0xE2, CHR 0x80, CHR 0x82], [CHR 0xE2, CHR 0x80, CHR 0x83],
      [CHR 0xE2, CHR 0x80, CHR 0x84], [CHR 0xE2, CHR 0x80, CHR 0x85],
      [CHR 0xE2, CHR 0x80, CHR 0x86], [CHR 0xE2, CHR 0x80, CHR 0x87],
      [CHR 0xE2, CHR 0x80, CHR 0x88], [CHR 0xE2, CHR 0x80, CHR 0x89],
      [CHR 0xE2, CHR 0x80, CHR 0x8A],
      [CHR 0xE2, CHR 0x80, CHR 0xA8], [CHR 0xE2, CHR 0x80, CHR 0xA9],
      [CHR 0xE2, CHR 0x80, CHR 0xAF], [CHR 0xE2, CHR 0x81, CHR 0x9F],
      [CHR 0xE3, CHR 0x80, CHR 0x80]]"

lemma space_encodings_nonempty: "[] \<notin> set space_encodings"
  by (simp add: space_encodings_def)

function strip_left :: "string list \<Rightarrow> string \<Rightarrow> string" where
  "strip_left encs s =
     (case find (\<lambda>e. e \<noteq> [] \<and> prefix e s) encs of
        None \<Rightarrow> s
      | Some e \<Rightarrow> strip_left encs (drop (length e) s))"
  by pat_completeness auto
termination
proof (relation "measure (\<lambda>(encs, s). length s)", goal_cases)
  case (2 encs s e)
  then have "e \<noteq> []" "prefix e s" by (auto simp: find_Some_iff)
  then show ?case by (cases s; cases e) auto
qed simp

declare strip_left.simps [simp del]

definition TrimSpace :: "string \<Rightarrow> string" where
  "TrimSpace s =
     rev (strip_left (map rev space_encodings) (rev (strip_left space_encodings s)))"

definition trimmed :: "string \<Rightarrow> bool" where
  "trimmed s \<longleftrightarrow> (\<forall>e \<in> set space_encodings. \<not> prefix e s \<and> \<not> suffix e s)"

lemma strip_left_suffix: "suffix (strip_left encs s) s"
proof (induction encs s rule: strip_left.induct)
  case (1 encs s)
  show ?case
  proof (cases "find (\<lambda>e. e \<noteq> [] \<and> prefix e s) encs")
    case None
    then show ?thesis by (simp add: strip_left.simps [of encs s])
  next
    case (Some e)
    then have "suffix (strip_left encs (drop (length e) s)) s"
      using "1.IH" suffix_drop suffix_order.trans by blast
    with Some show ?thesis by (simp add: strip_left.simps [of encs s])
  qed
qed

lemma strip_left_stripped:
  "e \<in> set encs \<Longrightarrow> e \<noteq> [] \<Longrightarrow> \<not> prefix e (strip_left encs s)"
proof (induction encs s rule: strip_left.induct)
  case (1 encs s)
  show ?case
  proof (cases "find (\<lambda>e. e \<noteq> [] \<and> prefix e s) encs")
    case None
    then have "strip_left encs s = s" by (simp add: strip_left.simps [of encs s])
    with None "1.prems" show ?thesis by (auto simp: find_None_iff)
  next
    case (Some e')
    with "1" show ?thesis by (simp add: strip_left.simps [of encs s])
  qed
qed

lemma strip_left_id:
  "(\<forall>e \<in> set encs. e = [] \<or> \<not> prefix e s) \<Longrightarrow> strip_left encs s = s"
  by (subst strip_left.simps) (auto simp: find_Some_iff split: option.split)

lemma TrimSpace_trimmed: "trimmed (TrimSpace s)"
proof -
  let ?l = "strip_left space_encodings s"
  let ?r = "strip_left (map rev space_encodings) (rev ?l)"
  have r: "\<not> suffix e (rev ?r)" if "e \<in> set space_encodings" for e
  proof -
    have "rev e \<in> set (map rev space_encodings)" "rev e \<noteq> []"
      using that space_encodings_nonempty by auto
    then have "\<not> prefix (rev e) ?r" by (rule strip_left_stripped)
    then show ?thesis by (simp add: suffix_to_prefix)
  qed
  have "suffix ?r (rev ?l)" by (rule strip_left_suffix)
  then have p: "prefix (rev ?r) ?l" by (simp add: suffix_to_prefix)
  have l: "\<not> prefix e (rev ?r)" if "e \<in> set space_encodings" for e
  proof -
    have "e \<noteq> []" using that space_encodings_nonempty by auto
    then have "\<not> prefix e ?l" using that by (intro strip_left_stripped)
    with p show ?thesis using prefix_order.trans by blast
  qed
  from l r show ?thesis by (simp add: trimmed_def TrimSpace_def)
qed

lemma TrimSpace_id: "trimmed s \<Longrightarrow> TrimSpace s = s"
proof -
  assume t: "trimmed s"
  then have l: "strip_left space_encodings s = s"
    by (intro strip_left_id) (auto simp: trimmed_def)
  have "strip_left (map rev space_encodings) (rev s) = rev s"
    using t by (intro strip_left_id) (auto simp: trimmed_def suffix_to_prefix)
  with l show ?thesis by (simp add: TrimSpace_def)
qed

lemma TrimSpace_idem [simp]: "TrimSpace (TrimSpace s) = TrimSpace s"
  by (rule TrimSpace_id [OF TrimSpace_trimmed])

lemma trimmed_Nil [simp]: "trimmed []"
  using space_encodings_nonempty by (auto simp: trimmed_def)

lemma TrimSpace_Nil [simp]: "TrimSpace [] = []"
  by (simp add: TrimSpace_id)

lemma TrimSpace_sublist: "sublist (TrimSpace s) s"
proof -
  have "suffix (strip_left (map rev space_encodings) (rev (strip_left space_encodings s)))
          (rev (strip_left space_encodings s))"
    by (rule strip_left_suffix)
  then have "prefix (TrimSpace s) (strip_left space_encodings s)"
    by (simp add: TrimSpace_def suffix_to_prefix)
  then show ?thesis
    using strip_left_suffix [of space_encodings s]
    by (meson prefix_imp_sublist suffix_imp_sublist sublist_order.order.trans)
qed

subsection \<open>Splitting and joining\<close>

text \<open>\<open>strings.Split\<close> and \<open>strings.Join\<close> with a one-byte separator.\<close>

fun split_on :: "char \<Rightarrow> string \<Rightarrow> string list" where
  "split_on c [] = [[]]"
| "split_on c (x # xs) =
     (if x = c then [] # split_on c xs
      else (case split_on c xs of [] \<Rightarrow> [[x]] | y # ys \<Rightarrow> (x # y) # ys))"

fun join_with :: "char \<Rightarrow> string list \<Rightarrow> string" where
  "join_with c [] = []"
| "join_with c [s] = s"
| "join_with c (s # t # ts) = s @ c # join_with c (t # ts)"

lemma split_on_nonempty [simp]: "split_on c s \<noteq> []"
  by (induction s) (auto split: list.split)

lemma join_split: "join_with c (split_on c s) = s"
proof (induction s)
  case (Cons x xs)
  obtain y ys where y: "split_on c xs = y # ys" by (cases "split_on c xs") auto
  with Cons.IH show ?case by (cases ys) auto
qed simp

lemma split_on_pieces: "p \<in> set (split_on c s) \<Longrightarrow> c \<notin> set p"
proof (induction s arbitrary: p)
  case (Cons x xs)
  then show ?case by (cases "split_on c xs") (auto split: if_splits)
qed simp

lemma split_join:
  "ps \<noteq> [] \<Longrightarrow> (\<forall>p \<in> set ps. c \<notin> set p) \<Longrightarrow> split_on c (join_with c ps) = ps"
proof (induction c ps rule: join_with.induct)
  case (2 c s)
  then show ?case
  proof (induction s)
    case (Cons a s)
    then show ?case by auto
  qed simp
next
  case (3 c s t ts)
  then have tl: "split_on c (join_with c (t # ts)) = t # ts" and s: "c \<notin> set s" by auto
  from s have "split_on c (s @ c # join_with c (t # ts)) = s # t # ts"
    by (induction s) (auto simp: tl)
  then show ?case by simp
qed simp

lemma length_split_on: "length (split_on c s) = Suc (count_list s c)"
proof (induction s)
  case (Cons x xs)
  then show ?case by (cases "split_on c xs") auto
qed simp

text \<open>\<open>strings.Cut\<close> at the first occurrence of a one-byte separator.\<close>

fun cut_at :: "char \<Rightarrow> string \<Rightarrow> (string \<times> string) option" where
  "cut_at c [] = None"
| "cut_at c (x # xs) =
     (if x = c then Some ([], xs)
      else (case cut_at c xs of None \<Rightarrow> None | Some (a, b) \<Rightarrow> Some (x # a, b)))"

lemma cut_at_Some: "cut_at c s = Some (a, b) \<Longrightarrow> s = a @ c # b \<and> c \<notin> set a"
  by (induction s arbitrary: a) (auto split: if_splits option.splits)

lemma cut_at_None: "cut_at c s = None \<longleftrightarrow> c \<notin> set s"
  by (induction s) (auto split: option.split)

lemma cut_at_append: "c \<notin> set a \<Longrightarrow> cut_at c (a @ c # b) = Some (a, b)"
  by (induction a) auto

text \<open>\<open>strings.LastIndexByte\<close>, as the split it is used for: what precedes and what follows
  the last occurrence.\<close>

definition cut_last :: "char \<Rightarrow> string \<Rightarrow> (string \<times> string) option" where
  "cut_last c s = (case cut_at c (rev s) of None \<Rightarrow> None | Some (a, b) \<Rightarrow> Some (rev b, rev a))"

definition contains_any :: "string \<Rightarrow> string \<Rightarrow> bool" where
  "contains_any s chars \<longleftrightarrow> (\<exists>c \<in> set s. c \<in> set chars)"

subsection \<open>Case folding against ASCII text\<close>

text \<open>
  Folding a string for a comparison with lower-case ASCII text. \<open>strings.ToLower\<close> maps
  the capital ASCII letters, the dotted capital I (U+0130) and the Kelvin sign (U+212A) to
  ASCII letters and every other rune beyond ASCII to a rune beyond ASCII;
  \<open>strings.EqualFold\<close> equates an ASCII letter with its other case, \<open>k\<close> with the Kelvin
  sign and \<open>s\<close> with the long s (U+017F). So \<open>ToLower(s) = t\<close> and \<open>EqualFold(s, t)\<close>, for an
  ASCII \<open>t\<close> in lower case, are the equations below.
\<close>

definition lower_char :: "char \<Rightarrow> char" where
  "lower_char c =
     (let b = of_char c :: nat in if 65 \<le> b \<and> b \<le> 90 then char_of (b + 32) else c)"

function fold_runes :: "(string \<times> char) list \<Rightarrow> string \<Rightarrow> string" where
  "fold_runes special [] = []"
| "fold_runes special (c # s) =
     (case find (\<lambda>(e, d). prefix e (c # s)) special of
        Some (e, d) \<Rightarrow> d # fold_runes special (drop (length e - 1) s)
      | None \<Rightarrow> lower_char c # fold_runes special s)"
  by pat_completeness auto
termination
  by (relation "measure (\<lambda>(special, s). length s)") auto

definition ToLower :: "string \<Rightarrow> string" where
  "ToLower =
     fold_runes [([CHR 0xC4, CHR 0xB0], CHR ''i''), ([CHR 0xE2, CHR 0x84, CHR 0xAA], CHR ''k'')]"

definition fold_case :: "string \<Rightarrow> string" where
  "fold_case =
     fold_runes [([CHR 0xC5, CHR 0xBF], CHR ''s''), ([CHR 0xE2, CHR 0x84, CHR 0xAA], CHR ''k'')]"

definition EqualFold :: "string \<Rightarrow> string \<Rightarrow> bool" where
  "EqualFold s t \<longleftrightarrow> fold_case s = t"

subsection \<open>UTF-8 validity and truncation\<close>

definition byte_in :: "nat \<Rightarrow> nat \<Rightarrow> char \<Rightarrow> bool" where
  "byte_in lo hi c \<longleftrightarrow> lo \<le> of_char c \<and> of_char c \<le> hi"

text \<open>The first byte of a rune fixes its length and the range of its second byte.\<close>

definition rune_head :: "char \<Rightarrow> (nat \<times> nat \<times> nat) option" where
  "rune_head c =
     (if byte_in 0x00 0x7F c then Some (1, 0, 0)
      else if byte_in 0xC2 0xDF c then Some (2, 0x80, 0xBF)
      else if byte_in 0xE0 0xE0 c then Some (3, 0xA0, 0xBF)
      else if byte_in 0xE1 0xEC c then Some (3, 0x80, 0xBF)
      else if byte_in 0xED 0xED c then Some (3, 0x80, 0x9F)
      else if byte_in 0xEE 0xEF c then Some (3, 0x80, 0xBF)
      else if byte_in 0xF0 0xF0 c then Some (4, 0x90, 0xBF)
      else if byte_in 0xF1 0xF3 c then Some (4, 0x80, 0xBF)
      else if byte_in 0xF4 0xF4 c then Some (4, 0x80, 0x8F)
      else None)"

text \<open>The length of the valid rune a string starts with.\<close>

definition rune_len :: "string \<Rightarrow> nat option" where
  "rune_len s =
     (case s of [] \<Rightarrow> None
      | c # rest \<Rightarrow>
         (case rune_head c of None \<Rightarrow> None
          | Some (n, lo, hi) \<Rightarrow>
             if n = 1 then Some 1
             else if length rest < n - 1 then None
             else if byte_in lo hi (rest ! 0) \<and>
                     (\<forall>i \<in> set [1..<n - 1]. byte_in 0x80 0xBF (rest ! i))
             then Some n else None))"

lemma rune_head_len: "rune_head c = Some (n, lo, hi) \<Longrightarrow> 1 \<le> n \<and> n \<le> 4"
  by (auto simp: rune_head_def split: if_splits)

lemma rune_len_bounds: "rune_len s = Some n \<Longrightarrow> 1 \<le> n \<and> n \<le> 4 \<and> n \<le> length s"
  by (auto simp: rune_len_def split: list.splits option.splits if_splits dest: rune_head_len)

function ValidString :: "string \<Rightarrow> bool" where
  "ValidString s =
     (if s = [] then True
      else (case rune_len s of None \<Rightarrow> False | Some n \<Rightarrow> ValidString (drop n s)))"
  by pat_completeness auto
termination
  by (relation "measure length") (auto dest: rune_len_bounds)

declare ValidString.simps [simp del]

lemma ValidString_Nil [simp]: "ValidString []"
  by (simp add: ValidString.simps)

lemma rune_len_take:
  assumes "rune_len s = Some n" and "n \<le> m"
  shows "rune_len (take m s) = Some n"
proof -
  obtain c rest where s: "s = c # rest" using assms(1) by (cases s) (auto simp: rune_len_def)
  obtain lo hi where h: "rune_head c = Some (n, lo, hi)"
    using assms(1) by (auto simp: rune_len_def s split: option.splits if_splits)
  have "1 \<le> n" using rune_len_bounds [OF assms(1)] by simp
  then obtain k where m: "m = Suc k" using assms(2) by (cases m) auto
  show ?thesis
    using assms h \<open>1 \<le> n\<close>
    by (auto simp: rune_len_def s m nth_take split: if_splits)
qed

text \<open>Cutting a valid string short loses at most a partial rune of three bytes.\<close>

lemma valid_prefix_near:
  assumes "ValidString s" and "n \<le> length s"
  shows "\<exists>m \<le> n. n \<le> m + 3 \<and> ValidString (take m s)"
  using assms
proof (induction s arbitrary: n rule: ValidString.induct)
  case (1 s)
  show ?case
  proof (cases "s = []")
    case True
    with "1.prems" show ?thesis by auto
  next
    case False
    then obtain k where k: "rune_len s = Some k" and v: "ValidString (drop k s)"
      using "1.prems"(1) by (auto simp: ValidString.simps [of s] split: option.splits)
    have kb: "1 \<le> k" "k \<le> 4" "k \<le> length s" using rune_len_bounds [OF k] by auto
    show ?thesis
    proof (cases "n < k")
      case True
      with kb have "n \<le> 0 + 3" by simp
      then show ?thesis by (intro exI [of _ 0]) simp
    next
      case False
      have "n - k \<le> length (drop k s)" using "1.prems"(2) by simp
      from "1.IH" [OF \<open>s \<noteq> []\<close> k v this]
      obtain m where m: "m \<le> n - k" "n - k \<le> m + 3" "ValidString (take m (drop k s))" by auto
      have "rune_len (take (k + m) s) = Some k" by (rule rune_len_take [OF k]) simp
      moreover have "drop k (take (k + m) s) = take m (drop k s)" by (simp add: drop_take)
      moreover have "take (k + m) s \<noteq> []" using \<open>s \<noteq> []\<close> kb by simp
      ultimately have "ValidString (take (k + m) s)"
        using m(3) by (simp add: ValidString.simps [of "take (k + m) s"])
      with m False kb show ?thesis by (intro exI [of _ "k + m"]) auto
    qed
  qed
qed

text \<open>The loop \<open>for !utf8.ValidString(value) { value = value[:len(value)-1] }\<close>.\<close>

function drop_invalid_tail :: "string \<Rightarrow> string" where
  "drop_invalid_tail value = (if ValidString value then value else drop_invalid_tail (butlast value))"
  by pat_completeness auto
termination
proof (relation "measure length", goal_cases)
  case (2 v)
  then have "v \<noteq> []" by auto
  then show ?case by simp
qed simp

declare drop_invalid_tail.simps [simp del]

lemma drop_invalid_tail_valid: "ValidString (drop_invalid_tail v)"
proof (induction v rule: drop_invalid_tail.induct)
  case (1 v)
  then show ?case by (cases "ValidString v") (simp_all add: drop_invalid_tail.simps [of v])
qed

lemma drop_invalid_tail_prefix: "prefix (drop_invalid_tail v) v"
proof (induction v rule: drop_invalid_tail.induct)
  case (1 v)
  show ?case
  proof (cases "ValidString v")
    case False
    then have "prefix (drop_invalid_tail (butlast v)) v"
      using "1" prefixeq_butlast prefix_order.trans by blast
    with False show ?thesis by (simp add: drop_invalid_tail.simps [of v])
  qed (simp add: drop_invalid_tail.simps [of v])
qed

lemma drop_invalid_tail_longest:
  "prefix p v \<Longrightarrow> ValidString p \<Longrightarrow> prefix p (drop_invalid_tail v)"
proof (induction v arbitrary: p rule: drop_invalid_tail.induct)
  case (1 v)
  show ?case
  proof (cases "ValidString v")
    case True
    with "1.prems" show ?thesis by (simp add: drop_invalid_tail.simps [of v])
  next
    case False
    then have "p \<noteq> v" using "1.prems" by auto
    then have "prefix p (butlast v)"
      using "1.prems"(1) by (metis append_butlast_last_id butlast.simps(1) prefix_bot.extremum_uniqueI
          prefix_snoc)
    then have "prefix p (drop_invalid_tail (butlast v))" using "1.IH" False "1.prems" by blast
    with False show ?thesis by (simp add: drop_invalid_tail.simps [of v])
  qed
qed

subsection \<open>Decimal numbers\<close>

text \<open>\<open>%d\<close> on an integer.\<close>

fun nat_dec :: "nat \<Rightarrow> string" where
  "nat_dec n = (if n < 10 then [char_of (48 + n)] else nat_dec (n div 10) @ [char_of (48 + n mod 10)])"

declare nat_dec.simps [simp del]

definition int_dec :: "int \<Rightarrow> string" where
  "int_dec i = (if i < 0 then CHR ''-'' # nat_dec (nat (- i)) else nat_dec (nat i))"

text \<open>The value of a string of decimal digits.\<close>

definition is_digit :: "char \<Rightarrow> bool" where
  "is_digit c \<longleftrightarrow> 48 \<le> (of_char c :: nat) \<and> (of_char c :: nat) \<le> 57"

definition digit_val :: "char \<Rightarrow> nat" where
  "digit_val c = of_char c - 48"

definition dec_val :: "string \<Rightarrow> nat" where
  "dec_val s = foldl (\<lambda>n c. n * 10 + digit_val c) 0 s"

lemma dec_val_snoc: "dec_val (s @ [c]) = dec_val s * 10 + digit_val c"
  by (simp add: dec_val_def)

lemma digit_char: "n < 10 \<Longrightarrow> digit_val (char_of (48 + n)) = n \<and> is_digit (char_of (48 + n))"
  by (simp add: digit_val_def is_digit_def)

lemma nat_dec_val: "dec_val (nat_dec n) = n \<and> (\<forall>c \<in> set (nat_dec n). is_digit c) \<and> nat_dec n \<noteq> []"
proof (induction n rule: nat_dec.induct)
  case (1 n)
  show ?case
  proof (cases "n < 10")
    case True
    then show ?thesis using digit_char [of n] by (simp add: nat_dec.simps [of n] dec_val_def)
  next
    case False
    then show ?thesis
      using 1 digit_char [of "n mod 10"] by (auto simp: nat_dec.simps [of n] dec_val_snoc)
  qed
qed

lemma nat_dec_inj: "nat_dec m = nat_dec n \<longleftrightarrow> m = n"
  using nat_dec_val by metis

end
