(* ===== verification/Lease.thy ===== *)
theory Lease
  imports Prelude
begin

text \<open>
  The delivery contract the jobs worker and the outbox relay share, as an abstract
  machine: a row is due at some time, a claim takes it for a lease under a fresh token,
  and only the holder of the current token may renew the lease or record an outcome.
  The locale \<open>lease_refinement\<close> states what a concrete queue has to show to inherit the
  contract; the two queues interpret it.
\<close>

subsection \<open>Abstract state\<close>

record arow =
  ar_ready :: int            \<comment> \<open>first instant at which the row may be claimed\<close>
  ar_token :: "string option"
  ar_attempt :: int
  ar_max :: int
  ar_dead :: bool            \<comment> \<open>permanently failed\<close>

record asys =
  as_rows :: "string \<rightharpoonup> arow"
  as_now :: int
  as_flight :: "(string \<times> string) list"  \<comment> \<open>claims whose outcome is not recorded yet\<close>
  as_log :: "(string \<times> string) set"      \<comment> \<open>every claim ever issued\<close>

datatype alabel =
    ATick
  | AAdd string
  | AClaim string "string list"
  | ARenew string string
  | AComplete string string
  | AFail string string
  | ARetry string string
  | AForget string string
  | ASilent
  | ARequeue string
  | ADiscard string

definition claim_token :: "string \<Rightarrow> string \<Rightarrow> string" where
  "claim_token p i = p @ '':'' @ i"

lemma claim_token_inj: "claim_token p i = claim_token q i \<Longrightarrow> p = q"
  by (simp add: claim_token_def)

definition claimable :: "int \<Rightarrow> arow \<Rightarrow> bool" where
  "claimable now r \<longleftrightarrow> \<not> ar_dead r \<and> ar_ready r \<le> now"

definition a_init :: "asys \<Rightarrow> bool" where
  "a_init s \<longleftrightarrow> as_rows s = Map.empty \<and> as_flight s = [] \<and> as_log s = {}"

definition a_take :: "int \<Rightarrow> string \<Rightarrow> string list \<Rightarrow> (string \<rightharpoonup> arow) \<Rightarrow> (string \<rightharpoonup> arow)" where
  "a_take ready p ids rows =
     (\<lambda>i. if i \<in> set ids
          then map_option (\<lambda>r. r\<lparr>ar_ready := ready, ar_token := Some (claim_token p i)\<rparr>) (rows i)
          else rows i)"

definition owns :: "asys \<Rightarrow> string \<Rightarrow> string \<Rightarrow> bool" where
  "owns s i t \<longleftrightarrow> (\<exists>r. as_rows s i = Some r \<and> ar_token r = Some t)"

subsection \<open>Abstract steps\<close>

text \<open>
  The flag says whether a renewal may reach a row that is already dead: it may when the
  queue does not wait for a renewal it has sent before it records the outcome.
\<close>

inductive astep :: "bool \<Rightarrow> asys \<Rightarrow> alabel \<Rightarrow> asys \<Rightarrow> bool" for revive where
  tick: "0 \<le> d \<Longrightarrow> astep revive s ATick (s\<lparr>as_now := as_now s + d\<rparr>)"
| add: "as_rows s i = None \<Longrightarrow> ar_token r = None \<Longrightarrow> \<not> ar_dead r \<Longrightarrow>
    ar_attempt r = 0 \<Longrightarrow> 1 \<le> ar_max r \<Longrightarrow>
    astep revive s (AAdd i) (s\<lparr>as_rows := (as_rows s)(i \<mapsto> r)\<rparr>)"
| claim: "distinct ids \<Longrightarrow>
    \<forall>i \<in> set ids. \<exists>r. as_rows s i = Some r \<and> claimable (as_now s) r \<Longrightarrow>
    \<forall>i \<in> set ids. (i, claim_token p i) \<notin> as_log s \<Longrightarrow>
    astep revive s (AClaim p ids)
      (s\<lparr>as_rows := a_take (as_now s + lease) p ids (as_rows s),
         as_flight := as_flight s @ map (\<lambda>i. (i, claim_token p i)) ids,
         as_log := as_log s \<union> (\<lambda>i. (i, claim_token p i)) ` set ids\<rparr>)"
| renew: "(i, t) \<in> as_log s \<Longrightarrow> as_rows s i = Some r \<Longrightarrow> ar_token r = Some t \<Longrightarrow>
    as_now s < ar_ready r \<or> ar_dead r \<Longrightarrow> (ar_dead r \<Longrightarrow> revive) \<Longrightarrow>
    astep revive s (ARenew i t)
      (s\<lparr>as_rows := (as_rows s)(i \<mapsto> r\<lparr>ar_ready := as_now s + lease, ar_dead := False\<rparr>)\<rparr>)"
| complete: "(i, t) \<in> set (as_flight s) \<Longrightarrow> owns s i t \<Longrightarrow>
    astep revive s (AComplete i t)
      (s\<lparr>as_rows := (as_rows s)(i := None), as_flight := remove1 (i, t) (as_flight s)\<rparr>)"
| fail: "(i, t) \<in> set (as_flight s) \<Longrightarrow> as_rows s i = Some r \<Longrightarrow> ar_token r = Some t \<Longrightarrow>
    ar_attempt r + 1 \<ge> ar_max r \<Longrightarrow>
    astep revive s (AFail i t)
      (s\<lparr>as_rows := (as_rows s)(i \<mapsto> r\<lparr>ar_attempt := ar_attempt r + 1, ar_ready := ready,
            ar_dead := True\<rparr>),
         as_flight := remove1 (i, t) (as_flight s)\<rparr>)"
| retry: "(i, t) \<in> set (as_flight s) \<Longrightarrow> as_rows s i = Some r \<Longrightarrow> ar_token r = Some t \<Longrightarrow>
    ar_attempt r + 1 < ar_max r \<Longrightarrow>
    astep revive s (ARetry i t)
      (s\<lparr>as_rows := (as_rows s)(i \<mapsto> r\<lparr>ar_attempt := ar_attempt r + 1,
            ar_ready := ready, ar_token := None\<rparr>),
         as_flight := remove1 (i, t) (as_flight s)\<rparr>)"
| forget: "(i, t) \<in> set (as_flight s) \<Longrightarrow>
    astep revive s (AForget i t) (s\<lparr>as_flight := remove1 (i, t) (as_flight s)\<rparr>)"
| requeue: "as_rows s i = Some r \<Longrightarrow> ar_dead r \<Longrightarrow>
    astep revive s (ARequeue i)
      (s\<lparr>as_rows := (as_rows s)(i \<mapsto> r\<lparr>ar_ready := ready, ar_token := None,
            ar_attempt := 0, ar_dead := False\<rparr>)\<rparr>)"
| discard: "as_rows s i = Some r \<Longrightarrow> ar_dead r \<Longrightarrow>
    astep revive s (ADiscard i) (s\<lparr>as_rows := (as_rows s)(i := None)\<rparr>)"

inductive_cases astep_claimE: "astep revive s (AClaim p ids) s'"
inductive_cases astep_renewE: "astep revive s (ARenew i t) s'"

lemma astep_to: "astep rv s l t \<Longrightarrow> t' = t \<Longrightarrow> astep rv s l t'"
  by simp

lemma asys_eqI:
  assumes "\<And>i. as_rows a i = as_rows b i" and "as_now a = as_now b"
    and "as_flight a = as_flight b" and "as_log a = as_log b"
  shows "a = (b :: asys)"
  using assms by (cases a; cases b) (auto simp: fun_eq_iff)

inductive a_reach :: "bool \<Rightarrow> asys \<Rightarrow> bool" for revive where
  init: "a_init s \<Longrightarrow> a_reach revive s"
| step: "a_reach revive s \<Longrightarrow> astep revive s l s' \<Longrightarrow> a_reach revive s'"

subsection \<open>Token discipline\<close>

definition token_inv :: "asys \<Rightarrow> bool" where
  "token_inv s \<longleftrightarrow>
     distinct (as_flight s) \<and> set (as_flight s) \<subseteq> as_log s \<and>
     (\<forall>i r t. as_rows s i = Some r \<longrightarrow> ar_token r = Some t \<longrightarrow>
        (i, t) \<in> as_log s \<and> (ar_dead r \<longrightarrow> (i, t) \<notin> set (as_flight s)))"

lemma token_invD:
  assumes "token_inv s"
  shows "distinct (as_flight s)" and "set (as_flight s) \<subseteq> as_log s"
    and "as_rows s i = Some r \<Longrightarrow> ar_token r = Some t \<Longrightarrow> (i, t) \<in> as_log s"
    and "as_rows s i = Some r \<Longrightarrow> ar_token r = Some t \<Longrightarrow> ar_dead r \<Longrightarrow>
           (i, t) \<notin> set (as_flight s)"
  using assms by (auto simp: token_inv_def)

lemma flight_take_distinct:
  assumes "distinct ids" and "distinct fl" and "set fl \<subseteq> log"
    and "\<forall>i \<in> set ids. (i, claim_token p i) \<notin> log"
  shows "distinct (fl @ map (\<lambda>i. (i, claim_token p i)) ids)"
  using assms by (auto simp: distinct_map inj_on_def)

lemma token_inv_step: "astep revive s l s' \<Longrightarrow> token_inv s \<Longrightarrow> token_inv s'"
proof (induction rule: astep.induct)
  case (claim ids s p lease)
  note inv = token_invD [OF claim.prems]
  have "distinct (as_flight s @ map (\<lambda>i. (i, claim_token p i)) ids)"
    by (rule flight_take_distinct [OF claim.hyps(1) inv(1,2) claim.hyps(3)])
  moreover have "set (as_flight s @ map (\<lambda>i. (i, claim_token p i)) ids)
      \<subseteq> as_log s \<union> (\<lambda>i. (i, claim_token p i)) ` set ids"
    using inv(2) by auto
  moreover have "\<not> ar_dead r" if "i \<in> set ids" "as_rows s i = Some r" for i r
    using claim.hyps(2) that by (auto simp: claimable_def)
  ultimately show ?case
    using inv(3,4) by (auto simp: token_inv_def a_take_def split: if_splits)
next
  case (complete i t s)
  then show ?case
    by (auto simp: token_inv_def distinct_remove1 dest: notin_set_remove1 split: if_splits)
next
  case (fail i t s r ready)
  then show ?case
    by (auto simp: token_inv_def distinct_remove1 dest: notin_set_remove1 split: if_splits)
next
  case (retry i t s r ready)
  then show ?case
    by (auto simp: token_inv_def distinct_remove1 dest: notin_set_remove1 split: if_splits)
next
  case (forget i t s)
  then show ?case by (auto simp: token_inv_def distinct_remove1 dest: notin_set_remove1)
qed (auto simp: token_inv_def split: if_splits)

lemma a_reach_token_inv: "a_reach revive s \<Longrightarrow> token_inv s"
proof (induction rule: a_reach.induct)
  case (init s)
  then show ?case by (simp add: a_init_def token_inv_def)
next
  case (step s l s')
  then show ?case by (blast intro: token_inv_step)
qed

text \<open>At most one claim in flight holds a row: its current token belongs to one claim only.\<close>

lemma a_exclusive:
  assumes "a_reach revive s"
  shows "length (filter (\<lambda>c. fst c = i \<and> owns s i (snd c)) (as_flight s)) \<le> 1"
proof (cases "\<exists>t. owns s i t")
  case True
  then obtain t where t: "owns s i t" by blast
  then have "owns s i u \<longleftrightarrow> u = t" for u by (auto simp: owns_def)
  then have sel: "(\<lambda>c. fst c = i \<and> owns s i (snd c)) = (=) (i, t)" by (auto simp: fun_eq_iff)
  have d: "distinct (as_flight s)" using a_reach_token_inv [OF assms] by (rule token_invD)
  have "filter (\<lambda>c. fst c = i \<and> owns s i (snd c)) (as_flight s) =
        filter ((=) (i, t)) (as_flight s)"
    by (simp only: sel)
  also have "length \<dots> \<le> 1" using d by (rule distinct_filter_eq)
  finally show ?thesis .
next
  case False
  then show ?thesis by (simp add: filter_False)
qed

subsection \<open>What a step may do to one row\<close>

text \<open>A live lease is left only by its holder: no other claim takes the row before the
  lease ends.\<close>

lemma a_lease_protected:
  assumes "astep revive s l s'" and "as_rows s i = Some r" and "ar_token r = Some t"
    and "as_now s < ar_ready r" and "\<not> ar_dead r"
    and "l \<notin> {AComplete i t, AFail i t, ARetry i t}"
  shows "\<exists>r'. as_rows s' i = Some r' \<and> ar_token r' = Some t \<and> \<not> ar_dead r' \<and>
           ar_attempt r' = ar_attempt r"
  using assms by (induction rule: astep.induct) (auto simp: a_take_def claimable_def owns_def)

text \<open>A row leaves the queue only by a recorded success of its holder or by an explicit
  discard of a dead row.\<close>

lemma a_no_loss:
  assumes "astep revive s l s'" and "as_rows s i = Some r" and "as_rows s' i = None"
  shows "(\<exists>t. l = AComplete i t \<and> ar_token r = Some t) \<or> (l = ADiscard i \<and> ar_dead r)"
  using assms by (induction rule: astep.induct) (auto simp: a_take_def owns_def split: if_splits)

text \<open>Where renewals are waited for, a dead row changes only by an explicit requeue or
  discard.\<close>

lemma a_dead_stable:
  assumes "astep False s l s'" and "token_inv s" and "as_rows s i = Some r" and "ar_dead r"
    and "l \<noteq> ARequeue i" and "l \<noteq> ADiscard i"
  shows "as_rows s' i = Some r"
  using assms
  by (induction rule: astep.induct) (auto simp: a_take_def claimable_def owns_def dest: token_invD(4))

definition attempt_inv :: "asys \<Rightarrow> bool" where
  "attempt_inv s \<longleftrightarrow> (\<forall>i r. as_rows s i = Some r \<longrightarrow> 0 \<le> ar_attempt r \<and> 1 \<le> ar_max r)"

lemma a_reach_attempt_inv: "a_reach revive s \<Longrightarrow> attempt_inv s"
proof (induction rule: a_reach.induct)
  case (init s)
  then show ?case by (simp add: a_init_def attempt_inv_def)
next
  case (step s l s')
  from step.hyps(2) step.IH show ?case
    by (induction rule: astep.induct)
       (auto simp: attempt_inv_def a_take_def split: if_splits)
qed

subsection \<open>Refinement\<close>

text \<open>
  A concrete queue refines the machine when every step of it from a reachable state is,
  through its abstraction, the abstract step with the same label or no change.
\<close>

locale lease_refinement =
  fixes init :: "'s \<Rightarrow> bool"
    and step :: "'s \<Rightarrow> alabel \<Rightarrow> 's \<Rightarrow> bool"
    and abs :: "'s \<Rightarrow> asys"
    and revive :: bool
    and reach :: "'s \<Rightarrow> bool"
  assumes reach_induct: "reach s \<Longrightarrow> (\<And>s. init s \<Longrightarrow> P s) \<Longrightarrow>
          (\<And>s l s'. reach s \<Longrightarrow> P s \<Longrightarrow> step s l s' \<Longrightarrow> P s') \<Longrightarrow> P s"
    and init_abs: "init s \<Longrightarrow> a_init (abs s)"
    and simulates: "reach s \<Longrightarrow> step s l s' \<Longrightarrow>
          abs s' = abs s \<or> (\<exists>k. astep revive (abs s) k (abs s') \<and> (k = l \<or> (\<exists>i t. k = AForget i t)))"
begin

lemma abs_reachable: "reach s \<Longrightarrow> a_reach revive (abs s)"
proof (rule reach_induct [where P = "\<lambda>s. a_reach revive (abs s)"])
  fix s l s'
  assume "reach s" "a_reach revive (abs s)" "step s l s'"
  with simulates [of s l s'] show "a_reach revive (abs s')"
    by (auto intro: a_reach.step)
qed (auto intro: a_reach.init init_abs)

lemma exclusive:
  "reach s \<Longrightarrow> length (filter (\<lambda>c. fst c = i \<and> owns (abs s) i (snd c)) (as_flight (abs s))) \<le> 1"
  by (rule a_exclusive [OF abs_reachable])

lemma no_loss:
  assumes "reach s" and "step s l s'" and "as_rows (abs s) i = Some r"
    and "as_rows (abs s') i = None"
  shows "(\<exists>t. l = AComplete i t \<and> ar_token r = Some t) \<or> (l = ADiscard i \<and> ar_dead r)"
  using simulates [OF assms(1,2)] assms(3,4) by (auto dest: a_no_loss)

lemma lease_protected:
  assumes "reach s" and "step s l s'" and "as_rows (abs s) i = Some r" and "ar_token r = Some t"
    and "as_now (abs s) < ar_ready r" and "\<not> ar_dead r"
    and "l \<notin> {AComplete i t, AFail i t, ARetry i t}"
  shows "\<exists>r'. as_rows (abs s') i = Some r' \<and> ar_token r' = Some t \<and> \<not> ar_dead r' \<and>
           ar_attempt r' = ar_attempt r"
proof -
  have keep: "astep revive (abs s) k (abs s') \<Longrightarrow> k \<notin> {AComplete i t, AFail i t, ARetry i t} \<Longrightarrow> ?thesis" for k
    by (rule a_lease_protected [OF _ assms(3-6)])
  show ?thesis using simulates [OF assms(1,2)] assms(3-7) keep by auto
qed

end

end
