(* ===== verification/Jobs.thy ===== *)
theory Jobs
  imports GoStrings Lease
begin

text \<open>
  The persistent jobs queue (package \<open>jobs\<close>): the table \<open>devengine_jobs\<close> and the
  insertion of a job (\<open>jobs.go\<close>), the handler registry (\<open>jobs.go\<close>) and the
  administrative repository over permanently failed jobs (\<open>repository.go\<close>). The worker
  is in \<open>JobsWorker\<close>.
\<close>

subsection \<open>Table and insertion\<close>

record job_row =
  jr_id :: string
  jr_name :: string
  jr_payload :: string
  jr_run_at :: int
  jr_attempt :: int
  jr_max_attempts :: int
  jr_last_error :: "string option"
  jr_locked_until :: "pgtime option"
  jr_claim_token :: "string option"
  jr_created_at :: int

text \<open>A \<open>Job\<close> as the caller gives it; a zero \<open>RunAt\<close> is \<open>None\<close>.\<close>

record 'p Job =
  Job_ID :: string
  Job_Name :: string
  Job_Payload :: 'p
  Job_RunAt :: "int option"
  Job_MaxAttempts :: int

definition jobs_pk :: "job_row list \<Rightarrow> bool" where
  "jobs_pk rows \<longleftrightarrow> distinct (map jr_id rows)"

text \<open>The \<open>INSERT\<close>: the columns it does not list take their defaults, and the primary key
  rejects an identifier already present.\<close>

definition jobs_insert ::
  "int \<Rightarrow> string \<Rightarrow> string \<Rightarrow> string \<Rightarrow> int \<Rightarrow> int \<Rightarrow> job_row list \<Rightarrow> (job_row list) option" where
  "jobs_insert db_now i nm payload run_at max_attempts rows =
     (if i \<in> jr_id ` set rows then None
      else Some (rows @ [\<lparr>jr_id = i, jr_name = nm, jr_payload = payload, jr_run_at = run_at,
                          jr_attempt = 0, jr_max_attempts = max_attempts, jr_last_error = None,
                          jr_locked_until = None, jr_claim_token = None,
                          jr_created_at = db_now\<rparr>]))"

text \<open>
  \<open>Enqueue\<close>: \<open>marshal\<close> is \<open>json.Marshal\<close> on the payload, \<open>uuid\<close> what \<open>id.MustUUIDv7\<close> returns,
  \<open>now\<close> the process clock and \<open>db_now\<close> the clock of the transaction. The outcome is the
  one of \<open>tx.Exec\<close>; whatever it is, a duplicate identifier is an error without effect.
\<close>

definition jobs_Enqueue ::
  "('p \<Rightarrow> goerr + string) \<Rightarrow> string \<Rightarrow> int \<Rightarrow> int \<Rightarrow> exec_outcome \<Rightarrow> 'p Job \<Rightarrow> job_row list
     \<Rightarrow> job_row list \<times> goerr option" where
  "jobs_Enqueue marshal uuid now db_now out job rows =
     (let ID = (if Job_ID job = [] then uuid else Job_ID job) in
      if Job_Name job = [] then (rows, Some (ErrMsg ''jobs: job name is required'' []))
      else
        let RunAt = (case Job_RunAt job of None \<Rightarrow> now | Some t \<Rightarrow> t);
            MaxAttempts = (if Job_MaxAttempts job \<le> 0 then 5 else Job_MaxAttempts job) in
        (case marshal (Job_Payload job) of
           Inl e \<Rightarrow> (rows, Some (ErrWrap ''jobs: marshal payload: %w'' [] e))
         | Inr payload \<Rightarrow>
            (case jobs_insert db_now ID (Job_Name job) payload RunAt MaxAttempts rows of
               None \<Rightarrow> (rows, Some (ErrWrap ''jobs: enqueue: %w'' [] (ErrPg ''23505'')))
             | Some rows' \<Rightarrow>
                (case out of
                   ExecOk \<Rightarrow> (rows', None)
                 | ExecFailed \<Rightarrow> (rows, Some (ErrWrap ''jobs: enqueue: %w'' [] (ErrApp ''exec'')))
                 | ExecReplyLost \<Rightarrow>
                    (rows', Some (ErrWrap ''jobs: enqueue: %w'' [] (ErrApp ''exec'')))))))"

lemma jobs_insert_pk: "jobs_insert n i nm p t m rows = Some rows' \<Longrightarrow> jobs_pk rows \<Longrightarrow> jobs_pk rows'"
  by (auto simp: jobs_insert_def jobs_pk_def split: if_splits)

lemma jobs_Enqueue_cases:
  obtains (same) "fst (jobs_Enqueue m u now db out job rows) = rows"
  | (added) i p rows' where "fst (jobs_Enqueue m u now db out job rows) = rows'"
      "jobs_insert db i (Job_Name job) p
         (case Job_RunAt job of None \<Rightarrow> now | Some t \<Rightarrow> t)
         (if Job_MaxAttempts job \<le> 0 then 5 else Job_MaxAttempts job) rows = Some rows'"
      "Job_Name job \<noteq> []" "m (Job_Payload job) = Inr p"
      "i = (if Job_ID job = [] then u else Job_ID job)"
proof (cases "Job_Name job = []")
  case True
  then show ?thesis by (intro same) (simp add: jobs_Enqueue_def Let_def)
next
  case named: False
  show ?thesis
  proof (cases "m (Job_Payload job)")
    case (Inl e)
    with named show ?thesis by (intro same) (simp add: jobs_Enqueue_def Let_def)
  next
    case (Inr p)
    let ?i = "if Job_ID job = [] then u else Job_ID job"
    let ?ins = "jobs_insert db ?i (Job_Name job) p (case Job_RunAt job of None \<Rightarrow> now | Some t \<Rightarrow> t)
      (if Job_MaxAttempts job \<le> 0 then 5 else Job_MaxAttempts job) rows"
    show ?thesis
    proof (cases ?ins)
      case None
      with named Inr show ?thesis by (intro same) (simp add: jobs_Enqueue_def Let_def)
    next
      case (Some rows')
      with named Inr show ?thesis
        by (cases out) (auto simp: jobs_Enqueue_def Let_def intro: same added)
    qed
  qed
qed

lemma jobs_Enqueue_pk: "jobs_pk rows \<Longrightarrow> jobs_pk (fst (jobs_Enqueue m u now db out job rows))"
  by (rule jobs_Enqueue_cases [of m u now db out job rows]) (auto dest: jobs_insert_pk)

subsection \<open>Handler registry\<close>

text \<open>
  A handler value as the registry inspects it: the nil interface, an interface holding a
  nil pointer, function, map, channel or slice, or a usable handler.
\<close>

datatype 'h handler_value = NilInterface | NilInside | Usable 'h

definition jobs_isNilHandler :: "'h handler_value \<Rightarrow> bool" where
  "jobs_isNilHandler h = (case h of NilInterface \<Rightarrow> True | NilInside \<Rightarrow> True | Usable _ \<Rightarrow> False)"

type_synonym 'h jobs_registry = "string \<rightharpoonup> 'h handler_value"

definition jobs_NewRegistry :: "'h jobs_registry" where
  "jobs_NewRegistry = Map.empty"

abbreviation jobs_ErrInvalidRegistration :: goerr where
  "jobs_ErrInvalidRegistration \<equiv> ErrSentinel ''jobs: invalid handler registration''"
abbreviation jobs_ErrHandlerRegistered :: goerr where
  "jobs_ErrHandlerRegistered \<equiv> ErrSentinel ''jobs: handler already registered''"
abbreviation jobs_ErrHandlerNotFound :: goerr where
  "jobs_ErrHandlerNotFound \<equiv> ErrSentinel ''jobs: handler not found''"

definition jobs_Register ::
  "'h jobs_registry \<Rightarrow> string \<Rightarrow> 'h handler_value \<Rightarrow> 'h jobs_registry \<times> goerr option" where
  "jobs_Register r nm h =
     (if nm = [] then (r, Some (ErrWrap ''%w: name is required'' [] jobs_ErrInvalidRegistration))
      else if jobs_isNilHandler h
        then (r, Some (ErrWrap ''%w: handler for %q is nil'' [nm] jobs_ErrInvalidRegistration))
      else if r nm \<noteq> None then (r, Some (ErrWrap ''%w: %q'' [nm] jobs_ErrHandlerRegistered))
      else (r(nm \<mapsto> h), None))"

definition jobs_Replace ::
  "'h jobs_registry \<Rightarrow> string \<Rightarrow> 'h handler_value \<Rightarrow> 'h jobs_registry \<times> goerr option" where
  "jobs_Replace r nm h =
     (if nm = [] then (r, Some (ErrWrap ''%w: name is required'' [] jobs_ErrInvalidRegistration))
      else if jobs_isNilHandler h
        then (r, Some (ErrWrap ''%w: handler for %q is nil'' [nm] jobs_ErrInvalidRegistration))
      else if r nm = None then (r, Some (ErrWrap ''%w: %q'' [nm] jobs_ErrHandlerNotFound))
      else (r(nm \<mapsto> h), None))"

text \<open>A missing key reads as the nil interface.\<close>

definition jobs_HandlerFor :: "'h jobs_registry \<Rightarrow> string \<Rightarrow> 'h handler_value" where
  "jobs_HandlerFor r nm = (case r nm of None \<Rightarrow> NilInterface | Some h \<Rightarrow> h)"

datatype 'h reg_op = OpRegister string "'h handler_value" | OpReplace string "'h handler_value"

fun reg_apply :: "'h jobs_registry \<Rightarrow> 'h reg_op \<Rightarrow> 'h jobs_registry" where
  "reg_apply r (OpRegister nm h) = fst (jobs_Register r nm h)"
| "reg_apply r (OpReplace nm h) = fst (jobs_Replace r nm h)"

definition reg_inv :: "'h jobs_registry \<Rightarrow> bool" where
  "reg_inv r \<longleftrightarrow> (\<forall>nm h. r nm = Some h \<longrightarrow> nm \<noteq> [] \<and> \<not> jobs_isNilHandler h)"

lemma reg_inv_apply: "reg_inv r \<Longrightarrow> reg_inv (reg_apply r x)"
  by (cases x) (auto simp: reg_inv_def jobs_Register_def jobs_Replace_def)

lemma reg_inv_fold: "reg_inv r \<Longrightarrow> reg_inv (fold (\<lambda>x r. reg_apply r x) xs r)"
  by (induction xs arbitrary: r) (simp_all add: reg_inv_apply)

subsection \<open>Repository of permanently failed jobs\<close>

record FailedJob =
  FJ_ID :: string
  FJ_Name :: string
  FJ_Payload :: string
  FJ_RunAt :: int
  FJ_Attempt :: int
  FJ_MaxAttempts :: int
  FJ_LastError :: string
  FJ_CreatedAt :: int

definition scanFailedJob :: "job_row \<Rightarrow> FailedJob" where
  "scanFailedJob r =
     \<lparr>FJ_ID = jr_id r, FJ_Name = jr_name r, FJ_Payload = jr_payload r, FJ_RunAt = jr_run_at r,
      FJ_Attempt = jr_attempt r, FJ_MaxAttempts = jr_max_attempts r,
      FJ_LastError = (case jr_last_error r of None \<Rightarrow> [] | Some e \<Rightarrow> e),
      FJ_CreatedAt = jr_created_at r\<rparr>"

definition job_failed :: "job_row \<Rightarrow> bool" where
  "job_failed r \<longleftrightarrow> jr_locked_until r = Some Infinity"

abbreviation ErrFailedJobNotFound :: goerr where
  "ErrFailedJobNotFound \<equiv> ErrSentinel ''jobs: permanently failed job not found''"

text \<open>\<open>pool\<close> says whether the repository and its pool are non-nil.\<close>

definition repo_validate :: "bool \<Rightarrow> goerr option" where
  "repo_validate pool = (if pool then None else Some (ErrMsg ''jobs: repository pool is required'' []))"

definition CountFailed :: "bool \<Rightarrow> goerr option \<Rightarrow> job_row list \<Rightarrow> goerr + int" where
  "CountFailed pool query_err rows =
     (case repo_validate pool of Some e \<Rightarrow> Inl e
      | None \<Rightarrow>
         (case query_err of Some e \<Rightarrow> Inl (ErrWrap ''jobs: count failed: %w'' [] e)
          | None \<Rightarrow> Inr (int (length (filter job_failed rows)))))"

text \<open>\<open>ORDER BY created_at, id\<close> is two stable sorts; \<open>coll\<close> is the sort key the database's
  collation gives an identifier.\<close>

definition ListFailed ::
  "bool \<Rightarrow> goerr option \<Rightarrow> (string \<Rightarrow> 'k::linorder) \<Rightarrow> int \<Rightarrow> job_row list \<Rightarrow> goerr + FailedJob list"
where
  "ListFailed pool query_err coll limit rows =
     (case repo_validate pool of Some e \<Rightarrow> Inl e
      | None \<Rightarrow>
         let limit = (if limit \<le> 0 then 100 else limit) in
         (case query_err of Some e \<Rightarrow> Inl (ErrWrap ''jobs: list failed: %w'' [] e)
          | None \<Rightarrow> Inr (map scanFailedJob
              (take (nat limit)
                (sort_key jr_created_at (sort_key (coll \<circ> jr_id) (filter job_failed rows)))))))"

definition GetFailed ::
  "bool \<Rightarrow> goerr option \<Rightarrow> string \<Rightarrow> job_row list \<Rightarrow> goerr + FailedJob" where
  "GetFailed pool query_err i rows =
     (case repo_validate pool of Some e \<Rightarrow> Inl e
      | None \<Rightarrow>
         (case query_err of Some e \<Rightarrow> Inl (ErrWrap ''jobs: scan failed job: %w'' [] e)
          | None \<Rightarrow>
             (case find (\<lambda>r. jr_id r = i \<and> job_failed r) rows of
                None \<Rightarrow> Inl (ErrWrap ''%w: %s'' [i] ErrFailedJobNotFound)
              | Some r \<Rightarrow> Inr (scanFailedJob r))))"

definition requeue_stmt :: "string \<Rightarrow> int \<Rightarrow> job_row list \<Rightarrow> job_row list \<times> nat" where
  "requeue_stmt i run_at =
     sql_update (\<lambda>r. jr_id r = i \<and> job_failed r)
       (\<lambda>r. r\<lparr>jr_run_at := run_at, jr_attempt := 0, jr_last_error := None,
              jr_locked_until := None, jr_claim_token := None\<rparr>)"

definition discard_stmt :: "string \<Rightarrow> job_row list \<Rightarrow> job_row list \<times> nat" where
  "discard_stmt i = sql_delete (\<lambda>r. jr_id r = i \<and> job_failed r)"

text \<open>The administrative write operations share the handling of the command tag.\<close>

definition tag_result :: "string \<Rightarrow> string \<Rightarrow> nat option \<Rightarrow> goerr option" where
  "tag_result what i tag =
     (case tag of None \<Rightarrow> Some (ErrWrap what [] (ErrApp ''exec''))
      | Some n \<Rightarrow> if n \<noteq> 1 then Some (ErrWrap ''%w: %s'' [i] ErrFailedJobNotFound) else None)"

definition RequeueFailed ::
  "bool \<Rightarrow> exec_outcome \<Rightarrow> int \<Rightarrow> string \<Rightarrow> int option \<Rightarrow> job_row list
     \<Rightarrow> job_row list \<times> goerr option" where
  "RequeueFailed pool out now i runAt rows =
     (case repo_validate pool of Some e \<Rightarrow> (rows, Some e)
      | None \<Rightarrow>
         let runAt = (case runAt of None \<Rightarrow> now | Some t \<Rightarrow> t);
             (rows', tag) = sql_exec out (requeue_stmt i runAt) rows
         in (rows', tag_result ''jobs: requeue failed job: %w'' i tag))"

definition DiscardFailed ::
  "bool \<Rightarrow> exec_outcome \<Rightarrow> string \<Rightarrow> job_row list \<Rightarrow> job_row list \<times> goerr option" where
  "DiscardFailed pool out i rows =
     (case repo_validate pool of Some e \<Rightarrow> (rows, Some e)
      | None \<Rightarrow>
         let (rows', tag) = sql_exec out (discard_stmt i) rows
         in (rows', tag_result ''jobs: discard failed job: %w'' i tag))"

lemmas repo_defs = RequeueFailed_def DiscardFailed_def repo_validate_def tag_result_def sql_exec_def

lemma requeue_stmt_row:
  "find_row jr_id k (fst (requeue_stmt i t rows)) =
     map_option (\<lambda>r. if k = i \<and> job_failed r
        then r\<lparr>jr_run_at := t, jr_attempt := 0, jr_last_error := None,
               jr_locked_until := None, jr_claim_token := None\<rparr> else r) (find_row jr_id k rows)"
proof -
  have "find_row jr_id k (fst (requeue_stmt i t rows)) =
     map_option (\<lambda>r. if jr_id r = i \<and> job_failed r
        then r\<lparr>jr_run_at := t, jr_attempt := 0, jr_last_error := None,
               jr_locked_until := None, jr_claim_token := None\<rparr> else r) (find_row jr_id k rows)"
    unfolding requeue_stmt_def by (rule find_row_update) simp
  then show ?thesis by (cases "find_row jr_id k rows") (auto dest: find_row_SomeD)
qed

lemma discard_stmt_row:
  assumes "jobs_pk rows"
  shows "find_row jr_id k (fst (discard_stmt i rows)) =
     (case find_row jr_id k rows of None \<Rightarrow> None
      | Some r \<Rightarrow> if k = i \<and> job_failed r then None else Some r)"
proof -
  have d: "distinct (map jr_id rows)" using assms by (simp add: jobs_pk_def)
  show ?thesis
    unfolding discard_stmt_def find_row_delete [OF d]
    by (cases "find_row jr_id k rows") (auto dest: find_row_SomeD)
qed

lemma requeue_stmt_count:
  "jobs_pk rows \<Longrightarrow> snd (requeue_stmt i t rows) =
     (case find_row jr_id i rows of None \<Rightarrow> 0 | Some r \<Rightarrow> if job_failed r then 1 else 0)"
  unfolding requeue_stmt_def sql_update_def snd_conv jobs_pk_def by (rule filter_key_count)

lemma discard_stmt_count:
  "jobs_pk rows \<Longrightarrow> snd (discard_stmt i rows) =
     (case find_row jr_id i rows of None \<Rightarrow> 0 | Some r \<Rightarrow> if job_failed r then 1 else 0)"
  unfolding discard_stmt_def sql_delete_def snd_conv jobs_pk_def by (rule filter_key_count)

lemma requeue_stmt_pk: "jobs_pk rows \<Longrightarrow> jobs_pk (fst (requeue_stmt i t rows))"
  by (simp add: jobs_pk_def requeue_stmt_def sql_update_map)

lemma discard_stmt_pk: "jobs_pk rows \<Longrightarrow> jobs_pk (fst (discard_stmt i rows))"
  by (simp add: jobs_pk_def discard_stmt_def sql_delete_distinct)

end
