(* ===== verification/Interval.thy ===== *)
theory Interval
  imports Complex_Main GoStrings "HOL-Library.Log_Nat"
begin

text \<open>
  The text a lease is sent to the database as: \<open>postgresInterval\<close> of \<open>jobs/worker.go\<close> and
  \<open>outbox/outbox.go\<close>, which prints \<open>time.Duration.Seconds\<close>, a 64-bit floating-point number, with nine
  decimals. Floating-point numbers are the rational numbers they denote; \<open>float64\<close> rounds to the
  nearest one with 53 significant bits, ties to even. The durations of the program are far from
  the limits of the exponent, so neither overflow nor subnormal numbers occur.
\<close>

subsection \<open>Rounding\<close>

definition rne :: "rat \<Rightarrow> int" where
  "rne x = (let f = \<lfloor>x\<rfloor>; r = x - of_int f
            in if r < 1 / 2 then f else if 1 / 2 < r then f + 1 else if even f then f else f + 1)"

text \<open>The exponent of a positive number: the largest power of two that does not exceed it.\<close>

definition exponent2 :: "rat \<Rightarrow> int" where
  "exponent2 x =
     (case quotient_of x of (p, q) \<Rightarrow>
        let e = int (floorlog 2 (nat p)) - int (floorlog 2 (nat q)) in if 2 powi e \<le> x then e else e - 1)"

definition float64 :: "rat \<Rightarrow> rat" where
  "float64 x =
     (if x = 0 then 0
      else let e = exponent2 \<bar>x\<bar> in sgn x * of_int (rne (\<bar>x\<bar> * 2 powi (52 - e))) * 2 powi (e - 52))"

lemma rne_error: "\<bar>of_int (rne x) - x\<bar> \<le> 1 / 2"
  using floor_correct [of x] by (simp add: rne_def Let_def)

lemma rne_near:
  assumes "\<bar>x - of_int n\<bar> < 1 / 2"
  shows "rne x = n"
proof -
  have "\<bar>of_int (rne x) - of_int n :: rat\<bar> < 1" using rne_error [of x] assms by linarith
  then have "\<bar>rne x - n\<bar> < 1" by (simp flip: of_int_diff of_int_abs)
  then show ?thesis by simp
qed

lemma rne_of_int [simp]: "rne (of_int n) = n"
  by (rule rne_near) simp

lemma rne_nonneg: "0 \<le> x \<Longrightarrow> 0 \<le> rne x"
  by (simp add: rne_def Let_def)

lemma floorlog_of_int:
  assumes "0 < p"
  shows "1 \<le> floorlog 2 (nat p)" "2 ^ (floorlog 2 (nat p) - 1) \<le> (of_int p :: rat)"
    "(of_int p :: rat) < 2 ^ floorlog 2 (nat p)"
proof -
  define a where "a = floorlog 2 (nat p)"
  have "2 ^ (a - 1) \<le> nat p \<and> nat p < 2 ^ a"
    using floorlog_bounds [of "nat p" 2] assms by (simp add: a_def)
  then have "int (2 ^ (a - 1)) \<le> int (nat p) \<and> int (nat p) < int (2 ^ a)"
    by (simp only: of_nat_le_iff of_nat_less_iff)
  then have "2 ^ (a - 1) \<le> p \<and> p < 2 ^ a" using assms by simp
  then have "of_int (2 ^ (a - 1)) \<le> (of_int p :: rat) \<and> (of_int p :: rat) < of_int (2 ^ a)"
    by (simp only: of_int_le_iff of_int_less_iff)
  then show "2 ^ (floorlog 2 (nat p) - 1) \<le> (of_int p :: rat)"
    "(of_int p :: rat) < 2 ^ floorlog 2 (nat p)" by (simp_all add: a_def)
  show "1 \<le> floorlog 2 (nat p)" using assms by (simp add: floorlog_def)
qed

lemma exponent2_bounds:
  assumes "0 < x"
  shows "2 powi (exponent2 x) \<le> x" "x < 2 powi (exponent2 x + 1)"
proof -
  obtain p q where pq: "quotient_of x = (p, q)" by fastforce
  have q: "0 < q" using quotient_of_denom_pos [OF pq] .
  have x: "x = of_int p / of_int q" using quotient_of_div [OF pq] .
  have p: "0 < p" using assms q by (simp add: x zero_less_divide_iff)
  define a where "a = floorlog 2 (nat p)"
  define b where "b = floorlog 2 (nat q)"
  note a = floorlog_of_int(1) [OF p, folded a_def] and pa = floorlog_of_int(2,3) [OF p, folded a_def]
  note b = floorlog_of_int(1) [OF q, folded b_def] and qb = floorlog_of_int(2,3) [OF q, folded b_def]
  have "2 ^ (a - 1) / 2 ^ b < x"
    unfolding x using pa qb q by (intro frac_less2) simp_all
  moreover have "(2 ^ (a - 1) / 2 ^ b :: rat) = 2 powi (int a - int b - 1)"
    using a by (simp add: power_int_diff of_nat_diff power_diff)
  ultimately have lo: "2 powi (int a - int b - 1) < x" by simp
  have "x < 2 ^ a / 2 ^ (b - 1)"
    unfolding x using pa qb p by (intro frac_less) simp_all
  moreover have "(2 ^ a / 2 ^ (b - 1) :: rat) = 2 powi (int a - int b + 1)"
    using b by (simp add: power_int_diff power_int_add power_diff)
  ultimately have hi: "x < 2 powi (int a - int b + 1)" by simp
  have e: "exponent2 x = (if 2 powi (int a - int b) \<le> x then int a - int b else int a - int b - 1)"
    by (simp add: exponent2_def pq a_def b_def Let_def)
  show "2 powi (exponent2 x) \<le> x" using lo by (simp add: e)
  show "x < 2 powi (exponent2 x + 1)" using hi by (simp add: e)
qed

lemma float64_zero [simp]: "float64 0 = 0"
  by (simp add: float64_def)

lemma float64_error:
  assumes "\<bar>x\<bar> < 2 powi k"
  shows "\<bar>float64 x - x\<bar> \<le> 2 powi (k - 54)"
proof (cases "x = 0")
  case False
  define e where "e = exponent2 \<bar>x\<bar>"
  have "2 powi e < (2 powi k :: rat)"
    using exponent2_bounds(1) [of "\<bar>x\<bar>"] False assms by (simp add: e_def)
  then have ek: "e \<le> k - 1" using power_int_increasing [of k e "2 :: rat"] by force
  define y where "y = \<bar>x\<bar> * 2 powi (52 - e)"
  have unit: "(2 powi (52 - e) * 2 powi (e - 52) :: rat) = 1"
    by (simp flip: power_int_add)
  have x: "x = sgn x * y * 2 powi (e - 52)"
    using unit by (simp add: y_def mult.assoc sgn_mult_abs flip: mult.assoc [of "sgn x"])
  have "float64 x - x = sgn x * (of_int (rne y) - y) * 2 powi (e - 52)"
    using False x by (simp add: float64_def Let_def algebra_simps flip: e_def y_def)
  then have "\<bar>float64 x - x\<bar> = \<bar>of_int (rne y) - y\<bar> * 2 powi (e - 52)"
    using False by (simp add: abs_mult abs_sgn_eq)
  also have "\<dots> \<le> 1 / 2 * 2 powi (e - 52)"
    by (intro mult_right_mono rne_error) simp
  also have "\<dots> = 2 powi (e - 53)"
    using power_int_add [of "2 :: rat" "e - 53" 1] by simp
  also have "\<dots> \<le> 2 powi (k - 54)"
    using ek by (intro power_int_increasing) simp_all
  finally show ?thesis .
qed simp

lemma float64_nonneg: "0 \<le> x \<Longrightarrow> 0 \<le> float64 x"
  by (auto simp: float64_def Let_def intro!: mult_nonneg_nonneg rne_nonneg)

lemma float64_int:
  assumes "\<bar>n\<bar> < 2 ^ 53"
  shows "float64 (of_int n) = of_int n"
proof (cases "n = 0")
  case False
  define e where "e = exponent2 (of_int \<bar>n\<bar>)"
  have "2 powi e \<le> (of_int \<bar>n\<bar> :: rat)"
    using exponent2_bounds(1) [of "of_int \<bar>n\<bar>"] False by (simp add: e_def)
  also have "\<dots> < of_int (2 ^ 53)" using assms by (simp only: of_int_less_iff)
  also have "\<dots> = 2 powi 53" by simp
  finally have "e \<le> 52" using power_int_increasing [of 53 e "2 :: rat"] by force
  then obtain m where m: "52 - e = int m" by (metis diff_ge_0_iff_ge nonneg_int_cases)
  have unit: "(2 powi (52 - e) * 2 powi (e - 52) :: rat) = 1"
    by (simp flip: power_int_add)
  have "of_int \<bar>n\<bar> * 2 powi (52 - e) = (of_int (\<bar>n\<bar> * 2 ^ m) :: rat)" by (simp add: m)
  then have r: "of_int (rne (of_int \<bar>n\<bar> * 2 powi (52 - e))) = (of_int \<bar>n\<bar> * 2 powi (52 - e) :: rat)"
    by (simp only: rne_of_int)
  have "float64 (of_int n) = sgn (of_int n) * (of_int \<bar>n\<bar> * 2 powi (52 - e)) * 2 powi (e - 52)"
    using False r by (simp add: float64_def Let_def e_def)
  also have "\<dots> = sgn (of_int n) * of_int \<bar>n\<bar>" using unit by (simp add: mult.assoc)
  finally show ?thesis by (simp add: sgn_mult_abs)
qed simp

subsection \<open>The text of an interval\<close>

definition go_rem :: "int \<Rightarrow> int \<Rightarrow> int" where
  "go_rem a b = a - go_div a b * b"

definition Duration_Seconds :: "duration \<Rightarrow> rat" where
  "Duration_Seconds d =
     (let sec = go_div d 1000000000; nsec = go_rem d 1000000000
      in float64 (float64 (of_int sec) + float64 (float64 (of_int nsec) / 1000000000)))"

text \<open>The last \<open>k\<close> decimal digits of a number, and the verb \<open>%.9f\<close>, which rounds the exact value.\<close>

primrec low_digits :: "nat \<Rightarrow> nat \<Rightarrow> string" where
  "low_digits 0 n = []"
| "low_digits (Suc k) n = low_digits k (n div 10) @ [char_of (48 + n mod 10)]"

definition format_f9 :: "rat \<Rightarrow> string" where
  "format_f9 x =
     (let n = nat (rne (\<bar>x\<bar> * 10 ^ 9))
      in (if x < 0 then ''-'' else '''') @ nat_dec (n div 10 ^ 9) @ ''.'' @ low_digits 9 n)"

definition jobs_postgresInterval :: "duration \<Rightarrow> string" where
  "jobs_postgresInterval d = format_f9 (Duration_Seconds d) @ '' seconds''"

definition outbox_postgresInterval :: "duration \<Rightarrow> string" where
  "outbox_postgresInterval d = format_f9 (Duration_Seconds d) @ '' seconds''"

lemma low_digits_length [simp]: "length (low_digits k n) = k"
  by (induction k arbitrary: n) simp_all

lemma low_digits_digits: "c \<in> set (low_digits k n) \<Longrightarrow> is_digit c"
  by (induction k arbitrary: n) (auto simp: digit_char)

lemma dec_val_low_digits: "dec_val (s @ low_digits k n) = dec_val s * 10 ^ k + n mod 10 ^ k"
proof (induction k arbitrary: n)
  case (Suc k)
  have "dec_val (s @ low_digits (Suc k) n) = (dec_val s * 10 ^ k + n div 10 mod 10 ^ k) * 10 + n mod 10"
    using digit_char [of "n mod 10"] Suc.IH [of "n div 10"]
    by (simp add: dec_val_snoc flip: append_assoc)
  also have "\<dots> = dec_val s * 10 ^ Suc k + n mod (10 * 10 ^ k)"
    by (simp add: mod_mult2_eq algebra_simps)
  finally show ?case by simp
qed simp

lemma format_f9_read:
  assumes "0 \<le> x"
  shows "\<exists>w f. format_f9 x = w @ ''.'' @ f \<and> length f = 9 \<and> (\<forall>c \<in> set (w @ f). is_digit c) \<and>
    int (dec_val (w @ f)) = rne (x * 10 ^ 9)"
proof -
  define n where "n = nat (rne (x * 10 ^ 9))"
  have "int n = rne (x * 10 ^ 9)" using assms by (simp add: n_def rne_nonneg)
  moreover have "dec_val (nat_dec (n div 10 ^ 9) @ low_digits 9 n) = n"
    using nat_dec_val [of "n div 10 ^ 9"] by (simp only: dec_val_low_digits div_mult_mod_eq)
  moreover have "\<forall>c \<in> set (nat_dec (n div 10 ^ 9) @ low_digits 9 n). is_digit c"
    using nat_dec_val low_digits_digits by auto
  moreover have "format_f9 x = nat_dec (n div 10 ^ 9) @ ''.'' @ low_digits 9 n"
    using assms by (simp add: format_f9_def n_def Let_def)
  ultimately show ?thesis by (metis low_digits_length)
qed

lemma seconds_error:
  assumes "0 \<le> d" and "d < 2 ^ 63" and "of_int (d div 10 ^ 9) + 1 \<le> (2 powi k :: rat)"
  shows "0 \<le> Duration_Seconds d"
    and "\<bar>Duration_Seconds d * 10 ^ 9 - of_int d\<bar> \<le> 10 ^ 9 * (2 powi (k - 54) + 2 powi (- 54))"
proof -
  define s where "s = d div 10 ^ 9"
  define r where "r = d mod 10 ^ 9"
  define f where "f = float64 (of_int r / 10 ^ 9)"
  have d: "of_int d = of_int s * 10 ^ 9 + (of_int r :: rat)"
  proof -
    have "d = s * 10 ^ 9 + r" by (simp add: s_def r_def)
    then have "of_int d = (of_int (s * 10 ^ 9 + r) :: rat)" by (simp only:)
    then show ?thesis by simp
  qed
  have s: "0 \<le> s" "s < 2 ^ 53" using assms by (simp_all add: s_def)
  have r: "0 \<le> r" "r < 10 ^ 9" by (simp_all add: r_def)
  have sec: "Duration_Seconds d = float64 (of_int s + f)"
    using assms(1) r s float64_int [of s] float64_int [of r]
    by (simp add: Duration_Seconds_def go_rem_def Let_def s_def r_def f_def minus_div_mult_eq_mod)
  have "of_int r \<le> (of_int (10 ^ 9 - 1) :: rat)" using r by (simp only: of_int_le_iff)
  then have frac: "of_int r / 10 ^ 9 \<le> (999999999 / 1000000000 :: rat)" "0 \<le> (of_int r / 10 ^ 9 :: rat)"
    using r by simp_all
  have fe: "\<bar>f - of_int r / 10 ^ 9\<bar> \<le> 2 powi (- 54)"
    using float64_error [of "of_int r / 10 ^ 9" 0] frac by (simp add: f_def)
  have f: "0 \<le> f" using frac(2) by (simp add: f_def float64_nonneg)
  have "(2 powi (- 54) :: rat) < 1 / 1000000000" by (simp add: power_int_minus)
  then have "f < 1" using fe frac by linarith
  then have se: "\<bar>float64 (of_int s + f) - (of_int s + f)\<bar> \<le> 2 powi (k - 54)"
    using float64_error [of "of_int s + f" k] assms(3) s f by (simp add: s_def)
  show "0 \<le> Duration_Seconds d" using f s by (simp add: sec float64_nonneg)
  have "Duration_Seconds d * 10 ^ 9 - of_int d =
      10 ^ 9 * ((Duration_Seconds d - (of_int s + f)) + (f - of_int r / 10 ^ 9))"
    by (simp add: d algebra_simps)
  also have "\<bar>\<dots>\<bar> \<le> 10 ^ 9 * (2 powi (k - 54) + 2 powi (- 54))"
    unfolding abs_mult sec using order_trans [OF abs_triangle_ineq add_mono [OF se fe]]
    by (intro mult_mono) simp_all
  finally show "\<bar>Duration_Seconds d * 10 ^ 9 - of_int d\<bar> \<le> 10 ^ 9 * (2 powi (k - 54) + 2 powi (- 54))" .
qed

lemma interval_digits:
  assumes "0 \<le> d" and "d < 2 ^ 63"
  shows "\<exists>w f. jobs_postgresInterval d = w @ ''.'' @ f @ '' seconds'' \<and> length f = 9 \<and>
    (\<forall>c \<in> set (w @ f). is_digit c) \<and> \<bar>int (dec_val (w @ f)) - d\<bar> \<le> 954 \<and>
    (d < 2 ^ 23 * 10 ^ 9 \<longrightarrow> int (dec_val (w @ f)) = d) \<and>
    outbox_postgresInterval d = jobs_postgresInterval d"
proof -
  have k: "of_int (d div 10 ^ 9) + 1 \<le> (of_int (2 ^ m) :: rat)" if "d < 2 ^ m * 10 ^ 9" for m
  proof -
    have "d div 10 ^ 9 + 1 \<le> 2 ^ m" using that by simp
    then show ?thesis by (metis of_int_1 of_int_add of_int_le_iff)
  qed
  obtain w f where wf: "format_f9 (Duration_Seconds d) = w @ ''.'' @ f" "length f = 9"
      "\<forall>c \<in> set (w @ f). is_digit c" "int (dec_val (w @ f)) = rne (Duration_Seconds d * 10 ^ 9)"
    using format_f9_read seconds_error(1) [OF assms, of 34] k [of 34] assms by fastforce
  note err = seconds_error(2) [OF assms]
  have "\<bar>Duration_Seconds d * 10 ^ 9 - of_int d\<bar> < 955 - 1 / 2"
    by (rule le_less_trans [OF err [of 34]]) (use k [of 34] assms in \<open>simp_all add: power_int_minus\<close>)
  moreover have "int (dec_val (w @ f)) = d" if d: "d < 2 ^ 23 * 10 ^ 9"
  proof -
    have "\<bar>Duration_Seconds d * 10 ^ 9 - of_int d\<bar> < 1 / 2"
      by (rule le_less_trans [OF err [of 23]]) (use k [of 23] d in \<open>simp_all add: power_int_minus\<close>)
    then show ?thesis using wf(4) rne_near by simp
  qed
  moreover have "\<bar>int (dec_val (w @ f)) - d\<bar> \<le> 954"
  proof -
    have "\<bar>of_int (rne (Duration_Seconds d * 10 ^ 9)) - (of_int d :: rat)\<bar> < 955"
      using calculation(1) rne_error [of "Duration_Seconds d * 10 ^ 9"] by linarith
    then have "\<bar>rne (Duration_Seconds d * 10 ^ 9) - d\<bar> < 955"
      by (simp flip: of_int_diff of_int_abs)
    then show ?thesis using wf(4) by simp
  qed
  ultimately show ?thesis
    using wf by (intro exI [of _ w] exI [of _ f]) (simp add: jobs_postgresInterval_def outbox_postgresInterval_def)
qed

text \<open>C38: for every non-negative duration, the text of its interval is a decimal number of seconds with
  nine decimals, whose digits, read as nanoseconds, are the duration to within 954 ns, and exactly
  the duration below \<open>2 ^ 23\<close> seconds (97 days): the rounding of floating-point numbers never moves
  a lease by a microsecond, the resolution the database keeps. The relay prints it in the same way.
\<close>

theorem postgresInterval_exact:
  assumes "0 \<le> d" and "d < 2 ^ 63"
  shows "\<exists>w f. jobs_postgresInterval d = w @ ''.'' @ f @ '' seconds'' \<and> length f = 9 \<and>
    (\<forall>c \<in> set (w @ f). is_digit c) \<and> \<bar>int (dec_val (w @ f)) - d\<bar> \<le> 954 \<and>
    (d < 2 ^ 23 * 10 ^ 9 \<longrightarrow> int (dec_val (w @ f)) = d) \<and>
    outbox_postgresInterval d = jobs_postgresInterval d"
  by (rule interval_digits [OF assms])

text \<open>The default lease of five minutes.\<close>

theorem postgresInterval_exact_witness:
  "\<exists>w f. jobs_postgresInterval 300000000000 = w @ ''.'' @ f @ '' seconds'' \<and> length f = 9 \<and>
    int (dec_val (w @ f)) = 300000000000"
  using postgresInterval_exact [of 300000000000] by auto

end
