(* ===== verification/JobsWorker.thy ===== *)
theory JobsWorker
  imports Jobs Interval
begin

text \<open>
  The jobs worker (\<open>jobs/worker.go\<close>): configuration defaults, the claim, renewal and
  outcome statements, one batch (\<open>processBatch\<close>), the renewal goroutine
  (\<open>startLeaseRenewal\<close>), the polling loop (\<open>Run\<close>), and the worker fleet as a step relation
  over the shared table, which refines the lease machine of \<open>Lease\<close>.

  The text a lease is sent as (\<open>postgresInterval\<close>, in \<open>Interval\<close>) is read back by the database,
  in microseconds: the argument \<open>pgiv\<close> is the server's reading of an interval. The rendering of an
  error (\<open>Error()\<close>) is the argument \<open>render\<close>, and \<open>text_ok\<close> says which text parameters the
  server accepts.
\<close>

subsection \<open>Configuration\<close>

record WorkerConfig =
  wc_BatchSize :: int
  wc_PollInterval :: duration
  wc_InitialBackoff :: duration
  wc_LeaseDuration :: duration
  wc_LeaseRenewalInterval :: duration

definition worker_batchSize :: "WorkerConfig \<Rightarrow> int" where
  "worker_batchSize c = (if wc_BatchSize c > 0 then wc_BatchSize c else 50)"

definition worker_pollInterval :: "WorkerConfig \<Rightarrow> duration" where
  "worker_pollInterval c = (if wc_PollInterval c > 0 then wc_PollInterval c else 2 * 1000000000)"

definition worker_initialBackoff :: "WorkerConfig \<Rightarrow> duration" where
  "worker_initialBackoff c =
     (if wc_InitialBackoff c > 0 then wc_InitialBackoff c else 500 * 1000000)"

definition worker_leaseDuration :: "WorkerConfig \<Rightarrow> duration" where
  "worker_leaseDuration c =
     (if wc_LeaseDuration c > 0 then wc_LeaseDuration c else 5 * 60 * 1000000000)"

definition worker_leaseRenewalInterval :: "WorkerConfig \<Rightarrow> duration" where
  "worker_leaseRenewalInterval c =
     (let lease = worker_leaseDuration c in
      if wc_LeaseRenewalInterval c > 0 \<and> wc_LeaseRenewalInterval c < lease
      then wc_LeaseRenewalInterval c
      else let interval = go_div lease 2 in if interval \<le> 0 then 1 else interval)"

subsection \<open>Retry delay\<close>

text \<open>The loop \<open>for i := 1; i < attempt; i++ { exp *= 2 }\<close> on int64.\<close>

definition double64 :: "int \<Rightarrow> int" where
  "double64 x = wrap64 (x * 2)"

definition worker_backoff :: "WorkerConfig \<Rightarrow> int \<Rightarrow> int \<Rightarrow> duration option" where
  "worker_backoff c attempt draw =
     (let base = worker_initialBackoff c;
          exp = (double64 ^^ nat (attempt - 1)) base;
          mx = wrap64 (exp * 2) in
      (case Int64N exp draw of
         None \<Rightarrow> None
       | Some jitter \<Rightarrow>
          let d = wrap64 (exp + jitter) in
          Some (if mx > 0 \<and> d > mx then mx else d)))"

lemma double64_power:
  assumes "0 < b" and "b * 2 ^ n < 2 ^ 63"
  shows "(double64 ^^ n) b = b * 2 ^ n"
  using assms
proof (induction n)
  case (Suc n)
  have "b * 2 ^ n \<le> b * 2 ^ Suc n" using Suc.prems(1) by simp
  then have IH: "(double64 ^^ n) b = b * 2 ^ n" using Suc by simp
  have "0 \<le> b * 2 ^ n" using Suc.prems(1) by simp
  then have "int64_ok (b * 2 ^ n * 2)" using Suc.prems(2) by (simp add: int64_ok_def)
  then have "double64 (b * 2 ^ n) = b * 2 ^ n * 2" by (simp add: double64_def)
  then show ?case by (simp add: IH)
qed simp

text \<open>Doubling wraps: the value after \<open>n\<close> doublings is the exact product modulo \<open>2 ^ 64\<close>.\<close>

lemma wrap64_cong: "x mod 2 ^ 64 = y mod 2 ^ 64 \<Longrightarrow> wrap64 x = wrap64 y"
  unfolding wrap64_def by (metis mod_add_left_eq)

lemma wrap64_mod: "wrap64 x mod 2 ^ 64 = x mod 2 ^ 64"
proof -
  have "((x + 2 ^ 63) mod 2 ^ 64 - 2 ^ 63) mod 2 ^ 64 = (x + 2 ^ 63 - 2 ^ 63) mod 2 ^ 64"
    by (rule mod_diff_left_eq)
  then show ?thesis unfolding wrap64_def by simp
qed

lemma double64_wraps: "int64_ok b \<Longrightarrow> (double64 ^^ n) b = wrap64 (b * 2 ^ n)"
proof (induction n)
  case (Suc n)
  have "wrap64 (b * 2 ^ n) * 2 mod 2 ^ 64 = b * 2 ^ n * 2 mod 2 ^ 64"
    using mod_mult_left_eq [of "wrap64 (b * 2 ^ n)" "2 ^ 64" 2] mod_mult_left_eq [of "b * 2 ^ n" "2 ^ 64" 2]
    by (simp only: wrap64_mod)
  then have "wrap64 (wrap64 (b * 2 ^ n) * 2) = wrap64 (b * 2 ^ n * 2)" by (rule wrap64_cong)
  then show ?case using Suc by (simp add: double64_def mult.commute mult.left_commute)
qed simp

lemma worker_backoff_None_iff:
  assumes "int64_ok (wc_InitialBackoff c)"
  shows "worker_backoff c attempt draw = None \<longleftrightarrow> wrap64 (worker_initialBackoff c * 2 ^ nat (attempt - 1)) \<le> 0"
proof -
  have "int64_ok (worker_initialBackoff c)" using assms by (simp add: worker_initialBackoff_def int64_ok_def)
  then show ?thesis by (auto simp: worker_backoff_def double64_wraps Let_def Int64N_def)
qed

lemma wrap64_many_doublings:
  assumes "64 \<le> n"
  shows "wrap64 (b * 2 ^ n) = 0"
proof -
  have "(2 :: int) ^ n = 2 ^ (n - 64) * 2 ^ 64"
    unfolding power_add [symmetric] using assms by simp
  then have "b * 2 ^ n = b * 2 ^ (n - 64) * 2 ^ 64" by (simp only: mult.assoc)
  then have "b * 2 ^ n mod 2 ^ 64 = 0 mod 2 ^ 64" by (metis mod_mult_self2_is_0 mod_0)
  then have "wrap64 (b * 2 ^ n) = wrap64 0" by (rule wrap64_cong)
  then show ?thesis by (simp add: wrap64_def)
qed

lemma worker_backoff_in_range:
  assumes "1 \<le> attempt" and "worker_initialBackoff c * 2 ^ nat attempt < 2 ^ 63"
  defines "e \<equiv> worker_initialBackoff c * 2 ^ nat (attempt - 1)"
  shows "\<exists>d. worker_backoff c attempt draw = Some d \<and> e \<le> d \<and> d < 2 * e \<and> 0 < d"
proof -
  let ?b = "worker_initialBackoff c"
  have b: "0 < ?b" by (simp add: worker_initialBackoff_def)
  have two: "?b * 2 ^ nat attempt = 2 * e"
  proof -
    have "nat attempt = Suc (nat (attempt - 1))" using assms(1) by simp
    then show ?thesis by (simp add: e_def)
  qed
  have e: "0 < e" "2 * e < 2 ^ 63" using b assms(2) two by (simp_all add: e_def)
  then have ee: "(double64 ^^ nat (attempt - 1)) ?b = e"
    unfolding e_def by (intro double64_power b) (simp add: e_def)
  obtain j where j: "Int64N e draw = Some j" "0 \<le> j" "j < e"
    using e(1) by (auto simp: Int64N_def)
  have ok: "int64_ok (e * 2)" "int64_ok (e + j)" using e j by (simp_all add: int64_ok_def)
  have "worker_backoff c attempt draw = Some (e + j)"
    using ok e j by (simp add: worker_backoff_def ee Let_def)
  then show ?thesis using j e by auto
qed

subsection \<open>Error text\<close>

definition jobs_truncateUTF8 :: "string \<Rightarrow> nat \<Rightarrow> string" where
  "jobs_truncateUTF8 value maxBytes =
     (if length value \<le> maxBytes then value else drop_invalid_tail (take maxBytes value))"

lemma jobs_truncateUTF8_prefix: "prefix (jobs_truncateUTF8 v n) v"
  using drop_invalid_tail_prefix [of "take n v"] take_is_prefix [of n v]
  by (auto simp: jobs_truncateUTF8_def intro: prefix_order.trans)

lemma jobs_truncateUTF8_length: "length (jobs_truncateUTF8 v n) \<le> n"
  using prefix_length_le [OF drop_invalid_tail_prefix [of "take n v"]]
  by (auto simp: jobs_truncateUTF8_def)

lemma jobs_truncateUTF8_loses_little:
  assumes "ValidString v"
  shows "min n (length v) \<le> length (jobs_truncateUTF8 v n) + 3"
proof (cases "length v \<le> n")
  case False
  then obtain m where m: "m \<le> n" "n \<le> m + 3" "ValidString (take m v)"
    using valid_prefix_near [OF assms, of n] by auto
  have "prefix (take m v) (take n v)"
    using m(1) by (metis take_is_prefix min.absorb1 take_take)
  then have "prefix (take m v) (drop_invalid_tail (take n v))"
    using m(3) by (rule drop_invalid_tail_longest)
  then have "length (take m v) \<le> length (drop_invalid_tail (take n v))" by (rule prefix_length_le)
  with m False show ?thesis by (simp add: jobs_truncateUTF8_def)
qed (simp add: jobs_truncateUTF8_def)

subsection \<open>Statements\<close>

record jobRow =
  jb_id :: string
  jb_name :: string
  jb_payload :: string
  jb_attempt :: int
  jb_maxAttempts :: int
  jb_claimToken :: string

definition job_due :: "int \<Rightarrow> job_row \<Rightarrow> bool" where
  "job_due now r \<longleftrightarrow>
     jr_run_at r \<le> now \<and>
     (case jr_locked_until r of None \<Rightarrow> True | Some u \<Rightarrow> u \<le> At now)"

text \<open>The inner \<open>SELECT \<dots> ORDER BY run_at LIMIT $1 FOR UPDATE SKIP LOCKED\<close>: \<open>locked\<close> are the
  rows other transactions hold locks on.\<close>

definition claim_select :: "int \<Rightarrow> int \<Rightarrow> (string \<Rightarrow> bool) \<Rightarrow> job_row list \<Rightarrow> string list" where
  "claim_select now limit locked rows =
     map jr_id (take (nat limit)
       (sort_key jr_run_at (filter (\<lambda>r. job_due now r \<and> \<not> locked (jr_id r)) rows)))"

definition claim_update :: "int \<Rightarrow> pg_micros \<Rightarrow> string \<Rightarrow> string list \<Rightarrow> job_row list \<Rightarrow> job_row list \<times> nat"
where
  "claim_update now iv p ids =
     sql_update (\<lambda>r. jr_id r \<in> set ids)
       (\<lambda>r. r\<lparr>jr_locked_until := Some (At (now + iv)),
              jr_claim_token := Some (claim_token p (jr_id r))\<rparr>)"

text \<open>A row of the \<open>RETURNING\<close> clause, scanned into a \<open>jobRow\<close>; the update visits the rows
  in table order.\<close>

definition scan_claim :: "job_row \<Rightarrow> jobRow" where
  "scan_claim r =
     \<lparr>jb_id = jr_id r, jb_name = jr_name r, jb_payload = jr_payload r, jb_attempt = jr_attempt r,
      jb_maxAttempts = jr_max_attempts r,
      jb_claimToken = (case jr_claim_token r of None \<Rightarrow> [] | Some t \<Rightarrow> t)\<rparr>"

definition claim_batch ::
  "int \<Rightarrow> pg_micros \<Rightarrow> string \<Rightarrow> int \<Rightarrow> (string \<Rightarrow> bool) \<Rightarrow> job_row list \<Rightarrow> job_row list \<times> jobRow list"
where
  "claim_batch now iv p limit locked rows =
     (let ids = claim_select now limit locked rows;
          rows' = fst (claim_update now iv p ids rows)
      in (rows', map scan_claim (filter (\<lambda>r. jr_id r \<in> set ids) rows')))"

definition owned_by :: "string \<Rightarrow> string \<Rightarrow> job_row \<Rightarrow> bool" where
  "owned_by i t r \<longleftrightarrow> jr_id r = i \<and> jr_claim_token r = Some t"

definition complete_stmt :: "string \<Rightarrow> string \<Rightarrow> job_row list \<Rightarrow> job_row list \<times> nat" where
  "complete_stmt i t = sql_delete (owned_by i t)"

definition fail_stmt :: "string \<Rightarrow> string \<Rightarrow> int \<Rightarrow> string \<Rightarrow> job_row list \<Rightarrow> job_row list \<times> nat" where
  "fail_stmt i t n msg =
     sql_update (owned_by i t)
       (\<lambda>r. r\<lparr>jr_attempt := n, jr_last_error := Some msg, jr_locked_until := Some Infinity\<rparr>)"

definition retry_stmt ::
  "int \<Rightarrow> string \<Rightarrow> string \<Rightarrow> int \<Rightarrow> int \<Rightarrow> string \<Rightarrow> job_row list \<Rightarrow> job_row list \<times> nat" where
  "retry_stmt now i t n ms msg =
     sql_update (owned_by i t)
       (\<lambda>r. r\<lparr>jr_attempt := n, jr_run_at := now + ms * 1000, jr_locked_until := None,
              jr_claim_token := None, jr_last_error := Some msg\<rparr>)"

definition renew_stmt :: "int \<Rightarrow> pg_micros \<Rightarrow> string \<Rightarrow> string \<Rightarrow> job_row list \<Rightarrow> job_row list \<times> nat" where
  "renew_stmt now iv i t =
     sql_update
       (\<lambda>r. owned_by i t r \<and> (case jr_locked_until r of None \<Rightarrow> False | Some u \<Rightarrow> At now < u))
       (\<lambda>r. r\<lparr>jr_locked_until := Some (At (now + iv))\<rparr>)"

lemmas job_stmt_defs = complete_stmt_def fail_stmt_def retry_stmt_def renew_stmt_def owned_by_def

subsection \<open>Processing a batch\<close>

datatype handler_result = Returned "goerr option" | Panicked string

type_synonym job_handler = "string \<Rightarrow> handler_result"

text \<open>\<open>callHandler\<close> turns a panic of the handler into an error.\<close>

definition jobs_callHandler :: "job_handler \<Rightarrow> string \<Rightarrow> goerr option" where
  "jobs_callHandler h payload =
     (case h payload of
        Returned e \<Rightarrow> e
      | Panicked v \<Rightarrow> Some (ErrMsg ''jobs: handler panic: %v'' [v]))"

record jobs_db =
  jd_rows :: "job_row list"
  jd_now :: int

text \<open>What the environment does while one job is delivered: other sessions and the lease
  renewals change the database while the handler runs (\<open>je_during\<close>), the random draw of
  the retry delay, and the fate of the outcome statement.\<close>

record job_env =
  je_during :: "jobs_db \<Rightarrow> jobs_db"
  je_draw :: int
  je_exec :: exec_outcome

datatype job_status = StProcessed | StRetried | StFailed | StClaimLost | StUpdateError

datatype job_outcome = OutComplete | OutFail int string | OutRetry int int string

definition job_process_err :: "job_handler jobs_registry \<Rightarrow> jobRow \<Rightarrow> goerr option" where
  "job_process_err reg j =
     (case jobs_HandlerFor reg (jb_name j) of
        NilInterface \<Rightarrow> Some (ErrMsg ''no handler for job %q'' [jb_name j])
      | NilInside \<Rightarrow> Some (ErrMsg ''jobs: handler panic: %v'' [''nil handler''])
      | Usable h \<Rightarrow> jobs_callHandler h (jb_payload j))"

text \<open>Which statement records the result; \<open>None\<close> when computing the delay panics.\<close>

definition job_outcome_of ::
  "WorkerConfig \<Rightarrow> (goerr \<Rightarrow> string) \<Rightarrow> jobRow \<Rightarrow> goerr option \<Rightarrow> int \<Rightarrow> job_outcome option" where
  "job_outcome_of cfg render j processErr draw =
     (let nextAttempt = jb_attempt j + 1 in
      case processErr of
        None \<Rightarrow> Some OutComplete
      | Some e \<Rightarrow>
         let errMsg = jobs_truncateUTF8 (render e) 1024 in
         if nextAttempt \<ge> jb_maxAttempts j then Some (OutFail nextAttempt errMsg)
         else (case worker_backoff cfg nextAttempt draw of
                 None \<Rightarrow> None
               | Some backoff \<Rightarrow> Some (OutRetry nextAttempt (go_div backoff 1000000) errMsg)))"

definition outcome_stmt :: "int \<Rightarrow> jobRow \<Rightarrow> job_outcome \<Rightarrow> job_row list \<Rightarrow> job_row list \<times> nat" where
  "outcome_stmt now j out =
     (case out of
        OutComplete \<Rightarrow> complete_stmt (jb_id j) (jb_claimToken j)
      | OutFail n msg \<Rightarrow> fail_stmt (jb_id j) (jb_claimToken j) n msg
      | OutRetry n ms msg \<Rightarrow> retry_stmt now (jb_id j) (jb_claimToken j) n ms msg)"

text \<open>A text parameter the server does not accept makes the statement fail without effect.\<close>

definition outcome_exec :: "(string \<Rightarrow> bool) \<Rightarrow> job_outcome \<Rightarrow> exec_outcome \<Rightarrow> exec_outcome" where
  "outcome_exec text_ok out ex =
     (case out of
        OutComplete \<Rightarrow> ex
      | OutFail n msg \<Rightarrow> if text_ok msg then ex else ExecFailed
      | OutRetry n ms msg \<Rightarrow> if text_ok msg then ex else ExecFailed)"

definition outcome_status :: "job_outcome \<Rightarrow> nat option \<Rightarrow> job_status" where
  "outcome_status out tag =
     (case tag of
        None \<Rightarrow> StUpdateError
      | Some n \<Rightarrow>
         if n \<noteq> 1 then StClaimLost
         else (case out of OutComplete \<Rightarrow> StProcessed | OutFail _ _ \<Rightarrow> StFailed
               | OutRetry _ _ _ \<Rightarrow> StRetried))"

definition process_job ::
  "WorkerConfig \<Rightarrow> (goerr \<Rightarrow> string) \<Rightarrow> (string \<Rightarrow> bool) \<Rightarrow> job_handler jobs_registry \<Rightarrow> job_env
     \<Rightarrow> jobRow \<Rightarrow> jobs_db \<Rightarrow> (jobs_db \<times> job_status) option" where
  "process_job cfg render text_ok reg env j db =
     (let processErr = job_process_err reg j;
          db1 = je_during env db in
      case job_outcome_of cfg render j processErr (je_draw env) of
        None \<Rightarrow> None
      | Some out \<Rightarrow>
         let (rows', tag) = sql_exec (outcome_exec text_ok out (je_exec env))
                              (outcome_stmt (jd_now db1) j out) (jd_rows db1)
         in Some (db1\<lparr>jd_rows := rows'\<rparr>, outcome_status out tag))"

text \<open>The loop over the claimed jobs stops at a panic, which unwinds out of \<open>Run\<close>.\<close>

fun process_jobs ::
  "WorkerConfig \<Rightarrow> (goerr \<Rightarrow> string) \<Rightarrow> (string \<Rightarrow> bool) \<Rightarrow> job_handler jobs_registry
     \<Rightarrow> (nat \<Rightarrow> job_env) \<Rightarrow> nat \<Rightarrow> jobRow list \<Rightarrow> jobs_db \<Rightarrow> jobs_db \<times> job_status list \<times> bool" where
  "process_jobs cfg render text_ok reg env k [] db = (db, [], False)"
| "process_jobs cfg render text_ok reg env k (j # js) db =
     (case process_job cfg render text_ok reg (env k) j db of
        None \<Rightarrow> (je_during (env k) db, [], True)
      | Some (db', st) \<Rightarrow>
         (let (db'', sts, panicked) =
                process_jobs cfg render text_ok reg env (Suc k) js db'
          in (db'', st # sts, panicked)))"

record batch_env =
  be_prefix :: string
  be_locked :: "string \<Rightarrow> bool"
  be_claim :: exec_outcome
  be_jobs :: "nat \<Rightarrow> job_env"

datatype batch_result = BatchError goerr | BatchDone "job_status list" | BatchPanic

definition jobs_processBatch ::
  "(string \<Rightarrow> pg_micros) \<Rightarrow> WorkerConfig \<Rightarrow> (goerr \<Rightarrow> string) \<Rightarrow> (string \<Rightarrow> bool)
     \<Rightarrow> job_handler jobs_registry \<Rightarrow> batch_env \<Rightarrow> jobs_db \<Rightarrow> jobs_db \<times> batch_result" where
  "jobs_processBatch pgiv cfg render text_ok reg env db =
     (let batch = worker_batchSize cfg;
          leaseDuration = worker_leaseDuration cfg;
          (rows', claimed) = claim_batch (jd_now db) (pgiv (jobs_postgresInterval leaseDuration)) (be_prefix env) batch
                               (be_locked env) (jd_rows db) in
      case be_claim env of
        ExecFailed \<Rightarrow> (db, BatchError (ErrWrap ''jobs: claim batch: %w'' [] (ErrApp ''query'')))
      | ExecReplyLost \<Rightarrow>
          (db\<lparr>jd_rows := rows'\<rparr>,
           BatchError (ErrWrap ''jobs: iterate claim rows: %w'' [] (ErrApp ''rows'')))
      | ExecOk \<Rightarrow>
          (let (db', sts, panicked) =
                 process_jobs cfg render text_ok reg (be_jobs env) 0 claimed (db\<lparr>jd_rows := rows'\<rparr>)
           in (db', if panicked then BatchPanic else BatchDone sts)))"

subsection \<open>Lease renewal and the polling loop\<close>

text \<open>
  The renewal goroutine, as a function of what its \<open>select\<close> receives: a stop, or a tick at
  which the database (after whatever other sessions did since) runs the renewal. It ends
  with whether it was stopped, lost the lease (which cancels the handler) or still runs.
\<close>

datatype renew_event = RenewStop | RenewTick "jobs_db \<Rightarrow> jobs_db" exec_outcome

datatype renew_end = RenewStopped | RenewLost | RenewActive

fun jobs_lease_renewal ::
  "(string \<Rightarrow> pg_micros) \<Rightarrow> duration \<Rightarrow> jobRow \<Rightarrow> renew_event list \<Rightarrow> jobs_db \<Rightarrow> jobs_db \<times> renew_end" where
  "jobs_lease_renewal pgiv lease j [] db = (db, RenewActive)"
| "jobs_lease_renewal pgiv lease j (RenewStop # evs) db = (db, RenewStopped)"
| "jobs_lease_renewal pgiv lease j (RenewTick during ex # evs) db =
     (let db1 = during db;
          iv = pgiv (jobs_postgresInterval lease);
          (rows', tag) = sql_exec ex (renew_stmt (jd_now db1) iv (jb_id j) (jb_claimToken j)) (jd_rows db1);
          db2 = db1\<lparr>jd_rows := rows'\<rparr> in
      case tag of
        None \<Rightarrow> jobs_lease_renewal pgiv lease j evs db2
      | Some n \<Rightarrow> if n \<noteq> 1 then (db2, RenewLost) else jobs_lease_renewal pgiv lease j evs db2)"

datatype run_event = RunDone | RunTick "jobs_db \<Rightarrow> jobs_db" batch_env

datatype run_result = RunReturned "goerr option" | RunPolling | RunPanicked

fun jobs_poll_loop ::
  "(string \<Rightarrow> pg_micros) \<Rightarrow> WorkerConfig \<Rightarrow> (goerr \<Rightarrow> string) \<Rightarrow> (string \<Rightarrow> bool)
     \<Rightarrow> job_handler jobs_registry \<Rightarrow> run_event list \<Rightarrow> jobs_db \<Rightarrow> jobs_db \<times> run_result" where
  "jobs_poll_loop pgiv cfg render text_ok reg [] db = (db, RunPolling)"
| "jobs_poll_loop pgiv cfg render text_ok reg (RunDone # evs) db = (db, RunReturned None)"
| "jobs_poll_loop pgiv cfg render text_ok reg (RunTick during env # evs) db =
     (case jobs_processBatch pgiv cfg render text_ok reg env (during db) of
        (db', BatchPanic) \<Rightarrow> (db', RunPanicked)
      | (db', _) \<Rightarrow> jobs_poll_loop pgiv cfg render text_ok reg evs db')"

definition jobs_Run ::
  "(string \<Rightarrow> pg_micros) \<Rightarrow> WorkerConfig \<Rightarrow> (goerr \<Rightarrow> string) \<Rightarrow> (string \<Rightarrow> bool)
     \<Rightarrow> bool \<Rightarrow> job_handler jobs_registry option \<Rightarrow> run_event list \<Rightarrow> jobs_db \<Rightarrow> jobs_db \<times> run_result" where
  "jobs_Run pgiv cfg render text_ok pool registry evs db =
     (if \<not> pool then (db, RunReturned (Some (ErrMsg ''jobs: worker pool is required'' [])))
      else (case registry of
              None \<Rightarrow> (db, RunReturned (Some (ErrMsg ''jobs: worker registry is required'' [])))
            | Some reg \<Rightarrow> jobs_poll_loop pgiv cfg render text_ok reg evs db))"

end
