(* ===== verification/JobsFleet.thy ===== *)
theory JobsFleet
  imports JobsWorker
begin

text \<open>
  Any number of jobs workers and administrators over one table: the statements of
  \<open>JobsWorker\<close> and \<open>Jobs\<close> as the steps of a relation, in any interleaving, with crashes and
  with renewals that reach the server after the worker has stopped waiting for them. The
  relation refines the lease machine, and so inherits exclusive ownership, lease
  protection and the absence of loss.
\<close>

subsection \<open>Rows after the statements\<close>

lemma owned_row_update:
  assumes "\<And>r. q r \<Longrightarrow> jr_id (f r) = jr_id r"
  shows "find_row jr_id k (fst (sql_update (\<lambda>r. owned_by i t r \<and> q r) f rows)) =
     map_option (\<lambda>r. if k = i \<and> jr_claim_token r = Some t \<and> q r then f r else r) (find_row jr_id k rows)"
proof -
  have "find_row jr_id k (fst (sql_update (\<lambda>r. owned_by i t r \<and> q r) f rows)) =
     map_option (\<lambda>r. if owned_by i t r \<and> q r then f r else r) (find_row jr_id k rows)"
    using assms by (intro find_row_update) simp
  then show ?thesis
    by (cases "find_row jr_id k rows") (auto simp: owned_by_def dest: find_row_SomeD)
qed

lemma fail_stmt_row [row_simps]:
  "find_row jr_id k (fst (fail_stmt i t n msg rows)) =
     map_option (\<lambda>r. if k = i \<and> jr_claim_token r = Some t
        then r\<lparr>jr_attempt := n, jr_last_error := Some msg, jr_locked_until := Some Infinity\<rparr> else r)
       (find_row jr_id k rows)"
  using owned_row_update [of "\<lambda>_. True"] by (simp add: fail_stmt_def)

lemma retry_stmt_row [row_simps]:
  "find_row jr_id k (fst (retry_stmt now i t n ms msg rows)) =
     map_option (\<lambda>r. if k = i \<and> jr_claim_token r = Some t
        then r\<lparr>jr_attempt := n, jr_run_at := now + ms * 1000, jr_locked_until := None,
               jr_claim_token := None, jr_last_error := Some msg\<rparr> else r)
       (find_row jr_id k rows)"
  using owned_row_update [of "\<lambda>_. True"] by (simp add: retry_stmt_def)

lemma renew_stmt_row [row_simps]:
  "find_row jr_id k (fst (renew_stmt now iv i t rows)) =
     map_option (\<lambda>r. if k = i \<and> jr_claim_token r = Some t \<and>
            (case jr_locked_until r of None \<Rightarrow> False | Some u \<Rightarrow> At now < u)
        then r\<lparr>jr_locked_until := Some (At (now + iv))\<rparr> else r)
       (find_row jr_id k rows)"
  unfolding renew_stmt_def by (rule owned_row_update) simp

lemma complete_stmt_row [row_simps]:
  assumes "jobs_pk rows"
  shows "find_row jr_id k (fst (complete_stmt i t rows)) =
     (case find_row jr_id k rows of None \<Rightarrow> None
      | Some r \<Rightarrow> if k = i \<and> jr_claim_token r = Some t then None else Some r)"
proof -
  have d: "distinct (map jr_id rows)" using assms by (simp add: jobs_pk_def)
  show ?thesis
    unfolding complete_stmt_def find_row_delete [OF d]
    by (cases "find_row jr_id k rows") (auto simp: owned_by_def dest: find_row_SomeD)
qed

lemma claim_update_row [row_simps]:
  "find_row jr_id k (fst (claim_update now iv p ids rows)) =
     map_option (\<lambda>r. if k \<in> set ids
        then r\<lparr>jr_locked_until := Some (At (now + iv)), jr_claim_token := Some (claim_token p k)\<rparr>
        else r) (find_row jr_id k rows)"
proof -
  have "find_row jr_id k (fst (claim_update now iv p ids rows)) =
     map_option (\<lambda>r. if jr_id r \<in> set ids
        then r\<lparr>jr_locked_until := Some (At (now + iv)),
               jr_claim_token := Some (claim_token p (jr_id r))\<rparr> else r) (find_row jr_id k rows)"
    unfolding claim_update_def by (rule find_row_update) simp
  then show ?thesis by (cases "find_row jr_id k rows") (auto dest: find_row_SomeD)
qed

lemma owned_by_count:
  assumes "jobs_pk rows"
  shows "length (filter (owned_by i t) rows) =
     (case find_row jr_id i rows of None \<Rightarrow> 0 | Some r \<Rightarrow> if jr_claim_token r = Some t then 1 else 0)"
proof -
  have "owned_by i t = (\<lambda>r. jr_id r = i \<and> jr_claim_token r = Some t)"
    by (simp add: fun_eq_iff owned_by_def)
  then show ?thesis using assms by (simp add: jobs_pk_def filter_key_count)
qed

lemma job_stmt_pk [inv_intros]:
  "jobs_pk rows \<Longrightarrow> jobs_pk (fst (complete_stmt i t rows))"
  "jobs_pk rows \<Longrightarrow> jobs_pk (fst (fail_stmt i t n msg rows))"
  "jobs_pk rows \<Longrightarrow> jobs_pk (fst (retry_stmt now i t n ms msg rows))"
  "jobs_pk rows \<Longrightarrow> jobs_pk (fst (renew_stmt now iv i t rows))"
  "jobs_pk rows \<Longrightarrow> jobs_pk (fst (claim_update now iv p ids rows))"
  by (simp_all add: jobs_pk_def job_stmt_defs claim_update_def sql_update_map sql_delete_distinct)

subsection \<open>What a claim selects\<close>

lemma claim_select_due:
  "i \<in> set (claim_select now limit locked rows) \<Longrightarrow>
     \<exists>r \<in> set rows. jr_id r = i \<and> job_due now r \<and> \<not> locked i"
  by (auto simp: claim_select_def dest!: in_set_takeD)

lemma claim_select_distinct:
  assumes "jobs_pk rows"
  shows "distinct (claim_select now limit locked rows)"
proof -
  let ?due = "filter (\<lambda>r. job_due now r \<and> \<not> locked (jr_id r)) rows"
  have rd: "distinct rows" and inj: "inj_on jr_id (set rows)"
    using assms by (auto simp: jobs_pk_def distinct_map)
  have "distinct (sort_key jr_run_at ?due)" using rd by simp
  moreover have "inj_on jr_id (set (sort_key jr_run_at ?due))"
    using inj by (rule inj_on_subset) auto
  ultimately have "distinct (map jr_id (sort_key jr_run_at ?due))" by (simp add: distinct_map)
  then show ?thesis unfolding claim_select_def take_map [symmetric] by (rule distinct_take)
qed

lemma claim_batch_rows:
  "fst (claim_batch now iv p limit locked rows) =
     fst (claim_update now iv p (claim_select now limit locked rows) rows)"
  by (simp add: claim_batch_def Let_def)

lemma claim_batch_claimed:
  "snd (claim_batch now iv p limit locked rows) =
     map (\<lambda>r. \<lparr>jb_id = jr_id r, jb_name = jr_name r, jb_payload = jr_payload r,
               jb_attempt = jr_attempt r, jb_maxAttempts = jr_max_attempts r,
               jb_claimToken = claim_token p (jr_id r)\<rparr>)
         (filter (\<lambda>r. jr_id r \<in> set (claim_select now limit locked rows)) rows)"
proof -
  have "map scan_claim (filter (\<lambda>r. jr_id r \<in> set ids) (fst (claim_update now iv p ids rows))) =
     map (\<lambda>r. \<lparr>jb_id = jr_id r, jb_name = jr_name r, jb_payload = jr_payload r,
               jb_attempt = jr_attempt r, jb_maxAttempts = jr_max_attempts r,
               jb_claimToken = claim_token p (jr_id r)\<rparr>)
         (filter (\<lambda>r. jr_id r \<in> set ids) rows)" for ids
    by (induction rows) (auto simp: scan_claim_def claim_update_def sql_update_def)
  then show ?thesis by (simp add: claim_batch_def Let_def)
qed

subsection \<open>The fleet\<close>

record jobs_sys =
  js_rows :: "job_row list"
  js_now :: int
  js_running :: "jobRow list"            \<comment> \<open>claimed, outcome not recorded\<close>
  js_sent :: "(string \<times> string) list"    \<comment> \<open>renewals sent, not yet run by the server\<close>
  js_log :: "(string \<times> string) set"      \<comment> \<open>history: every claim issued\<close>
  js_prefixes :: "string set"            \<comment> \<open>history: every claim prefix drawn\<close>

definition jobs_init :: "jobs_sys \<Rightarrow> bool" where
  "jobs_init s \<longleftrightarrow> js_rows s = [] \<and> js_running s = [] \<and> js_sent s = [] \<and> js_log s = {} \<and> js_prefixes s = {}"

definition claim_pair :: "jobRow \<Rightarrow> string \<times> string" where
  "claim_pair j = (jb_id j, jb_claimToken j)"

text \<open>
  A claim draws a prefix no earlier claim of the fleet has drawn (\<open>id.MustUUIDv7\<close>); the tokens it
  hands out are what the statement returns. Each worker has its own lease, and \<open>iv\<close> is a lower bound
  of all of them.
\<close>

inductive jobs_step :: "pg_micros \<Rightarrow> jobs_sys \<Rightarrow> alabel \<Rightarrow> jobs_sys \<Rightarrow> bool" for iv where
  j_tick: "0 \<le> d \<Longrightarrow> jobs_step iv s ATick (s\<lparr>js_now := js_now s + d\<rparr>)"
| j_enqueue: "jobs_insert (js_now s) i nm payload run_at m (js_rows s) = Some rows' \<Longrightarrow> 1 \<le> m \<Longrightarrow>
    jobs_step iv s (AAdd i) (s\<lparr>js_rows := rows'\<rparr>)"
| j_claim: "claim_batch (js_now s) lease p limit locked (js_rows s) = (rows', claimed) \<Longrightarrow>
    p \<notin> js_prefixes s \<Longrightarrow> iv \<le> lease \<Longrightarrow>
    jobs_step iv s (AClaim p (map jb_id claimed))
      (s\<lparr>js_rows := rows', js_running := js_running s @ claimed,
         js_log := js_log s \<union> claim_pair ` set claimed, js_prefixes := insert p (js_prefixes s)\<rparr>)"
| j_send: "j \<in> set (js_running s) \<Longrightarrow>
    jobs_step iv s ASilent (s\<lparr>js_sent := claim_pair j # js_sent s\<rparr>)"
| j_renew: "(i, t) \<in> set (js_sent s) \<Longrightarrow> iv \<le> lease \<Longrightarrow>
    jobs_step iv s (ARenew i t)
      (s\<lparr>js_rows := fst (renew_stmt (js_now s) lease i t (js_rows s)),
         js_sent := remove1 (i, t) (js_sent s)\<rparr>)"
| j_complete: "j \<in> set (js_running s) \<Longrightarrow>
    jobs_step iv s (AComplete (jb_id j) (jb_claimToken j))
      (s\<lparr>js_rows := fst (complete_stmt (jb_id j) (jb_claimToken j) (js_rows s)),
         js_running := remove1 j (js_running s)\<rparr>)"
| j_fail: "j \<in> set (js_running s) \<Longrightarrow> jb_attempt j + 1 \<ge> jb_maxAttempts j \<Longrightarrow>
    jobs_step iv s (AFail (jb_id j) (jb_claimToken j))
      (s\<lparr>js_rows := fst (fail_stmt (jb_id j) (jb_claimToken j) (jb_attempt j + 1) msg (js_rows s)),
         js_running := remove1 j (js_running s)\<rparr>)"
| j_retry: "j \<in> set (js_running s) \<Longrightarrow> jb_attempt j + 1 < jb_maxAttempts j \<Longrightarrow>
    jobs_step iv s (ARetry (jb_id j) (jb_claimToken j))
      (s\<lparr>js_rows := fst (retry_stmt (js_now s) (jb_id j) (jb_claimToken j) (jb_attempt j + 1) ms msg
            (js_rows s)),
         js_running := remove1 j (js_running s)\<rparr>)"
| j_forget: "j \<in> set (js_running s) \<Longrightarrow>
    jobs_step iv s (AForget (jb_id j) (jb_claimToken j)) (s\<lparr>js_running := remove1 j (js_running s)\<rparr>)"
| j_requeue: "jobs_step iv s (ARequeue i) (s\<lparr>js_rows := fst (requeue_stmt i t (js_rows s))\<rparr>)"
| j_discard: "jobs_step iv s (ADiscard i) (s\<lparr>js_rows := fst (discard_stmt i (js_rows s))\<rparr>)"

inductive jobs_reach :: "pg_micros \<Rightarrow> jobs_sys \<Rightarrow> bool" for iv where
  j_start: "jobs_init s \<Longrightarrow> jobs_reach iv s"
| j_step: "jobs_reach iv s \<Longrightarrow> jobs_step iv s l s' \<Longrightarrow> jobs_reach iv s'"

subsection \<open>Abstraction\<close>

definition job_abs :: "job_row \<Rightarrow> arow" where
  "job_abs r =
     \<lparr>ar_ready = (case jr_locked_until r of Some (At u) \<Rightarrow> max (jr_run_at r) u | _ \<Rightarrow> jr_run_at r),
      ar_token = jr_claim_token r, ar_attempt = jr_attempt r, ar_max = jr_max_attempts r,
      ar_dead = job_failed r\<rparr>"

definition jobs_abs :: "jobs_sys \<Rightarrow> asys" where
  "jobs_abs s =
     \<lparr>as_rows = (\<lambda>i. map_option job_abs (find_row jr_id i (js_rows s))), as_now = js_now s,
      as_flight = map claim_pair (js_running s), as_log = js_log s\<rparr>"

lemma jobs_abs_sel [simp]:
  "as_rows (jobs_abs s) i = map_option job_abs (find_row jr_id i (js_rows s))"
  "as_now (jobs_abs s) = js_now s"
  "as_flight (jobs_abs s) = map claim_pair (js_running s)"
  "as_log (jobs_abs s) = js_log s"
  by (simp_all add: jobs_abs_def)

lemma job_abs_sel [simp]:
  "ar_token (job_abs r) = jr_claim_token r" "ar_attempt (job_abs r) = jr_attempt r"
  "ar_max (job_abs r) = jr_max_attempts r" "ar_dead (job_abs r) = job_failed r"
  by (simp_all add: job_abs_def)

lemma job_due_claimable: "job_due now r \<longleftrightarrow> claimable now (job_abs r)"
proof (cases "jr_locked_until r")
  case (Some u)
  then show ?thesis by (cases u) (auto simp: job_due_def claimable_def job_abs_def job_failed_def)
qed (auto simp: job_due_def claimable_def job_abs_def job_failed_def)

text \<open>The invariant of the fleet: the primary key, held rows were due when they were
  claimed, tokens are disciplined and made of drawn prefixes, and a running claim that still owns its row read the
  row's current attempt.\<close>

definition jobs_inv :: "jobs_sys \<Rightarrow> bool" where
  "jobs_inv s \<longleftrightarrow>
     jobs_pk (js_rows s) \<and>
     (\<forall>i r. find_row jr_id i (js_rows s) = Some r \<longrightarrow> jr_claim_token r \<noteq> None \<longrightarrow>
        jr_run_at r \<le> js_now s) \<and>
     token_inv (jobs_abs s) \<and>
     set (js_sent s) \<subseteq> js_log s \<and>
     (\<forall>(i, t) \<in> js_log s. \<exists>q \<in> js_prefixes s. t = claim_token q i) \<and>
     (\<forall>j \<in> set (js_running s). \<forall>r. find_row jr_id (jb_id j) (js_rows s) = Some r \<longrightarrow>
        jr_claim_token r = Some (jb_claimToken j) \<longrightarrow>
        jr_attempt r = jb_attempt j \<and> jr_max_attempts r = jb_maxAttempts j)"

lemma jobs_invD:
  assumes "jobs_inv s"
  shows "jobs_pk (js_rows s)"
    and "find_row jr_id i (js_rows s) = Some r \<Longrightarrow> jr_claim_token r \<noteq> None \<Longrightarrow> jr_run_at r \<le> js_now s"
    and "token_inv (jobs_abs s)"
    and "set (js_sent s) \<subseteq> js_log s"
    and "j \<in> set (js_running s) \<Longrightarrow> find_row jr_id (jb_id j) (js_rows s) = Some r \<Longrightarrow>
      jr_claim_token r = Some (jb_claimToken j) \<Longrightarrow>
      jr_attempt r = jb_attempt j \<and> jr_max_attempts r = jb_maxAttempts j"
    and "distinct (map claim_pair (js_running s))"
    and "claim_pair ` set (js_running s) \<subseteq> js_log s"
    and "p \<notin> js_prefixes s \<Longrightarrow> (i, claim_token p i) \<notin> js_log s"
  using assms token_invD(1,2) [of "jobs_abs s"]
  by (auto simp: jobs_inv_def) (fastforce dest: claim_token_inj)

lemma flight_remove1:
  assumes "jobs_inv s" and "j \<in> set (js_running s)"
  shows "map claim_pair (remove1 j (js_running s)) =
    remove1 (jb_id j, jb_claimToken j) (map claim_pair (js_running s))"
  using map_remove1_distinct [OF jobs_invD(6) [OF assms(1)] assms(2)] by (simp add: claim_pair_def)

lemma flight_mem:
  "j \<in> set (js_running s) \<Longrightarrow> (jb_id j, jb_claimToken j) \<in> set (as_flight (jobs_abs s))"
  by (force simp: claim_pair_def)

subsection \<open>Simulation\<close>

text \<open>An outcome statement of a claim that lost its row changes nothing but the set of
  running claims.\<close>

lemma sim_stale:
  assumes "jobs_inv s" and "j \<in> set (js_running s)"
    and "\<And>k. map_option job_abs (find_row jr_id k rows') = map_option job_abs (find_row jr_id k (js_rows s))"
  shows "astep rv (jobs_abs s) (AForget (jb_id j) (jb_claimToken j))
    (jobs_abs (s\<lparr>js_rows := rows', js_running := remove1 j (js_running s)\<rparr>))"
  by (rule astep_to [OF astep.forget [OF flight_mem [OF assms(2)]]])
     (rule asys_eqI, simp_all add: assms(3) flight_remove1 [OF assms(1,2)])

lemma sim_complete:
  assumes inv: "jobs_inv s" and j: "j \<in> set (js_running s)"
    and own: "find_row jr_id (jb_id j) (js_rows s) = Some r" "jr_claim_token r = Some (jb_claimToken j)"
  shows "astep rv (jobs_abs s) (AComplete (jb_id j) (jb_claimToken j))
    (jobs_abs (s\<lparr>js_rows := fst (complete_stmt (jb_id j) (jb_claimToken j) (js_rows s)),
                js_running := remove1 j (js_running s)\<rparr>))"
proof (rule astep_to [OF astep.complete [OF flight_mem [OF j]]])
  show "owns (jobs_abs s) (jb_id j) (jb_claimToken j)" using own by (simp add: owns_def)
qed (rule asys_eqI, simp_all add: flight_remove1 [OF inv j] complete_stmt_row jobs_invD(1) [OF inv] own
      split: option.split)

lemma sim_fail:
  assumes inv: "jobs_inv s" and j: "j \<in> set (js_running s)" "jb_attempt j + 1 \<ge> jb_maxAttempts j"
    and own: "find_row jr_id (jb_id j) (js_rows s) = Some r" "jr_claim_token r = Some (jb_claimToken j)"
  shows "astep rv (jobs_abs s) (AFail (jb_id j) (jb_claimToken j))
    (jobs_abs (s\<lparr>js_rows := fst (fail_stmt (jb_id j) (jb_claimToken j) (jb_attempt j + 1) msg (js_rows s)),
                js_running := remove1 j (js_running s)\<rparr>))"
proof (rule astep_to [OF astep.fail [where r = "job_abs r" and ready = "jr_run_at r", OF flight_mem [OF j(1)]]])
  have m: "jr_attempt r = jb_attempt j" "jr_max_attempts r = jb_maxAttempts j"
    using jobs_invD(5) [OF inv j(1) own] by auto
  show "ar_max (job_abs r) \<le> ar_attempt (job_abs r) + 1" using j m by simp
  show "jobs_abs (s\<lparr>js_rows := fst (fail_stmt (jb_id j) (jb_claimToken j) (jb_attempt j + 1) msg (js_rows s)),
                js_running := remove1 j (js_running s)\<rparr>) =
    jobs_abs s\<lparr>as_rows := (as_rows (jobs_abs s))(jb_id j \<mapsto> job_abs r
        \<lparr>ar_attempt := ar_attempt (job_abs r) + 1, ar_ready := jr_run_at r, ar_dead := True\<rparr>),
      as_flight := remove1 (jb_id j, jb_claimToken j) (as_flight (jobs_abs s))\<rparr>"
    by (rule asys_eqI)
       (auto simp: flight_remove1 [OF inv j(1)] fail_stmt_row own m job_abs_def job_failed_def)
qed (use own in simp_all)

lemma sim_retry:
  assumes inv: "jobs_inv s" and j: "j \<in> set (js_running s)" "jb_attempt j + 1 < jb_maxAttempts j"
    and own: "find_row jr_id (jb_id j) (js_rows s) = Some r" "jr_claim_token r = Some (jb_claimToken j)"
  shows "astep rv (jobs_abs s) (ARetry (jb_id j) (jb_claimToken j))
    (jobs_abs (s\<lparr>js_rows := fst (retry_stmt (js_now s) (jb_id j) (jb_claimToken j) (jb_attempt j + 1) ms msg (js_rows s)),
                js_running := remove1 j (js_running s)\<rparr>))"
proof (rule astep_to [OF astep.retry [where r = "job_abs r" and ready = "js_now s + ms * 1000", OF flight_mem [OF j(1)]]])
  have m: "jr_attempt r = jb_attempt j" "jr_max_attempts r = jb_maxAttempts j"
    using jobs_invD(5) [OF inv j(1) own] by auto
  have live: "jr_locked_until r \<noteq> Some Infinity"
    using token_invD(4) [OF jobs_invD(3) [OF inv], of "jb_id j" "job_abs r" "jb_claimToken j"]
      own flight_mem [OF j(1)] by (auto simp: job_failed_def)
  show "ar_attempt (job_abs r) + 1 < ar_max (job_abs r)" using j m by simp
  show "jobs_abs (s\<lparr>js_rows := fst (retry_stmt (js_now s) (jb_id j) (jb_claimToken j) (jb_attempt j + 1) ms msg (js_rows s)),
                js_running := remove1 j (js_running s)\<rparr>) =
    jobs_abs s\<lparr>as_rows := (as_rows (jobs_abs s))(jb_id j \<mapsto> job_abs r
        \<lparr>ar_attempt := ar_attempt (job_abs r) + 1, ar_ready := js_now s + ms * 1000, ar_token := None\<rparr>),
      as_flight := remove1 (jb_id j, jb_claimToken j) (as_flight (jobs_abs s))\<rparr>"
    using live
    by (intro asys_eqI)
       (auto simp: flight_remove1 [OF inv j(1)] retry_stmt_row own m job_abs_def job_failed_def)
qed (use own in simp_all)

lemma sim_renew:
  assumes inv: "jobs_inv s" and sent: "(i, t) \<in> set (js_sent s)" and iv: "0 \<le> iv"
  defines "s' \<equiv> s\<lparr>js_rows := fst (renew_stmt (js_now s) iv i t (js_rows s)),
         js_sent := remove1 (i, t) (js_sent s)\<rparr>"
  shows "jobs_abs s' = jobs_abs s \<or> astep True (jobs_abs s) (ARenew i t) (jobs_abs s')"
proof (cases "\<exists>r u. find_row jr_id i (js_rows s) = Some r \<and> jr_claim_token r = Some t \<and>
    jr_locked_until r = Some u \<and> At (js_now s) < u")
  case True
  then obtain r u where r: "find_row jr_id i (js_rows s) = Some r" "jr_claim_token r = Some t"
    "jr_locked_until r = Some u" "At (js_now s) < u" by blast
  have due: "jr_run_at r \<le> js_now s" using jobs_invD(2) [OF inv r(1)] r(2) by simp
  have "astep True (jobs_abs s) (ARenew i t) (jobs_abs s')"
  proof (rule astep_to [OF astep.renew [where r = "job_abs r" and lease = iv]])
    show "(i, t) \<in> as_log (jobs_abs s)" using sent jobs_invD(4) [OF inv] by auto
    show "as_now (jobs_abs s) < ar_ready (job_abs r) \<or> ar_dead (job_abs r)"
      using r by (cases u) (auto simp: job_abs_def job_failed_def)
    show "jobs_abs s' = jobs_abs s\<lparr>as_rows := (as_rows (jobs_abs s))(i \<mapsto> job_abs r
        \<lparr>ar_ready := as_now (jobs_abs s) + iv, ar_dead := False\<rparr>)\<rparr>"
      using r due iv unfolding s'_def
      by (intro asys_eqI) (auto simp: renew_stmt_row job_abs_def job_failed_def)
  qed (use r in simp_all)
  then show ?thesis ..
next
  case False
  have "jobs_abs s' = jobs_abs s"
  proof (rule asys_eqI)
    fix k
    show "as_rows (jobs_abs s') k = as_rows (jobs_abs s) k"
      using False
      by (cases "find_row jr_id k (js_rows s)")
         (auto simp: s'_def renew_stmt_row split: option.splits)
  qed (simp_all add: s'_def)
  then show ?thesis ..
qed

lemma claimed_ids:
  assumes "claim_batch now iv p limit locked rows = (rows', claimed)"
  shows "set (map jb_id claimed) = set (claim_select now limit locked rows)"
    and "rows' = fst (claim_update now iv p (map jb_id claimed) rows)"
    and "map claim_pair claimed = map (\<lambda>i. (i, claim_token p i)) (map jb_id claimed)"
    and "jobs_pk rows \<Longrightarrow> distinct (map jb_id claimed)"
proof -
  let ?sel = "claim_select now limit locked rows"
  have c: "claimed = map (\<lambda>r. \<lparr>jb_id = jr_id r, jb_name = jr_name r, jb_payload = jr_payload r,
               jb_attempt = jr_attempt r, jb_maxAttempts = jr_max_attempts r,
               jb_claimToken = claim_token p (jr_id r)\<rparr>) (filter (\<lambda>r. jr_id r \<in> set ?sel) rows)"
    using claim_batch_claimed [of now iv p limit locked rows] assms by simp
  have ids: "map jb_id claimed = map jr_id (filter (\<lambda>r. jr_id r \<in> set ?sel) rows)"
    by (simp add: c)
  show "map claim_pair claimed = map (\<lambda>i. (i, claim_token p i)) (map jb_id claimed)"
    by (simp add: c claim_pair_def)
  show st: "set (map jb_id claimed) = set ?sel"
    using claim_select_due [of _ now limit locked rows] unfolding ids by fastforce
  have "claim_update now iv p ?sel rows = claim_update now iv p (map jb_id claimed) rows"
    unfolding claim_update_def st ..
  then show "rows' = fst (claim_update now iv p (map jb_id claimed) rows)"
    using claim_batch_rows [of now iv p limit locked rows] assms by simp
  show "jobs_pk rows \<Longrightarrow> distinct (map jb_id claimed)"
    unfolding ids jobs_pk_def by (rule distinct_map_filter)
qed

lemma sim_claim:
  assumes inv: "jobs_inv s" and iv: "0 \<le> iv"
    and c: "claim_batch (js_now s) iv p limit locked (js_rows s) = (rows', claimed)"
    and fresh: "p \<notin> js_prefixes s"
  shows "astep rv (jobs_abs s) (AClaim p (map jb_id claimed))
    (jobs_abs (s\<lparr>js_rows := rows', js_running := js_running s @ claimed,
                js_log := js_log s \<union> claim_pair ` set claimed, js_prefixes := P\<rparr>))"
proof (rule astep_to [OF astep.claim [where lease = iv]])
  note ids = claimed_ids [OF c]
  have due: "\<exists>r. find_row jr_id i (js_rows s) = Some r \<and> job_due (js_now s) r"
    if "i \<in> set (map jb_id claimed)" for i
    using that claim_select_due [of i "js_now s" limit locked "js_rows s"] jobs_invD(1) [OF inv]
    unfolding ids(1) jobs_pk_def by (auto simp: find_row_iff)
  show "distinct (map jb_id claimed)" by (rule ids(4) [OF jobs_invD(1) [OF inv]])
  show "\<forall>i \<in> set (map jb_id claimed). \<exists>r. as_rows (jobs_abs s) i = Some r \<and> claimable (as_now (jobs_abs s)) r"
    using due by (force simp: job_due_claimable)
  have pairs: "claim_pair ` set claimed = (\<lambda>i. (i, claim_token p i)) ` set (map jb_id claimed)"
    using arg_cong [OF ids(3), of set] by (simp add: image_image)
  show "\<forall>i \<in> set (map jb_id claimed). (i, claim_token p i) \<notin> as_log (jobs_abs s)"
    using jobs_invD(8) [OF inv fresh] by simp
  show "jobs_abs (s\<lparr>js_rows := rows', js_running := js_running s @ claimed,
                js_log := js_log s \<union> claim_pair ` set claimed, js_prefixes := P\<rparr>) =
    jobs_abs s\<lparr>as_rows := a_take (as_now (jobs_abs s) + iv) p (map jb_id claimed) (as_rows (jobs_abs s)),
       as_flight := as_flight (jobs_abs s) @ map (\<lambda>i. (i, claim_token p i)) (map jb_id claimed),
       as_log := as_log (jobs_abs s) \<union> (\<lambda>i. (i, claim_token p i)) ` set (map jb_id claimed)\<rparr>"
  proof (rule asys_eqI, goal_cases)
    case (1 i)
    show ?case
    proof (cases "i \<in> set (map jb_id claimed)")
      case True
      from due [OF this] obtain r where r: "find_row jr_id i (js_rows s) = Some r"
        "jr_run_at r \<le> js_now s" "\<not> job_failed r"
        by (force simp: job_due_def job_failed_def)
      with True iv show ?thesis
        by (simp add: ids(2) claim_update_row a_take_def job_abs_def job_failed_def)
    next
      case False
      then show ?thesis by (simp add: ids(2) claim_update_row a_take_def del: set_map)
    qed
  next
    case 3
    show ?case using ids(3) by simp
  next
    case 4
    show ?case using pairs by simp
  qed simp
qed

lemma sim_enqueue:
  assumes "jobs_insert (js_now s) i nm payload run_at m (js_rows s) = Some rows'" and "1 \<le> m"
  shows "astep rv (jobs_abs s) (AAdd i) (jobs_abs (s\<lparr>js_rows := rows'\<rparr>))"
proof -
  define r where "r = \<lparr>jr_id = i, jr_name = nm, jr_payload = payload, jr_run_at = run_at,
    jr_attempt = 0, jr_max_attempts = m, jr_last_error = None, jr_locked_until = None,
    jr_claim_token = None, jr_created_at = js_now s\<rparr>"
  have rows': "rows' = js_rows s @ [r]" and new: "find_row jr_id i (js_rows s) = None"
    using assms(1) by (auto simp: jobs_insert_def r_def find_row_None_iff split: if_splits)
  show ?thesis
  proof (rule astep_to [OF astep.add [where r = "job_abs r"]])
    show "jobs_abs (s\<lparr>js_rows := rows'\<rparr>) =
      jobs_abs s\<lparr>as_rows := (as_rows (jobs_abs s))(i \<mapsto> job_abs r)\<rparr>"
      by (rule asys_eqI) (auto simp: rows' new r_def split: option.split)
  qed (use new assms(2) in \<open>simp_all add: r_def job_failed_def\<close>)
qed

lemma sim_requeue:
  "jobs_abs (s\<lparr>js_rows := fst (requeue_stmt i t (js_rows s))\<rparr>) = jobs_abs s \<or>
   astep rv (jobs_abs s) (ARequeue i) (jobs_abs (s\<lparr>js_rows := fst (requeue_stmt i t (js_rows s))\<rparr>))"
proof (cases "\<exists>r. find_row jr_id i (js_rows s) = Some r \<and> job_failed r")
  case True
  then obtain r where r: "find_row jr_id i (js_rows s) = Some r" "job_failed r" by blast
  have "astep rv (jobs_abs s) (ARequeue i) (jobs_abs (s\<lparr>js_rows := fst (requeue_stmt i t (js_rows s))\<rparr>))"
  proof (rule astep_to [OF astep.requeue [where r = "job_abs r" and ready = t]])
    show "jobs_abs (s\<lparr>js_rows := fst (requeue_stmt i t (js_rows s))\<rparr>) =
      jobs_abs s\<lparr>as_rows := (as_rows (jobs_abs s))(i \<mapsto> job_abs r\<lparr>ar_ready := t, ar_token := None,
         ar_attempt := 0, ar_dead := False\<rparr>)\<rparr>"
      using r by (intro asys_eqI) (auto simp: requeue_stmt_row job_abs_def job_failed_def)
  qed (use r in simp_all)
  then show ?thesis ..
next
  case False
  have "jobs_abs (s\<lparr>js_rows := fst (requeue_stmt i t (js_rows s))\<rparr>) = jobs_abs s"
  proof (rule asys_eqI)
    fix k
    show "as_rows (jobs_abs (s\<lparr>js_rows := fst (requeue_stmt i t (js_rows s))\<rparr>)) k = as_rows (jobs_abs s) k"
      using False by (cases "find_row jr_id k (js_rows s)") (auto simp: requeue_stmt_row)
  qed simp_all
  then show ?thesis ..
qed

lemma sim_discard:
  assumes "jobs_inv s"
  shows "jobs_abs (s\<lparr>js_rows := fst (discard_stmt i (js_rows s))\<rparr>) = jobs_abs s \<or>
   astep rv (jobs_abs s) (ADiscard i) (jobs_abs (s\<lparr>js_rows := fst (discard_stmt i (js_rows s))\<rparr>))"
proof (cases "\<exists>r. find_row jr_id i (js_rows s) = Some r \<and> job_failed r")
  case True
  then obtain r where r: "find_row jr_id i (js_rows s) = Some r" "job_failed r" by blast
  have "astep rv (jobs_abs s) (ADiscard i) (jobs_abs (s\<lparr>js_rows := fst (discard_stmt i (js_rows s))\<rparr>))"
  proof (rule astep_to [OF astep.discard [where r = "job_abs r"]])
    show "jobs_abs (s\<lparr>js_rows := fst (discard_stmt i (js_rows s))\<rparr>) =
      jobs_abs s\<lparr>as_rows := (as_rows (jobs_abs s))(i := None)\<rparr>"
      using r by (intro asys_eqI)
        (auto simp: discard_stmt_row [OF jobs_invD(1) [OF assms]] split: option.split)
  qed (use r in simp_all)
  then show ?thesis ..
next
  case False
  have "jobs_abs (s\<lparr>js_rows := fst (discard_stmt i (js_rows s))\<rparr>) = jobs_abs s"
    using False by (intro asys_eqI)
      (auto simp: discard_stmt_row [OF jobs_invD(1) [OF assms]] split: option.split)
  then show ?thesis ..
qed

lemma settle_cases:
  assumes "jobs_inv s" and "j \<in> set (js_running s)"
  obtains (own) r where "find_row jr_id (jb_id j) (js_rows s) = Some r"
      "jr_claim_token r = Some (jb_claimToken j)"
  | (lost) "\<And>r. find_row jr_id (jb_id j) (js_rows s) = Some r \<Longrightarrow>
      jr_claim_token r \<noteq> Some (jb_claimToken j)"
  by blast

lemma stale_rows:
  assumes "\<And>r. find_row jr_id i rows = Some r \<Longrightarrow> jr_claim_token r \<noteq> Some t" and "jobs_pk rows"
  shows "fst (fail_stmt i t n msg rows) = rows" and "fst (retry_stmt now i t n ms msg rows) = rows"
    and "fst (complete_stmt i t rows) = rows"
proof -
  have none: "\<forall>r \<in> set rows. \<not> owned_by i t r"
    using assms by (auto simp: owned_by_def jobs_pk_def find_row_iff)
  then show "fst (fail_stmt i t n msg rows) = rows" "fst (retry_stmt now i t n ms msg rows) = rows"
    "fst (complete_stmt i t rows) = rows"
    by (simp_all add: fail_stmt_def retry_stmt_def complete_stmt_def)
qed

lemma jobs_simulates:
  assumes "jobs_step iv s l s'" and "jobs_inv s" and "0 \<le> iv"
  shows "jobs_abs s' = jobs_abs s \<or>
    (\<exists>k. astep True (jobs_abs s) k (jobs_abs s') \<and> (k = l \<or> (\<exists>i t. k = AForget i t)))"
  using assms
proof (induction rule: jobs_step.induct)
  case (j_tick d s)
  have "astep True (jobs_abs s) ATick (jobs_abs (s\<lparr>js_now := js_now s + d\<rparr>))"
    by (rule astep_to [OF astep.tick [OF j_tick.hyps]]) (rule asys_eqI, simp_all)
  then show ?case by blast
next
  case (j_enqueue s i nm payload run_at m rows')
  then show ?case by (blast intro: sim_enqueue)
next
  case (j_claim s lease p limit locked rows' claimed)
  then have "0 \<le> lease" by simp
  from sim_claim [OF j_claim.prems(1) this j_claim.hyps(1,2)] show ?case by blast
next
  case (j_send j s)
  have "jobs_abs (s\<lparr>js_sent := claim_pair j # js_sent s\<rparr>) = jobs_abs s" by (rule asys_eqI) simp_all
  then show ?case ..
next
  case (j_renew i t s lease)
  then show ?case using sim_renew [of s i t lease] by force
next
  case (j_complete j s)
  note pk = jobs_invD(1) [OF \<open>jobs_inv s\<close>]
  show ?case
  proof (rule settle_cases [OF j_complete.prems(1) j_complete.hyps])
    fix r assume "find_row jr_id (jb_id j) (js_rows s) = Some r" "jr_claim_token r = Some (jb_claimToken j)"
    from sim_complete [OF j_complete.prems(1) j_complete.hyps this] show ?case by blast
  next
    assume "\<And>r. find_row jr_id (jb_id j) (js_rows s) = Some r \<Longrightarrow> jr_claim_token r \<noteq> Some (jb_claimToken j)"
    from stale_rows(3) [OF this pk]
    show ?case using sim_stale [OF j_complete.prems(1) j_complete.hyps] by force
  qed
next
  case (j_fail j s msg)
  note pk = jobs_invD(1) [OF \<open>jobs_inv s\<close>]
  show ?case
  proof (rule settle_cases [OF j_fail.prems(1) j_fail.hyps(1)])
    fix r assume "find_row jr_id (jb_id j) (js_rows s) = Some r" "jr_claim_token r = Some (jb_claimToken j)"
    from sim_fail [OF j_fail.prems(1) j_fail.hyps this] show ?case by blast
  next
    assume "\<And>r. find_row jr_id (jb_id j) (js_rows s) = Some r \<Longrightarrow> jr_claim_token r \<noteq> Some (jb_claimToken j)"
    from stale_rows(1) [OF this pk]
    show ?case using sim_stale [OF j_fail.prems(1) j_fail.hyps(1)] by force
  qed
next
  case (j_retry j s ms msg)
  note pk = jobs_invD(1) [OF \<open>jobs_inv s\<close>]
  show ?case
  proof (rule settle_cases [OF j_retry.prems(1) j_retry.hyps(1)])
    fix r assume "find_row jr_id (jb_id j) (js_rows s) = Some r" "jr_claim_token r = Some (jb_claimToken j)"
    from sim_retry [OF j_retry.prems(1) j_retry.hyps this] show ?case by blast
  next
    assume "\<And>r. find_row jr_id (jb_id j) (js_rows s) = Some r \<Longrightarrow> jr_claim_token r \<noteq> Some (jb_claimToken j)"
    from stale_rows(2) [OF this pk]
    show ?case using sim_stale [OF j_retry.prems(1) j_retry.hyps(1)] by force
  qed
next
  case (j_forget j s)
  have "astep True (jobs_abs s) (AForget (jb_id j) (jb_claimToken j))
      (jobs_abs (s\<lparr>js_rows := js_rows s, js_running := remove1 j (js_running s)\<rparr>))"
    by (rule sim_stale [OF j_forget.prems(1) j_forget.hyps]) simp
  then show ?case by auto
next
  case (j_requeue s i t)
  then show ?case using sim_requeue by blast
next
  case (j_discard s i)
  then show ?case using sim_discard by blast
qed

subsection \<open>The invariant holds in every reachable state\<close>

lemma jobs_token_step:
  assumes "jobs_step iv s l s'" and "jobs_inv s" and "0 \<le> iv"
  shows "token_inv (jobs_abs s')"
  using jobs_simulates [OF assms] jobs_invD(3) [OF assms(2)] by (auto intro: token_inv_step)

lemma jobs_pk_step: "jobs_step iv s l s' \<Longrightarrow> jobs_pk (js_rows s) \<Longrightarrow> jobs_pk (js_rows s')"
proof (induction rule: jobs_step.induct)
  case (j_enqueue s i nm payload run_at m rows')
  then show ?case by (auto dest: jobs_insert_pk)
next
  case (j_claim s lease p limit locked rows' claimed)
  then show ?case using claimed_ids(2) [OF j_claim.hyps(1)] by (simp add: job_stmt_pk)
qed (simp_all add: job_stmt_pk requeue_stmt_pk discard_stmt_pk)

lemma jobs_held_step:
  assumes "jobs_step iv s l s'" and "jobs_inv s"
  shows "find_row jr_id i (js_rows s') = Some r \<Longrightarrow> jr_claim_token r \<noteq> None \<Longrightarrow> jr_run_at r \<le> js_now s'"
  using assms
proof (induction arbitrary: r rule: jobs_step.induct)
  case (j_tick d s)
  then show ?case using jobs_invD(2) [OF j_tick.prems(3), of i r] by simp
next
  case (j_enqueue s k nm payload run_at m rows')
  then show ?case
    using jobs_invD(2) [OF j_enqueue.prems(3), of i]
    by (auto simp: jobs_insert_def split: if_splits option.splits)
next
  case (j_claim s lease p limit locked rows' claimed)
  note ids = claimed_ids [OF j_claim.hyps(1)]
  obtain r0 where r0: "find_row jr_id i (js_rows s) = Some r0" "jr_run_at r = jr_run_at r0"
    "i \<notin> set (map jb_id claimed) \<Longrightarrow> r = r0"
    using j_claim.prems(1) by (auto simp: ids(2) claim_update_row split: if_splits)
  show ?case
  proof (cases "i \<in> set (map jb_id claimed)")
    case True
    then have "i \<in> set (claim_select (js_now s) limit locked (js_rows s))" using ids(1) by simp
    from claim_select_due [OF this] obtain r1 where r1: "r1 \<in> set (js_rows s)" "jr_id r1 = i"
      "job_due (js_now s) r1" by blast
    then have "find_row jr_id i (js_rows s) = Some r1"
      using jobs_invD(1) [OF j_claim.prems(3)] by (simp add: find_row_iff jobs_pk_def)
    with r0 r1 show ?thesis by (simp add: job_due_def)
  next
    case False
    then show ?thesis using r0 j_claim.prems jobs_invD(2) [OF j_claim.prems(3), of i r0] by simp
  qed
next
  case (j_complete j s)
  then show ?case
    using jobs_invD(2) [OF j_complete.prems(3), of i r] jobs_invD(1) [OF j_complete.prems(3)]
    by (auto simp: complete_stmt_row split: option.splits if_splits)
next
  case (j_discard s k)
  then show ?case
    using jobs_invD(2) [OF j_discard.prems(3), of i r] jobs_invD(1) [OF j_discard.prems(3)]
    by (auto simp: discard_stmt_row split: option.splits if_splits)
qed (use jobs_invD(2) in \<open>fastforce simp: fail_stmt_row retry_stmt_row renew_stmt_row requeue_stmt_row
       split: if_splits\<close>)+

definition reads_current :: "jobRow \<Rightarrow> job_row list \<Rightarrow> bool" where
  "reads_current j rows \<longleftrightarrow>
     (\<forall>r. find_row jr_id (jb_id j) rows = Some r \<longrightarrow> jr_claim_token r = Some (jb_claimToken j) \<longrightarrow>
        jr_attempt r = jb_attempt j \<and> jr_max_attempts r = jb_maxAttempts j)"

lemma jobs_inv_reads: "jobs_inv s \<Longrightarrow> j \<in> set (js_running s) \<Longrightarrow> reads_current j (js_rows s)"
  by (simp add: jobs_inv_def reads_current_def)

lemma other_running:
  assumes "jobs_inv s" and "j0 \<in> set (js_running s)" and "j \<in> set (remove1 j0 (js_running s))"
  shows "j \<in> set (js_running s)" and "claim_pair j \<noteq> claim_pair j0"
proof -
  have d: "distinct (map claim_pair (js_running s))" by (rule jobs_invD(6) [OF assms(1)])
  show m: "j \<in> set (js_running s)" using assms(3) set_remove1_subset by force
  have "j \<noteq> j0" using assms(3) d by (auto simp: distinct_map)
  then show "claim_pair j \<noteq> claim_pair j0"
    using d m assms(2) by (auto simp: distinct_map dest: inj_onD)
qed

lemma reads_current_claim:
  assumes inv: "jobs_inv s"
    and c: "claim_batch (js_now s) iv p limit locked (js_rows s) = (rows', claimed)"
    and fresh: "p \<notin> js_prefixes s"
    and j: "j \<in> set (js_running s @ claimed)"
  shows "reads_current j rows'"
  unfolding reads_current_def
proof (intro allI impI)
  fix r assume r: "find_row jr_id (jb_id j) rows' = Some r" "jr_claim_token r = Some (jb_claimToken j)"
  note ids = claimed_ids [OF c]
  obtain r0 where find: "find_row jr_id (jb_id j) (js_rows s) = Some r0"
    and upd: "r = (if jb_id j \<in> set (map jb_id claimed)
       then r0\<lparr>jr_locked_until := Some (At (js_now s + iv)),
               jr_claim_token := Some (claim_token p (jb_id j))\<rparr> else r0)"
    using r(1) by (auto simp: ids(2) claim_update_row simp del: set_map)
  have r0: "find_row jr_id (jb_id j) (js_rows s) = Some r0"
    "jr_attempt r = jr_attempt r0" "jr_max_attempts r = jr_max_attempts r0"
    "jb_id j \<notin> set (map jb_id claimed) \<Longrightarrow> r = r0"
    "jb_id j \<in> set (map jb_id claimed) \<Longrightarrow> jr_claim_token r = Some (claim_token p (jb_id j))"
    using find by (simp_all add: upd del: set_map)
  show "jr_attempt r = jb_attempt j \<and> jr_max_attempts r = jb_maxAttempts j"
  proof (cases "j \<in> set claimed")
    case True
    then obtain r1 where r1: "r1 \<in> set (js_rows s)" "jr_id r1 = jb_id j"
      "jb_attempt j = jr_attempt r1" "jb_maxAttempts j = jr_max_attempts r1"
      using claim_batch_claimed [of "js_now s" iv p limit locked "js_rows s"] c by auto
    then have "find_row jr_id (jb_id j) (js_rows s) = Some r1"
      using jobs_invD(1) [OF inv] by (simp add: find_row_iff jobs_pk_def)
    with r0 r1 show ?thesis by simp
  next
    case False
    then have run: "j \<in> set (js_running s)" using j by simp
    have "jb_id j \<notin> set (map jb_id claimed)"
    proof
      assume i: "jb_id j \<in> set (map jb_id claimed)"
      have "(jb_id j, jb_claimToken j) \<in> js_log s"
        using jobs_invD(7) [OF inv] run by (auto simp: claim_pair_def)
      then show False using r0(5) [OF i] r(2) jobs_invD(8) [OF inv fresh] by simp
    qed
    then have "r = r0" by (rule r0(4))
    then show ?thesis using jobs_inv_reads [OF inv run] r0(1) r(2) by (auto simp: reads_current_def)
  qed
qed

lemma jobs_reads_step:
  assumes "jobs_step iv s l s'" and "jobs_inv s" and "j \<in> set (js_running s')"
  shows "reads_current j (js_rows s')"
  using assms
proof (induction rule: jobs_step.induct)
  case (j_enqueue s i nm payload run_at m rows')
  then have "reads_current j (js_rows s)" by (simp add: jobs_inv_reads)
  then show ?case using j_enqueue.hyps(1)
    by (auto simp: reads_current_def jobs_insert_def split: if_splits option.splits)
next
  case (j_claim s lease p limit locked rows' claimed)
  then show ?case using reads_current_claim [of s lease p limit locked rows' claimed j] by simp
next
  case (j_complete j0 s)
  then have "reads_current j (js_rows s)" using other_running(1) [of s j0 j] by (simp add: jobs_inv_reads)
  then show ?case using jobs_invD(1) [OF j_complete.prems(1)]
    by (auto simp: reads_current_def complete_stmt_row split: option.splits if_splits)
next
  case (j_fail j0 s msg)
  then have "reads_current j (js_rows s)" "claim_pair j \<noteq> claim_pair j0"
    using other_running [of s j0 j] by (simp_all add: jobs_inv_reads)
  then show ?case
    by (auto simp: reads_current_def fail_stmt_row claim_pair_def split: if_splits)
next
  case (j_retry j0 s ms msg)
  then have "reads_current j (js_rows s)" using other_running(1) [of s j0 j] by (simp add: jobs_inv_reads)
  then show ?case by (auto simp: reads_current_def retry_stmt_row split: if_splits)
next
  case (j_forget j0 s)
  then show ?case using other_running(1) [of s j0 j] by (simp add: jobs_inv_reads)
next
  case (j_renew i t s lease)
  then have "reads_current j (js_rows s)" by (simp add: jobs_inv_reads)
  then show ?case by (auto simp: reads_current_def renew_stmt_row split: if_splits)
next
  case (j_requeue s i t)
  then have "reads_current j (js_rows s)" by (simp add: jobs_inv_reads)
  then show ?case by (auto simp: reads_current_def requeue_stmt_row split: if_splits)
next
  case (j_discard s i)
  then have "reads_current j (js_rows s)" by (simp add: jobs_inv_reads)
  then show ?case using jobs_invD(1) [OF j_discard.prems(1)]
    by (auto simp: reads_current_def discard_stmt_row split: option.splits if_splits)
qed (simp_all add: jobs_inv_reads)

lemma jobs_sent_step:
  assumes "jobs_step iv s l s'" and "jobs_inv s"
  shows "set (js_sent s') \<subseteq> js_log s'"
  using assms
proof (induction rule: jobs_step.induct)
  case (j_send j s)
  then show ?case using jobs_invD(4,7) [OF j_send.prems] by auto
next
  case (j_renew i t s lease)
  then show ?case using jobs_invD(4) [OF j_renew.prems] set_remove1_subset [of "(i, t)" "js_sent s"] by auto
qed (use jobs_invD(4) in auto)

lemma jobs_prefix_step:
  assumes "jobs_step iv s l s'" and "jobs_inv s"
  shows "\<forall>(i, t) \<in> js_log s'. \<exists>q \<in> js_prefixes s'. t = claim_token q i"
  using assms
proof (induction rule: jobs_step.induct)
  case (j_claim s lease p limit locked rows' claimed)
  have "claim_pair ` set claimed = (\<lambda>i. (i, claim_token p i)) ` set (map jb_id claimed)"
    using arg_cong [OF claimed_ids(3) [OF j_claim.hyps(1)], of set] by (simp add: image_image)
  then show ?case using j_claim.prems by (auto simp: jobs_inv_def)
qed (simp_all add: jobs_inv_def)

lemma jobs_inv_step:
  assumes "jobs_step iv s l s'" and "jobs_inv s" and "0 \<le> iv"
  shows "jobs_inv s'"
  unfolding jobs_inv_def
proof (intro conjI allI impI ballI)
  show "jobs_pk (js_rows s')" using jobs_pk_step [OF assms(1)] jobs_invD(1) [OF assms(2)] .
  show "token_inv (jobs_abs s')" by (rule jobs_token_step [OF assms])
  show "set (js_sent s') \<subseteq> js_log s'" by (rule jobs_sent_step [OF assms(1,2)])
  show "case x of (i, t) \<Rightarrow> \<exists>q \<in> js_prefixes s'. t = claim_token q i" if "x \<in> js_log s'" for x
    using jobs_prefix_step [OF assms(1,2)] that by blast
  show "jr_run_at r \<le> js_now s'"
    if "find_row jr_id i (js_rows s') = Some r" "jr_claim_token r \<noteq> None" for i r
    using jobs_held_step [OF assms(1,2)] that by blast
  fix j r assume "j \<in> set (js_running s')" "find_row jr_id (jb_id j) (js_rows s') = Some r"
    "jr_claim_token r = Some (jb_claimToken j)"
  then show "jr_attempt r = jb_attempt j" "jr_max_attempts r = jb_maxAttempts j"
    using jobs_reads_step [OF assms(1,2)] by (auto simp: reads_current_def)
qed

lemma jobs_inv_init: "jobs_init s \<Longrightarrow> jobs_inv s"
  by (simp add: jobs_init_def jobs_inv_def jobs_pk_def token_inv_def)

lemma jobs_reach_inv: "jobs_reach iv s \<Longrightarrow> 0 \<le> iv \<Longrightarrow> jobs_inv s"
proof (induction rule: jobs_reach.induct)
  case (j_start s)
  then show ?case by (simp add: jobs_inv_init)
next
  case (j_step s l s')
  then show ?case by (blast intro: jobs_inv_step)
qed

text \<open>The jobs fleet refines the lease machine, with renewals that may revive a dead row.\<close>

interpretation jobs_lease: lease_refinement jobs_init
  "\<lambda>s l s'. jobs_step iv s l s' \<and> 0 \<le> iv" jobs_abs True
  "\<lambda>s. jobs_reach iv s \<and> 0 \<le> iv" for iv
proof
  fix s and P :: "jobs_sys \<Rightarrow> bool"
  assume r: "jobs_reach iv s \<and> 0 \<le> iv" and i: "\<And>s. jobs_init s \<Longrightarrow> P s"
    and st: "\<And>s l s'. jobs_reach iv s \<and> 0 \<le> iv \<Longrightarrow> P s \<Longrightarrow> jobs_step iv s l s' \<and> 0 \<le> iv \<Longrightarrow> P s'"
  from conjunct1 [OF r] show "P s"
    by (induction rule: jobs_reach.induct) (use i st r in blast)+
next
  show "jobs_init s \<Longrightarrow> a_init (jobs_abs s)" for s
    by (auto simp: jobs_init_def a_init_def)
next
  fix s l s'
  assume "jobs_reach iv s \<and> 0 \<le> iv" "jobs_step iv s l s' \<and> 0 \<le> iv"
  then show "jobs_abs s' = jobs_abs s \<or>
    (\<exists>k. astep True (jobs_abs s) k (jobs_abs s') \<and> (k = l \<or> (\<exists>i t. k = AForget i t)))"
    using jobs_simulates [of iv s l s'] jobs_reach_inv [of iv s] by blast
qed

end
