(* ===== verification/JobsTheorems.thy ===== *)
theory JobsTheorems
  imports JobsFleet
begin

text \<open>
  The properties of the jobs queue: ownership and delivery over every interleaving of the
  fleet, the effect of one delivery on every branch, the selection of a claim, the retry
  delay and its overflow, the truncation of error text, and the administrative repository.
\<close>

subsection \<open>A small run for the witnesses\<close>

definition demo_row :: job_row where
  "demo_row = \<lparr>jr_id = ''a'', jr_name = ''mail'', jr_payload = ''1'', jr_run_at = 0, jr_attempt = 0,
     jr_max_attempts = 1, jr_last_error = None, jr_locked_until = None, jr_claim_token = None,
     jr_created_at = 0\<rparr>"

definition demo_claimed :: jobRow where
  "demo_claimed = \<lparr>jb_id = ''a'', jb_name = ''mail'', jb_payload = ''1'', jb_attempt = 0,
     jb_maxAttempts = 1, jb_claimToken = ''p:a''\<rparr>"

definition demo_held :: job_row where
  "demo_held = demo_row\<lparr>jr_locked_until := Some (At 60), jr_claim_token := Some ''p:a''\<rparr>"

definition demo0 :: jobs_sys where
  "demo0 = \<lparr>js_rows = [], js_now = 0, js_running = [], js_sent = [], js_log = {}, js_prefixes = {}\<rparr>"
definition demo1 :: jobs_sys where
  "demo1 = demo0\<lparr>js_rows := [demo_row]\<rparr>"
definition demo2 :: jobs_sys where
  "demo2 = demo1\<lparr>js_rows := [demo_held], js_running := [demo_claimed],
     js_log := {(''a'', ''p:a'')}, js_prefixes := {''p''}\<rparr>"
definition demo3 :: jobs_sys where
  "demo3 = demo2\<lparr>js_sent := [(''a'', ''p:a'')]\<rparr>"
definition demo4 :: jobs_sys where
  "demo4 = demo3\<lparr>js_rows := [demo_held\<lparr>jr_attempt := 1, jr_last_error := Some ''x'',
     jr_locked_until := Some Infinity\<rparr>], js_running := []\<rparr>"

lemmas demo_defs = demo0_def demo1_def demo2_def demo3_def demo4_def demo_row_def demo_held_def
  demo_claimed_def

lemma demo1_reach: "jobs_reach 60 demo1"
proof -
  have "jobs_reach 60 demo0" by (rule jobs_reach.j_start) (simp add: jobs_init_def demo_defs)
  moreover have "jobs_step 60 demo0 (AAdd ''a'') (demo0\<lparr>js_rows := [demo_row]\<rparr>)"
    by (rule jobs_step.j_enqueue [where nm = "''mail''" and payload = "''1''" and run_at = 0 and m = 1])
       (simp_all add: jobs_insert_def demo_defs)
  ultimately show ?thesis unfolding demo1_def by (rule jobs_reach.j_step)
qed

lemma demo_claim:
  "claim_batch 0 60 ''p'' 50 (\<lambda>_. False) [demo_row] = ([demo_held], [demo_claimed])"
  by (simp add: claim_batch_def claim_select_def job_due_def claim_update_def sql_update_def
      scan_claim_def claim_token_def demo_defs)

lemma demo2_reach: "jobs_reach 60 demo2"
proof -
  have now: "js_now demo1 = 0" and rows: "js_rows demo1 = [demo_row]" by (simp_all add: demo_defs)
  have "jobs_step 60 demo1 (AClaim ''p'' (map jb_id [demo_claimed]))
    (demo1\<lparr>js_rows := [demo_held], js_running := js_running demo1 @ [demo_claimed],
       js_log := js_log demo1 \<union> claim_pair ` set [demo_claimed], js_prefixes := insert ''p'' (js_prefixes demo1)\<rparr>)"
    by (rule jobs_step.j_claim [OF demo_claim [folded now rows]]) (simp_all add: demo_defs)
  also have "demo1\<lparr>js_rows := [demo_held], js_running := js_running demo1 @ [demo_claimed],
       js_log := js_log demo1 \<union> claim_pair ` set [demo_claimed], js_prefixes := insert ''p'' (js_prefixes demo1)\<rparr> = demo2"
    by (simp add: demo_defs claim_pair_def)
  finally show ?thesis using demo1_reach by (blast intro: jobs_reach.j_step)
qed

lemma demo3_reach: "jobs_reach 60 demo3"
proof -
  have "jobs_step 60 demo2 ASilent (demo2\<lparr>js_sent := claim_pair demo_claimed # js_sent demo2\<rparr>)"
    by (rule jobs_step.j_send) (simp add: demo_defs)
  moreover have "demo2\<lparr>js_sent := claim_pair demo_claimed # js_sent demo2\<rparr> = demo3"
    by (simp add: demo_defs claim_pair_def)
  ultimately show ?thesis using demo2_reach by (metis jobs_reach.j_step)
qed

lemma demo4_reach: "jobs_reach 60 demo4"
proof -
  have "jobs_step 60 demo3 (AFail (jb_id demo_claimed) (jb_claimToken demo_claimed))
    (demo3\<lparr>js_rows := fst (fail_stmt (jb_id demo_claimed) (jb_claimToken demo_claimed)
         (jb_attempt demo_claimed + 1) ''x'' (js_rows demo3)),
       js_running := remove1 demo_claimed (js_running demo3)\<rparr>)"
    by (rule jobs_step.j_fail) (simp_all add: demo_defs)
  moreover have "demo3\<lparr>js_rows := fst (fail_stmt (jb_id demo_claimed) (jb_claimToken demo_claimed)
         (jb_attempt demo_claimed + 1) ''x'' (js_rows demo3)),
       js_running := remove1 demo_claimed (js_running demo3)\<rparr> = demo4"
    by (simp add: demo_defs fail_stmt_def sql_update_def owned_by_def)
  ultimately show ?thesis using demo3_reach by (metis jobs_reach.j_step)
qed

subsection \<open>Ownership over every interleaving\<close>

lemma jobs_owns:
  "owns (jobs_abs s) i t \<longleftrightarrow> (\<exists>r. find_row jr_id i (js_rows s) = Some r \<and> jr_claim_token r = Some t)"
  by (auto simp: owns_def)

text \<open>C1: In every state a fleet of jobs workers can reach, whatever the interleaving of
  claims, renewals, outcomes, crashes, late renewals and administrative operations, at most
  one running claim holds the current token of a job. Each claim draws a prefix no claim has
  drawn before, as a UUID is; the tokens are those the claim statement wrote and returned, so a
  statement that kept the token of an expired lease would give two running claims one token.
  Workers may have different leases.\<close>

theorem jobs_exclusive_ownership:
  assumes "jobs_reach iv s" and "0 \<le> iv"
  shows "length (filter (\<lambda>j. jb_id j = i \<and>
      (\<exists>r. find_row jr_id i (js_rows s) = Some r \<and> jr_claim_token r = Some (jb_claimToken j)))
    (js_running s)) \<le> 1"
proof -
  have "length (filter (\<lambda>c. fst c = i \<and> owns (jobs_abs s) i (snd c)) (as_flight (jobs_abs s))) \<le> 1"
    using assms by (intro jobs_lease.exclusive) simp
  then show ?thesis by (simp add: filter_map o_def claim_pair_def jobs_owns)
qed

theorem jobs_exclusive_ownership_witness:
  "length (filter (\<lambda>j. jb_id j = ''a'' \<and>
      (\<exists>r. find_row jr_id ''a'' (js_rows demo2) = Some r \<and> jr_claim_token r = Some (jb_claimToken j)))
    (js_running demo2)) \<le> 1 \<and> js_running demo2 \<noteq> []"
  using jobs_exclusive_ownership [OF demo2_reach, of "''a''"] by (simp add: demo_defs)

text \<open>C2: While the lease of a claimed job has not expired, no step of anyone takes the job
  from its holder: unless the holder itself records an outcome, the job keeps the holder's
  token and its attempt count.\<close>

theorem jobs_lease_protected:
  assumes "jobs_reach iv s" and "0 \<le> iv" and "jobs_step iv s l s'"
    and "find_row jr_id i (js_rows s) = Some r" and "jr_claim_token r = Some t"
    and "jr_locked_until r = Some (At u)" and "js_now s < u"
    and "l \<notin> {AComplete i t, AFail i t, ARetry i t}"
  shows "\<exists>r'. find_row jr_id i (js_rows s') = Some r' \<and> jr_claim_token r' = Some t \<and>
    \<not> job_failed r' \<and> jr_attempt r' = jr_attempt r"
proof -
  have "\<exists>r'. as_rows (jobs_abs s') i = Some r' \<and> ar_token r' = Some t \<and> \<not> ar_dead r' \<and>
      ar_attempt r' = ar_attempt (job_abs r)"
    using assms(1-3,8)
    by (intro jobs_lease.lease_protected [of iv s l s' i "job_abs r" t])
       (use assms(4-7) in \<open>simp_all add: job_abs_def job_failed_def\<close>)
  then show ?thesis by auto
qed

theorem jobs_lease_protected_witness:
  "\<exists>r'. find_row jr_id ''a'' (js_rows demo2) = Some r' \<and> jr_claim_token r' = Some ''p:a'' \<and>
    \<not> job_failed r' \<and> jr_attempt r' = 0"
proof -
  have "jobs_step 60 demo2 ATick (demo2\<lparr>js_now := js_now demo2 + 0\<rparr>)" by (rule jobs_step.j_tick) simp
  from jobs_lease_protected [OF demo2_reach _ this, of "''a''" demo_held "''p:a''" 60]
  show ?thesis by (simp add: demo_defs)
qed

text \<open>C3: No job is ever lost: a step removes a job from the table only when the holder of its
  current token records success, or when an administrator discards a job that failed
  permanently.\<close>

theorem jobs_no_loss:
  assumes "jobs_reach iv s" and "0 \<le> iv" and "jobs_step iv s l s'"
    and "find_row jr_id i (js_rows s) = Some r" and "find_row jr_id i (js_rows s') = None"
  shows "(\<exists>t. l = AComplete i t \<and> jr_claim_token r = Some t) \<or> (l = ADiscard i \<and> job_failed r)"
proof -
  have "(\<exists>t. l = AComplete i t \<and> ar_token (job_abs r) = Some t) \<or>
      (l = ADiscard i \<and> ar_dead (job_abs r))"
    using assms by (intro jobs_lease.no_loss [of iv s l s' i "job_abs r"]) simp_all
  then show ?thesis by simp
qed

theorem jobs_no_loss_witness:
  "(\<exists>t. AComplete ''a'' ''p:a'' = AComplete ''a'' t \<and> jr_claim_token demo_held = Some t) \<or>
   (AComplete ''a'' ''p:a'' = ADiscard ''a'' \<and> job_failed demo_held)"
proof -
  have st: "jobs_step 60 demo2 (AComplete (jb_id demo_claimed) (jb_claimToken demo_claimed))
    (demo2\<lparr>js_rows := fst (complete_stmt (jb_id demo_claimed) (jb_claimToken demo_claimed) (js_rows demo2)),
       js_running := remove1 demo_claimed (js_running demo2)\<rparr>)"
    by (rule jobs_step.j_complete) (simp add: demo_defs)
  show ?thesis
    using jobs_no_loss [OF demo2_reach _ st, of "''a''" demo_held]
    by (simp add: demo_defs complete_stmt_def sql_delete_def owned_by_def)
qed

text \<open>C11: The contract breaks at one point: because the worker does not wait for a renewal it
  has sent, a renewal can reach the server after the job was recorded as permanently failed,
  and then makes a job that used up all its attempts deliverable again.\<close>

theorem jobs_late_renewal_revives:
  "\<exists>s s' r r'. jobs_reach 60 s \<and> jobs_step 60 s (ARenew ''a'' ''p:a'') s' \<and>
     js_running s = [] \<and>
     find_row jr_id ''a'' (js_rows s) = Some r \<and> job_failed r \<and> jr_attempt r = jr_max_attempts r \<and>
     find_row jr_id ''a'' (js_rows s') = Some r' \<and> \<not> job_failed r' \<and> job_due (js_now s' + 60) r'"
proof -
  let ?s' = "demo4\<lparr>js_rows := fst (renew_stmt (js_now demo4) 60 ''a'' ''p:a'' (js_rows demo4)),
       js_sent := remove1 (''a'', ''p:a'') (js_sent demo4)\<rparr>"
  have st: "jobs_step 60 demo4 (ARenew ''a'' ''p:a'') ?s'"
    by (rule jobs_step.j_renew) (simp_all add: demo_defs)
  have rows: "js_rows ?s' = [demo_held\<lparr>jr_attempt := 1, jr_last_error := Some ''x'',
      jr_locked_until := Some (At 60)\<rparr>]"
    by (simp add: demo_defs renew_stmt_def sql_update_def owned_by_def)
  show ?thesis
    by (rule exI [of _ demo4], rule exI [of _ ?s'])
       (simp add: demo4_reach st rows,
        simp add: demo_defs job_failed_def job_due_def)
qed

subsection \<open>One delivery\<close>

text \<open>A worker whose claim is no longer current cannot record anything: whatever its
  handler returned, its outcome statement leaves every row as it is and the delivery is
  reported as a lost claim (or as a failed update when the statement itself failed).\<close>

theorem stale_worker_records_nothing:
  assumes "jobs_pk (jd_rows (je_during env db))"
    and "\<forall>r \<in> set (jd_rows (je_during env db)). \<not> owned_by (jb_id j) (jb_claimToken j) r"
    and "process_job cfg render text_ok reg env j db = Some (db', st)"
  shows "db' = je_during env db \<and> st \<in> {StClaimLost, StUpdateError}"
proof -
  have noop: "outcome_stmt now j out (jd_rows (je_during env db)) = (jd_rows (je_during env db), 0)"
    for now out
    using assms(2) by (cases out)
      (simp_all add: outcome_stmt_def complete_stmt_def fail_stmt_def retry_stmt_def)
  show ?thesis
    using assms(3)
    by (auto simp: process_job_def Let_def sql_exec_def outcome_status_def noop
        split: option.splits exec_outcome.splits)
qed

definition demo_cfg :: WorkerConfig where
  "demo_cfg = \<lparr>wc_BatchSize = 0, wc_PollInterval = 0, wc_InitialBackoff = 0, wc_LeaseDuration = 0,
     wc_LeaseRenewalInterval = 0\<rparr>"

definition demo_env :: job_env where
  "demo_env = \<lparr>je_during = id, je_draw = 7, je_exec = ExecOk\<rparr>"

theorem stale_worker_records_nothing_witness:
  "process_job demo_cfg (\<lambda>_. ''x'') (\<lambda>_. True) Map.empty demo_env demo_claimed
     \<lparr>jd_rows = [demo_row], jd_now = 0\<rparr> = Some (\<lparr>jd_rows = [demo_row], jd_now = 0\<rparr>, StClaimLost)"
proof -
  let ?db = "\<lparr>jd_rows = [demo_row], jd_now = 0\<rparr>"
  obtain db' st where p: "process_job demo_cfg (\<lambda>_. ''x'') (\<lambda>_. True) Map.empty demo_env demo_claimed ?db
      = Some (db', st)" "st \<noteq> StUpdateError"
    by (simp add: process_job_def job_process_err_def jobs_HandlerFor_def job_outcome_of_def
        demo_defs demo_env_def outcome_exec_def sql_exec_def outcome_status_def Let_def
        split: prod.splits)
  have "db' = je_during demo_env ?db \<and> st \<in> {StClaimLost, StUpdateError}"
    by (rule stale_worker_records_nothing [OF _ _ p(1)])
       (simp_all add: demo_env_def demo_defs jobs_pk_def owned_by_def)
  with p show ?thesis by (simp add: demo_env_def)
qed

text \<open>The outcome statement of the holder changes its row, and no other.\<close>

lemma holder_statement:
  assumes "jobs_pk rows" "find_row jr_id (jb_id j) rows = Some r" "jr_claim_token r = Some (jb_claimToken j)"
  shows "snd (outcome_stmt now j out rows) = 1"
    "find_row jr_id (jb_id j) (fst (outcome_stmt now j out rows)) =
       (case out of
          OutComplete \<Rightarrow> None
        | OutFail n msg \<Rightarrow> Some (r\<lparr>jr_attempt := n, jr_last_error := Some msg, jr_locked_until := Some Infinity\<rparr>)
        | OutRetry n ms msg \<Rightarrow> Some (r\<lparr>jr_attempt := n, jr_run_at := now + ms * 1000, jr_locked_until := None,
            jr_claim_token := None, jr_last_error := Some msg\<rparr>))"
    "k \<noteq> jb_id j \<Longrightarrow> find_row jr_id k (fst (outcome_stmt now j out rows)) = find_row jr_id k rows"
proof -
  have one: "length (filter (owned_by (jb_id j) (jb_claimToken j)) rows) = 1"
    using owned_by_count [OF assms(1)] assms(2,3) by simp
  then show "snd (outcome_stmt now j out rows) = 1"
    by (cases out) (simp_all add: outcome_stmt_def complete_stmt_def fail_stmt_def retry_stmt_def sql_delete_def sql_update_def)
  show "find_row jr_id (jb_id j) (fst (outcome_stmt now j out rows)) =
       (case out of
          OutComplete \<Rightarrow> None
        | OutFail n msg \<Rightarrow> Some (r\<lparr>jr_attempt := n, jr_last_error := Some msg, jr_locked_until := Some Infinity\<rparr>)
        | OutRetry n ms msg \<Rightarrow> Some (r\<lparr>jr_attempt := n, jr_run_at := now + ms * 1000, jr_locked_until := None,
            jr_claim_token := None, jr_last_error := Some msg\<rparr>))"
    using assms by (cases out) (simp_all add: outcome_stmt_def complete_stmt_row fail_stmt_row retry_stmt_row)
  show "find_row jr_id k (fst (outcome_stmt now j out rows)) = find_row jr_id k rows" if "k \<noteq> jb_id j"
    using that assms(1) by (cases out; cases "find_row jr_id k rows")
      (simp_all add: outcome_stmt_def complete_stmt_row fail_stmt_row retry_stmt_row)
qed

text \<open>C32: A delivery by the current holder, on every branch. It panics exactly when the handler
  failed, attempts are left and the doubled delay, wrapped to 64 bits, is not positive.
  Otherwise: when the outcome statement is not executed (it fails, or the server refuses the
  error text) nothing changes and an update error is reported. When it is executed, success
  deletes the job; a failure that uses up the attempts parks it for ever with the error text;
  any other failure releases it, counts the attempt and schedules it after the retry delay;
  the status says which, unless the reply was lost. No other row changes.\<close>

theorem holder_delivery_outcome:
  assumes "int64_ok (wc_InitialBackoff cfg)" and "jobs_pk (jd_rows db1)" and "db1 = je_during env db"
    and "find_row jr_id (jb_id j) (jd_rows db1) = Some r"
    and "jr_claim_token r = Some (jb_claimToken j)"
  shows "case process_job cfg render text_ok reg env j db of
      None \<Rightarrow> job_process_err reg j \<noteq> None \<and> jb_attempt j + 1 < jb_maxAttempts j \<and>
        wrap64 (worker_initialBackoff cfg * 2 ^ nat (jb_attempt j)) \<le> 0
    | Some (db', st) \<Rightarrow>
       (job_process_err reg j = None \<or> jb_maxAttempts j \<le> jb_attempt j + 1 \<or>
          0 < wrap64 (worker_initialBackoff cfg * 2 ^ nat (jb_attempt j))) \<and>
       (\<forall>k. k \<noteq> jb_id j \<longrightarrow> find_row jr_id k (jd_rows db') = find_row jr_id k (jd_rows db1)) \<and>
       (if je_exec env = ExecFailed \<or> (\<exists>e. job_process_err reg j = Some e \<and> \<not> text_ok (jobs_truncateUTF8 (render e) 1024))
        then db' = db1 \<and> st = StUpdateError
        else (st = StUpdateError \<longleftrightarrow> je_exec env = ExecReplyLost) \<and>
          (case job_process_err reg j of
             None \<Rightarrow> st \<in> {StProcessed, StUpdateError} \<and> find_row jr_id (jb_id j) (jd_rows db') = None
           | Some e \<Rightarrow>
              (\<exists>r'. find_row jr_id (jb_id j) (jd_rows db') = Some r' \<and> jr_attempt r' = jb_attempt j + 1 \<and>
                 jr_last_error r' = Some (jobs_truncateUTF8 (render e) 1024) \<and>
                 (if jb_attempt j + 1 \<ge> jb_maxAttempts j then st \<in> {StFailed, StUpdateError} \<and> job_failed r'
                  else st \<in> {StRetried, StUpdateError} \<and> jr_claim_token r' = None \<and> jr_locked_until r' = None \<and>
                    (\<exists>d. worker_backoff cfg (jb_attempt j + 1) (je_draw env) = Some d \<and>
                       jr_run_at r' = jd_now db1 + go_div d 1000000 * 1000)))))"
proof (cases "job_outcome_of cfg render j (job_process_err reg j) (je_draw env)")
  case None
  then have "\<exists>e. job_process_err reg j = Some e \<and> jb_attempt j + 1 < jb_maxAttempts j \<and>
      worker_backoff cfg (jb_attempt j + 1) (je_draw env) = None"
    by (auto simp: job_outcome_of_def Let_def split: option.splits if_splits)
  then show ?thesis
    using None worker_backoff_None_iff [OF assms(1), of "jb_attempt j + 1" "je_draw env"]
    by (auto simp: process_job_def Let_def)
next
  case (Some out)
  note H = holder_statement [OF assms(2,4,5)]
  let ?ex = "outcome_exec text_ok out (je_exec env)"
  have p: "process_job cfg render text_ok reg env j db = Some
      (db1\<lparr>jd_rows := fst (sql_exec ?ex (outcome_stmt (jd_now db1) j out) (jd_rows db1))\<rparr>,
       outcome_status out (snd (sql_exec ?ex (outcome_stmt (jd_now db1) j out) (jd_rows db1))))"
    using Some by (simp add: process_job_def Let_def assms(3) case_prod_beta)
  have others: "find_row jr_id k (fst (sql_exec ?ex (outcome_stmt (jd_now db1) j out) (jd_rows db1))) =
      find_row jr_id k (jd_rows db1)" if "k \<noteq> jb_id j" for k
    using sql_exec_table [of ?ex "outcome_stmt (jd_now db1) j out" "jd_rows db1"] H(3) [OF that] by (elim disjE) simp_all
  have st: "snd (sql_exec ?ex (outcome_stmt (jd_now db1) j out) (jd_rows db1)) = (if ?ex = ExecOk then Some 1 else None)"
    by (cases ?ex) (simp_all add: sql_exec_def H(1))
  show ?thesis
  proof (cases "job_process_err reg j")
    case None
    then have "out = OutComplete" using Some by (simp add: job_outcome_of_def Let_def)
    then show ?thesis
      using None others H(2) unfolding p st
      by (cases "je_exec env") (simp_all add: outcome_exec_def outcome_status_def sql_exec_def)
  next
    case (Some e)
    note err = this
    let ?n = "jb_attempt j + 1" and ?msg = "jobs_truncateUTF8 (render e) 1024"
    show ?thesis
    proof (cases "?n \<ge> jb_maxAttempts j")
      case True
      then have "out = OutFail ?n ?msg" using \<open>_ = Some out\<close> err by (simp add: job_outcome_of_def Let_def)
      then show ?thesis
        using err True others H(2) unfolding p st
        by (cases "je_exec env"; cases "text_ok ?msg")
           (simp_all add: outcome_exec_def outcome_status_def sql_exec_def job_failed_def)
    next
      case False
      then obtain d where d: "worker_backoff cfg ?n (je_draw env) = Some d" "out = OutRetry ?n (go_div d 1000000) ?msg"
        using \<open>_ = Some out\<close> err by (auto simp: job_outcome_of_def Let_def split: option.splits)
      then have "0 < wrap64 (worker_initialBackoff cfg * 2 ^ nat (jb_attempt j))"
        using worker_backoff_None_iff [OF assms(1), of ?n "je_draw env"] by simp
      then show ?thesis
        using err False d others H(2) unfolding p st
        by (cases "je_exec env"; cases "text_ok ?msg")
           (simp_all add: outcome_exec_def outcome_status_def sql_exec_def)
    qed
  qed
qed

theorem holder_delivery_outcome_witness:
  "\<exists>db' r'. process_job demo_cfg (\<lambda>_. ''x'') (\<lambda>_. True) Map.empty demo_env demo_claimed
     \<lparr>jd_rows = [demo_held], jd_now = 5\<rparr> = Some (db', StFailed) \<and>
     find_row jr_id ''a'' (jd_rows db') = Some r' \<and> job_failed r' \<and> jr_attempt r' = 1"
proof -
  let ?db = "\<lparr>jd_rows = [demo_held], jd_now = 5\<rparr>"
  let ?p = "process_job demo_cfg (\<lambda>_. ''x'') (\<lambda>_. True) Map.empty demo_env demo_claimed ?db"
  have err: "job_process_err Map.empty demo_claimed = Some (ErrMsg ''no handler for job %q'' [''mail''])"
    by (simp add: job_process_err_def jobs_HandlerFor_def demo_defs)
  have pre: "int64_ok (wc_InitialBackoff demo_cfg)" "jobs_pk (jd_rows ?db)" "?db = je_during demo_env ?db"
    "find_row jr_id (jb_id demo_claimed) (jd_rows ?db) = Some demo_held" "jr_claim_token demo_held = Some (jb_claimToken demo_claimed)"
    by (simp_all add: demo_env_def demo_cfg_def int64_ok_def demo_defs jobs_pk_def)
  have sel: "jb_id demo_claimed = ''a''" "jb_attempt demo_claimed = 0" "jb_maxAttempts demo_claimed = 1" "je_exec demo_env = ExecOk"
    by (simp_all add: demo_env_def demo_defs)
  show ?thesis
    using holder_delivery_outcome [OF pre, where render = "\<lambda>_. ''x''" and text_ok = "\<lambda>_. True" and reg = Map.empty]
    by (cases ?p) (auto simp add: err sel)
qed

subsection \<open>Claiming\<close>

lemma claim_selection_facts:
  assumes "jobs_pk rows" and "claim_batch now iv p limit locked rows = (rows', claimed)"
  shows "length claimed = min (nat limit) (length (filter (\<lambda>r. job_due now r \<and> \<not> locked (jr_id r)) rows))"
    and "\<forall>j \<in> set claimed. \<exists>r \<in> set rows. jr_id r = jb_id j \<and> job_due now r \<and> \<not> locked (jb_id j) \<and>
      find_row jr_id (jb_id j) rows' =
        Some (r\<lparr>jr_locked_until := Some (At (now + iv)), jr_claim_token := Some (jb_claimToken j)\<rparr>)"
    and "\<forall>r \<in> set rows. jr_id r \<notin> jb_id ` set claimed \<longrightarrow>
      find_row jr_id (jr_id r) rows' = Some r \<and>
      (job_due now r \<and> \<not> locked (jr_id r) \<longrightarrow>
        (\<forall>c \<in> set rows. jr_id c \<in> jb_id ` set claimed \<longrightarrow> jr_run_at c \<le> jr_run_at r))"
proof -
  let ?sel = "claim_select now limit locked rows"
  let ?due = "filter (\<lambda>r. job_due now r \<and> \<not> locked (jr_id r)) rows"
  note ids = claimed_ids [OF assms(2)]
  have d: "distinct (map jr_id rows)" using assms(1) by (simp add: jobs_pk_def)
  have "length claimed = card (set (map jb_id claimed))"
    using distinct_card [OF ids(4) [OF assms(1)]] by simp
  also have "\<dots> = length ?sel"
    unfolding ids(1) by (rule distinct_card [OF claim_select_distinct [OF assms(1)]])
  finally show "length claimed = min (nat limit) (length ?due)" by (simp add: claim_select_def min.commute)
  have tok: "jb_claimToken j = claim_token p (jb_id j)" if "j \<in> set claimed" for j
    using claim_batch_claimed [of now iv p limit locked rows] assms(2) that by auto
  show "\<forall>j \<in> set claimed. \<exists>r \<in> set rows. jr_id r = jb_id j \<and> job_due now r \<and> \<not> locked (jb_id j) \<and>
      find_row jr_id (jb_id j) rows' =
        Some (r\<lparr>jr_locked_until := Some (At (now + iv)), jr_claim_token := Some (jb_claimToken j)\<rparr>)"
  proof
    fix j assume j: "j \<in> set claimed"
    then have m: "jb_id j \<in> set (map jb_id claimed)" by simp
    then have "jb_id j \<in> set ?sel" using ids(1) by simp
    from claim_select_due [OF this] obtain r where r: "r \<in> set rows" "jr_id r = jb_id j"
      "job_due now r" "\<not> locked (jb_id j)" by blast
    then have "find_row jr_id (jb_id j) rows = Some r" using d by (simp add: find_row_iff)
    then have "find_row jr_id (jb_id j) rows' =
        Some (r\<lparr>jr_locked_until := Some (At (now + iv)), jr_claim_token := Some (jb_claimToken j)\<rparr>)"
      using m tok [OF j] by (simp add: ids(2) claim_update_row)
    with r show "\<exists>r \<in> set rows. jr_id r = jb_id j \<and> job_due now r \<and> \<not> locked (jb_id j) \<and>
      find_row jr_id (jb_id j) rows' =
        Some (r\<lparr>jr_locked_until := Some (At (now + iv)), jr_claim_token := Some (jb_claimToken j)\<rparr>)"
      by blast
  qed
  have early: "jr_run_at c \<le> jr_run_at r"
    if r: "r \<in> set ?due" "jr_id r \<notin> set ?sel" and c: "c \<in> set rows" "jr_id c \<in> set ?sel" for r c
  proof -
    let ?t = "take (nat limit) (sort_key jr_run_at ?due)"
    obtain c' where c': "c' \<in> set ?t" "jr_id c' = jr_id c"
      using c(2) by (auto simp: claim_select_def)
    then have "c' \<in> set rows" by (auto dest!: in_set_takeD)
    then have "c' = c" using c'(2) c(1) d by (auto simp: distinct_map dest: inj_onD)
    moreover have "r \<notin> set ?t" using r(2) by (auto simp: claim_select_def)
    ultimately show ?thesis using c'(1) r(1) by (intro take_sort_key_min) auto
  qed
  show "\<forall>r \<in> set rows. jr_id r \<notin> jb_id ` set claimed \<longrightarrow>
      find_row jr_id (jr_id r) rows' = Some r \<and>
      (job_due now r \<and> \<not> locked (jr_id r) \<longrightarrow>
        (\<forall>c \<in> set rows. jr_id c \<in> jb_id ` set claimed \<longrightarrow> jr_run_at c \<le> jr_run_at r))"
    using early ids(1) d by (auto simp: ids(2) claim_update_row find_row_iff)
qed

text \<open>A claim takes as many jobs as the batch size allows among those that are due, not
  leased and not locked by another transaction; no due job left behind was scheduled
  earlier than a claimed one; every claimed job carries the new token and lease, and every
  other row is untouched.\<close>

theorem jobs_claim_selection:
  assumes "jobs_pk rows" and "claim_batch now iv p limit locked rows = (rows', claimed)"
  shows "length claimed = min (nat limit) (length (filter (\<lambda>r. job_due now r \<and> \<not> locked (jr_id r)) rows)) \<and>
    (\<forall>j \<in> set claimed. \<exists>r \<in> set rows. jr_id r = jb_id j \<and> job_due now r \<and> \<not> locked (jb_id j) \<and>
      find_row jr_id (jb_id j) rows' =
        Some (r\<lparr>jr_locked_until := Some (At (now + iv)), jr_claim_token := Some (jb_claimToken j)\<rparr>)) \<and>
    (\<forall>r \<in> set rows. jr_id r \<notin> jb_id ` set claimed \<longrightarrow>
      find_row jr_id (jr_id r) rows' = Some r \<and>
      (job_due now r \<and> \<not> locked (jr_id r) \<longrightarrow>
        (\<forall>c \<in> set rows. jr_id c \<in> jb_id ` set claimed \<longrightarrow> jr_run_at c \<le> jr_run_at r)))"
  using claim_selection_facts [OF assms] by blast

theorem jobs_claim_selection_witness:
  "length [demo_claimed] = min (nat 50) (length (filter (\<lambda>r. job_due 0 r \<and> \<not> False) [demo_row]))"
proof -
  have "jobs_pk [demo_row]" by (simp add: jobs_pk_def)
  from jobs_claim_selection [OF this demo_claim] show ?thesis by blast
qed

subsection \<open>Retry delay\<close>

text \<open>As long as the initial delay doubled once per attempt fits a 64-bit duration, the
  retry delay after attempt \<open>n\<close> is at least the initial delay times \<open>2 ^ (n - 1)\<close> and below
  twice that, whatever the random draw.\<close>

theorem jobs_backoff_bounds:
  assumes "1 \<le> attempt" and "worker_initialBackoff c * 2 ^ nat attempt < 2 ^ 63"
  shows "\<exists>d. worker_backoff c attempt draw = Some d \<and> 0 < d \<and>
    worker_initialBackoff c * 2 ^ nat (attempt - 1) \<le> d \<and>
    d < 2 * (worker_initialBackoff c * 2 ^ nat (attempt - 1))"
  using worker_backoff_in_range [OF assms] by blast

theorem jobs_backoff_bounds_witness:
  "\<exists>d. worker_backoff demo_cfg 3 7 = Some d \<and> 2000000000 \<le> d \<and> d < 4000000000"
  using jobs_backoff_bounds [of 3 demo_cfg 7] by (auto simp: worker_initialBackoff_def demo_cfg_def)

text \<open>C39: The doubled delay is not bounded and wraps. The delay of an attempt panics exactly when the
  initial delay times \<open>2 ^ (attempt - 1)\<close>, wrapped to a signed 64-bit integer, is not positive,
  whatever the draw: for every initial delay from attempt 65 on, where the wrapped value is
  zero; with the default initial delay first at attempt 36, where it is negative, though not at
  every later attempt (at 39 it is positive again). A failed job with attempts left then
  panics outside the handler's recovery, and the rest of its batch is not delivered.\<close>

theorem jobs_backoff_overflow_panics:
  assumes "int64_ok (wc_InitialBackoff cfg)"
  shows "(worker_backoff cfg attempt draw = None \<longleftrightarrow> wrap64 (worker_initialBackoff cfg * 2 ^ nat (attempt - 1)) \<le> 0) \<and>
    (65 \<le> attempt \<longrightarrow> wrap64 (worker_initialBackoff cfg * 2 ^ nat (attempt - 1)) = 0 \<and> worker_backoff cfg attempt draw = None) \<and>
    (wc_InitialBackoff cfg \<le> 0 \<longrightarrow> worker_backoff cfg 36 draw = None \<and> worker_backoff cfg 39 draw \<noteq> None \<and>
       (1 \<le> attempt \<and> attempt < 36 \<longrightarrow> worker_backoff cfg attempt draw \<noteq> None)) \<and>
    (job_process_err reg j \<noteq> None \<and> jb_attempt j + 1 < jb_maxAttempts j \<and>
       wrap64 (worker_initialBackoff cfg * 2 ^ nat (jb_attempt j)) \<le> 0 \<longrightarrow>
       process_jobs cfg render text_ok reg env k (j # js) db = (je_during (env k) db, [], True))"
proof (intro conjI impI)
  note none = worker_backoff_None_iff [OF assms]
  show iff: "worker_backoff cfg attempt draw = None \<longleftrightarrow> wrap64 (worker_initialBackoff cfg * 2 ^ nat (attempt - 1)) \<le> 0"
    by (rule none)
  show "wrap64 (worker_initialBackoff cfg * 2 ^ nat (attempt - 1)) = 0" if "65 \<le> attempt"
    using that by (intro wrap64_many_doublings) simp
  with iff show "worker_backoff cfg attempt draw = None" if "65 \<le> attempt" using that by simp
  show "process_jobs cfg render text_ok reg env k (j # js) db = (je_during (env k) db, [], True)"
    if "job_process_err reg j \<noteq> None \<and> jb_attempt j + 1 < jb_maxAttempts j \<and>
       wrap64 (worker_initialBackoff cfg * 2 ^ nat (jb_attempt j)) \<le> 0"
    using that none [of "jb_attempt j + 1" "je_draw (env k)"]
    by (auto simp: process_job_def job_outcome_of_def Let_def)
  assume default: "wc_InitialBackoff cfg \<le> 0"
  then have base: "worker_initialBackoff cfg = 500000000" by (simp add: worker_initialBackoff_def)
  show "worker_backoff cfg 36 draw = None" "worker_backoff cfg 39 draw \<noteq> None"
    unfolding none base by (simp_all add: wrap64_def)
  assume small: "1 \<le> attempt \<and> attempt < 36"
  then have "nat (attempt - 1) \<le> 34" by linarith
  then have "(2 :: int) ^ nat (attempt - 1) \<le> 2 ^ 34" by (intro power_increasing) simp_all
  then have bound: "worker_initialBackoff cfg * 2 ^ nat (attempt - 1) < 2 ^ 63" by (simp add: base)
  show "worker_backoff cfg attempt draw \<noteq> None"
  proof -
    have "int64_ok (worker_initialBackoff cfg * 2 ^ nat (attempt - 1))"
    proof -
      have "0 \<le> worker_initialBackoff cfg * 2 ^ nat (attempt - 1)" by (simp add: base)
      then show ?thesis using bound unfolding int64_ok_def by linarith
    qed
    then show ?thesis unfolding none wrap64_id by (simp add: base)
  qed
qed

theorem jobs_backoff_overflow_panics_witness:
  "process_jobs demo_cfg (\<lambda>_. ''x'') (\<lambda>_. True) Map.empty (\<lambda>_. demo_env) 0
     [demo_claimed\<lparr>jb_attempt := 35, jb_maxAttempts := 100\<rparr>] \<lparr>jd_rows = [], jd_now = 0\<rparr> = (\<lparr>jd_rows = [], jd_now = 0\<rparr>, [], True) \<and>
   worker_backoff demo_cfg 65 7 = None"
proof -
  have ok: "int64_ok (wc_InitialBackoff demo_cfg)" by (simp add: demo_cfg_def int64_ok_def)
  have neg: "wrap64 (worker_initialBackoff demo_cfg * 2 ^ nat 35) \<le> 0"
    by (simp add: worker_initialBackoff_def demo_cfg_def wrap64_def)
  show ?thesis
    using jobs_backoff_overflow_panics [OF ok, of 65 7 Map.empty "demo_claimed\<lparr>jb_attempt := 35, jb_maxAttempts := 100\<rparr>"
        "\<lambda>_. ''x''" "\<lambda>_. True" "\<lambda>_. demo_env" 0 "[]" "\<lparr>jd_rows = [], jd_now = 0\<rparr>"] neg
    by (simp add: demo_env_def job_process_err_def jobs_HandlerFor_def del: process_jobs.simps)
qed

text \<open>Where every job's attempt limit keeps the delay in range, a batch never panics,
  whatever the handlers do (a panicking handler included) and whatever other sessions do
  meanwhile.\<close>

theorem jobs_batch_no_panic:
  assumes "\<forall>r \<in> set (jd_rows db). 0 \<le> jr_attempt r \<and>
      worker_initialBackoff cfg * 2 ^ nat (jr_max_attempts r) < 2 ^ 63"
  shows "snd (jobs_processBatch pgiv cfg render text_ok reg env db) \<noteq> BatchPanic"
proof -
  have one: "process_job cfg render text_ok reg e j d \<noteq> None"
    if "0 \<le> jb_attempt j" "worker_initialBackoff cfg * 2 ^ nat (jb_maxAttempts j) < 2 ^ 63" for e j d
  proof (cases "job_process_err reg j = None \<or> jb_attempt j + 1 \<ge> jb_maxAttempts j")
    case True
    then show ?thesis
      by (auto simp: process_job_def job_outcome_of_def Let_def split: option.splits prod.splits)
  next
    case False
    let ?b = "worker_initialBackoff cfg"
    have "?b * 2 ^ nat (jb_attempt j + 1) \<le> ?b * 2 ^ nat (jb_maxAttempts j)"
      using False by (intro mult_left_mono power_increasing) (auto simp: worker_initialBackoff_def)
    then have "?b * 2 ^ nat (jb_attempt j + 1) < 2 ^ 63" using that(2) by simp
    with worker_backoff_in_range [of "jb_attempt j + 1" cfg] that(1)
    obtain bo where "worker_backoff cfg (jb_attempt j + 1) (je_draw e) = Some bo" by force
    then show ?thesis
      by (auto simp: process_job_def job_outcome_of_def Let_def split: option.splits prod.splits)
  qed
  have loop: "\<forall>j \<in> set js. 0 \<le> jb_attempt j \<and> worker_initialBackoff cfg * 2 ^ nat (jb_maxAttempts j) < 2 ^ 63 \<Longrightarrow>
      \<not> snd (snd (process_jobs cfg render text_ok reg en k js d))" for en k js d
  proof (induction js arbitrary: k d)
    case (Cons j js)
    from Cons.prems one [of j "en k" d] obtain d' st where
      p: "process_job cfg render text_ok reg (en k) j d = Some (d', st)" by auto
    then show ?case using Cons.IH [of "Suc k" d'] Cons.prems by (simp add: case_prod_beta Let_def)
  qed simp
  let ?c = "claim_batch (jd_now db) (pgiv (jobs_postgresInterval (worker_leaseDuration cfg))) (be_prefix env)
    (worker_batchSize cfg) (be_locked env) (jd_rows db)"
  have "\<forall>j \<in> set (snd ?c). 0 \<le> jb_attempt j \<and> worker_initialBackoff cfg * 2 ^ nat (jb_maxAttempts j) < 2 ^ 63"
    using assms unfolding claim_batch_claimed by auto
  from loop [OF this] show ?thesis
    by (auto simp: jobs_processBatch_def Let_def split: exec_outcome.splits prod.splits) (metis snd_conv)+
qed

theorem jobs_batch_no_panic_witness:
  "snd (jobs_processBatch (\<lambda>_. 300000000) demo_cfg (\<lambda>_. ''x'') (\<lambda>_. True) Map.empty
     \<lparr>be_prefix = ''p'', be_locked = (\<lambda>_. False), be_claim = ExecOk, be_jobs = (\<lambda>_. demo_env)\<rparr>
     \<lparr>jd_rows = [demo_row\<lparr>jr_max_attempts := 5\<rparr>], jd_now = 0\<rparr>) \<noteq> BatchPanic"
  by (rule jobs_batch_no_panic) (simp add: demo_defs demo_cfg_def worker_initialBackoff_def)

subsection \<open>Deliveries are fleet steps\<close>

text \<open>C40: What a worker does at the end of a delivery is one step of the fleet: for every
  handler result, random draw and fate of the outcome statement, the table and the set of
  running claims move as a step of the relation says. The ownership theorems therefore
  hold of the code's batches.\<close>

theorem delivery_is_fleet_step:
  assumes "j \<in> set (js_running s)" and "js_rows s = jd_rows (je_during env db)"
    and "js_now s = jd_now (je_during env db)"
    and "process_job cfg render text_ok reg env j db = Some (db', st)"
  shows "\<exists>l s'. jobs_step iv s l s' \<and> js_rows s' = jd_rows db' \<and> js_now s' = jd_now db' \<and>
    js_running s' = remove1 j (js_running s)"
proof -
  obtain out where out: "job_outcome_of cfg render j (job_process_err reg j) (je_draw env) = Some out"
    and db': "db' = (je_during env db)\<lparr>jd_rows := fst (sql_exec (outcome_exec text_ok out (je_exec env))
        (outcome_stmt (js_now s) j out) (js_rows s))\<rparr>"
    using assms(2-4) by (auto simp: process_job_def Let_def case_prod_beta split: option.splits)
  define s2 where "s2 rows = s\<lparr>js_rows := rows, js_running := remove1 j (js_running s)\<rparr>" for rows
  have settle: "\<exists>l. jobs_step iv s l (s2 (fst (outcome_stmt (js_now s) j out (js_rows s))))"
  proof (cases out)
    case OutComplete
    then show ?thesis using jobs_step.j_complete [OF assms(1), of iv]
      by (auto simp: s2_def outcome_stmt_def)
  next
    case (OutFail n msg)
    then have "n = jb_attempt j + 1" "jb_attempt j + 1 \<ge> jb_maxAttempts j"
      using out by (auto simp: job_outcome_of_def Let_def split: option.splits if_splits)
    with OutFail jobs_step.j_fail [OF assms(1), of iv msg] show ?thesis
      by (auto simp: s2_def outcome_stmt_def)
  next
    case (OutRetry n ms msg)
    then have "n = jb_attempt j + 1" "jb_attempt j + 1 < jb_maxAttempts j"
      using out by (auto simp: job_outcome_of_def Let_def split: option.splits if_splits)
    with OutRetry jobs_step.j_retry [OF assms(1), of iv ms msg] show ?thesis
      by (auto simp: s2_def outcome_stmt_def)
  qed
  have forget: "jobs_step iv s (AForget (jb_id j) (jb_claimToken j)) (s2 (js_rows s))"
    using jobs_step.j_forget [OF assms(1), of iv] by (simp add: s2_def)
  have "\<exists>l. jobs_step iv s l (s2 (jd_rows db'))"
    using sql_exec_table [of "outcome_exec text_ok out (je_exec env)" "outcome_stmt (js_now s) j out" "js_rows s"]
      settle forget by (auto simp: db')
  then show ?thesis using assms(3) by (force simp: s2_def db')
qed

theorem delivery_is_fleet_step_witness:
  "\<exists>l s' db' st. process_job demo_cfg (\<lambda>_. ''x'') (\<lambda>_. True) Map.empty demo_env demo_claimed
      \<lparr>jd_rows = [demo_held], jd_now = 0\<rparr> = Some (db', st) \<and>
    jobs_step 60 demo2 l s' \<and> js_rows s' = jd_rows db'"
proof -
  let ?db = "\<lparr>jd_rows = [demo_held], jd_now = 0\<rparr>"
  have "process_job demo_cfg (\<lambda>_. ''x'') (\<lambda>_. True) Map.empty demo_env demo_claimed ?db \<noteq> None"
    by (simp add: process_job_def job_process_err_def jobs_HandlerFor_def job_outcome_of_def demo_defs
        Let_def case_prod_beta)
  then obtain db' st where
    p: "process_job demo_cfg (\<lambda>_. ''x'') (\<lambda>_. True) Map.empty demo_env demo_claimed ?db = Some (db', st)"
    by auto
  have "\<exists>l s'. jobs_step 60 demo2 l s' \<and> js_rows s' = jd_rows db' \<and> js_now s' = jd_now db' \<and>
      js_running s' = remove1 demo_claimed (js_running demo2)"
    by (rule delivery_is_fleet_step [OF _ _ _ p]) (simp_all add: demo_defs demo_env_def)
  with p show ?thesis by blast
qed

subsection \<open>Error text\<close>

text \<open>Truncating an error text to a byte limit keeps a prefix within the limit; a text
  that was cut is valid UTF-8, no longer valid prefix fits, and from a valid text at most
  three bytes below the limit are lost.\<close>

theorem jobs_truncate_spec:
  "prefix (jobs_truncateUTF8 v n) v \<and> length (jobs_truncateUTF8 v n) \<le> n \<and>
   (n < length v \<longrightarrow> ValidString (jobs_truncateUTF8 v n) \<and>
      (\<forall>p. prefix p (take n v) \<longrightarrow> ValidString p \<longrightarrow> prefix p (jobs_truncateUTF8 v n))) \<and>
   (ValidString v \<longrightarrow> ValidString (jobs_truncateUTF8 v n) \<and>
      min n (length v) \<le> length (jobs_truncateUTF8 v n) + 3)"
  using jobs_truncateUTF8_prefix jobs_truncateUTF8_length jobs_truncateUTF8_loses_little
  by (auto simp: jobs_truncateUTF8_def drop_invalid_tail_valid drop_invalid_tail_longest)

theorem jobs_truncate_spec_witness:
  "jobs_truncateUTF8 [CHR ''a'', CHR 0xC3, CHR 0xA9] 2 = ''a''"
proof -
  let ?v = "[CHR ''a'', CHR 0xC3, CHR 0xA9]"
  have a: "ValidString ''a''" by (simp add: ValidString.simps rune_len_def rune_head_def byte_in_def)
  have inv: "\<not> ValidString [CHR ''a'', CHR 0xC3]"
    by (simp add: ValidString.simps rune_len_def rune_head_def byte_in_def)
  have s: "prefix (jobs_truncateUTF8 ?v 2) ?v \<and> length (jobs_truncateUTF8 ?v 2) \<le> 2 \<and>
    ValidString (jobs_truncateUTF8 ?v 2) \<and> prefix ''a'' (jobs_truncateUTF8 ?v 2)"
    using jobs_truncate_spec [of ?v 2] a by auto
  then obtain w where w: "jobs_truncateUTF8 ?v 2 = CHR ''a'' # w" "prefix w [CHR 0xC3, CHR 0xA9]" "length w \<le> 1"
    by (auto simp: prefix_def)
  then have "w = [] \<or> w = [CHR 0xC3]" by (cases w) (auto simp: prefix_def)
  with w s inv show ?thesis by auto
qed

text \<open>A text within the limit is not made valid. When the handler's error text is short
  and not valid UTF-8, and the server accepts only valid text, the outcome is never
  recorded: the attempt is not counted, so the job is delivered again after every lease
  without ever reaching its attempt limit.\<close>

theorem jobs_invalid_error_never_counted:
  assumes "\<And>t. text_ok t \<Longrightarrow> ValidString t"
    and "job_process_err reg j = Some e" and "length (render e) \<le> 1024"
    and "\<not> ValidString (render e)"
    and "process_job cfg render text_ok reg env j db = Some (db', st)"
  shows "db' = je_during env db \<and> st = StUpdateError"
proof -
  have "\<not> text_ok (jobs_truncateUTF8 (render e) 1024)"
    using assms(1,3,4) by (auto simp: jobs_truncateUTF8_def)
  with assms(2,5) show ?thesis
    by (auto simp: process_job_def job_outcome_of_def outcome_exec_def sql_exec_def outcome_status_def
        Let_def split: option.splits if_splits)
qed

theorem jobs_invalid_error_never_counted_witness:
  "process_job demo_cfg (\<lambda>_. [CHR 0xFF]) ValidString Map.empty demo_env demo_claimed
     \<lparr>jd_rows = [demo_held], jd_now = 0\<rparr> = Some (\<lparr>jd_rows = [demo_held], jd_now = 0\<rparr>, StUpdateError)"
proof -
  let ?p = "process_job demo_cfg (\<lambda>_. [CHR 0xFF]) ValidString Map.empty demo_env demo_claimed
     \<lparr>jd_rows = [demo_held], jd_now = 0\<rparr>"
  have "?p \<noteq> None"
    by (simp add: process_job_def job_process_err_def jobs_HandlerFor_def job_outcome_of_def demo_defs
        Let_def case_prod_beta)
  then obtain db' st where p: "?p = Some (db', st)" by auto
  have err: "job_process_err Map.empty demo_claimed = Some (ErrMsg ''no handler for job %q'' [''mail''])"
    by (simp add: job_process_err_def jobs_HandlerFor_def demo_claimed_def)
  have "\<not> ValidString [CHR 0xFF]" by (simp add: ValidString.simps rune_len_def rune_head_def byte_in_def)
  then have "db' = je_during demo_env \<lparr>jd_rows = [demo_held], jd_now = 0\<rparr> \<and> st = StUpdateError"
    using jobs_invalid_error_never_counted [OF _ err _ _ p] by simp
  with p show ?thesis by (simp add: demo_env_def)
qed

subsection \<open>Administration and registration\<close>

text \<open>Requeueing a job succeeds exactly when the job failed permanently, and then the job
  has a fresh attempt count, no owner, and is due from the requested time on; in every other
  case the table is unchanged and the error is the not-found sentinel.\<close>

theorem requeue_failed_spec:
  assumes "jobs_pk rows" and "RequeueFailed True ExecOk now i runAt rows = (rows', err)"
  shows "(if \<exists>r. find_row jr_id i rows = Some r \<and> job_failed r
    then err = None \<and> (\<exists>r'. find_row jr_id i rows' = Some r' \<and> jr_attempt r' = 0 \<and>
      jr_claim_token r' = None \<and> jr_last_error r' = None \<and>
      (\<forall>t. job_due t r' \<longleftrightarrow> (case runAt of None \<Rightarrow> now | Some t0 \<Rightarrow> t0) \<le> t))
    else rows' = rows \<and> (\<exists>e. err = Some e \<and> errors_is e ErrFailedJobNotFound))"
proof (cases "\<exists>r. find_row jr_id i rows = Some r \<and> job_failed r")
  case True
  then obtain r where r: "find_row jr_id i rows = Some r" "job_failed r" by blast
  let ?t = "case runAt of None \<Rightarrow> now | Some t0 \<Rightarrow> t0"
  have "rows' = fst (requeue_stmt i ?t rows)" "err = None"
    using assms r requeue_stmt_count [OF assms(1), of i ?t] by (auto simp: repo_defs Let_def)
  with r show ?thesis by (auto simp: requeue_stmt_row job_due_def)
next
  case False
  let ?t = "case runAt of None \<Rightarrow> now | Some t0 \<Rightarrow> t0"
  have d: "distinct (map jr_id rows)" using assms(1) by (simp add: jobs_pk_def)
  then have "\<forall>r \<in> set rows. \<not> (jr_id r = i \<and> job_failed r)"
    using False by (auto simp: find_row_iff)
  then have "requeue_stmt i ?t rows = (rows, 0)" by (simp add: requeue_stmt_def)
  with False assms(2) show ?thesis by (auto simp: repo_defs Let_def)
qed

theorem requeue_failed_spec_witness:
  "\<exists>rows' r'. RequeueFailed True ExecOk 9 ''a'' None (js_rows demo4) = (rows', None) \<and>
     find_row jr_id ''a'' rows' = Some r' \<and> jr_attempt r' = 0 \<and> job_due 9 r'"
proof -
  obtain rows' err where q: "RequeueFailed True ExecOk 9 ''a'' None (js_rows demo4) = (rows', err)"
    by fastforce
  have pk: "jobs_pk (js_rows demo4)" by (simp add: jobs_pk_def demo_defs)
  have "\<exists>r. find_row jr_id ''a'' (js_rows demo4) = Some r \<and> job_failed r"
    by (simp add: demo_defs job_failed_def)
  with requeue_failed_spec [OF pk q] q show ?thesis by auto
qed

text \<open>Registration cannot be overwritten silently: over any sequence of \<open>Register\<close> and
  \<open>Replace\<close> calls from a new registry every lookup is the nil interface or a usable handler,
  and a \<open>Register\<close> call on a name that is taken reports the duplicate and changes nothing.\<close>

theorem jobs_registry_safe:
  assumes r: "r = fold (\<lambda>x r. reg_apply r x) ops jobs_NewRegistry"
  shows "jobs_HandlerFor r nm \<noteq> NilInside \<and>
    (jobs_HandlerFor r nm \<noteq> NilInterface \<longrightarrow>
       fst (jobs_Register r nm h) = r \<and>
       (\<exists>e. snd (jobs_Register r nm h) = Some e \<and>
          (jobs_isNilHandler h \<or> errors_is e jobs_ErrHandlerRegistered)))"
proof -
  have "reg_inv r" unfolding r by (rule reg_inv_fold) (simp add: reg_inv_def jobs_NewRegistry_def)
  then show ?thesis
    by (cases "r nm") (auto simp: reg_inv_def jobs_HandlerFor_def jobs_Register_def jobs_isNilHandler_def
        split: handler_value.splits)
qed

theorem jobs_registry_safe_witness:
  "jobs_HandlerFor (fold (\<lambda>x r. reg_apply r x) [OpRegister ''a'' (Usable ())] jobs_NewRegistry) ''a'' = Usable ()
   \<and> fst (jobs_Register (fold (\<lambda>x r. reg_apply r x) [OpRegister ''a'' (Usable ())] jobs_NewRegistry) ''a'' (Usable ()))
     = fold (\<lambda>x r. reg_apply r x) [OpRegister ''a'' (Usable ())] jobs_NewRegistry"
  using jobs_registry_safe [OF refl, of "[OpRegister ''a'' (Usable ())]" "''a''" "Usable ()"]
  by (simp add: jobs_HandlerFor_def jobs_Register_def jobs_NewRegistry_def jobs_isNilHandler_def)

end
