(* ===== verification/Events.thy ===== *)
theory Events
  imports GoStrings
begin

text \<open>
  The event registry (\<open>events/events.go\<close>): the envelope, handler values as the registry can
  see them, registration with its rejections, freezing and lookup. The mutex makes each
  operation atomic, so a registry's history is a sequence of operations.
\<close>

record Event =
  ev_ID :: string
  ev_Type :: string
  ev_AggregateID :: string
  ev_AggregateType :: string
  ev_Payload :: string
  ev_OccurredAt :: int
  ev_SchemaVersion :: int

subsection \<open>Handler values\<close>

text \<open>
  What the registry can tell about a handler: the nil interface, a \<open>HandlerFunc\<close> value (its
  type name and the code pointer of its function, if any), a pointer to a \<open>HandlerFunc\<close> (nil,
  or an address with the value stored there), or a value of another type: its dynamic type,
  whether it is a nil pointer, map, func, ..., whether its type is comparable, what
  comparing it looks at, and its \<open>EventType()\<close>. Comparing a value of a comparable type can
  still meet an uncomparable one behind an interface field, which panics.
\<close>

datatype go_val = GvRef nat | GvUncomparable

datatype ev_handler =
    EvNil
  | EvFunc string "nat option"
  | EvFuncPtr "(nat \<times> string \<times> nat option) option"
  | EvOther string bool bool go_val string

fun gv_eq :: "go_val \<Rightarrow> go_val \<Rightarrow> bool option" where
  "gv_eq (GvRef a) (GvRef b) = Some (a = b)"
| "gv_eq GvUncomparable GvUncomparable = None"
| "gv_eq _ _ = Some False"

fun ev_EventType :: "ev_handler \<Rightarrow> string" where
  "ev_EventType EvNil = []"
| "ev_EventType (EvFunc t f) = t"
| "ev_EventType (EvFuncPtr None) = []"
| "ev_EventType (EvFuncPtr (Some (a, t, f))) = t"
| "ev_EventType (EvOther ty isnil cmp v t) = t"

fun ev_isNilHandler :: "ev_handler \<Rightarrow> bool" where
  "ev_isNilHandler EvNil = True"
| "ev_isNilHandler (EvFunc t f) = (f = None)"
| "ev_isNilHandler (EvFuncPtr None) = True"
| "ev_isNilHandler (EvFuncPtr (Some (a, t, f))) = (f = None)"
| "ev_isNilHandler (EvOther ty isnil cmp v t) = isnil"

text \<open>\<open>sameHandler\<close>; \<open>None\<close> is a panic of \<open>==\<close>. A pointer type is comparable, a
  \<open>HandlerFunc\<close> is not.\<close>

fun ev_sameHandler :: "ev_handler \<Rightarrow> ev_handler \<Rightarrow> bool option" where
  "ev_sameHandler (EvFunc t f) (EvFunc u g) = Some (t = u \<and> f = g)"
| "ev_sameHandler (EvFuncPtr p) (EvFuncPtr q) = Some (map_option fst p = map_option fst q)"
| "ev_sameHandler (EvOther ty n c v t) (EvOther ty' n' c' v' t') =
     (if ty \<noteq> ty' then Some False else if c then gv_eq v v' else Some False)"
| "ev_sameHandler _ _ = Some False"

fun ev_find_same :: "ev_handler list \<Rightarrow> ev_handler \<Rightarrow> bool option" where
  "ev_find_same [] h = Some False"
| "ev_find_same (e # es) h =
     (case ev_sameHandler e h of
        None \<Rightarrow> None
      | Some True \<Rightarrow> Some True
      | Some False \<Rightarrow> ev_find_same es h)"

subsection \<open>Registry\<close>

record ev_registry =
  er_handlers :: "string \<Rightarrow> ev_handler list"   \<comment> \<open>a missing key reads as the empty slice\<close>
  er_frozen :: bool

abbreviation events_ErrInvalidHandler :: goerr where
  "events_ErrInvalidHandler \<equiv> ErrSentinel ''events: invalid handler''"
abbreviation events_ErrRegistryFrozen :: goerr where
  "events_ErrRegistryFrozen \<equiv> ErrSentinel ''events: registry is frozen''"
abbreviation events_ErrDuplicate :: goerr where
  "events_ErrDuplicate \<equiv> ErrSentinel ''events: handler already registered''"

definition events_NewRegistry :: ev_registry where
  "events_NewRegistry = \<lparr>er_handlers = (\<lambda>_. []), er_frozen = False\<rparr>"

datatype ev_result = EvOk | EvErr goerr | EvPanic

definition events_Register :: "ev_registry \<Rightarrow> ev_handler \<Rightarrow> ev_registry \<times> ev_result" where
  "events_Register r h =
     (if ev_isNilHandler h then (r, EvErr events_ErrInvalidHandler)
      else
        let t = TrimSpace (ev_EventType h) in
        if t = [] then (r, EvErr events_ErrInvalidHandler)
        else if er_frozen r then (r, EvErr events_ErrRegistryFrozen)
        else (case ev_find_same (er_handlers r t) h of
                None \<Rightarrow> (r, EvPanic)
              | Some True \<Rightarrow> (r, EvErr events_ErrDuplicate)
              | Some False \<Rightarrow>
                 (r\<lparr>er_handlers := (er_handlers r)(t := er_handlers r t @ [h])\<rparr>, EvOk)))"

definition events_Freeze :: "ev_registry \<Rightarrow> ev_registry" where
  "events_Freeze r = r\<lparr>er_frozen := True\<rparr>"

definition events_Frozen :: "ev_registry \<Rightarrow> bool" where
  "events_Frozen r = er_frozen r"

definition events_HandlersFor :: "ev_registry \<Rightarrow> string \<Rightarrow> ev_handler list" where
  "events_HandlersFor r eventType =
     er_handlers r eventType @ (if eventType \<noteq> ''*'' then er_handlers r ''*'' else [])"

datatype ev_op = EvRegister ev_handler | EvFreeze

fun ev_apply :: "ev_op \<Rightarrow> ev_registry \<Rightarrow> ev_registry" where
  "ev_apply (EvRegister h) r = fst (events_Register r h)"
| "ev_apply EvFreeze r = events_Freeze r"

subsection \<open>Invariant\<close>

text \<open>Every stored handler is usable, is filed under its own trimmed type, and no two
  handlers of one type are the same.\<close>

definition ev_inv :: "ev_registry \<Rightarrow> bool" where
  "ev_inv r \<longleftrightarrow>
     (\<forall>t. \<forall>h \<in> set (er_handlers r t). \<not> ev_isNilHandler h \<and> TrimSpace (ev_EventType h) = t \<and> t \<noteq> []) \<and>
     (\<forall>t i j. i < j \<longrightarrow> j < length (er_handlers r t) \<longrightarrow>
        ev_sameHandler (er_handlers r t ! i) (er_handlers r t ! j) = Some False)"

lemma ev_find_same_False:
  "ev_find_same es h = Some False \<longleftrightarrow> (\<forall>e \<in> set es. ev_sameHandler e h = Some False)"
  by (induction es) (auto split: option.split bool.split)

lemma ev_find_same_TrueD:
  "ev_find_same es h = Some True \<Longrightarrow> \<exists>e \<in> set es. ev_sameHandler e h = Some True"
  by (induction es) (auto split: option.splits bool.splits)

lemma ev_Register_cases:
  obtains (added) t where "\<not> ev_isNilHandler h" "t = TrimSpace (ev_EventType h)" "t \<noteq> []"
      "\<not> er_frozen r" "\<forall>e \<in> set (er_handlers r t). ev_sameHandler e h = Some False"
      "events_Register r h = (r\<lparr>er_handlers := (er_handlers r)(t := er_handlers r t @ [h])\<rparr>, EvOk)"
  | (rejected) "fst (events_Register r h) = r" "snd (events_Register r h) \<noteq> EvOk"
proof (cases "snd (events_Register r h) = EvOk")
  case True
  then have fs: "ev_find_same (er_handlers r (TrimSpace (ev_EventType h))) h = Some False"
    by (auto simp: events_Register_def Let_def split: if_splits option.splits bool.splits)
  then have "\<forall>e \<in> set (er_handlers r (TrimSpace (ev_EventType h))). ev_sameHandler e h = Some False"
    by (simp add: ev_find_same_False)
  with fs True show thesis
    by (intro added [of "TrimSpace (ev_EventType h)"])
       (auto simp: events_Register_def Let_def fs split: if_splits)
next
  case False
  then show thesis
    by (intro rejected)
       (auto simp: events_Register_def Let_def split: if_splits option.splits bool.splits)
qed

lemma ev_inv_new: "ev_inv events_NewRegistry"
  by (simp add: ev_inv_def events_NewRegistry_def)

lemma ev_inv_apply: "ev_inv r \<Longrightarrow> ev_inv (ev_apply x r)"
proof (cases x)
  case (EvRegister h)
  assume inv: "ev_inv r"
  show ?thesis
  proof (cases rule: ev_Register_cases [of h r])
    case (added t)
    with inv EvRegister show ?thesis
      by (auto simp: ev_inv_def nth_append less_Suc_eq)
  next
    case rejected
    with inv EvRegister show ?thesis by simp
  qed
qed (simp add: ev_inv_def events_Freeze_def)

lemma ev_inv_fold: "ev_inv r \<Longrightarrow> ev_inv (fold ev_apply xs r)"
  by (induction xs arbitrary: r) (simp_all add: ev_inv_apply)

lemma ev_frozen_fold: "er_frozen r \<Longrightarrow> fold ev_apply xs r = r"
proof (induction xs)
  case (Cons x xs)
  have "ev_apply x r = r"
  proof (cases x)
    case (EvRegister h)
    with Cons.prems show ?thesis by (cases rule: ev_Register_cases [of h r]) auto
  qed (use Cons.prems in \<open>simp add: events_Freeze_def\<close>)
  with Cons show ?case by simp
qed simp

text \<open>What a sequence of operations leaves under a type: the handlers whose registration
  succeeded, in the order of registration.\<close>

fun ev_accepted :: "ev_op list \<Rightarrow> ev_registry \<Rightarrow> ev_handler list" where
  "ev_accepted [] r = []"
| "ev_accepted (EvRegister h # xs) r =
     (if snd (events_Register r h) = EvOk then h # ev_accepted xs (fst (events_Register r h))
      else ev_accepted xs r)"
| "ev_accepted (EvFreeze # xs) r = ev_accepted xs (events_Freeze r)"

lemma ev_handlers_accepted:
  "er_handlers (fold ev_apply xs r) t =
     er_handlers r t @ filter (\<lambda>h. TrimSpace (ev_EventType h) = t) (ev_accepted xs r)"
proof (induction xs arbitrary: r)
  case (Cons x xs)
  show ?case
  proof (cases x)
    case (EvRegister h)
    show ?thesis
      by (cases rule: ev_Register_cases [of h r]) (auto simp: EvRegister Cons)
  qed (simp add: Cons events_Freeze_def)
qed simp

text \<open>The registry over any sequence of registrations and freezes: the handlers of an event
  are the accepted ones of its type and then the accepted wildcard ones, each in the order
  of registration; all of them are usable, and no two of one type are the same handler.\<close>

theorem events_lookup:
  assumes "r = fold ev_apply xs events_NewRegistry"
  shows "events_HandlersFor r t =
      filter (\<lambda>h. TrimSpace (ev_EventType h) = t) (ev_accepted xs events_NewRegistry) @
      (if t = ''*'' then [] else
         filter (\<lambda>h. TrimSpace (ev_EventType h) = ''*'') (ev_accepted xs events_NewRegistry)) \<and>
    (\<forall>h \<in> set (events_HandlersFor r t). \<not> ev_isNilHandler h) \<and>
    (\<forall>i j. i < j \<longrightarrow> j < length (er_handlers r t) \<longrightarrow>
      ev_sameHandler (er_handlers r t ! i) (er_handlers r t ! j) = Some False)"
proof (intro conjI)
  have inv: "ev_inv r" unfolding assms by (rule ev_inv_fold [OF ev_inv_new])
  show "events_HandlersFor r t =
      filter (\<lambda>h. TrimSpace (ev_EventType h) = t) (ev_accepted xs events_NewRegistry) @
      (if t = ''*'' then [] else
         filter (\<lambda>h. TrimSpace (ev_EventType h) = ''*'') (ev_accepted xs events_NewRegistry))"
    unfolding assms events_HandlersFor_def ev_handlers_accepted
    by (simp add: events_NewRegistry_def)
  show "\<forall>h \<in> set (events_HandlersFor r t). \<not> ev_isNilHandler h"
    using inv by (auto simp: ev_inv_def events_HandlersFor_def)
  show "\<forall>i j. i < j \<longrightarrow> j < length (er_handlers r t) \<longrightarrow>
      ev_sameHandler (er_handlers r t ! i) (er_handlers r t ! j) = Some False"
    using inv by (auto simp: ev_inv_def)
qed

theorem events_lookup_witness:
  "length (events_HandlersFor (fold ev_apply
      [EvRegister (EvFunc ''u'' (Some 1)), EvRegister (EvFunc ''u'' (Some 1)),
       EvRegister (EvFunc '' * '' (Some 2)), EvFreeze, EvRegister (EvFunc ''u'' (Some 3))]
      events_NewRegistry) ''u'') = 2"
  by (subst conjunct1 [OF events_lookup [OF refl]], code_simp)

text \<open>A frozen registry never changes, and every later registration of a usable handler is
  refused.\<close>

theorem events_frozen_stable:
  assumes "r = fold ev_apply xs (events_Freeze r0)"
  shows "r = events_Freeze r0 \<and> events_Frozen r \<and>
    snd (events_Register r h) \<in> {EvErr events_ErrRegistryFrozen, EvErr events_ErrInvalidHandler}"
proof (intro conjI)
  show r: "r = events_Freeze r0"
    unfolding assms by (rule ev_frozen_fold) (simp add: events_Freeze_def)
  then show "events_Frozen r" by (simp add: events_Frozen_def events_Freeze_def)
  show "snd (events_Register r h) \<in> {EvErr events_ErrRegistryFrozen, EvErr events_ErrInvalidHandler}"
    unfolding r by (simp add: events_Register_def events_Freeze_def Let_def)
qed

theorem events_frozen_stable_witness:
  "snd (events_Register (fold ev_apply [EvRegister (EvFunc ''u'' (Some 1))]
     (events_Freeze events_NewRegistry)) (EvFunc ''u'' (Some 2))) \<in>
     {EvErr events_ErrRegistryFrozen, EvErr events_ErrInvalidHandler}"
  using events_frozen_stable [OF refl, of "[EvRegister (EvFunc ''u'' (Some 1))]" events_NewRegistry
      "EvFunc ''u'' (Some 2)"] by blast

end
