(* ===== verification/Outbox.thy ===== *)
theory Outbox
  imports Events JobsWorker
begin

text \<open>
  The transactional outbox (\<open>outbox/outbox.go\<close>): the table \<open>outbox_messages\<close>, \<open>Enqueue\<close> with
  its options, the relay's configuration, its claim, renewal and outcome statements, the
  delivery of one event to its handlers, one batch, the renewal goroutine and the polling
  loop. As for the jobs worker, \<open>pgiv\<close> is how the database reads an interval (microseconds),
  \<open>render\<close> the text of an error, \<open>text_ok\<close> the text parameters the server accepts, and
  \<open>run\<close> the application's handlers.
\<close>

subsection \<open>Table and enqueue\<close>

record outbox_row =
  or_id :: string
  or_event_type :: string
  or_aggregate_id :: string
  or_aggregate_type :: string
  or_payload :: string
  or_schema_version :: int
  or_occurred_at :: int
  or_created_at :: int
  or_attempt :: int
  or_max_attempts :: int
  or_process_after :: int
  or_processed_at :: "int option"
  or_failed_at :: "int option"
  or_last_error :: "string option"
  or_locked_until :: "int option"
  or_claim_token :: "string option"

definition outbox_pk :: "outbox_row list \<Rightarrow> bool" where
  "outbox_pk rows \<longleftrightarrow> distinct (map or_id rows)"

record enqueueConfig =
  ec_maxAttempts :: int
  ec_processAfter :: int

type_synonym enqueue_option = "enqueueConfig \<Rightarrow> goerr + enqueueConfig"

definition WithMaxAttempts :: "int \<Rightarrow> enqueue_option" where
  "WithMaxAttempts maxAttempts config =
     (if maxAttempts \<le> 0 then Inl (ErrMsg ''outbox: max attempts must be greater than zero'' [])
      else Inr (config\<lparr>ec_maxAttempts := maxAttempts\<rparr>))"

text \<open>A zero time is \<open>None\<close>.\<close>

definition WithProcessAfter :: "int option \<Rightarrow> enqueue_option" where
  "WithProcessAfter processAfter config =
     (case processAfter of
        None \<Rightarrow> Inl (ErrMsg ''outbox: process after must not be zero'' [])
      | Some t \<Rightarrow> Inr (config\<lparr>ec_processAfter := t\<rparr>))"

text \<open>The loop over the options skips nil ones and stops at the first error.\<close>

fun apply_enqueue_options :: "enqueue_option option list \<Rightarrow> enqueueConfig \<Rightarrow> goerr + enqueueConfig" where
  "apply_enqueue_options [] config = Inr config"
| "apply_enqueue_options (None # options) config = apply_enqueue_options options config"
| "apply_enqueue_options (Some option # options) config =
     (case option config of
        Inl e \<Rightarrow> Inl e
      | Inr config' \<Rightarrow> apply_enqueue_options options config')"

definition outbox_insert ::
  "int \<Rightarrow> Event \<Rightarrow> string \<Rightarrow> enqueueConfig \<Rightarrow> outbox_row list \<Rightarrow> (outbox_row list) option" where
  "outbox_insert db_now event payload config rows =
     (if ev_ID event \<in> or_id ` set rows then None
      else Some (rows @
        [\<lparr>or_id = ev_ID event, or_event_type = ev_Type event, or_aggregate_id = ev_AggregateID event,
          or_aggregate_type = ev_AggregateType event, or_payload = payload,
          or_schema_version = ev_SchemaVersion event, or_occurred_at = ev_OccurredAt event,
          or_created_at = db_now, or_attempt = 0, or_max_attempts = ec_maxAttempts config,
          or_process_after = ec_processAfter config, or_processed_at = None, or_failed_at = None,
          or_last_error = None, or_locked_until = None, or_claim_token = None\<rparr>]))"

definition outbox_Enqueue ::
  "(string \<Rightarrow> goerr + string) \<Rightarrow> int \<Rightarrow> int \<Rightarrow> exec_outcome \<Rightarrow> Event \<Rightarrow> enqueue_option option list
     \<Rightarrow> outbox_row list \<Rightarrow> outbox_row list \<times> goerr option" where
  "outbox_Enqueue marshal now db_now out event options rows =
     (case apply_enqueue_options options \<lparr>ec_maxAttempts = 5, ec_processAfter = now\<rparr> of
        Inl e \<Rightarrow> (rows, Some e)
      | Inr config \<Rightarrow>
         (case marshal (ev_Payload event) of
            Inl e \<Rightarrow> (rows, Some (ErrWrap ''outbox: marshal payload: %w'' [] e))
          | Inr payload \<Rightarrow>
             (case outbox_insert db_now event payload config rows of
                None \<Rightarrow>
                  (rows, Some (ErrWrap ''outbox: enqueue %s: %w'' [ev_Type event] (ErrPg ''23505'')))
              | Some rows' \<Rightarrow>
                 (case out of
                    ExecOk \<Rightarrow> (rows', None)
                  | ExecFailed \<Rightarrow>
                     (rows, Some (ErrWrap ''outbox: enqueue %s: %w'' [ev_Type event] (ErrApp ''exec'')))
                  | ExecReplyLost \<Rightarrow>
                     (rows', Some (ErrWrap ''outbox: enqueue %s: %w'' [ev_Type event] (ErrApp ''exec'')))))))"

text \<open>Every option the package offers keeps the attempt limit positive.\<close>

definition option_ok :: "enqueue_option \<Rightarrow> bool" where
  "option_ok f \<longleftrightarrow> (\<exists>n. f = WithMaxAttempts n) \<or> (\<exists>t. f = WithProcessAfter t)"

lemma apply_enqueue_options_pos:
  assumes "apply_enqueue_options options config = Inr config'" and "1 \<le> ec_maxAttempts config"
    and "\<forall>f. Some f \<in> set options \<longrightarrow> option_ok f"
  shows "1 \<le> ec_maxAttempts config'"
  using assms
proof (induction options config rule: apply_enqueue_options.induct)
  case (3 option options config)
  then obtain c where c: "option config = Inr c" by (auto split: sum.splits)
  have "option_ok option" using 3 by simp
  then have "1 \<le> ec_maxAttempts c"
    using "3.prems"(2) c
    by (auto simp: option_ok_def WithMaxAttempts_def WithProcessAfter_def split: if_splits option.splits)
  with 3 c show ?case by simp
qed simp_all

lemma outbox_insert_pk:
  "outbox_insert n ev p c rows = Some rows' \<Longrightarrow> outbox_pk rows \<Longrightarrow> outbox_pk rows'"
  by (auto simp: outbox_insert_def outbox_pk_def split: if_splits)

subsection \<open>Relay configuration\<close>

record RelayConfig =
  rc_BatchSize :: int
  rc_PollInterval :: duration
  rc_InitialBackoff :: duration
  rc_LeaseDuration :: duration
  rc_LeaseRenewalInterval :: duration

definition relay_batchSize :: "RelayConfig \<Rightarrow> int" where
  "relay_batchSize c = (if rc_BatchSize c > 0 then rc_BatchSize c else 50)"

definition relay_pollInterval :: "RelayConfig \<Rightarrow> duration" where
  "relay_pollInterval c = (if rc_PollInterval c > 0 then rc_PollInterval c else 2 * 1000000000)"

definition relay_initialBackoff :: "RelayConfig \<Rightarrow> duration" where
  "relay_initialBackoff c = (if rc_InitialBackoff c > 0 then rc_InitialBackoff c else 500 * 1000000)"

definition relay_leaseDuration :: "RelayConfig \<Rightarrow> duration" where
  "relay_leaseDuration c = (if rc_LeaseDuration c > 0 then rc_LeaseDuration c else 5 * 60 * 1000000000)"

definition relay_leaseRenewalInterval :: "RelayConfig \<Rightarrow> duration" where
  "relay_leaseRenewalInterval c =
     (let lease = relay_leaseDuration c in
      if rc_LeaseRenewalInterval c > 0 \<and> rc_LeaseRenewalInterval c < lease
      then rc_LeaseRenewalInterval c
      else let interval = go_div lease 2 in if interval \<le> 0 then 1 else interval)"

definition relay_backoff :: "RelayConfig \<Rightarrow> int \<Rightarrow> int \<Rightarrow> duration option" where
  "relay_backoff c attempt draw =
     (let base = relay_initialBackoff c;
          exp = (double64 ^^ nat (attempt - 1)) base;
          mx = wrap64 (exp * 2) in
      (case Int64N exp draw of
         None \<Rightarrow> None
       | Some jitter \<Rightarrow>
          let d = wrap64 (exp + jitter) in
          Some (if mx > 0 \<and> d > mx then mx else d)))"

text \<open>The relay and the worker have the same policy, field by field, so the facts on the
  worker's delay carry over.\<close>

definition as_worker :: "RelayConfig \<Rightarrow> WorkerConfig" where
  "as_worker c = \<lparr>wc_BatchSize = rc_BatchSize c, wc_PollInterval = rc_PollInterval c,
     wc_InitialBackoff = rc_InitialBackoff c, wc_LeaseDuration = rc_LeaseDuration c,
     wc_LeaseRenewalInterval = rc_LeaseRenewalInterval c\<rparr>"

lemma as_worker_sel [simp]:
  "wc_BatchSize (as_worker c) = rc_BatchSize c" "wc_PollInterval (as_worker c) = rc_PollInterval c"
  "wc_InitialBackoff (as_worker c) = rc_InitialBackoff c"
  "wc_LeaseDuration (as_worker c) = rc_LeaseDuration c"
  "wc_LeaseRenewalInterval (as_worker c) = rc_LeaseRenewalInterval c"
  by (simp_all add: as_worker_def)

lemma relay_as_worker:
  "relay_batchSize c = worker_batchSize (as_worker c)"
  "relay_pollInterval c = worker_pollInterval (as_worker c)"
  "relay_initialBackoff c = worker_initialBackoff (as_worker c)"
  "relay_leaseDuration c = worker_leaseDuration (as_worker c)"
  by (simp_all add: relay_batchSize_def worker_batchSize_def relay_pollInterval_def
      worker_pollInterval_def relay_initialBackoff_def worker_initialBackoff_def
      relay_leaseDuration_def worker_leaseDuration_def)

lemma relay_policy_as_worker:
  "relay_leaseRenewalInterval c = worker_leaseRenewalInterval (as_worker c)"
  "relay_backoff c n d = worker_backoff (as_worker c) n d"
  unfolding relay_leaseRenewalInterval_def worker_leaseRenewalInterval_def relay_backoff_def
    worker_backoff_def relay_as_worker as_worker_sel by (rule refl)+

definition outbox_truncateUTF8 :: "string \<Rightarrow> nat \<Rightarrow> string" where
  "outbox_truncateUTF8 value maxBytes =
     (if length value \<le> maxBytes then value else drop_invalid_tail (take maxBytes value))"

subsection \<open>Statements\<close>

record outboxRow =
  ob_id :: string
  ob_eventType :: string
  ob_aggregateID :: string
  ob_aggregateType :: string
  ob_payload :: string
  ob_schemaVersion :: int
  ob_occurredAt :: int
  ob_attempt :: int
  ob_maxAttempts :: int
  ob_claimToken :: string

definition message_due :: "int \<Rightarrow> outbox_row \<Rightarrow> bool" where
  "message_due now r \<longleftrightarrow>
     or_processed_at r = None \<and> or_failed_at r = None \<and> or_process_after r \<le> now \<and>
     (case or_locked_until r of None \<Rightarrow> True | Some u \<Rightarrow> u \<le> now)"

definition relay_select :: "int \<Rightarrow> int \<Rightarrow> (string \<Rightarrow> bool) \<Rightarrow> outbox_row list \<Rightarrow> string list" where
  "relay_select now limit locked rows =
     map or_id (take (nat limit)
       (sort_key or_occurred_at (filter (\<lambda>r. message_due now r \<and> \<not> locked (or_id r)) rows)))"

definition relay_claim_update ::
  "int \<Rightarrow> pg_micros \<Rightarrow> string \<Rightarrow> string list \<Rightarrow> outbox_row list \<Rightarrow> outbox_row list \<times> nat" where
  "relay_claim_update now iv p ids =
     sql_update (\<lambda>r. or_id r \<in> set ids)
       (\<lambda>r. r\<lparr>or_process_after := now + iv, or_locked_until := Some (now + iv),
              or_claim_token := Some (claim_token p (or_id r))\<rparr>)"

definition scan_message :: "outbox_row \<Rightarrow> outboxRow" where
  "scan_message r =
     \<lparr>ob_id = or_id r, ob_eventType = or_event_type r, ob_aggregateID = or_aggregate_id r,
      ob_aggregateType = or_aggregate_type r, ob_payload = or_payload r,
      ob_schemaVersion = or_schema_version r, ob_occurredAt = or_occurred_at r,
      ob_attempt = or_attempt r, ob_maxAttempts = or_max_attempts r,
      ob_claimToken = (case or_claim_token r of None \<Rightarrow> [] | Some t \<Rightarrow> t)\<rparr>"

definition relay_claim ::
  "int \<Rightarrow> pg_micros \<Rightarrow> string \<Rightarrow> int \<Rightarrow> (string \<Rightarrow> bool) \<Rightarrow> outbox_row list \<Rightarrow> outbox_row list \<times> outboxRow list"
where
  "relay_claim now iv p limit locked rows =
     (let ids = relay_select now limit locked rows;
          rows' = fst (relay_claim_update now iv p ids rows)
      in (rows', map scan_message (filter (\<lambda>r. or_id r \<in> set ids) rows')))"

definition message_owned :: "string \<Rightarrow> string \<Rightarrow> outbox_row \<Rightarrow> bool" where
  "message_owned i t r \<longleftrightarrow> or_id r = i \<and> or_claim_token r = Some t"

definition processed_stmt :: "int \<Rightarrow> string \<Rightarrow> string \<Rightarrow> outbox_row list \<Rightarrow> outbox_row list \<times> nat" where
  "processed_stmt now i t = sql_update (message_owned i t) (\<lambda>r. r\<lparr>or_processed_at := Some now\<rparr>)"

definition failed_stmt ::
  "int \<Rightarrow> string \<Rightarrow> string \<Rightarrow> int \<Rightarrow> string \<Rightarrow> outbox_row list \<Rightarrow> outbox_row list \<times> nat" where
  "failed_stmt now i t n msg =
     sql_update (message_owned i t)
       (\<lambda>r. r\<lparr>or_failed_at := Some now, or_attempt := n, or_last_error := Some msg\<rparr>)"

definition relay_retry_stmt ::
  "int \<Rightarrow> string \<Rightarrow> string \<Rightarrow> int \<Rightarrow> int \<Rightarrow> string \<Rightarrow> outbox_row list \<Rightarrow> outbox_row list \<times> nat" where
  "relay_retry_stmt now i t n ms msg =
     sql_update (message_owned i t)
       (\<lambda>r. r\<lparr>or_attempt := n, or_process_after := now + ms * 1000, or_locked_until := None,
              or_claim_token := None, or_last_error := Some msg\<rparr>)"

definition relay_renew_stmt ::
  "int \<Rightarrow> pg_micros \<Rightarrow> string \<Rightarrow> string \<Rightarrow> outbox_row list \<Rightarrow> outbox_row list \<times> nat" where
  "relay_renew_stmt now iv i t =
     sql_update
       (\<lambda>r. message_owned i t r \<and> (case or_locked_until r of None \<Rightarrow> False | Some u \<Rightarrow> now < u))
       (\<lambda>r. r\<lparr>or_process_after := now + iv, or_locked_until := Some (now + iv)\<rparr>)"

lemmas relay_stmt_defs = processed_stmt_def failed_stmt_def relay_retry_stmt_def relay_renew_stmt_def

subsection \<open>Delivery\<close>

type_synonym event_runner = "ev_handler \<Rightarrow> Event \<Rightarrow> handler_result"

text \<open>The calls made of handlers, with the event each was given.\<close>

type_synonym handler_calls = "(ev_handler \<times> Event) list"

definition callEventHandler ::
  "event_runner \<Rightarrow> ev_handler \<Rightarrow> Event \<Rightarrow> handler_calls \<Rightarrow> handler_calls \<times> goerr option" where
  "callEventHandler run h event calls =
     (calls @ [(h, event)],
      case run h event of
        Returned e \<Rightarrow> e
      | Panicked v \<Rightarrow> Some (ErrMsg ''outbox: handler panic: %v'' [v]))"

text \<open>The dynamic type a handler prints as (\<open>%T\<close>).\<close>

fun ev_type_name :: "ev_handler \<Rightarrow> string" where
  "ev_type_name EvNil = ''<nil>''"
| "ev_type_name (EvFunc t f) = ''events.HandlerFunc''"
| "ev_type_name (EvFuncPtr p) = ''*events.HandlerFunc''"
| "ev_type_name (EvOther ty isnil cmp v t) = ty"

text \<open>\<open>deliver\<close>: the loop over the handlers with the calls it makes and the errors it collects,
  and the joined error.\<close>

fun deliver_loop ::
  "event_runner \<Rightarrow> Event \<Rightarrow> ev_handler list \<Rightarrow> handler_calls \<Rightarrow> goerr list \<Rightarrow> handler_calls \<times> goerr list" where
  "deliver_loop run event [] calls errs = (calls, errs)"
| "deliver_loop run event (h # hs) calls errs =
     (case callEventHandler run h event calls of
        (calls', None) \<Rightarrow> deliver_loop run event hs calls' errs
      | (calls', Some err) \<Rightarrow>
          deliver_loop run event hs calls' (errs @ [ErrWrap ''handler %T: %w'' [ev_type_name h] err]))"

definition outbox_deliver ::
  "event_runner \<Rightarrow> ev_registry option \<Rightarrow> Event \<Rightarrow> handler_calls \<times> goerr option" where
  "outbox_deliver run registry event =
     (case registry of
        None \<Rightarrow> ([], Some (ErrMsg ''outbox: no event registry configured'' []))
      | Some reg \<Rightarrow>
         (let handlers = events_HandlersFor reg (ev_Type event) in
          if handlers = [] then
            ([], Some (ErrMsg ''outbox: no handlers registered for event type %q'' [ev_Type event]))
          else
            (let (calls, errs) = deliver_loop run event handlers [] []
             in (calls, errors_join (map Some errs)))))"

definition event_of :: "outboxRow \<Rightarrow> Event" where
  "event_of m =
     \<lparr>ev_ID = ob_id m, ev_Type = ob_eventType m, ev_AggregateID = ob_aggregateID m,
      ev_AggregateType = ob_aggregateType m, ev_Payload = ob_payload m,
      ev_OccurredAt = ob_occurredAt m, ev_SchemaVersion = ob_schemaVersion m\<rparr>"

subsection \<open>Processing a batch\<close>

record outbox_db =
  od_rows :: "outbox_row list"
  od_now :: int

record message_env =
  me_during :: "outbox_db \<Rightarrow> outbox_db"
  me_draw :: int
  me_exec :: exec_outcome

datatype message_status = MsDelivered | MsRetried | MsFailed | MsClaimLost | MsUpdateError

datatype message_outcome = MoProcessed | MoFailed int string | MoRetry int int string

definition message_outcome_of ::
  "RelayConfig \<Rightarrow> (goerr \<Rightarrow> string) \<Rightarrow> outboxRow \<Rightarrow> goerr option \<Rightarrow> int \<Rightarrow> message_outcome option" where
  "message_outcome_of cfg render m deliveryErr draw =
     (let nextAttempt = ob_attempt m + 1 in
      case deliveryErr of
        None \<Rightarrow> Some MoProcessed
      | Some e \<Rightarrow>
         let errMsg = outbox_truncateUTF8 (render e) 1024 in
         if nextAttempt \<ge> ob_maxAttempts m then Some (MoFailed nextAttempt errMsg)
         else (case relay_backoff cfg nextAttempt draw of
                 None \<Rightarrow> None
               | Some backoff \<Rightarrow> Some (MoRetry nextAttempt (go_div backoff 1000000) errMsg)))"

definition message_stmt :: "int \<Rightarrow> outboxRow \<Rightarrow> message_outcome \<Rightarrow> outbox_row list \<Rightarrow> outbox_row list \<times> nat" where
  "message_stmt now m out =
     (case out of
        MoProcessed \<Rightarrow> processed_stmt now (ob_id m) (ob_claimToken m)
      | MoFailed n msg \<Rightarrow> failed_stmt now (ob_id m) (ob_claimToken m) n msg
      | MoRetry n ms msg \<Rightarrow> relay_retry_stmt now (ob_id m) (ob_claimToken m) n ms msg)"

definition message_exec :: "(string \<Rightarrow> bool) \<Rightarrow> message_outcome \<Rightarrow> exec_outcome \<Rightarrow> exec_outcome" where
  "message_exec text_ok out ex =
     (case out of
        MoProcessed \<Rightarrow> ex
      | MoFailed n msg \<Rightarrow> if text_ok msg then ex else ExecFailed
      | MoRetry n ms msg \<Rightarrow> if text_ok msg then ex else ExecFailed)"

definition message_status_of :: "message_outcome \<Rightarrow> nat option \<Rightarrow> message_status" where
  "message_status_of out tag =
     (case tag of
        None \<Rightarrow> MsUpdateError
      | Some n \<Rightarrow>
         if n \<noteq> 1 then MsClaimLost
         else (case out of MoProcessed \<Rightarrow> MsDelivered | MoFailed _ _ \<Rightarrow> MsFailed
               | MoRetry _ _ _ \<Rightarrow> MsRetried))"

definition process_message ::
  "RelayConfig \<Rightarrow> (goerr \<Rightarrow> string) \<Rightarrow> (string \<Rightarrow> bool) \<Rightarrow> event_runner \<Rightarrow> ev_registry option
     \<Rightarrow> message_env \<Rightarrow> outboxRow \<Rightarrow> outbox_db \<Rightarrow> (outbox_db \<times> message_status) option" where
  "process_message cfg render text_ok run reg env m db =
     (let deliveryErr = snd (outbox_deliver run reg (event_of m));
          db1 = me_during env db in
      case message_outcome_of cfg render m deliveryErr (me_draw env) of
        None \<Rightarrow> None
      | Some out \<Rightarrow>
         let (rows', tag) = sql_exec (message_exec text_ok out (me_exec env))
                              (message_stmt (od_now db1) m out) (od_rows db1)
         in Some (db1\<lparr>od_rows := rows'\<rparr>, message_status_of out tag))"

fun process_messages ::
  "RelayConfig \<Rightarrow> (goerr \<Rightarrow> string) \<Rightarrow> (string \<Rightarrow> bool) \<Rightarrow> event_runner \<Rightarrow> ev_registry option
     \<Rightarrow> (nat \<Rightarrow> message_env) \<Rightarrow> nat \<Rightarrow> outboxRow list \<Rightarrow> outbox_db
     \<Rightarrow> outbox_db \<times> message_status list \<times> bool" where
  "process_messages cfg render text_ok run reg env k [] db = (db, [], False)"
| "process_messages cfg render text_ok run reg env k (m # ms) db =
     (case process_message cfg render text_ok run reg (env k) m db of
        None \<Rightarrow> (me_during (env k) db, [], True)
      | Some (db', st) \<Rightarrow>
         (let (db'', sts, panicked) =
                process_messages cfg render text_ok run reg env (Suc k) ms db'
          in (db'', st # sts, panicked)))"

record relay_env =
  re_prefix :: string
  re_locked :: "string \<Rightarrow> bool"
  re_claim :: exec_outcome
  re_messages :: "nat \<Rightarrow> message_env"

datatype relay_batch = RelayError goerr | RelayDone "message_status list" | RelayPanic

definition outbox_processBatch ::
  "(string \<Rightarrow> pg_micros) \<Rightarrow> RelayConfig \<Rightarrow> (goerr \<Rightarrow> string) \<Rightarrow> (string \<Rightarrow> bool) \<Rightarrow> event_runner
     \<Rightarrow> ev_registry option \<Rightarrow> relay_env \<Rightarrow> outbox_db \<Rightarrow> outbox_db \<times> relay_batch" where
  "outbox_processBatch pgiv cfg render text_ok run reg env db =
     (let batch = relay_batchSize cfg;
          leaseDuration = relay_leaseDuration cfg;
          (rows', messages) = relay_claim (od_now db) (pgiv (outbox_postgresInterval leaseDuration)) (re_prefix env) batch
                                (re_locked env) (od_rows db) in
      case re_claim env of
        ExecFailed \<Rightarrow> (db, RelayError (ErrWrap ''outbox: claim batch: %w'' [] (ErrApp ''query'')))
      | ExecReplyLost \<Rightarrow>
          (db\<lparr>od_rows := rows'\<rparr>,
           RelayError (ErrWrap ''outbox: iterate claim rows: %w'' [] (ErrApp ''rows'')))
      | ExecOk \<Rightarrow>
          (let (db', sts, panicked) =
                 process_messages cfg render text_ok run reg (re_messages env) 0 messages
                   (db\<lparr>od_rows := rows'\<rparr>)
           in (db', if panicked then RelayPanic else RelayDone sts)))"

subsection \<open>Lease renewal and the polling loop\<close>

text \<open>The renewal goroutine over the events its \<open>select\<close> receives. The statement runs under
  the parent context, so a stop takes effect only between statements.\<close>

datatype relay_renew_event = RelayStop | RelayTick "outbox_db \<Rightarrow> outbox_db" exec_outcome

fun outbox_lease_renewal ::
  "(string \<Rightarrow> pg_micros) \<Rightarrow> duration \<Rightarrow> outboxRow \<Rightarrow> relay_renew_event list \<Rightarrow> outbox_db \<Rightarrow> outbox_db \<times> renew_end" where
  "outbox_lease_renewal pgiv lease m [] db = (db, RenewActive)"
| "outbox_lease_renewal pgiv lease m (RelayStop # evs) db = (db, RenewStopped)"
| "outbox_lease_renewal pgiv lease m (RelayTick during ex # evs) db =
     (let db1 = during db;
          iv = pgiv (outbox_postgresInterval lease);
          (rows', tag) = sql_exec ex (relay_renew_stmt (od_now db1) iv (ob_id m) (ob_claimToken m)) (od_rows db1);
          db2 = db1\<lparr>od_rows := rows'\<rparr> in
      case tag of
        None \<Rightarrow> outbox_lease_renewal pgiv lease m evs db2
      | Some n \<Rightarrow> if n \<noteq> 1 then (db2, RenewLost) else outbox_lease_renewal pgiv lease m evs db2)"

datatype relay_event = RelayDoneEv | RelayPoll "outbox_db \<Rightarrow> outbox_db" relay_env

fun outbox_poll_loop ::
  "(string \<Rightarrow> pg_micros) \<Rightarrow> RelayConfig \<Rightarrow> (goerr \<Rightarrow> string) \<Rightarrow> (string \<Rightarrow> bool) \<Rightarrow> event_runner
     \<Rightarrow> ev_registry \<Rightarrow> relay_event list \<Rightarrow> outbox_db \<Rightarrow> outbox_db \<times> run_result" where
  "outbox_poll_loop pgiv cfg render text_ok run reg [] db = (db, RunPolling)"
| "outbox_poll_loop pgiv cfg render text_ok run reg (RelayDoneEv # evs) db = (db, RunReturned None)"
| "outbox_poll_loop pgiv cfg render text_ok run reg (RelayPoll during env # evs) db =
     (case outbox_processBatch pgiv cfg render text_ok run (Some reg) env (during db) of
        (db', RelayPanic) \<Rightarrow> (db', RunPanicked)
      | (db', _) \<Rightarrow> outbox_poll_loop pgiv cfg render text_ok run reg evs db')"

text \<open>\<open>Run\<close> freezes the registry before it polls.\<close>

definition outbox_Run ::
  "(string \<Rightarrow> pg_micros) \<Rightarrow> RelayConfig \<Rightarrow> (goerr \<Rightarrow> string) \<Rightarrow> (string \<Rightarrow> bool) \<Rightarrow> event_runner
     \<Rightarrow> bool \<Rightarrow> ev_registry option \<Rightarrow> relay_event list \<Rightarrow> outbox_db
     \<Rightarrow> outbox_db \<times> ev_registry option \<times> run_result" where
  "outbox_Run pgiv cfg render text_ok run pool registry evs db =
     (if \<not> pool then (db, registry, RunReturned (Some (ErrMsg ''outbox: relay pool is required'' [])))
      else (case registry of
              None \<Rightarrow>
                (db, None, RunReturned (Some (ErrMsg ''outbox: relay registry is required'' [])))
            | Some reg \<Rightarrow>
               (let reg' = events_Freeze reg;
                    (db', res) = outbox_poll_loop pgiv cfg render text_ok run reg' evs db
                in (db', Some reg', res))))"

end
