(* ===== verification/OutboxFleet.thy ===== *)
theory OutboxFleet
  imports Outbox
begin

text \<open>
  Any number of relays and producers over one outbox table, in any interleaving, with
  crashes and lost replies. A renewal of any claim ever issued may run at any time, which
  includes the ones the server executes after a relay was shut down. The relation refines
  the lease machine with no revival of dead rows.
\<close>

subsection \<open>Rows after the statements\<close>

lemma message_row_update:
  assumes "\<And>r. or_id (f r) = or_id r"
  shows "find_row or_id k (fst (sql_update (\<lambda>r. message_owned i t r \<and> q r) f rows)) =
     map_option (\<lambda>r. if k = i \<and> or_claim_token r = Some t \<and> q r then f r else r) (find_row or_id k rows)"
proof -
  have "find_row or_id k (fst (sql_update (\<lambda>r. message_owned i t r \<and> q r) f rows)) =
     map_option (\<lambda>r. if message_owned i t r \<and> q r then f r else r) (find_row or_id k rows)"
    using assms by (intro find_row_update) simp
  then show ?thesis
    by (cases "find_row or_id k rows") (auto simp: message_owned_def dest: find_row_SomeD)
qed

lemmas message_row_update_all = message_row_update [where q = "\<lambda>_. True", simplified]

lemma relay_stmt_rows [row_simps]:
  "find_row or_id k (fst (processed_stmt now i t rows)) =
     map_option (\<lambda>r. if k = i \<and> or_claim_token r = Some t then r\<lparr>or_processed_at := Some now\<rparr> else r)
       (find_row or_id k rows)"
  "find_row or_id k (fst (failed_stmt now i t n msg rows)) =
     map_option (\<lambda>r. if k = i \<and> or_claim_token r = Some t
        then r\<lparr>or_failed_at := Some now, or_attempt := n, or_last_error := Some msg\<rparr> else r)
       (find_row or_id k rows)"
  "find_row or_id k (fst (relay_retry_stmt now i t n ms msg rows)) =
     map_option (\<lambda>r. if k = i \<and> or_claim_token r = Some t
        then r\<lparr>or_attempt := n, or_process_after := now + ms * 1000, or_locked_until := None,
              or_claim_token := None, or_last_error := Some msg\<rparr> else r)
       (find_row or_id k rows)"
  "find_row or_id k (fst (relay_renew_stmt now iv i t rows)) =
     map_option (\<lambda>r. if k = i \<and> or_claim_token r = Some t \<and>
           (case or_locked_until r of None \<Rightarrow> False | Some u \<Rightarrow> now < u)
        then r\<lparr>or_process_after := now + iv, or_locked_until := Some (now + iv)\<rparr> else r)
       (find_row or_id k rows)"
  unfolding relay_stmt_defs
  by (rule message_row_update_all message_row_update; simp)+

lemma relay_claim_update_row [row_simps]:
  "find_row or_id k (fst (relay_claim_update now iv p ids rows)) =
     map_option (\<lambda>r. if k \<in> set ids
        then r\<lparr>or_process_after := now + iv, or_locked_until := Some (now + iv),
              or_claim_token := Some (claim_token p k)\<rparr> else r) (find_row or_id k rows)"
proof -
  have "find_row or_id k (fst (relay_claim_update now iv p ids rows)) =
     map_option (\<lambda>r. if or_id r \<in> set ids
        then r\<lparr>or_process_after := now + iv, or_locked_until := Some (now + iv),
              or_claim_token := Some (claim_token p (or_id r))\<rparr> else r) (find_row or_id k rows)"
    unfolding relay_claim_update_def by (rule find_row_update) simp
  then show ?thesis by (cases "find_row or_id k rows") (auto dest: find_row_SomeD)
qed

lemma relay_stmt_pk [inv_intros]:
  "outbox_pk rows \<Longrightarrow> outbox_pk (fst (processed_stmt now i t rows))"
  "outbox_pk rows \<Longrightarrow> outbox_pk (fst (failed_stmt now i t n msg rows))"
  "outbox_pk rows \<Longrightarrow> outbox_pk (fst (relay_retry_stmt now i t n ms msg rows))"
  "outbox_pk rows \<Longrightarrow> outbox_pk (fst (relay_renew_stmt now iv i t rows))"
  "outbox_pk rows \<Longrightarrow> outbox_pk (fst (relay_claim_update now iv p ids rows))"
  by (simp_all add: outbox_pk_def relay_stmt_defs relay_claim_update_def sql_update_map)

lemma message_owned_count:
  assumes "outbox_pk rows"
  shows "length (filter (message_owned i t) rows) =
     (case find_row or_id i rows of None \<Rightarrow> 0 | Some r \<Rightarrow> if or_claim_token r = Some t then 1 else 0)"
proof -
  have "message_owned i t = (\<lambda>r. or_id r = i \<and> or_claim_token r = Some t)"
    by (simp add: fun_eq_iff message_owned_def)
  then show ?thesis using assms by (simp add: outbox_pk_def filter_key_count)
qed

subsection \<open>What a claim takes\<close>

lemma relay_select_due:
  assumes "i \<in> set (relay_select now limit locked rows)" and "outbox_pk rows"
  shows "\<exists>r. find_row or_id i rows = Some r \<and> message_due now r \<and> \<not> locked i"
proof -
  obtain r where "r \<in> set rows" "or_id r = i" "message_due now r" "\<not> locked i"
    using assms(1) by (auto simp: relay_select_def dest!: in_set_takeD)
  with assms(2) show ?thesis by (auto simp: outbox_pk_def find_row_iff)
qed

lemma relay_claim_ids:
  assumes c: "relay_claim now iv p limit locked rows = (rows', claimed)" and pk: "outbox_pk rows"
  shows "set (map ob_id claimed) = set (relay_select now limit locked rows)"
    and "rows' = fst (relay_claim_update now iv p (map ob_id claimed) rows)"
    and "map (\<lambda>m. (ob_id m, ob_claimToken m)) claimed = map (\<lambda>i. (i, claim_token p i)) (map ob_id claimed)"
    and "distinct (map ob_id claimed)"
    and "m \<in> set claimed \<Longrightarrow> \<exists>r. find_row or_id (ob_id m) rows' = Some r \<and> m = scan_message r"
proof -
  define sel where "sel = relay_select now limit locked rows"
  have rows': "rows' = fst (relay_claim_update now iv p sel rows)"
    and cl: "claimed = map scan_message (filter (\<lambda>r. or_id r \<in> set sel) rows')"
    using c by (auto simp: relay_claim_def Let_def sel_def)
  have pk': "outbox_pk rows'" unfolding rows' by (rule relay_stmt_pk(5) [OF pk])
  have ids': "map or_id rows' = map or_id rows"
    unfolding rows' relay_claim_update_def by (rule sql_update_map) simp
  have "set (map ob_id claimed) = {i \<in> set sel. i \<in> set (map or_id rows')}"
    by (auto simp: cl scan_message_def)
  moreover have "i \<in> set (map or_id rows')" if "i \<in> set sel" for i
    unfolding ids' using relay_select_due [OF that [unfolded sel_def] pk] by (auto dest!: find_row_SomeD)
  ultimately show st: "set (map ob_id claimed) = set (relay_select now limit locked rows)"
    by (auto simp: sel_def)
  then show "rows' = fst (relay_claim_update now iv p (map ob_id claimed) rows)"
    by (simp add: rows' sel_def relay_claim_update_def del: set_map)
  show "distinct (map ob_id claimed)"
    using pk' by (simp add: cl scan_message_def outbox_pk_def comp_def distinct_map_filter)
  have tok: "or_claim_token r = Some (claim_token p (or_id r))" if "r \<in> set rows'" "or_id r \<in> set sel" for r
    using that by (auto simp: rows' relay_claim_update_def sql_update_def)
  then show "map (\<lambda>m. (ob_id m, ob_claimToken m)) claimed = map (\<lambda>i. (i, claim_token p i)) (map ob_id claimed)"
    by (auto simp: cl scan_message_def)
  show "m \<in> set claimed \<Longrightarrow> \<exists>r. find_row or_id (ob_id m) rows' = Some r \<and> m = scan_message r"
    using pk' by (auto simp: cl outbox_pk_def find_row_iff scan_message_def)
qed

subsection \<open>The fleet\<close>

record outbox_sys =
  os_rows :: "outbox_row list"
  os_now :: int
  os_running :: "outboxRow list"          \<comment> \<open>claimed, outcome not recorded\<close>
  os_log :: "(string \<times> string) set"       \<comment> \<open>history: every claim issued\<close>
  os_prefixes :: "string set"             \<comment> \<open>history: every claim prefix drawn\<close>

definition outbox_init :: "outbox_sys \<Rightarrow> bool" where
  "outbox_init s \<longleftrightarrow> os_rows s = [] \<and> os_running s = [] \<and> os_log s = {} \<and> os_prefixes s = {}"

definition message_pair :: "outboxRow \<Rightarrow> string \<times> string" where
  "message_pair m = (ob_id m, ob_claimToken m)"

text \<open>As in the jobs fleet, a claim draws a prefix nobody has drawn before and hands out the tokens the
  statement returns; \<open>iv\<close> is a lower bound of the relays' leases.\<close>

inductive outbox_step :: "pg_micros \<Rightarrow> outbox_sys \<Rightarrow> alabel \<Rightarrow> outbox_sys \<Rightarrow> bool" for iv where
  o_tick: "0 \<le> d \<Longrightarrow> outbox_step iv s ATick (s\<lparr>os_now := os_now s + d\<rparr>)"
| o_enqueue: "outbox_insert (os_now s) ev payload config (os_rows s) = Some rows' \<Longrightarrow>
    1 \<le> ec_maxAttempts config \<Longrightarrow>
    outbox_step iv s (AAdd (ev_ID ev)) (s\<lparr>os_rows := rows'\<rparr>)"
| o_claim: "relay_claim (os_now s) lease p limit locked (os_rows s) = (rows', claimed) \<Longrightarrow>
    p \<notin> os_prefixes s \<Longrightarrow> iv \<le> lease \<Longrightarrow>
    outbox_step iv s (AClaim p (map ob_id claimed))
      (s\<lparr>os_rows := rows', os_running := os_running s @ claimed,
         os_log := os_log s \<union> message_pair ` set claimed, os_prefixes := insert p (os_prefixes s)\<rparr>)"
| o_renew: "(i, t) \<in> os_log s \<Longrightarrow> iv \<le> lease \<Longrightarrow>
    outbox_step iv s (ARenew i t)
      (s\<lparr>os_rows := fst (relay_renew_stmt (os_now s) lease i t (os_rows s))\<rparr>)"
| o_processed: "m \<in> set (os_running s) \<Longrightarrow>
    outbox_step iv s (AComplete (ob_id m) (ob_claimToken m))
      (s\<lparr>os_rows := fst (processed_stmt (os_now s) (ob_id m) (ob_claimToken m) (os_rows s)),
         os_running := remove1 m (os_running s)\<rparr>)"
| o_failed: "m \<in> set (os_running s) \<Longrightarrow> ob_attempt m + 1 \<ge> ob_maxAttempts m \<Longrightarrow>
    outbox_step iv s (AFail (ob_id m) (ob_claimToken m))
      (s\<lparr>os_rows := fst (failed_stmt (os_now s) (ob_id m) (ob_claimToken m) (ob_attempt m + 1) msg (os_rows s)),
         os_running := remove1 m (os_running s)\<rparr>)"
| o_retry: "m \<in> set (os_running s) \<Longrightarrow> ob_attempt m + 1 < ob_maxAttempts m \<Longrightarrow>
    outbox_step iv s (ARetry (ob_id m) (ob_claimToken m))
      (s\<lparr>os_rows := fst (relay_retry_stmt (os_now s) (ob_id m) (ob_claimToken m) (ob_attempt m + 1) ms msg
            (os_rows s)),
         os_running := remove1 m (os_running s)\<rparr>)"
| o_forget: "m \<in> set (os_running s) \<Longrightarrow>
    outbox_step iv s (AForget (ob_id m) (ob_claimToken m)) (s\<lparr>os_running := remove1 m (os_running s)\<rparr>)"

inductive outbox_reach :: "pg_micros \<Rightarrow> outbox_sys \<Rightarrow> bool" for iv where
  o_start: "outbox_init s \<Longrightarrow> outbox_reach iv s"
| o_step: "outbox_reach iv s \<Longrightarrow> outbox_step iv s l s' \<Longrightarrow> outbox_reach iv s'"

subsection \<open>Abstraction and invariant\<close>

text \<open>A processed message has left the queue; the schedule of a failed one is immaterial.\<close>

definition message_abs :: "outbox_row \<Rightarrow> arow option" where
  "message_abs r =
     (if or_processed_at r \<noteq> None then None
      else Some \<lparr>ar_ready = (if or_failed_at r \<noteq> None then 0
                   else case or_locked_until r of None \<Rightarrow> or_process_after r
                        | Some u \<Rightarrow> max (or_process_after r) u),
                 ar_token = or_claim_token r, ar_attempt = or_attempt r, ar_max = or_max_attempts r,
                 ar_dead = (or_failed_at r \<noteq> None)\<rparr>)"

definition outbox_abs :: "outbox_sys \<Rightarrow> asys" where
  "outbox_abs s =
     \<lparr>as_rows = (\<lambda>i. Option.bind (find_row or_id i (os_rows s)) message_abs), as_now = os_now s,
      as_flight = map message_pair (os_running s), as_log = os_log s\<rparr>"

lemma outbox_abs_sel [simp]:
  "as_rows (outbox_abs s) i = Option.bind (find_row or_id i (os_rows s)) message_abs"
  "as_now (outbox_abs s) = os_now s"
  "as_flight (outbox_abs s) = map message_pair (os_running s)"
  "as_log (outbox_abs s) = os_log s"
  by (simp_all add: outbox_abs_def)

definition outbox_inv :: "outbox_sys \<Rightarrow> bool" where
  "outbox_inv s \<longleftrightarrow>
     outbox_pk (os_rows s) \<and> token_inv (outbox_abs s) \<and>
     (\<forall>(i, t) \<in> os_log s. \<exists>q \<in> os_prefixes s. t = claim_token q i) \<and>
     (\<forall>i r t. find_row or_id i (os_rows s) = Some r \<longrightarrow> or_claim_token r = Some t \<longrightarrow>
        (i, t) \<in> os_log s \<and> (or_processed_at r \<noteq> None \<longrightarrow> (i, t) \<notin> message_pair ` set (os_running s))) \<and>
     (\<forall>m \<in> set (os_running s). \<forall>r. find_row or_id (ob_id m) (os_rows s) = Some r \<longrightarrow>
        or_claim_token r = Some (ob_claimToken m) \<longrightarrow>
        or_attempt r = ob_attempt m \<and> or_max_attempts r = ob_maxAttempts m)"

lemma outbox_invD:
  assumes "outbox_inv s"
  shows "outbox_pk (os_rows s)" and "token_inv (outbox_abs s)"
    and "find_row or_id i (os_rows s) = Some r \<Longrightarrow> or_claim_token r = Some t \<Longrightarrow> (i, t) \<in> os_log s"
    and "find_row or_id i (os_rows s) = Some r \<Longrightarrow> or_claim_token r = Some t \<Longrightarrow>
      (i, t) \<in> message_pair ` set (os_running s) \<Longrightarrow> or_processed_at r = None"
    and "m \<in> set (os_running s) \<Longrightarrow> find_row or_id (ob_id m) (os_rows s) = Some r \<Longrightarrow>
      or_claim_token r = Some (ob_claimToken m) \<Longrightarrow>
      or_attempt r = ob_attempt m \<and> or_max_attempts r = ob_maxAttempts m"
    and "distinct (map message_pair (os_running s))"
    and "message_pair ` set (os_running s) \<subseteq> os_log s"
    and "p \<notin> os_prefixes s \<Longrightarrow> (i, claim_token p i) \<notin> os_log s"
proof -
  note inv = assms [unfolded outbox_inv_def]
  show "outbox_pk (os_rows s)" "token_inv (outbox_abs s)" using inv by blast+
  then show "distinct (map message_pair (os_running s))" "message_pair ` set (os_running s) \<subseteq> os_log s"
    using token_invD(1,2) [of "outbox_abs s"] by auto
  show "(i, claim_token p i) \<notin> os_log s" if "p \<notin> os_prefixes s"
    using inv that by (fastforce dest: claim_token_inj)
qed (use assms in \<open>unfold outbox_inv_def, blast\<close>)+

text \<open>A row held by a running claim is neither processed nor failed.\<close>

lemma held_row_live:
  assumes inv: "outbox_inv s" and m: "m \<in> set (os_running s)"
    and own: "find_row or_id (ob_id m) (os_rows s) = Some r" "or_claim_token r = Some (ob_claimToken m)"
  shows "or_processed_at r = None" and "or_failed_at r = None"
proof -
  have fl: "(ob_id m, ob_claimToken m) \<in> message_pair ` set (os_running s)"
    using m by (force simp: message_pair_def)
  show p: "or_processed_at r = None" by (rule outbox_invD(4) [OF inv own fl])
  show "or_failed_at r = None"
  proof (rule ccontr)
    assume f: "or_failed_at r \<noteq> None"
    define a where "a = the (message_abs r)"
    have a: "as_rows (outbox_abs s) (ob_id m) = Some a" "ar_token a = Some (ob_claimToken m)" "ar_dead a"
      using own p f by (auto simp: a_def message_abs_def)
    from token_invD(4) [OF outbox_invD(2) [OF inv] this] fl show False by simp
  qed
qed

lemma message_flight_remove1:
  assumes "outbox_inv s" and "m \<in> set (os_running s)"
  shows "map message_pair (remove1 m (os_running s)) =
    remove1 (ob_id m, ob_claimToken m) (map message_pair (os_running s))"
  using map_remove1_distinct [OF outbox_invD(6) [OF assms(1)] assms(2)] by (simp add: message_pair_def)

lemma message_flight_mem:
  "m \<in> set (os_running s) \<Longrightarrow> (ob_id m, ob_claimToken m) \<in> set (as_flight (outbox_abs s))"
  by (force simp: message_pair_def)

subsection \<open>Simulation\<close>

lemma outbox_sim_stale:
  assumes "outbox_inv s" and "m \<in> set (os_running s)"
    and "\<And>k. Option.bind (find_row or_id k rows') message_abs = Option.bind (find_row or_id k (os_rows s)) message_abs"
  shows "astep rv (outbox_abs s) (AForget (ob_id m) (ob_claimToken m))
    (outbox_abs (s\<lparr>os_rows := rows', os_running := remove1 m (os_running s)\<rparr>))"
  by (rule astep_to [OF astep.forget [OF message_flight_mem [OF assms(2)]]])
     (rule asys_eqI, simp_all add: assms(3) message_flight_remove1 [OF assms(1,2)])

text \<open>The three outcomes share the shape: the holder's row is replaced and its claim
  leaves the flight; a claim that lost its row changes nothing.\<close>

lemma outbox_sim_outcome:
  assumes inv: "outbox_inv s" and m: "m \<in> set (os_running s)"
    and rows': "\<And>k. find_row or_id k rows' =
      map_option (\<lambda>r. if k = ob_id m \<and> or_claim_token r = Some (ob_claimToken m) then f r else r)
        (find_row or_id k (os_rows s))"
    and owner: "\<And>r a. find_row or_id (ob_id m) (os_rows s) = Some r \<Longrightarrow>
      or_claim_token r = Some (ob_claimToken m) \<Longrightarrow> message_abs r = Some a \<Longrightarrow>
      astep rv (outbox_abs s) l
        (outbox_abs s\<lparr>as_rows := (as_rows (outbox_abs s))(ob_id m := message_abs (f r)),
           as_flight := remove1 (ob_id m, ob_claimToken m) (as_flight (outbox_abs s))\<rparr>)"
  defines "s' \<equiv> s\<lparr>os_rows := rows', os_running := remove1 m (os_running s)\<rparr>"
  shows "astep rv (outbox_abs s) l (outbox_abs s') \<or>
    astep rv (outbox_abs s) (AForget (ob_id m) (ob_claimToken m)) (outbox_abs s')"
proof (cases "\<exists>r. find_row or_id (ob_id m) (os_rows s) = Some r \<and> or_claim_token r = Some (ob_claimToken m)")
  case True
  then obtain r where r: "find_row or_id (ob_id m) (os_rows s) = Some r"
    "or_claim_token r = Some (ob_claimToken m)" by blast
  then obtain a where a: "message_abs r = Some a"
    using held_row_live [OF inv m] by (simp add: message_abs_def)
  have "outbox_abs s' = outbox_abs s\<lparr>as_rows := (as_rows (outbox_abs s))(ob_id m := message_abs (f r)),
           as_flight := remove1 (ob_id m, ob_claimToken m) (as_flight (outbox_abs s))\<rparr>"
    by (rule asys_eqI) (auto simp: s'_def rows' r message_flight_remove1 [OF inv m])
  with owner [OF r a] show ?thesis by simp
next
  case False
  then have "Option.bind (find_row or_id k rows') message_abs =
      Option.bind (find_row or_id k (os_rows s)) message_abs" for k
    by (cases "find_row or_id k (os_rows s)") (auto simp: rows')
  from outbox_sim_stale [OF inv m this] show ?thesis by (simp add: s'_def)
qed

lemma outbox_sim_processed:
  assumes "outbox_inv s" and "m \<in> set (os_running s)"
  defines "s' \<equiv> s\<lparr>os_rows := fst (processed_stmt (os_now s) (ob_id m) (ob_claimToken m) (os_rows s)),
         os_running := remove1 m (os_running s)\<rparr>"
  shows "astep rv (outbox_abs s) (AComplete (ob_id m) (ob_claimToken m)) (outbox_abs s') \<or>
    astep rv (outbox_abs s) (AForget (ob_id m) (ob_claimToken m)) (outbox_abs s')"
  unfolding s'_def
proof (rule outbox_sim_outcome [OF assms(1,2), where f = "\<lambda>r. r\<lparr>or_processed_at := Some (os_now s)\<rparr>"])
  fix r a
  assume r: "find_row or_id (ob_id m) (os_rows s) = Some r" "or_claim_token r = Some (ob_claimToken m)"
    "message_abs r = Some a"
  have "owns (outbox_abs s) (ob_id m) (ob_claimToken m)"
    using r by (auto simp: owns_def message_abs_def split: if_splits)
  from astep.complete [OF message_flight_mem [OF assms(2)] this, of rv]
  show "astep rv (outbox_abs s) (AComplete (ob_id m) (ob_claimToken m))
        (outbox_abs s\<lparr>as_rows := (as_rows (outbox_abs s))
            (ob_id m := message_abs (r\<lparr>or_processed_at := Some (os_now s)\<rparr>)),
           as_flight := remove1 (ob_id m, ob_claimToken m) (as_flight (outbox_abs s))\<rparr>)"
    by (simp add: message_abs_def)
qed (rule relay_stmt_rows)

lemma outbox_sim_failed:
  fixes msg :: string
  assumes inv: "outbox_inv s" and m: "m \<in> set (os_running s)" "ob_attempt m + 1 \<ge> ob_maxAttempts m"
  defines "s' \<equiv> s\<lparr>os_rows := fst (failed_stmt (os_now s) (ob_id m) (ob_claimToken m) (ob_attempt m + 1) msg (os_rows s)),
         os_running := remove1 m (os_running s)\<rparr>"
  shows "astep rv (outbox_abs s) (AFail (ob_id m) (ob_claimToken m)) (outbox_abs s') \<or>
    astep rv (outbox_abs s) (AForget (ob_id m) (ob_claimToken m)) (outbox_abs s')"
  unfolding s'_def
proof (rule outbox_sim_outcome [OF inv m(1), OF relay_stmt_rows(2)])
  fix r a
  assume r: "find_row or_id (ob_id m) (os_rows s) = Some r" "or_claim_token r = Some (ob_claimToken m)"
    "message_abs r = Some a"
  have at: "or_attempt r = ob_attempt m" "or_max_attempts r = ob_maxAttempts m"
    using outbox_invD(5) [OF inv m(1) r(1,2)] by auto
  have upd: "message_abs (r\<lparr>or_failed_at := Some (os_now s), or_attempt := ob_attempt m + 1, or_last_error := Some msg\<rparr>)
      = Some (a\<lparr>ar_attempt := ar_attempt a + 1, ar_ready := 0, ar_dead := True\<rparr>)"
    using r(3) at by (auto simp: message_abs_def split: if_splits)
  have a: "as_rows (outbox_abs s) (ob_id m) = Some a" "ar_token a = Some (ob_claimToken m)"
    "ar_attempt a + 1 \<ge> ar_max a"
    using r at m(2) by (auto simp: message_abs_def split: if_splits)
  from astep.fail [OF message_flight_mem [OF m(1)] a, of rv 0]
  show "astep rv (outbox_abs s) (AFail (ob_id m) (ob_claimToken m))
        (outbox_abs s\<lparr>as_rows := (as_rows (outbox_abs s))(ob_id m := message_abs
           (r\<lparr>or_failed_at := Some (os_now s), or_attempt := ob_attempt m + 1, or_last_error := Some msg\<rparr>)),
           as_flight := remove1 (ob_id m, ob_claimToken m) (as_flight (outbox_abs s))\<rparr>)"
    unfolding upd .
qed

lemma outbox_sim_retry:
  fixes msg :: string and ms :: int
  assumes inv: "outbox_inv s" and m: "m \<in> set (os_running s)" "ob_attempt m + 1 < ob_maxAttempts m"
  defines "s' \<equiv> s\<lparr>os_rows := fst (relay_retry_stmt (os_now s) (ob_id m) (ob_claimToken m) (ob_attempt m + 1) ms msg (os_rows s)),
         os_running := remove1 m (os_running s)\<rparr>"
  shows "astep rv (outbox_abs s) (ARetry (ob_id m) (ob_claimToken m)) (outbox_abs s') \<or>
    astep rv (outbox_abs s) (AForget (ob_id m) (ob_claimToken m)) (outbox_abs s')"
  unfolding s'_def
proof (rule outbox_sim_outcome [OF inv m(1), OF relay_stmt_rows(3)])
  fix r a
  assume r: "find_row or_id (ob_id m) (os_rows s) = Some r" "or_claim_token r = Some (ob_claimToken m)"
    "message_abs r = Some a"
  have at: "or_attempt r = ob_attempt m" "or_max_attempts r = ob_maxAttempts m"
    using outbox_invD(5) [OF inv m(1) r(1,2)] by auto
  have upd: "message_abs (r\<lparr>or_attempt := ob_attempt m + 1, or_process_after := os_now s + ms * 1000,
        or_locked_until := None, or_claim_token := None, or_last_error := Some msg\<rparr>)
      = Some (a\<lparr>ar_attempt := ar_attempt a + 1, ar_ready := os_now s + ms * 1000, ar_token := None\<rparr>)"
    using r(3) at held_row_live [OF inv m(1) r(1,2)] by (auto simp: message_abs_def split: if_splits)
  have a: "as_rows (outbox_abs s) (ob_id m) = Some a" "ar_token a = Some (ob_claimToken m)"
    "ar_attempt a + 1 < ar_max a"
    using r at m(2) by (auto simp: message_abs_def split: if_splits)
  from astep.retry [OF message_flight_mem [OF m(1)] a, of rv "os_now s + ms * 1000"]
  show "astep rv (outbox_abs s) (ARetry (ob_id m) (ob_claimToken m))
        (outbox_abs s\<lparr>as_rows := (as_rows (outbox_abs s))(ob_id m := message_abs
           (r\<lparr>or_attempt := ob_attempt m + 1, or_process_after := os_now s + ms * 1000,
        or_locked_until := None, or_claim_token := None, or_last_error := Some msg\<rparr>)),
           as_flight := remove1 (ob_id m, ob_claimToken m) (as_flight (outbox_abs s))\<rparr>)"
    unfolding upd .
qed

lemma outbox_sim_renew:
  fixes iv :: int
  assumes inv: "outbox_inv s" and log: "(i, t) \<in> os_log s"
  defines "s' \<equiv> s\<lparr>os_rows := fst (relay_renew_stmt (os_now s) iv i t (os_rows s))\<rparr>"
  shows "outbox_abs s' = outbox_abs s \<or> astep rv (outbox_abs s) (ARenew i t) (outbox_abs s')"
proof (cases "\<exists>r u. find_row or_id i (os_rows s) = Some r \<and> or_claim_token r = Some t \<and>
    or_locked_until r = Some u \<and> os_now s < u \<and> or_processed_at r = None \<and> or_failed_at r = None")
  case True
  then obtain r u where r: "find_row or_id i (os_rows s) = Some r" "or_claim_token r = Some t"
    "or_locked_until r = Some u" "os_now s < u" "or_processed_at r = None" "or_failed_at r = None" by blast
  define a where "a = the (message_abs r)"
  have a: "(i, t) \<in> as_log (outbox_abs s)" "as_rows (outbox_abs s) i = Some a" "ar_token a = Some t"
    "as_now (outbox_abs s) < ar_ready a \<or> ar_dead a" "ar_dead a \<Longrightarrow> rv"
    using r log by (auto simp: a_def message_abs_def)
  have "outbox_abs s' = outbox_abs s\<lparr>as_rows := (as_rows (outbox_abs s))
      (i \<mapsto> a\<lparr>ar_ready := as_now (outbox_abs s) + iv, ar_dead := False\<rparr>)\<rparr>"
    using r by (intro asys_eqI) (auto simp: s'_def relay_stmt_rows a_def message_abs_def)
  with astep.renew [OF a, of iv] show ?thesis by simp
next
  case False
  have "outbox_abs s' = outbox_abs s"
  proof (rule asys_eqI)
    fix k
    show "as_rows (outbox_abs s') k = as_rows (outbox_abs s) k"
      using False
      by (cases "find_row or_id k (os_rows s)")
         (auto simp: s'_def relay_stmt_rows message_abs_def split: option.splits)
  qed (simp_all add: s'_def)
  then show ?thesis ..
qed

lemma outbox_sim_claim:
  assumes inv: "outbox_inv s"
    and c: "relay_claim (os_now s) iv p limit locked (os_rows s) = (rows', claimed)"
    and fresh: "p \<notin> os_prefixes s"
  shows "astep rv (outbox_abs s) (AClaim p (map ob_id claimed))
    (outbox_abs (s\<lparr>os_rows := rows', os_running := os_running s @ claimed,
         os_log := os_log s \<union> message_pair ` set claimed, os_prefixes := P\<rparr>))"
proof (rule astep_to [OF astep.claim [where lease = iv]])
  note ids = relay_claim_ids [OF c outbox_invD(1) [OF inv]]
  have due: "\<exists>r. find_row or_id i (os_rows s) = Some r \<and> message_due (os_now s) r"
    if "i \<in> set (map ob_id claimed)" for i
    using relay_select_due [of i] that outbox_invD(1) [OF inv] unfolding ids(1) by blast
  show "distinct (map ob_id claimed)" by (rule ids(4))
  show "\<forall>i \<in> set (map ob_id claimed). \<exists>r. as_rows (outbox_abs s) i = Some r \<and> claimable (as_now (outbox_abs s)) r"
  proof
    fix i assume "i \<in> set (map ob_id claimed)"
    from due [OF this] show "\<exists>r. as_rows (outbox_abs s) i = Some r \<and> claimable (as_now (outbox_abs s)) r"
      by (auto simp: message_due_def claimable_def message_abs_def split: option.splits)
  qed
  have pairs: "map message_pair claimed = map (\<lambda>i. (i, claim_token p i)) (map ob_id claimed)"
    using ids(3) by (simp add: message_pair_def)
  have pset: "message_pair ` set claimed = (\<lambda>i. (i, claim_token p i)) ` set (map ob_id claimed)"
    using arg_cong [OF pairs, of set] by (simp only: set_map)
  show "\<forall>i \<in> set (map ob_id claimed). (i, claim_token p i) \<notin> as_log (outbox_abs s)"
    using outbox_invD(8) [OF inv fresh] by simp
  show "outbox_abs (s\<lparr>os_rows := rows', os_running := os_running s @ claimed,
         os_log := os_log s \<union> message_pair ` set claimed, os_prefixes := P\<rparr>) =
    outbox_abs s\<lparr>as_rows := a_take (as_now (outbox_abs s) + iv) p (map ob_id claimed) (as_rows (outbox_abs s)),
       as_flight := as_flight (outbox_abs s) @ map (\<lambda>i. (i, claim_token p i)) (map ob_id claimed),
       as_log := as_log (outbox_abs s) \<union> (\<lambda>i. (i, claim_token p i)) ` set (map ob_id claimed)\<rparr>"
  proof (rule asys_eqI, goal_cases)
    case (1 i)
    show ?case
    proof (cases "i \<in> set (map ob_id claimed)")
      case True
      from due [OF this] obtain r where "find_row or_id i (os_rows s) = Some r"
        "or_processed_at r = None" "or_failed_at r = None" by (auto simp: message_due_def)
      with True show ?thesis
        by (simp add: ids(2) relay_claim_update_row a_take_def message_abs_def)
    next
      case False
      then show ?thesis by (simp add: ids(2) relay_claim_update_row a_take_def del: set_map)
    qed
  qed (use pairs pset in simp_all)
qed

lemma outbox_sim_enqueue:
  assumes "outbox_insert (os_now s) ev payload config (os_rows s) = Some rows'" and "1 \<le> ec_maxAttempts config"
  shows "astep rv (outbox_abs s) (AAdd (ev_ID ev)) (outbox_abs (s\<lparr>os_rows := rows'\<rparr>))"
proof -
  obtain r where rows': "rows' = os_rows s @ [r]" and new: "find_row or_id (ev_ID ev) (os_rows s) = None"
    and r: "or_id r = ev_ID ev" "or_processed_at r = None" "or_failed_at r = None" "or_claim_token r = None"
      "or_attempt r = 0" "or_max_attempts r = ec_maxAttempts config"
    using assms(1) by (auto simp: outbox_insert_def find_row_None_iff split: if_splits)
  obtain a where a: "message_abs r = Some a" "ar_token a = None" "\<not> ar_dead a" "ar_attempt a = 0"
    "1 \<le> ar_max a"
    using r assms(2) by (simp add: message_abs_def)
  have "outbox_abs (s\<lparr>os_rows := rows'\<rparr>) =
      outbox_abs s\<lparr>as_rows := (as_rows (outbox_abs s))(ev_ID ev \<mapsto> a)\<rparr>"
    by (rule asys_eqI) (auto simp: rows' new r a split: option.split)
  moreover have "as_rows (outbox_abs s) (ev_ID ev) = None" using new by simp
  ultimately show ?thesis using astep.add [OF _ a(2-5), of "outbox_abs s"] by simp
qed

lemma outbox_simulates:
  assumes "outbox_step iv s l s'" and "outbox_inv s"
  shows "outbox_abs s' = outbox_abs s \<or>
    (\<exists>k. astep False (outbox_abs s) k (outbox_abs s') \<and> (k = l \<or> (\<exists>i t. k = AForget i t)))"
  using assms
proof (induction rule: outbox_step.induct)
  case (o_tick d s)
  have "astep False (outbox_abs s) ATick (outbox_abs (s\<lparr>os_now := os_now s + d\<rparr>))"
    by (rule astep_to [OF astep.tick [OF o_tick.hyps]]) (rule asys_eqI, simp_all)
  then show ?case by blast
next
  case (o_enqueue s ev payload config rows')
  then show ?case by (blast intro: outbox_sim_enqueue)
next
  case (o_claim s lease p limit locked rows' claimed)
  then show ?case by (blast intro: outbox_sim_claim)
next
  case (o_renew i t s lease)
  then show ?case using outbox_sim_renew [of s i t] by blast
next
  case (o_processed m s)
  then show ?case using outbox_sim_processed [of s m] by blast
next
  case (o_failed m s msg)
  then show ?case using outbox_sim_failed [of s m] by blast
next
  case (o_retry m s ms msg)
  then show ?case using outbox_sim_retry [of s m] by blast
next
  case (o_forget m s)
  have "astep False (outbox_abs s) (AForget (ob_id m) (ob_claimToken m))
      (outbox_abs (s\<lparr>os_rows := os_rows s, os_running := remove1 m (os_running s)\<rparr>))"
    by (rule outbox_sim_stale [OF o_forget.prems o_forget.hyps]) simp
  then show ?case by auto
qed

subsection \<open>The invariant holds in every reachable state\<close>

lemma outbox_pk_step: "outbox_step iv s l s' \<Longrightarrow> outbox_pk (os_rows s) \<Longrightarrow> outbox_pk (os_rows s')"
proof (induction rule: outbox_step.induct)
  case (o_enqueue s ev payload config rows')
  then show ?case by (auto dest: outbox_insert_pk)
next
  case (o_claim s lease p limit locked rows' claimed)
  then show ?case using relay_claim_ids(2) [OF o_claim.hyps(1) o_claim.prems] by (simp add: relay_stmt_pk)
qed (simp_all add: relay_stmt_pk)

lemma other_message:
  assumes "outbox_inv s" and "m0 \<in> set (os_running s)" and "m \<in> set (remove1 m0 (os_running s))"
  shows "m \<in> set (os_running s)" and "message_pair m \<noteq> message_pair m0"
proof -
  have d: "distinct (map message_pair (os_running s))" by (rule outbox_invD(6) [OF assms(1)])
  show m: "m \<in> set (os_running s)" using assms(3) set_remove1_subset by force
  have "m \<noteq> m0" using assms(3) d by (auto simp: distinct_map)
  then show "message_pair m \<noteq> message_pair m0"
    using d m assms(2) by (auto simp: distinct_map dest: inj_onD)
qed

text \<open>Tokens on rows were issued, and the claim of a processed row is no longer running.\<close>

definition tokens_issued :: "outbox_sys \<Rightarrow> bool" where
  "tokens_issued s \<longleftrightarrow>
     (\<forall>i r t. find_row or_id i (os_rows s) = Some r \<longrightarrow> or_claim_token r = Some t \<longrightarrow>
        (i, t) \<in> os_log s \<and> (or_processed_at r \<noteq> None \<longrightarrow> (i, t) \<notin> message_pair ` set (os_running s)))"

definition claims_current :: "outbox_sys \<Rightarrow> bool" where
  "claims_current s \<longleftrightarrow>
     (\<forall>m \<in> set (os_running s). \<forall>r. find_row or_id (ob_id m) (os_rows s) = Some r \<longrightarrow>
        or_claim_token r = Some (ob_claimToken m) \<longrightarrow>
        or_attempt r = ob_attempt m \<and> or_max_attempts r = ob_maxAttempts m)"

lemma outbox_inv_split:
  "outbox_inv s \<longleftrightarrow> outbox_pk (os_rows s) \<and> token_inv (outbox_abs s) \<and>
     (\<forall>(i, t) \<in> os_log s. \<exists>q \<in> os_prefixes s. t = claim_token q i) \<and> tokens_issued s \<and> claims_current s"
  by (simp add: outbox_inv_def tokens_issued_def claims_current_def)

text \<open>An outcome keeps both, whatever it writes to the holder's row.\<close>

lemma outcome_keeps:
  assumes inv: "outbox_inv s" and m: "m \<in> set (os_running s)"
    and rows': "\<And>k. find_row or_id k rows' =
      map_option (\<lambda>r. if k = ob_id m \<and> or_claim_token r = Some (ob_claimToken m) then f r else r)
        (find_row or_id k (os_rows s))"
    and tok: "\<And>r. or_claim_token (f r) \<in> {None, or_claim_token r}"
  defines "s' \<equiv> s\<lparr>os_rows := rows', os_running := remove1 m (os_running s)\<rparr>"
  shows "tokens_issued s'" and "claims_current s'"
proof -
  show "tokens_issued s'"
    unfolding tokens_issued_def
  proof (intro allI impI conjI)
    fix i r t
    assume r: "find_row or_id i (os_rows s') = Some r" "or_claim_token r = Some t"
    obtain r0 where r0: "find_row or_id i (os_rows s) = Some r0" "or_claim_token r0 = Some t"
      "(i, t) \<noteq> message_pair m \<Longrightarrow> r = r0"
    proof -
      obtain r0 where r0: "find_row or_id i (os_rows s) = Some r0"
        "r = (if i = ob_id m \<and> or_claim_token r0 = Some (ob_claimToken m) then f r0 else r0)"
        using r(1) unfolding s'_def by (auto simp: rows')
      show ?thesis
      proof (cases "i = ob_id m \<and> or_claim_token r0 = Some (ob_claimToken m)")
        case True
        then have t: "or_claim_token r0 = Some t" using r(2) r0(2) tok [of r0] by auto
        with True have "(i, t) = message_pair m" by (simp add: message_pair_def)
        with that r0(1) t show ?thesis by blast
      next
        case False
        then have "r = r0" using r0(2) by auto
        with that r0(1) r(2) show ?thesis by blast
      qed
    qed
    show "(i, t) \<in> os_log s'" using outbox_invD(3) [OF inv r0(1,2)] by (simp add: s'_def)
    assume p: "or_processed_at r \<noteq> None"
    show "(i, t) \<notin> message_pair ` set (os_running s')"
    proof
      assume "(i, t) \<in> message_pair ` set (os_running s')"
      then obtain m' where m': "m' \<in> set (remove1 m (os_running s))" "message_pair m' = (i, t)"
        by (auto simp: s'_def)
      from other_message [OF inv m m'(1)] m'(2) have "(i, t) \<in> message_pair ` set (os_running s)"
        "(i, t) \<noteq> message_pair m" by (force, simp)
      with outbox_invD(4) [OF inv r0(1,2)] r0(3) p show False by simp
    qed
  qed
  show "claims_current s'"
    unfolding claims_current_def
  proof (intro ballI allI impI)
    fix m' r
    assume m': "m' \<in> set (os_running s')" and r: "find_row or_id (ob_id m') (os_rows s') = Some r"
      "or_claim_token r = Some (ob_claimToken m')"
    have o: "m' \<in> set (os_running s)" "message_pair m' \<noteq> message_pair m"
      using other_message [OF inv m] m' by (simp_all add: s'_def)
    obtain r0 where r0: "find_row or_id (ob_id m') (os_rows s) = Some r0"
      "r = (if ob_id m' = ob_id m \<and> or_claim_token r0 = Some (ob_claimToken m) then f r0 else r0)"
      using r(1) unfolding s'_def by (auto simp: rows')
    have "\<not> (ob_id m' = ob_id m \<and> or_claim_token r0 = Some (ob_claimToken m))"
    proof
      assume a: "ob_id m' = ob_id m \<and> or_claim_token r0 = Some (ob_claimToken m)"
      then have "ob_claimToken m' = ob_claimToken m" using r(2) r0(2) tok [of r0] by auto
      with a o(2) show False by (simp add: message_pair_def)
    qed
    then have "find_row or_id (ob_id m') (os_rows s) = Some r" using r0 by auto
    with outbox_invD(5) [OF inv o(1)] r show "or_attempt r = ob_attempt m' \<and> or_max_attempts r = ob_maxAttempts m'"
      by simp
  qed
qed

text \<open>So does whatever leaves token, outcome and attempts of every row alone.\<close>

lemma rewrite_keeps:
  assumes "outbox_inv s"
    and rows': "\<And>k. find_row or_id k rows' = map_option (g k) (find_row or_id k (os_rows s))"
    and g: "\<And>k r. or_claim_token (g k r) = or_claim_token r" "\<And>k r. or_processed_at (g k r) = or_processed_at r"
      "\<And>k r. or_attempt (g k r) = or_attempt r" "\<And>k r. or_max_attempts (g k r) = or_max_attempts r"
  shows "tokens_issued (s\<lparr>os_rows := rows'\<rparr>)" and "claims_current (s\<lparr>os_rows := rows'\<rparr>)"
proof -
  note c = assms(1) [unfolded outbox_inv_split]
  show "tokens_issued (s\<lparr>os_rows := rows'\<rparr>)"
    unfolding tokens_issued_def
  proof (intro allI impI)
    fix i r t assume r: "find_row or_id i (os_rows (s\<lparr>os_rows := rows'\<rparr>)) = Some r" "or_claim_token r = Some t"
    then obtain r0 where "find_row or_id i (os_rows s) = Some r0" "r = g i r0" by (auto simp: rows')
    with r c g show "(i, t) \<in> os_log (s\<lparr>os_rows := rows'\<rparr>) \<and>
        (or_processed_at r \<noteq> None \<longrightarrow> (i, t) \<notin> message_pair ` set (os_running (s\<lparr>os_rows := rows'\<rparr>)))"
      unfolding tokens_issued_def by simp
  qed
  show "claims_current (s\<lparr>os_rows := rows'\<rparr>)"
    using c g by (auto simp: claims_current_def rows')
qed

lemma renew_keeps:
  assumes "outbox_inv s"
  shows "tokens_issued (s\<lparr>os_rows := fst (relay_renew_stmt (os_now s) iv i t (os_rows s))\<rparr>) \<and>
    claims_current (s\<lparr>os_rows := fst (relay_renew_stmt (os_now s) iv i t (os_rows s))\<rparr>)"
  by (intro conjI; rule rewrite_keeps [OF assms relay_stmt_rows(4)]; simp)

lemma enqueue_keeps:
  assumes "outbox_inv s" and "outbox_insert (os_now s) ev payload config (os_rows s) = Some rows'"
  shows "tokens_issued (s\<lparr>os_rows := rows'\<rparr>) \<and> claims_current (s\<lparr>os_rows := rows'\<rparr>)"
proof -
  obtain r where rows': "rows' = os_rows s @ [r]" and tok: "or_claim_token r = None"
    using assms(2) by (auto simp: outbox_insert_def split: if_splits)
  have old: "find_row or_id i (os_rows s) = Some r0"
    if "find_row or_id i rows' = Some r0" "or_claim_token r0 \<noteq> None" for i r0
    using that tok by (auto simp: rows' split: option.splits if_splits)
  have "tokens_issued (s\<lparr>os_rows := rows'\<rparr>)"
    unfolding tokens_issued_def
  proof (intro allI impI)
    fix i r t assume r: "find_row or_id i (os_rows (s\<lparr>os_rows := rows'\<rparr>)) = Some r" "or_claim_token r = Some t"
    with old [of i r] have "find_row or_id i (os_rows s) = Some r" by simp
    with r assms(1) show "(i, t) \<in> os_log (s\<lparr>os_rows := rows'\<rparr>) \<and>
        (or_processed_at r \<noteq> None \<longrightarrow> (i, t) \<notin> message_pair ` set (os_running (s\<lparr>os_rows := rows'\<rparr>)))"
      unfolding outbox_inv_split tokens_issued_def by simp
  qed
  moreover have "claims_current (s\<lparr>os_rows := rows'\<rparr>)"
    unfolding claims_current_def
  proof (intro ballI allI impI)
    fix m r assume m: "m \<in> set (os_running (s\<lparr>os_rows := rows'\<rparr>))"
      "find_row or_id (ob_id m) (os_rows (s\<lparr>os_rows := rows'\<rparr>)) = Some r"
      "or_claim_token r = Some (ob_claimToken m)"
    with old [of "ob_id m" r] have "find_row or_id (ob_id m) (os_rows s) = Some r" by simp
    with outbox_invD(5) [OF assms(1)] m
    show "or_attempt r = ob_attempt m \<and> or_max_attempts r = ob_maxAttempts m" by simp
  qed
  ultimately show ?thesis ..
qed

lemma claim_keeps:
  fixes P :: "string set"
  assumes inv: "outbox_inv s"
    and c: "relay_claim (os_now s) iv p limit locked (os_rows s) = (rows', claimed)"
    and fresh: "p \<notin> os_prefixes s"
  defines "s' \<equiv> s\<lparr>os_rows := rows', os_running := os_running s @ claimed,
         os_log := os_log s \<union> message_pair ` set claimed, os_prefixes := P\<rparr>"
  shows "tokens_issued s'" and "claims_current s'"
proof -
  note ids = relay_claim_ids [OF c outbox_invD(1) [OF inv]]
  have old: "i \<notin> set (map ob_id claimed) \<Longrightarrow> find_row or_id i rows' = find_row or_id i (os_rows s)" for i
    unfolding ids(2) relay_claim_update_row by simp
  have new: "\<exists>m \<in> set claimed. ob_id m = i \<and> or_claim_token r = Some (ob_claimToken m) \<and>
      or_attempt r = ob_attempt m \<and> or_max_attempts r = ob_maxAttempts m \<and> or_processed_at r = None"
    if fi: "find_row or_id i rows' = Some r" "i \<in> set (map ob_id claimed)" for i r
  proof -
    obtain m where m: "m \<in> set claimed" "ob_id m = i" using \<open>i \<in> set (map ob_id claimed)\<close> by auto
    from ids(5) [OF m(1)] fi m(2) have sc: "m = scan_message r" by simp
    obtain r0 where r0: "find_row or_id i (os_rows s) = Some r0"
      "r = r0\<lparr>or_process_after := os_now s + iv, or_locked_until := Some (os_now s + iv),
              or_claim_token := Some (claim_token p i)\<rparr>"
      using fi unfolding ids(2) relay_claim_update_row by (auto simp del: set_map)
    have "message_due (os_now s) r0"
      using relay_select_due [of i "os_now s" limit locked "os_rows s"] outbox_invD(1) [OF inv] fi(2) r0(1)
      unfolding ids(1) by auto
    with r0 have "or_processed_at r = None" by (simp add: message_due_def)
    with m sc r0(2) show ?thesis by (intro bexI [of _ m]) (auto simp: scan_message_def)
  qed
  show "tokens_issued s'"
    unfolding tokens_issued_def
  proof (intro allI impI conjI)
    fix i r t assume r: "find_row or_id i (os_rows s') = Some r" "or_claim_token r = Some t"
    show "(i, t) \<in> os_log s'"
    proof (cases "i \<in> set (map ob_id claimed)")
      case True
      have "find_row or_id i rows' = Some r" using r(1) by (simp add: s'_def)
      from new [OF this True] r(2) obtain m where "m \<in> set claimed" "(i, t) = message_pair m"
        by (auto simp: message_pair_def)
      then show ?thesis by (simp add: s'_def)
    next
      case False
      then show ?thesis using old outbox_invD(3) [OF inv, of i r t] r by (simp add: s'_def)
    qed
    assume p: "or_processed_at r \<noteq> None"
    then have ni: "i \<notin> set (map ob_id claimed)" using new [of i r] r by (auto simp: s'_def)
    then have "(i, t) \<notin> message_pair ` set claimed" by (auto simp: message_pair_def)
    moreover have "(i, t) \<notin> message_pair ` set (os_running s)"
      using outbox_invD(4) [OF inv, of i r t] old [OF ni] r p by (auto simp: s'_def)
    ultimately show "(i, t) \<notin> message_pair ` set (os_running s')" by (auto simp: s'_def)
  qed
  show "claims_current s'"
    unfolding claims_current_def
  proof (intro ballI allI impI)
    fix m r
    assume m: "m \<in> set (os_running s')" and r: "find_row or_id (ob_id m) (os_rows s') = Some r"
      "or_claim_token r = Some (ob_claimToken m)"
    show "or_attempt r = ob_attempt m \<and> or_max_attempts r = ob_maxAttempts m"
    proof (cases "m \<in> set claimed")
      case True
      from ids(5) [OF True] r(1) have "m = scan_message r" by (simp add: s'_def)
      then have "ob_attempt m = or_attempt r" "ob_maxAttempts m = or_max_attempts r"
        unfolding scan_message_def by simp_all
      then show ?thesis by simp
    next
      case False
      with m have run: "m \<in> set (os_running s)" by (simp add: s'_def)
      have "ob_id m \<notin> set (map ob_id claimed)"
      proof
        assume "ob_id m \<in> set (map ob_id claimed)"
        from new [OF _ this, of r] r obtain m' where "m' \<in> set claimed" "message_pair m' = message_pair m"
          by (auto simp: s'_def message_pair_def)
        moreover have "\<forall>m \<in> set claimed. ob_claimToken m = claim_token p (ob_id m)" using ids(3) by simp
        ultimately have "message_pair m \<notin> os_log s"
          using outbox_invD(8) [OF inv fresh] by (metis message_pair_def)
        with run outbox_invD(7) [OF inv] show False by blast
      qed
      with old outbox_invD(5) [OF inv run] r show ?thesis by (simp add: s'_def)
    qed
  qed
qed

lemma outbox_clauses_step:
  assumes "outbox_step iv s l s'" and "outbox_inv s"
  shows "tokens_issued s' \<and> claims_current s'"
  using assms
proof (induction rule: outbox_step.induct)
  case (o_tick d s)
  then show ?case by (simp add: outbox_inv_split tokens_issued_def claims_current_def)
next
  case (o_processed m s)
  then show ?case using outcome_keeps [OF o_processed.prems o_processed.hyps relay_stmt_rows(1)] by simp
next
  case (o_failed m s msg)
  then show ?case using outcome_keeps [OF o_failed.prems o_failed.hyps(1) relay_stmt_rows(2)] by simp
next
  case (o_retry m s ms msg)
  then show ?case using outcome_keeps [OF o_retry.prems o_retry.hyps(1) relay_stmt_rows(3)] by simp
next
  case (o_forget m s)
  have "tokens_issued (s\<lparr>os_rows := os_rows s, os_running := remove1 m (os_running s)\<rparr>) \<and>
    claims_current (s\<lparr>os_rows := os_rows s, os_running := remove1 m (os_running s)\<rparr>)"
    using outcome_keeps [OF o_forget.prems o_forget.hyps, of "os_rows s" "\<lambda>r. r"] by simp
  then show ?case by simp
qed (simp_all add: renew_keeps enqueue_keeps claim_keeps)

lemma outbox_prefix_step:
  assumes "outbox_step iv s l s'" and "outbox_inv s"
  shows "\<forall>(i, t) \<in> os_log s'. \<exists>q \<in> os_prefixes s'. t = claim_token q i"
  using assms
proof (induction rule: outbox_step.induct)
  case (o_claim s lease p limit locked rows' claimed)
  then show ?case
    using relay_claim_ids(3) [OF o_claim.hyps(1) outbox_invD(1) [OF o_claim.prems]]
    by (auto simp: outbox_inv_def message_pair_def)
qed (simp_all add: outbox_inv_def)

lemma outbox_inv_step:
  assumes "outbox_step iv s l s'" and "outbox_inv s"
  shows "outbox_inv s'"
proof -
  have "token_inv (outbox_abs s')"
    using outbox_simulates [OF assms] outbox_invD(2) [OF assms(2)] by (auto intro: token_inv_step)
  with outbox_pk_step [OF assms(1) outbox_invD(1) [OF assms(2)]] outbox_clauses_step [OF assms]
    outbox_prefix_step [OF assms]
  show ?thesis by (simp add: outbox_inv_split)
qed

lemma outbox_reach_inv: "outbox_reach iv s \<Longrightarrow> outbox_inv s"
proof (induction rule: outbox_reach.induct)
  case (o_start s)
  then show ?case by (auto simp: outbox_init_def outbox_inv_def outbox_pk_def token_inv_def)
next
  case (o_step s l s')
  then show ?case by (blast intro: outbox_inv_step)
qed

interpretation outbox_lease: lease_refinement outbox_init "outbox_step iv" outbox_abs False "outbox_reach iv"
  for iv
proof
  fix s and P :: "outbox_sys \<Rightarrow> bool"
  assume r: "outbox_reach iv s" and i: "\<And>s. outbox_init s \<Longrightarrow> P s"
    and st: "\<And>s l s'. outbox_reach iv s \<Longrightarrow> P s \<Longrightarrow> outbox_step iv s l s' \<Longrightarrow> P s'"
  from r show "P s" by (induction rule: outbox_reach.induct) (auto intro: i st)
next
  show "outbox_init s \<Longrightarrow> a_init (outbox_abs s)" for s
    by (auto simp: outbox_init_def a_init_def)
next
  fix s l s'
  assume "outbox_reach iv s" "outbox_step iv s l s'"
  then show "outbox_abs s' = outbox_abs s \<or>
    (\<exists>k. astep False (outbox_abs s) k (outbox_abs s') \<and> (k = l \<or> (\<exists>i t. k = AForget i t)))"
    using outbox_simulates [of iv s l s'] outbox_reach_inv [of iv s] by blast
qed

end
