(* ===== verification/OutboxTheorems.thy ===== *)
theory OutboxTheorems
  imports OutboxFleet
begin

text \<open>
  The properties of the outbox: ownership and finality of outcomes over every interleaving
  of relays and producers, the delivery to the handlers of an event, the effect of one
  delivery on the table, and the insertion of a message.
\<close>

subsection \<open>A small run for the witnesses\<close>

definition ob_demo_event :: Event where
  "ob_demo_event = \<lparr>ev_ID = ''e'', ev_Type = ''u'', ev_AggregateID = ''1'', ev_AggregateType = ''user'',
     ev_Payload = ''{}'', ev_OccurredAt = 0, ev_SchemaVersion = 1\<rparr>"

definition ob_demo_row :: outbox_row where
  "ob_demo_row = \<lparr>or_id = ''e'', or_event_type = ''u'', or_aggregate_id = ''1'',
     or_aggregate_type = ''user'', or_payload = ''{}'', or_schema_version = 1, or_occurred_at = 0,
     or_created_at = 0, or_attempt = 0, or_max_attempts = 1, or_process_after = 0,
     or_processed_at = None, or_failed_at = None, or_last_error = None, or_locked_until = None,
     or_claim_token = None\<rparr>"

definition ob_demo_held :: outbox_row where
  "ob_demo_held = ob_demo_row\<lparr>or_process_after := 60, or_locked_until := Some 60,
     or_claim_token := Some ''p:e''\<rparr>"

definition ob_demo_msg :: outboxRow where
  "ob_demo_msg = \<lparr>ob_id = ''e'', ob_eventType = ''u'', ob_aggregateID = ''1'',
     ob_aggregateType = ''user'', ob_payload = ''{}'', ob_schemaVersion = 1, ob_occurredAt = 0,
     ob_attempt = 0, ob_maxAttempts = 1, ob_claimToken = ''p:e''\<rparr>"

definition ob_demo0 :: outbox_sys where
  "ob_demo0 = \<lparr>os_rows = [], os_now = 0, os_running = [], os_log = {}, os_prefixes = {}\<rparr>"

definition ob_demo1 :: outbox_sys where
  "ob_demo1 = ob_demo0\<lparr>os_rows := [ob_demo_row]\<rparr>"

definition ob_demo2 :: outbox_sys where
  "ob_demo2 = \<lparr>os_rows = [ob_demo_held], os_now = 0, os_running = [ob_demo_msg], os_log = {(''e'', ''p:e'')},
     os_prefixes = {''p''}\<rparr>"

definition ob_demo3 :: outbox_sys where
  "ob_demo3 = \<lparr>os_rows = [ob_demo_held\<lparr>or_failed_at := Some 0, or_attempt := 1, or_last_error := Some ''x''\<rparr>],
     os_now = 0, os_running = [], os_log = {(''e'', ''p:e'')},
     os_prefixes = {''p''}\<rparr>"

lemmas ob_demo_defs = ob_demo0_def ob_demo1_def ob_demo2_def ob_demo3_def ob_demo_row_def ob_demo_held_def
  ob_demo_msg_def ob_demo_event_def

lemma ob_demo1_reach: "outbox_reach 60 ob_demo1"
proof -
  have "outbox_reach 60 ob_demo0" by (rule outbox_reach.o_start) (simp add: outbox_init_def ob_demo_defs)
  moreover have "outbox_step 60 ob_demo0 (AAdd (ev_ID ob_demo_event)) (ob_demo0\<lparr>os_rows := [ob_demo_row]\<rparr>)"
    by (rule outbox_step.o_enqueue
          [where payload = "''{}''" and config = "\<lparr>ec_maxAttempts = 1, ec_processAfter = 0\<rparr>"])
       (simp_all add: outbox_insert_def ob_demo_defs)
  ultimately show ?thesis unfolding ob_demo1_def by (rule outbox_reach.o_step)
qed

lemma ob_demo_claim:
  "relay_claim 0 60 ''p'' 50 (\<lambda>_. False) [ob_demo_row] = ([ob_demo_held], [ob_demo_msg])"
  by (simp add: relay_claim_def relay_select_def message_due_def relay_claim_update_def sql_update_def
      scan_message_def claim_token_def ob_demo_defs)

lemma ob_demo2_step: "outbox_step 60 ob_demo1 (AClaim ''p'' [''e'']) ob_demo2"
proof -
  have "outbox_step 60 ob_demo1 (AClaim ''p'' (map ob_id [ob_demo_msg]))
      (ob_demo1\<lparr>os_rows := [ob_demo_held], os_running := os_running ob_demo1 @ [ob_demo_msg],
         os_log := os_log ob_demo1 \<union> message_pair ` set [ob_demo_msg], os_prefixes := insert ''p'' (os_prefixes ob_demo1)\<rparr>)"
    by (rule outbox_step.o_claim [where lease = 60 and limit = 50 and locked = "\<lambda>_. False"])
       (use ob_demo_claim in \<open>simp_all add: ob_demo1_def ob_demo0_def\<close>)
  then show ?thesis by (simp add: ob_demo2_def ob_demo1_def ob_demo0_def message_pair_def ob_demo_msg_def)
qed

lemma ob_demo2_reach: "outbox_reach 60 ob_demo2"
  by (rule outbox_reach.o_step [OF ob_demo1_reach ob_demo2_step])

lemma ob_demo3_step: "outbox_step 60 ob_demo2 (AFail ''e'' ''p:e'') ob_demo3"
proof -
  have "outbox_step 60 ob_demo2 (AFail (ob_id ob_demo_msg) (ob_claimToken ob_demo_msg))
     (ob_demo2\<lparr>os_rows := fst (failed_stmt (os_now ob_demo2) (ob_id ob_demo_msg) (ob_claimToken ob_demo_msg)
         (ob_attempt ob_demo_msg + 1) ''x'' (os_rows ob_demo2)),
       os_running := remove1 ob_demo_msg (os_running ob_demo2)\<rparr>)"
    by (rule outbox_step.o_failed) (simp_all add: ob_demo2_def ob_demo_msg_def)
  then show ?thesis
    by (simp add: ob_demo_defs failed_stmt_def sql_update_def message_owned_def)
qed

lemma ob_demo3_reach: "outbox_reach 60 ob_demo3"
  by (rule outbox_reach.o_step [OF ob_demo2_reach ob_demo3_step])

subsection \<open>Ownership and finality\<close>

text \<open>C12: In every reachable state of the relays at most one running delivery of a message still
  holds the message's claim token, so at most one can record its outcome. As for jobs, each
  claim draws a new prefix, and the tokens are those the claim statement wrote and returned.\<close>

theorem outbox_exclusive_ownership:
  assumes "outbox_reach iv s" and "find_row or_id i (os_rows s) = Some r" and "or_processed_at r = None"
  shows "length (filter (\<lambda>m. ob_id m = i \<and> or_claim_token r = Some (ob_claimToken m)) (os_running s)) \<le> 1"
proof -
  obtain a where a: "message_abs r = Some a" "ar_token a = or_claim_token r"
    using assms(3) by (simp add: message_abs_def)
  have "length (filter (\<lambda>c. fst c = i \<and> owns (outbox_abs s) i (snd c)) (as_flight (outbox_abs s))) \<le> 1"
    by (rule outbox_lease.exclusive [OF assms(1)])
  moreover have "owns (outbox_abs s) i t \<longleftrightarrow> or_claim_token r = Some t" for t
    using assms(2) a by (simp add: owns_def)
  ultimately show ?thesis by (simp add: filter_map comp_def message_pair_def)
qed

theorem outbox_exclusive_ownership_witness:
  "length (filter (\<lambda>m. ob_id m = ''e'' \<and> or_claim_token ob_demo_held = Some (ob_claimToken m))
     (os_running ob_demo2)) \<le> 1"
  by (rule outbox_exclusive_ownership [OF ob_demo2_reach, of "''e''"])
     (simp_all add: ob_demo_defs)

text \<open>C13: A recorded outcome is final: once a message is processed or permanently failed, no step
  of any relay (a claim, a late renewal or a late outcome included) changes its outcome, its
  attempt count or its error, and no claim selects it again.\<close>

theorem outbox_outcome_final:
  assumes "outbox_reach iv s" and "outbox_step iv s l s'"
    and "find_row or_id i (os_rows s) = Some r" and "or_processed_at r \<noteq> None \<or> or_failed_at r \<noteq> None"
  shows "(\<exists>r'. find_row or_id i (os_rows s') = Some r' \<and> or_processed_at r' = or_processed_at r \<and>
      or_failed_at r' = or_failed_at r \<and> or_attempt r' = or_attempt r \<and> or_last_error r' = or_last_error r \<and>
      or_claim_token r' = or_claim_token r) \<and>
    (\<forall>p ids. l = AClaim p ids \<longrightarrow> i \<notin> set ids)"
proof -
  have inv: "outbox_inv s" by (rule outbox_reach_inv [OF assms(1)])
  have lost: "\<not> (i = ob_id m \<and> or_claim_token r = Some (ob_claimToken m))" if "m \<in> set (os_running s)" for m
    using held_row_live [OF inv that] assms(3,4) by auto
  from assms(2,3) show ?thesis
  proof (cases rule: outbox_step.cases)
    case (o_claim lease p limit locked rows' claimed)
    note ids = relay_claim_ids [OF o_claim(3) outbox_invD(1) [OF inv]]
    have ni: "i \<notin> set (map ob_id claimed)"
      using relay_select_due [of i "os_now s" limit locked "os_rows s"] outbox_invD(1) [OF inv] assms(3,4)
      unfolding ids(1) by (auto simp: message_due_def)
    have "find_row or_id i (os_rows s') = Some r"
      using ni assms(3) by (simp add: o_claim(2) ids(2) relay_claim_update_row del: set_map)
    with ni o_claim(1) show ?thesis by simp
  next
    case (o_enqueue ev payload config rows')
    then show ?thesis using assms(3) by (auto simp: outbox_insert_def split: if_splits)
  qed (use assms(3) lost in \<open>auto simp: relay_stmt_rows\<close>)
qed

theorem outbox_outcome_final_witness:
  "\<exists>r'. find_row or_id ''e'' (os_rows (ob_demo3\<lparr>os_rows :=
      fst (relay_renew_stmt (os_now ob_demo3) 60 ''e'' ''p:e'' (os_rows ob_demo3))\<rparr>)) = Some r' \<and>
      or_failed_at r' = Some 0"
proof -
  have st: "outbox_step 60 ob_demo3 (ARenew ''e'' ''p:e'') (ob_demo3\<lparr>os_rows :=
      fst (relay_renew_stmt (os_now ob_demo3) 60 ''e'' ''p:e'' (os_rows ob_demo3))\<rparr>)"
    by (rule outbox_step.o_renew) (simp_all add: ob_demo3_def)
  show ?thesis
    using outbox_outcome_final [OF ob_demo3_reach st, of "''e''"] by (auto simp: ob_demo_defs)
qed

text \<open>C14: No message is lost and none is marked processed on its own: a step keeps every row of
  the table, and a row becomes processed only when the delivery that holds its token records
  its success.\<close>

theorem outbox_no_loss:
  assumes "outbox_reach iv s" and "outbox_step iv s l s'" and "find_row or_id i (os_rows s) = Some r"
  shows "\<exists>r'. find_row or_id i (os_rows s') = Some r' \<and>
    (or_processed_at r = None \<and> or_processed_at r' \<noteq> None \<longrightarrow>
       (\<exists>t. l = AComplete i t \<and> or_claim_token r = Some t))"
proof -
  obtain r' where r': "find_row or_id i (os_rows s') = Some r'"
    using assms(2,3)
  proof (cases rule: outbox_step.cases)
    case (o_claim lease p limit locked rows' claimed)
    note ids = relay_claim_ids [OF o_claim(3) outbox_invD(1) [OF outbox_reach_inv [OF assms(1)]]]
    show ?thesis using assms(3) that by (simp add: o_claim(2) ids(2) relay_claim_update_row del: set_map)
  qed (auto simp: relay_stmt_rows outbox_insert_def split: if_splits)
  have "\<exists>t. l = AComplete i t \<and> or_claim_token r = Some t"
    if p: "or_processed_at r = None" "or_processed_at r' \<noteq> None"
  proof -
    obtain a where a: "message_abs r = Some a" "ar_token a = or_claim_token r"
      using p(1) by (simp add: message_abs_def)
    have "as_rows (outbox_abs s) i = Some a" using assms(3) a by simp
    moreover have "as_rows (outbox_abs s') i = None" using r' p(2) by (simp add: message_abs_def)
    ultimately have "(\<exists>t. l = AComplete i t \<and> ar_token a = Some t) \<or> (l = ADiscard i \<and> ar_dead a)"
      by (rule outbox_lease.no_loss [OF assms(1,2)])
    moreover have "l \<noteq> ADiscard i" using assms(2) by (cases rule: outbox_step.cases) auto
    ultimately show ?thesis using a by auto
  qed
  then show ?thesis using r' by (intro exI [of _ r'] conjI impI) simp_all
qed

theorem outbox_no_loss_witness:
  "\<exists>r'. find_row or_id ''e'' (os_rows ob_demo3) = Some r' \<and> or_processed_at r' = None"
  using outbox_no_loss [OF ob_demo2_reach ob_demo3_step, of "''e''"] by (auto simp: ob_demo_defs)

subsection \<open>Delivery\<close>

text \<open>What the loop leaves: one call for each handler, in order, and the errors of those that failed.\<close>

definition handler_error :: "event_runner \<Rightarrow> Event \<Rightarrow> ev_handler \<Rightarrow> goerr option" where
  "handler_error run event h =
     (case run h event of
        Returned None \<Rightarrow> None
      | Returned (Some e) \<Rightarrow> Some (ErrWrap ''handler %T: %w'' [ev_type_name h] e)
      | Panicked v \<Rightarrow> Some (ErrWrap ''handler %T: %w'' [ev_type_name h] (ErrMsg ''outbox: handler panic: %v'' [v])))"

lemma deliver_loop_effect:
  "deliver_loop run event hs calls errs =
     (calls @ map (\<lambda>h. (h, event)) hs, errs @ List.map_filter (handler_error run event) hs)"
proof (induction hs arbitrary: calls errs)
  case (Cons h hs)
  show ?case
    by (cases "run h event" rule: handler_result.exhaust)
       (auto simp: callEventHandler_def handler_error_def Cons.IH map_filter_simps split: option.splits)
qed (simp add: map_filter_simps)

text \<open>C33: A delivery through a registry built by any sequence of registrations calls, each once and
  with the event, every handler accepted for the event's type and then every one accepted for
  the wildcard, in the order of registration and whatever the earlier ones return. It
  succeeds exactly when there is at least one such handler and all of them return nil, and its
  error wraps the error of each handler that failed, so that \<open>errors.Is\<close> finds the causes.\<close>

theorem outbox_deliver_spec:
  assumes "reg = fold ev_apply ops events_NewRegistry"
    and "outbox_deliver run (Some reg) event = (calls, err)"
    and "handlers = (\<lambda>t. filter (\<lambda>h. TrimSpace (ev_EventType h) = t) (ev_accepted ops events_NewRegistry))"
  shows "calls = map (\<lambda>h. (h, event)) (handlers (ev_Type event) @ (if ev_Type event = ''*'' then [] else handlers ''*'')) \<and>
    (err = None \<longleftrightarrow> calls \<noteq> [] \<and> (\<forall>(h, x) \<in> set calls. run h x = Returned None)) \<and>
    (\<forall>(h, x) \<in> set calls. \<forall>e c. run h x = Returned (Some e) \<and> errors_is e c \<longrightarrow>
       (\<exists>d. err = Some d \<and> errors_is d c))"
proof -
  define hs where "hs = handlers (ev_Type event) @ (if ev_Type event = ''*'' then [] else handlers ''*'')"
  have found: "events_HandlersFor reg (ev_Type event) = hs"
    unfolding assms(1,3) hs_def events_HandlersFor_def ev_handlers_accepted by (simp add: events_NewRegistry_def)
  let ?errs = "List.map_filter (handler_error run event) hs"
  have calls: "calls = map (\<lambda>h. (h, event)) hs"
    and err: "err = (if hs = [] then Some (ErrMsg ''outbox: no handlers registered for event type %q'' [ev_Type event])
         else errors_join (map Some ?errs))"
    using assms(2) by (auto simp: outbox_deliver_def found deliver_loop_effect Let_def split: if_splits)
  have join: "errors_join (map Some es) = (if es = [] then None else Some (ErrJoin es))" for es
    by (simp add: errors_join_def Let_def comp_def)
  have nil: "handler_error run event h = None \<longleftrightarrow> run h event = Returned None" for h
    by (auto simp: handler_error_def split: handler_result.splits option.splits)
  have none: "?errs = [] \<longleftrightarrow> (\<forall>h \<in> set hs. run h event = Returned None)"
    by (auto simp: map_filter_def filter_empty_conv nil)
  have "\<exists>d. err = Some d \<and> errors_is d c"
    if h: "h \<in> set hs" "run h event = Returned (Some e)" "errors_is e c" for h e c
  proof -
    have m: "ErrWrap ''handler %T: %w'' [ev_type_name h] e \<in> set ?errs"
      using h(1,2) by (force simp: map_filter_def handler_error_def image_iff)
    then have "errors_is (ErrJoin ?errs) c" using h(3) by force
    moreover have "err = Some (ErrJoin ?errs)" using m h(1) by (auto simp: err join)
    ultimately show ?thesis by blast
  qed
  then show ?thesis
    unfolding calls hs_def [symmetric] using none by (auto simp: err join)
qed

theorem outbox_deliver_spec_witness:
  "\<exists>calls e. outbox_deliver (\<lambda>h _. if h = EvFunc ''u'' (Some 1) then Returned (Some ErrDeadline) else Returned None)
      (Some (fold ev_apply [EvRegister (EvFunc ''u'' (Some 1)), EvRegister (EvFunc ''*'' (Some 2))]
        events_NewRegistry)) ob_demo_event = (calls, Some e) \<and> errors_is e ErrDeadline \<and>
     calls = [(EvFunc ''u'' (Some 1), ob_demo_event), (EvFunc ''*'' (Some 2), ob_demo_event)]"
proof -
  let ?run = "\<lambda>h _. if h = EvFunc ''u'' (Some 1) then Returned (Some ErrDeadline) else Returned None"
  let ?ops = "[EvRegister (EvFunc ''u'' (Some 1)), EvRegister (EvFunc ''*'' (Some 2))]"
  obtain calls err where d: "outbox_deliver ?run (Some (fold ev_apply ?ops events_NewRegistry)) ob_demo_event = (calls, err)"
    by (cases "outbox_deliver ?run (Some (fold ev_apply ?ops events_NewRegistry)) ob_demo_event")
  have a: "filter (\<lambda>h. TrimSpace (ev_EventType h) = ev_Type ob_demo_event) (ev_accepted ?ops events_NewRegistry) = [EvFunc ''u'' (Some 1)]"
    "filter (\<lambda>h. TrimSpace (ev_EventType h) = ''*'') (ev_accepted ?ops events_NewRegistry) = [EvFunc ''*'' (Some 2)]"
    "(ev_Type ob_demo_event = ''*'') = False"
    by code_simp+
  have c: "calls = [(EvFunc ''u'' (Some 1), ob_demo_event), (EvFunc ''*'' (Some 2), ob_demo_event)]"
    using outbox_deliver_spec [OF refl d refl] unfolding a by simp
  moreover from this have "\<exists>d. err = Some d \<and> errors_is d ErrDeadline"
    using outbox_deliver_spec [OF refl d refl] by auto
  ultimately show ?thesis using d by auto
qed

text \<open>Recording the outcome of a delivery. A relay that lost the claim changes nothing and
  reports it. The holder's outcome is the documented one on every branch: processed on
  success; failed for good, with the error, when the attempts are used up; otherwise
  released, counted and scheduled after the retry delay.\<close>

theorem relay_delivery_outcome:
  assumes "outbox_pk (od_rows db1)" and "db1 = me_during env db"
    and "find_row or_id (ob_id m) (od_rows db1) = Some r"
    and "me_exec env = ExecOk" and "\<And>e. text_ok (outbox_truncateUTF8 (render e) 1024)"
    and "process_message cfg render text_ok run reg env m db = Some (db', st)"
  shows "if or_claim_token r \<noteq> Some (ob_claimToken m) then db' = db1 \<and> st = MsClaimLost
    else (case snd (outbox_deliver run reg (event_of m)) of
      None \<Rightarrow> st = MsDelivered \<and>
        find_row or_id (ob_id m) (od_rows db') = Some (r\<lparr>or_processed_at := Some (od_now db1)\<rparr>)
    | Some e \<Rightarrow>
       (\<exists>r'. find_row or_id (ob_id m) (od_rows db') = Some r' \<and> or_attempt r' = ob_attempt m + 1 \<and>
          or_last_error r' = Some (outbox_truncateUTF8 (render e) 1024) \<and>
          (if ob_attempt m + 1 \<ge> ob_maxAttempts m then st = MsFailed \<and> or_failed_at r' = Some (od_now db1)
           else st = MsRetried \<and> or_claim_token r' = None \<and> or_locked_until r' = None \<and>
             (\<exists>d. relay_backoff cfg (ob_attempt m + 1) (me_draw env) = Some d \<and>
                or_process_after r' = od_now db1 + go_div d 1000000 * 1000))))"
proof -
  define err where "err = snd (outbox_deliver run reg (event_of m))"
  obtain out where out: "message_outcome_of cfg render m err (me_draw env) = Some out"
    using assms(6) by (auto simp: process_message_def err_def Let_def split: option.splits)
  have ex: "message_exec text_ok out (me_exec env) = ExecOk"
    using out assms(4,5)
    by (auto simp: message_exec_def message_outcome_of_def Let_def split: option.splits if_splits)
  have res: "db' = db1\<lparr>od_rows := fst (message_stmt (od_now db1) m out (od_rows db1))\<rparr>"
    "st = message_status_of out (Some (snd (message_stmt (od_now db1) m out (od_rows db1))))"
    using assms(6) out ex unfolding assms(2) by (auto simp: process_message_def err_def sql_exec_def Let_def)
  have cnt: "snd (message_stmt (od_now db1) m out (od_rows db1)) =
      (if or_claim_token r = Some (ob_claimToken m) then 1 else 0)"
    using message_owned_count [OF assms(1), of "ob_id m" "ob_claimToken m"] assms(3)
    by (simp add: message_stmt_def relay_stmt_defs sql_update_def split: message_outcome.split)
  show ?thesis
  proof (cases "or_claim_token r = Some (ob_claimToken m)")
    case False
    have "\<not> message_owned (ob_id m) (ob_claimToken m) x" if "x \<in> set (od_rows db1)" for x
    proof
      assume x: "message_owned (ob_id m) (ob_claimToken m) x"
      have "find_row or_id (ob_id m) (od_rows db1) = Some x"
        using assms(1) that x by (simp add: outbox_pk_def find_row_iff message_owned_def)
      with assms(3) False x show False by (simp add: message_owned_def)
    qed
    then have "fst (message_stmt (od_now db1) m out (od_rows db1)) = od_rows db1"
      by (simp add: message_stmt_def relay_stmt_defs split: message_outcome.split)
    with False res cnt show ?thesis by (simp add: message_status_of_def)
  next
    case own: True
    show ?thesis
    proof (cases err)
      case None
      with own res cnt out assms(3) show ?thesis unfolding err_def [symmetric]
        by (simp add: message_outcome_of_def message_stmt_def message_status_of_def relay_stmt_rows Let_def)
    next
      case (Some e)
      with own res cnt out assms(3) show ?thesis unfolding err_def [symmetric]
        by (auto simp: message_outcome_of_def message_stmt_def message_status_of_def relay_stmt_rows Let_def
            split: if_splits option.splits)
    qed
  qed
qed

definition ob_demo_cfg :: RelayConfig where
  "ob_demo_cfg = \<lparr>rc_BatchSize = 0, rc_PollInterval = 0, rc_InitialBackoff = 0, rc_LeaseDuration = 0,
     rc_LeaseRenewalInterval = 0\<rparr>"

theorem relay_delivery_outcome_witness:
  "\<exists>db' r'. process_message ob_demo_cfg (\<lambda>_. ''x'') (\<lambda>_. True) (\<lambda>_ _. Returned None) (Some events_NewRegistry)
      \<lparr>me_during = id, me_draw = 0, me_exec = ExecOk\<rparr> ob_demo_msg \<lparr>od_rows = [ob_demo_held], od_now = 9\<rparr>
      = Some (db', MsFailed) \<and> find_row or_id ''e'' (od_rows db') = Some r' \<and> or_failed_at r' = Some 9"
proof -
  let ?env = "\<lparr>me_during = id, me_draw = 0, me_exec = ExecOk\<rparr>"
  let ?db = "\<lparr>od_rows = [ob_demo_held], od_now = 9\<rparr>"
  let ?p = "process_message ob_demo_cfg (\<lambda>_. ''x'') (\<lambda>_. True) (\<lambda>_ _. Returned None) (Some events_NewRegistry)
      ?env ob_demo_msg ?db"
  have e: "snd (outbox_deliver (\<lambda>_ _. Returned None) (Some events_NewRegistry) (event_of ob_demo_msg)) =
      Some (ErrMsg ''outbox: no handlers registered for event type %q'' [''u''])"
    by (simp add: outbox_deliver_def events_HandlersFor_def events_NewRegistry_def event_of_def ob_demo_msg_def)
  have "?p \<noteq> None"
    using e by (simp add: process_message_def message_outcome_of_def ob_demo_msg_def Let_def case_prod_beta)
  then obtain db' st where p: "?p = Some (db', st)" by auto
  from relay_delivery_outcome [OF _ refl _ _ _ p, of ob_demo_held] e p show ?thesis
    by (auto simp: outbox_pk_def ob_demo_msg_def ob_demo_held_def ob_demo_row_def)
qed

subsection \<open>Enqueue\<close>

text \<open>\<open>Enqueue\<close> that reports success has added exactly one row: the event with the options
  applied over the defaults (five attempts, due now), not yet claimed or processed, with a
  positive attempt limit, under an identifier that was free. One that reports an error of
  an option, of the encoding or of the key has changed nothing.\<close>

theorem outbox_enqueue_spec:
  assumes "outbox_Enqueue marshal now db_now out event options rows = (rows', err)"
    and "\<forall>f. Some f \<in> set options \<longrightarrow> option_ok f"
  shows "(err = None \<longrightarrow>
      (\<exists>r cfg. rows' = rows @ [r] \<and> ev_ID event \<notin> or_id ` set rows \<and> or_id r = ev_ID event \<and>
        or_event_type r = ev_Type event \<and> Inr (or_payload r) = marshal (ev_Payload event) \<and>
        apply_enqueue_options options \<lparr>ec_maxAttempts = 5, ec_processAfter = now\<rparr> = Inr cfg \<and>
        or_max_attempts r = ec_maxAttempts cfg \<and> 1 \<le> or_max_attempts r \<and>
        or_process_after r = ec_processAfter cfg \<and> or_attempt r = 0 \<and>
        or_processed_at r = None \<and> or_failed_at r = None \<and> or_claim_token r = None)) \<and>
    (err \<noteq> None \<and> out \<noteq> ExecReplyLost \<longrightarrow> rows' = rows)"
proof (cases "apply_enqueue_options options \<lparr>ec_maxAttempts = 5, ec_processAfter = now\<rparr>")
  case (Inl e)
  with assms(1) show ?thesis by (auto simp: outbox_Enqueue_def)
next
  case (Inr cfg)
  have "1 \<le> ec_maxAttempts cfg"
    by (rule apply_enqueue_options_pos [OF Inr _ assms(2)]) simp
  with Inr assms(1) show ?thesis
    by (auto simp: outbox_Enqueue_def outbox_insert_def split: sum.splits if_splits exec_outcome.splits)
qed

theorem outbox_enqueue_spec_witness:
  "\<exists>r. fst (outbox_Enqueue Inr 7 8 ExecOk ob_demo_event [None, Some (WithMaxAttempts 3)] []) = [r] \<and>
     or_max_attempts r = 3 \<and> or_process_after r = 7"
proof -
  let ?o = "[None, Some (WithMaxAttempts 3)]"
  obtain rows' where e: "outbox_Enqueue Inr 7 8 ExecOk ob_demo_event ?o [] = (rows', None)"
    by (simp add: outbox_Enqueue_def WithMaxAttempts_def outbox_insert_def)
  have ok: "\<forall>f. Some f \<in> set ?o \<longrightarrow> option_ok f" by (auto simp: option_ok_def)
  from outbox_enqueue_spec [OF e ok] e show ?thesis by (auto simp: WithMaxAttempts_def)
qed

end
