(* ===== verification/PostgresTx.thy ===== *)
theory PostgresTx
  imports GoStrings
begin

text \<open>
  Transactions (\<open>postgres/tx.go\<close>) and the error predicates and pool options of
  \<open>postgres/postgres.go\<close>. The database is a value of any type; a transaction works on its own
  copy, which a commit installs and a rollback drops. pgx itself is the environment: what
  \<open>BeginTx\<close>, the callback and \<open>Commit\<close> do at each attempt, and when the context ends, are
  arguments.
\<close>

subsection \<open>Configuration\<close>

record RetryConfig =
  rt_MaxAttempts :: int
  rt_RetryOn :: "string list"
  rt_InitialBackoff :: duration
  rt_MaxBackoff :: duration

definition defaultRetryConfig :: RetryConfig where
  "defaultRetryConfig = \<lparr>rt_MaxAttempts = 3, rt_RetryOn = [''40P01''],
     rt_InitialBackoff = 20 * 1000000, rt_MaxBackoff = 500 * 1000000\<rparr>"

definition effective_config :: "RetryConfig list \<Rightarrow> RetryConfig" where
  "effective_config cfgs =
     (let cfg = (case cfgs of [] \<Rightarrow> defaultRetryConfig | c # _ \<Rightarrow> c);
          cfg = (if rt_MaxAttempts cfg \<le> 0 then cfg\<lparr>rt_MaxAttempts := 1\<rparr> else cfg);
          cfg = (if rt_RetryOn cfg = [] then cfg\<lparr>rt_RetryOn := [''40P01'']\<rparr> else cfg);
          cfg = (if rt_InitialBackoff cfg \<le> 0 then cfg\<lparr>rt_InitialBackoff := 20 * 1000000\<rparr> else cfg)
      in if rt_MaxBackoff cfg \<le> 0 then cfg\<lparr>rt_MaxBackoff := 500 * 1000000\<rparr> else cfg)"

definition isRetryable :: "goerr option \<Rightarrow> string list \<Rightarrow> bool" where
  "isRetryable err codes =
     (case err of
        None \<Rightarrow> False
      | Some e \<Rightarrow>
         if errors_is e ErrCanceled \<or> errors_is e ErrDeadline then False
         else (case errors_as_pg e of None \<Rightarrow> False | Some code \<Rightarrow> code \<in> set codes))"

subsection \<open>One transaction\<close>

datatype fn_outcome = FnReturned "goerr option" | FnPanicked string

datatype commit_outcome = CommitOk | CommitFailed goerr | CommitReplyLost goerr

datatype tx_result = TxReturned "goerr option" | TxPanicked string

text \<open>What happens around one run of the callback: what other sessions did before it began,
  the error of \<open>Begin\<close>, the callback on the transaction's state, and the commit.\<close>

record 'd tx_env =
  te_before :: "'d \<Rightarrow> 'd"
  te_begin :: "goerr option"
  te_fn :: "'d \<Rightarrow> 'd \<times> fn_outcome"
  te_commit :: commit_outcome

text \<open>\<open>runInTx\<close> and \<open>withSavepoint\<close>: the deferred rollback undoes whatever was not committed,
  also when the callback panics.\<close>

definition runInTx :: "'d tx_env \<Rightarrow> 'd \<Rightarrow> 'd \<times> tx_result" where
  "runInTx env db =
     (let db1 = te_before env db in
      case te_begin env of
        Some e \<Rightarrow> (db1, TxReturned (Some (ErrWrap ''postgres: begin transaction: %w'' [] e)))
      | None \<Rightarrow>
         (case te_fn env db1 of
            (d, FnPanicked v) \<Rightarrow> (db1, TxPanicked v)
          | (d, FnReturned (Some e)) \<Rightarrow> (db1, TxReturned (Some e))
          | (d, FnReturned None) \<Rightarrow>
             (case te_commit env of
                CommitOk \<Rightarrow> (d, TxReturned None)
              | CommitFailed e \<Rightarrow>
                 (db1, TxReturned (Some (ErrWrap ''postgres: commit transaction: %w'' [] e)))
              | CommitReplyLost e \<Rightarrow>
                 (d, TxReturned (Some (ErrWrap ''postgres: commit transaction: %w'' [] e))))))"

definition withSavepoint :: "'d tx_env \<Rightarrow> 'd \<Rightarrow> 'd \<times> tx_result" where
  "withSavepoint env d0 =
     (case te_begin env of
        Some e \<Rightarrow> (d0, TxReturned (Some (ErrWrap ''postgres: begin savepoint: %w'' [] e)))
      | None \<Rightarrow>
         (case te_fn env d0 of
            (d, FnPanicked v) \<Rightarrow> (d0, TxPanicked v)
          | (d, FnReturned (Some e)) \<Rightarrow> (d0, TxReturned (Some e))
          | (d, FnReturned None) \<Rightarrow>
             (case te_commit env of
                CommitOk \<Rightarrow> (d, TxReturned None)
              | CommitFailed e \<Rightarrow>
                 (d0, TxReturned (Some (ErrWrap ''postgres: commit savepoint: %w'' [] e)))
              | CommitReplyLost e \<Rightarrow>
                 (d, TxReturned (Some (ErrWrap ''postgres: commit savepoint: %w'' [] e))))))"

subsection \<open>The retry loop\<close>

record 'd attempt_env =
  ae_ctx :: "goerr option"     \<comment> \<open>\<open>ctx.Err()\<close> at the top of the loop\<close>
  ae_tx :: "'d tx_env"
  ae_draw :: int
  ae_done :: "goerr option"    \<comment> \<open>the context ended while waiting\<close>

definition tx_min :: "duration \<Rightarrow> duration \<Rightarrow> duration" where
  "tx_min a b = (if a < b then a else b)"

text \<open>The loop from \<open>attempt\<close> on: the database, how often a transaction was started, the waits
  between them, and the result.\<close>

function tx_loop ::
  "RetryConfig \<Rightarrow> (int \<Rightarrow> 'd attempt_env) \<Rightarrow> int \<Rightarrow> duration \<Rightarrow> goerr option \<Rightarrow> 'd
     \<Rightarrow> 'd \<times> nat \<times> duration list \<times> tx_result" where
  "tx_loop cfg env attempt backoff lastErr db =
     (if attempt > rt_MaxAttempts cfg then
        (db, 0, [], TxReturned (Some (case lastErr of
           None \<Rightarrow> ErrMsg ''postgres: exceeded %d attempts: %w'' [int_dec (rt_MaxAttempts cfg), ''<nil>'']
         | Some e \<Rightarrow> ErrWrap ''postgres: exceeded %d attempts: %w'' [int_dec (rt_MaxAttempts cfg)] e)))
      else (case ae_ctx (env attempt) of
        Some e \<Rightarrow> (db, 0, [], TxReturned (Some e))
      | None \<Rightarrow>
         (case runInTx (ae_tx (env attempt)) db of
            (db', TxPanicked v) \<Rightarrow> (db', 1, [], TxPanicked v)
          | (db', TxReturned None) \<Rightarrow> (db', 1, [], TxReturned None)
          | (db', TxReturned (Some e)) \<Rightarrow>
             (if \<not> isRetryable (Some e) (rt_RetryOn cfg) then (db', 1, [], TxReturned (Some e))
              else if attempt < rt_MaxAttempts cfg then
                (case Int64N (go_div backoff 2) (ae_draw (env attempt)) of
                   None \<Rightarrow> (db', 1, [], TxPanicked ''invalid argument to Int64N'')
                 | Some jitter \<Rightarrow>
                    (let sleep = wrap64 (backoff + jitter) in
                     case ae_done (env attempt) of
                       Some c \<Rightarrow> (db', 1, [sleep], TxReturned (Some c))
                     | None \<Rightarrow>
                        (let (db'', n, ws, res) =
                               tx_loop cfg env (attempt + 1)
                                 (tx_min (wrap64 (backoff * 2)) (rt_MaxBackoff cfg)) (Some e) db'
                         in (db'', Suc n, sleep # ws, res))))
              else
                (let (db'', n, ws, res) = tx_loop cfg env (attempt + 1) backoff (Some e) db'
                 in (db'', Suc n, ws, res))))))"
  by pat_completeness auto
termination
  by (relation "measure (\<lambda>(cfg, env, attempt, backoff, lastErr, db). nat (rt_MaxAttempts cfg + 1 - attempt))")
     auto

declare tx_loop.simps [simp del]

text \<open>\<open>withTransaction\<close>: \<open>ambient\<close> says whether the context carries a transaction, whose state is
  then \<open>db\<close>, and \<open>options\<close> whether the transaction options are non-zero.\<close>

definition withTransaction ::
  "RetryConfig list \<Rightarrow> bool \<Rightarrow> bool \<Rightarrow> (int \<Rightarrow> 'd attempt_env) \<Rightarrow> 'd
     \<Rightarrow> 'd \<times> nat \<times> duration list \<times> tx_result" where
  "withTransaction cfgs ambient options env db =
     (let cfg = effective_config cfgs in
      if ambient then
        if options then
          (db, 0, [], TxReturned (Some
             (ErrMsg ''postgres: transaction options cannot be applied to an ambient transaction'' [])))
        else (let (db', res) = withSavepoint (ae_tx (env 1)) db in (db', 1, [], res))
      else tx_loop cfg env 1 (rt_InitialBackoff cfg) None db)"

definition WithTransaction :: "RetryConfig list \<Rightarrow> bool \<Rightarrow> (int \<Rightarrow> 'd attempt_env) \<Rightarrow> 'd
     \<Rightarrow> 'd \<times> nat \<times> duration list \<times> tx_result" where
  "WithTransaction cfgs ambient env db = withTransaction cfgs ambient False env db"

definition WithTransactionOptions ::
  "bool \<Rightarrow> RetryConfig list \<Rightarrow> bool \<Rightarrow> (int \<Rightarrow> 'd attempt_env) \<Rightarrow> 'd
     \<Rightarrow> 'd \<times> nat \<times> duration list \<times> tx_result" where
  "WithTransactionOptions options cfgs ambient env db = withTransaction cfgs ambient options env db"

subsection \<open>The ambient transaction\<close>

text \<open>A context as far as the package looks at it: the value under \<open>txKey\<close>.\<close>

datatype 'tx querier = QPool | QTx 'tx

definition tx_Querier :: "'tx option \<Rightarrow> 'tx querier" where
  "tx_Querier ctx = (case ctx of Some tx \<Rightarrow> QTx tx | None \<Rightarrow> QPool)"

definition InjectTx :: "'tx option \<Rightarrow> 'tx \<Rightarrow> 'tx option" where
  "InjectTx ctx tx = Some tx"

subsection \<open>Errors and options\<close>

definition PgError :: "goerr \<Rightarrow> string option" where
  "PgError err = errors_as_pg err"

definition IsConstraintViolation :: "goerr \<Rightarrow> bool" where
  "IsConstraintViolation err =
     (case PgError err of None \<Rightarrow> False | Some code \<Rightarrow> 2 \<le> length code \<and> take 2 code = ''23'')"

definition IsUniqueViolation :: "goerr \<Rightarrow> bool" where
  "IsUniqueViolation err = (case PgError err of None \<Rightarrow> False | Some code \<Rightarrow> code = ''23505'')"

record pool_config =
  pc_MaxConns :: int
  pc_MinConns :: int
  pc_MaxConnLifetime :: duration
  pc_MaxConnIdleTime :: duration
  pc_HealthCheckPeriod :: duration

definition applyOptions :: "pool_config \<Rightarrow> pool_config \<Rightarrow> pool_config" where
  "applyOptions cfg opts =
     (let cfg = (if pc_MaxConns opts > 0 then cfg\<lparr>pc_MaxConns := pc_MaxConns opts\<rparr> else cfg);
          cfg = (if pc_MinConns opts > 0 then cfg\<lparr>pc_MinConns := pc_MinConns opts\<rparr> else cfg);
          cfg = (if pc_MaxConnLifetime opts > 0
                 then cfg\<lparr>pc_MaxConnLifetime := pc_MaxConnLifetime opts\<rparr> else cfg);
          cfg = (if pc_MaxConnIdleTime opts > 0
                 then cfg\<lparr>pc_MaxConnIdleTime := pc_MaxConnIdleTime opts\<rparr> else cfg)
      in if pc_HealthCheckPeriod opts > 0
         then cfg\<lparr>pc_HealthCheckPeriod := pc_HealthCheckPeriod opts\<rparr> else cfg)"

text \<open>\<open>OpenConfig\<close>: the pool the options give, or the error that stopped it; a pool that does not
  answer a ping is closed again.\<close>

datatype open_result = Opened pool_config | OpenFailed goerr bool

definition OpenConfig ::
  "pool_config option \<Rightarrow> pool_config \<Rightarrow> goerr option \<Rightarrow> goerr option \<Rightarrow> open_result" where
  "OpenConfig cfg opts new_err ping_err =
     (case cfg of
        None \<Rightarrow> OpenFailed (ErrMsg ''postgres: config is nil'' []) False
      | Some c \<Rightarrow>
         let poolConfig = applyOptions c opts in
         (case new_err of
            Some e \<Rightarrow> OpenFailed (ErrWrap ''postgres: create pool: %w'' [] e) False
          | None \<Rightarrow>
             (case ping_err of
                Some e \<Rightarrow> OpenFailed (ErrWrap ''postgres: ping: %w'' [] e) True
              | None \<Rightarrow> Opened poolConfig)))"

definition db_Ping :: "bool \<Rightarrow> goerr option \<Rightarrow> goerr option" where
  "db_Ping available ping_err =
     (if \<not> available then Some (ErrMsg ''postgres: database unavailable'' []) else ping_err)"

subsection \<open>What the loop does\<close>

text \<open>The database as other sessions left it before attempt \<open>k\<close> began, the attempts starting
  at \<open>a\<close>.\<close>

definition others_until :: "(int \<Rightarrow> 'd attempt_env) \<Rightarrow> int \<Rightarrow> int \<Rightarrow> 'd \<Rightarrow> 'd" where
  "others_until env a k db = fold (\<lambda>j. te_before (ae_tx (env j))) [a..k] db"

lemma others_until_first [simp]: "others_until env a a db = te_before (ae_tx (env a)) db"
  by (simp add: others_until_def)

lemma others_until_none: "k < a \<Longrightarrow> others_until env a k db = db"
  by (simp add: others_until_def)

lemma others_until_rec:
  "a \<le> k \<Longrightarrow> others_until env a k db = others_until env (a + 1) k (te_before (ae_tx (env a)) db)"
  by (simp add: others_until_def upto_rec1)

definition no_lost_reply :: "(int \<Rightarrow> 'd attempt_env) \<Rightarrow> bool" where
  "no_lost_reply env \<longleftrightarrow> (\<forall>k e. te_commit (ae_tx (env k)) \<noteq> CommitReplyLost e)"

lemma runInTx_cases:
  assumes "\<And>e. te_commit env \<noteq> CommitReplyLost e"
  obtains (committed) d where "te_fn env (te_before env db) = (d, FnReturned None)" "runInTx env db = (d, TxReturned None)"
  | (failed) e where "runInTx env db = (te_before env db, TxReturned (Some e))"
  | (panicked) v d where "runInTx env db = (te_before env db, TxPanicked v)"
      "te_fn env (te_before env db) = (d, FnPanicked v)"
proof -
  obtain d out where f: "te_fn env (te_before env db) = (d, out)" by (cases "te_fn env (te_before env db)")
  show thesis
  proof (cases "te_begin env")
    case None
    show thesis
    proof (cases out)
      case (FnReturned r)
      show thesis
      proof (cases r)
        case Nil: None
        then show thesis
          using None f FnReturned assms
          by (cases "te_commit env") (auto simp: runInTx_def Let_def intro: committed failed)
      qed (use None f FnReturned in \<open>auto simp: runInTx_def Let_def intro: failed\<close>)
    qed (use None f in \<open>auto simp: runInTx_def Let_def intro: panicked\<close>)
  qed (auto simp: runInTx_def Let_def intro: failed)
qed

lemma tx_loop_step:
  assumes nl: "no_lost_reply env" and run: "tx_loop cfg env a b le db = (db', n, ws, res)"
  obtains (idle) "n = 0" "db' = db" "res \<noteq> TxReturned None"
  | (committed) "a \<le> rt_MaxAttempts cfg" "n = 1" "res = TxReturned None"
      "te_fn (ae_tx (env a)) (te_before (ae_tx (env a)) db) = (db', FnReturned None)"
  | (stopped) "a \<le> rt_MaxAttempts cfg" "n = 1" "db' = te_before (ae_tx (env a)) db" "res \<noteq> TxReturned None"
  | (again) e m ws' b' where "a \<le> rt_MaxAttempts cfg" "n = Suc m"
      "runInTx (ae_tx (env a)) db = (te_before (ae_tx (env a)) db, TxReturned (Some e))"
      "isRetryable (Some e) (rt_RetryOn cfg)"
      "tx_loop cfg env (a + 1) b' (Some e) (te_before (ae_tx (env a)) db) = (db', m, ws', res)"
proof -
  note unf = run [unfolded tx_loop.simps [of cfg env a]]
  show thesis
  proof (cases "a > rt_MaxAttempts cfg \<or> ae_ctx (env a) \<noteq> None")
    case True
    with unf show thesis by (intro idle) (auto split: if_splits option.splits)
  next
    case False
    then have go: "a \<le> rt_MaxAttempts cfg" "\<not> a > rt_MaxAttempts cfg" "ae_ctx (env a) = None" by auto
    have "\<And>e. te_commit (ae_tx (env a)) \<noteq> CommitReplyLost e" using nl by (simp add: no_lost_reply_def)
    then show thesis
    proof (rule runInTx_cases [where db = db], goal_cases)
      case (1 d)
      with unf go show thesis by (intro committed) auto
    next
      case (3 v d)
      with unf go show thesis by (intro stopped) auto
    next
      case (2 e)
      note unf2 = unf [unfolded 2, simplified go, simplified]
      show thesis
      proof (cases "isRetryable (Some e) (rt_RetryOn cfg)")
        case False
        with unf2 go show thesis by (intro stopped) auto
      next
        case retry: True
        show thesis
        proof (cases "a < rt_MaxAttempts cfg")
          case True
          show thesis
          proof (cases "Int64N (go_div b 2) (ae_draw (env a)) = None \<or> ae_done (env a) \<noteq> None")
            case stop: True
            with unf2 True retry go show thesis
              by (intro stopped) (auto simp del: Int64N_None_iff split: option.splits)
          next
            case False
            with unf2 True retry obtain m ws' b' where
              "n = Suc m" "tx_loop cfg env (a + 1) b' (Some e) (te_before (ae_tx (env a)) db) = (db', m, ws', res)"
              by (auto simp: Let_def split: option.splits prod.splits)
            from again [OF go(1) this(1) 2 retry this(2)] show thesis .
          qed
        next
          case False
          with unf2 retry obtain m ws' b' where
            "n = Suc m" "tx_loop cfg env (a + 1) b' (Some e) (te_before (ae_tx (env a)) db) = (db', m, ws', res)"
            by (auto simp: Let_def split: option.splits prod.splits)
          from again [OF go(1) this(1) 2 retry this(2)] show thesis .
        qed
      qed
    qed
  qed
qed

lemma tx_loop_run:
  assumes "no_lost_reply env" and "tx_loop cfg env a b le db = (db', n, ws, res)"
  shows "int n \<le> max 0 (rt_MaxAttempts cfg + 1 - a) \<and>
    (\<forall>k. a \<le> k \<and> k < a + int n - 1 \<longrightarrow>
       (\<exists>e. snd (runInTx (ae_tx (env k)) (others_until env a (k - 1) db)) = TxReturned (Some e) \<and>
            isRetryable (Some e) (rt_RetryOn cfg))) \<and>
    (res = TxReturned None \<longrightarrow> 1 \<le> n \<and>
       te_fn (ae_tx (env (a + int n - 1))) (others_until env a (a + int n - 1) db) = (db', FnReturned None)) \<and>
    (res \<noteq> TxReturned None \<longrightarrow> db' = others_until env a (a + int n - 1) db)"
  using assms(2)
proof (induction "nat (rt_MaxAttempts cfg + 1 - a)" arbitrary: a b le db n ws rule: less_induct)
  case less
  show ?case
  proof (rule tx_loop_step [OF assms(1) less.prems], goal_cases)
    case again: (4 e m ws' b')
    let ?db1 = "te_before (ae_tx (env a)) db"
    have dec: "nat (rt_MaxAttempts cfg + 1 - (a + 1)) < nat (rt_MaxAttempts cfg + 1 - a)" using again(1) by simp
    note IH = less.hyps [OF dec again(5)]
    have shift: "others_until env a k db = others_until env (a + 1) k ?db1" if "a \<le> k" for k
      using that by (rule others_until_rec)
    have "\<exists>e. snd (runInTx (ae_tx (env k)) (others_until env a (k - 1) db)) = TxReturned (Some e) \<and>
            isRetryable (Some e) (rt_RetryOn cfg)" if k: "a \<le> k \<and> k < a + int n - 1" for k
    proof (cases "k = a")
      case True
      then show ?thesis using again(3,4) by (simp add: others_until_none)
    next
      case False
      then have "a + 1 \<le> k \<and> k < a + 1 + int m - 1" using k again(2) by auto
      with IH have "\<exists>e. snd (runInTx (ae_tx (env k)) (others_until env (a + 1) (k - 1) ?db1)) = TxReturned (Some e) \<and>
            isRetryable (Some e) (rt_RetryOn cfg)" by blast
      then show ?thesis using shift [of "k - 1"] False k by simp
    qed
    moreover have "a + int n - 1 = a + 1 + int m - 1" using again(2) by simp
    moreover have "others_until env a (a + 1 + int m - 1) db = others_until env (a + 1) (a + 1 + int m - 1) ?db1"
      by (rule shift) simp
    moreover have "int n \<le> max 0 (rt_MaxAttempts cfg + 1 - a)" using IH again(1,2) by auto
    ultimately show ?thesis using IH again(2) by auto
  qed (auto simp: others_until_none)
qed

lemma effective_config_pos:
  "1 \<le> rt_MaxAttempts (effective_config cfgs)" "1 \<le> rt_InitialBackoff (effective_config cfgs)"
  "1 \<le> rt_MaxBackoff (effective_config cfgs)" "rt_RetryOn (effective_config cfgs) \<noteq> []"
  by (auto simp: effective_config_def defaultRetryConfig_def Let_def split: list.split)

text \<open>When every attempt fails with a retryable error and nothing cancels the context, the
  loop runs through its attempts.\<close>

lemma tx_loop_exhausts:
  assumes fails: "\<And>k d. snd (runInTx (ae_tx (env k)) d) = TxReturned (Some (err k))"
    and retry: "\<And>k. isRetryable (Some (err k)) (rt_RetryOn cfg)"
    and ctx: "\<And>k. ae_ctx (env k) = None" "\<And>k. ae_done (env k) = None"
    and mb: "2 \<le> rt_MaxBackoff cfg" "rt_MaxBackoff cfg \<le> B" "B < 2 ^ 62"
    and b: "2 \<le> b" "b \<le> B" and a: "a \<le> rt_MaxAttempts cfg"
  shows "\<exists>db' ws. tx_loop cfg env a b le db =
      (db', nat (rt_MaxAttempts cfg + 1 - a), ws,
       TxReturned (Some (ErrWrap ''postgres: exceeded %d attempts: %w'' [int_dec (rt_MaxAttempts cfg)]
         (err (rt_MaxAttempts cfg))))) \<and>
    length ws = nat (rt_MaxAttempts cfg - a) \<and> (\<forall>w \<in> set ws. 2 \<le> w \<and> 2 * w < 3 * B)"
  using b a
proof (induction "nat (rt_MaxAttempts cfg - a)" arbitrary: a b le db)
  case 0
  then have a: "a = rt_MaxAttempts cfg" by simp
  obtain d where r: "runInTx (ae_tx (env a)) db = (d, TxReturned (Some (err a)))"
    using fails [of a db] by (cases "runInTx (ae_tx (env a)) db") auto
  have "tx_loop cfg env (a + 1) b (Some (err a)) d = (d, 0, [],
      TxReturned (Some (ErrWrap ''postgres: exceeded %d attempts: %w'' [int_dec (rt_MaxAttempts cfg)] (err a))))"
    by (subst tx_loop.simps) (simp add: a)
  then show ?case
    using r retry [of a] ctx by (subst tx_loop.simps) (simp add: a)
next
  case (Suc m)
  then have lt: "a < rt_MaxAttempts cfg" by simp
  obtain d where r: "runInTx (ae_tx (env a)) db = (d, TxReturned (Some (err a)))"
    using fails [of a db] by (cases "runInTx (ae_tx (env a)) db") auto
  have half: "0 < go_div b 2" "go_div b 2 = b div 2" using Suc.prems(1) by simp_all
  define j where "j = ae_draw (env a) mod go_div b 2"
  have j: "Int64N (go_div b 2) (ae_draw (env a)) = Some j" using half(1) by (simp add: Int64N_def j_def)
  have "0 \<le> j \<and> j < go_div b 2" by (rule Int64N_Some [OF j])
  then have j: "Int64N (go_div b 2) (ae_draw (env a)) = Some j" "0 \<le> j" "j < b div 2"
    using j half(2) by simp_all
  have w: "wrap64 (b + j) = b + j" "wrap64 (b * 2) = b * 2"
    using j Suc.prems mb by (simp_all add: int64_ok_def)
  define b' where "b' = tx_min (b * 2) (rt_MaxBackoff cfg)"
  have b': "2 \<le> b'" "b' \<le> B" using Suc.prems(1) mb by (auto simp: b'_def tx_min_def)
  have m: "m = nat (rt_MaxAttempts cfg - (a + 1))" using Suc.hyps(2) by simp
  have a1: "a + 1 \<le> rt_MaxAttempts cfg" using lt by simp
  obtain db' ws where IH: "tx_loop cfg env (a + 1) b' (Some (err a)) d =
      (db', nat (rt_MaxAttempts cfg + 1 - (a + 1)), ws,
       TxReturned (Some (ErrWrap ''postgres: exceeded %d attempts: %w'' [int_dec (rt_MaxAttempts cfg)]
         (err (rt_MaxAttempts cfg)))))" "length ws = nat (rt_MaxAttempts cfg - (a + 1))"
      "\<forall>w \<in> set ws. 2 \<le> w \<and> 2 * w < 3 * B"
    using Suc.hyps(1) [OF m b' a1, of "Some (err a)" d] by blast
  have "tx_loop cfg env a b le db = (db', Suc (nat (rt_MaxAttempts cfg + 1 - (a + 1))), (b + j) # ws,
       TxReturned (Some (ErrWrap ''postgres: exceeded %d attempts: %w'' [int_dec (rt_MaxAttempts cfg)]
         (err (rt_MaxAttempts cfg)))))"
    using r retry [of a] ctx lt j(1) IH(1)
    by (subst tx_loop.simps) (simp add: w b'_def)
  moreover have "2 * j < b" using j(3) by presburger
  then have "2 \<le> b + j \<and> 2 * (b + j) < 3 * B" using j(2) Suc.prems(1,2) by auto
  moreover have "Suc (nat (rt_MaxAttempts cfg + 1 - (a + 1))) = nat (rt_MaxAttempts cfg + 1 - a)"
    "Suc (nat (rt_MaxAttempts cfg - (a + 1))) = nat (rt_MaxAttempts cfg - a)" using lt by simp_all
  ultimately show ?case using IH(2,3) by auto
qed

subsection \<open>Properties\<close>

definition tx_demo_env :: "int \<Rightarrow> (int list) attempt_env" where
  "tx_demo_env k = \<lparr>ae_ctx = None,
     ae_tx = \<lparr>te_before = id, te_begin = None,
       te_fn = (\<lambda>d. (d @ [k], FnReturned (if k < 2 then Some (ErrPg ''40P01'') else None))), te_commit = CommitOk\<rparr>,
     ae_draw = 3, ae_done = None\<rparr>"

lemma tx_demo_run: "withTransaction [] False False tx_demo_env [] = ([2], 2, [20000003], TxReturned None)"
proof -
  have 2: "tx_loop (effective_config []) tx_demo_env 2 b le [] = ([2], 1, [], TxReturned None)" for b le
    by (subst tx_loop.simps)
       (simp add: tx_demo_env_def runInTx_def effective_config_def defaultRetryConfig_def)
  show ?thesis
    unfolding withTransaction_def Let_def
    by (subst tx_loop.simps)
       (simp add: tx_demo_env_def [of 1] runInTx_def effective_config_def defaultRetryConfig_def isRetryable_def
         Int64N_def wrap64_def 2 [unfolded effective_config_def defaultRetryConfig_def, simplified])
qed

lemma tx_demo_no_lost_reply: "no_lost_reply tx_demo_env"
  by (simp add: no_lost_reply_def tx_demo_env_def)

text \<open>C5: Transactions are all or nothing. When no commit reply is lost, a top-level transaction
  that returns nil has installed exactly the state its last run of the callback produced,
  starting from what other sessions had left, with nothing of the earlier runs; in every
  other case (an error, a cancelled context, a panic) the database holds only what other
  sessions wrote.\<close>

theorem tx_atomic:
  assumes "no_lost_reply env" and "withTransaction cfgs False options env db = (db', n, ws, res)"
  shows "(res = TxReturned None \<longrightarrow> 1 \<le> n \<and>
      te_fn (ae_tx (env (int n))) (others_until env 1 (int n) db) = (db', FnReturned None)) \<and>
    (res \<noteq> TxReturned None \<longrightarrow> db' = others_until env 1 (int n) db)"
proof -
  have "tx_loop (effective_config cfgs) env 1 (rt_InitialBackoff (effective_config cfgs)) None db = (db', n, ws, res)"
    using assms(2) by (simp add: withTransaction_def Let_def)
  from tx_loop_run [OF assms(1) this] show ?thesis by (simp add: add.commute)
qed

theorem tx_atomic_witness:
  "te_fn (ae_tx (tx_demo_env 2)) (others_until tx_demo_env 1 2 []) = ([2], FnReturned None)"
  using tx_atomic [OF tx_demo_no_lost_reply tx_demo_run] by simp

text \<open>C34: The callback runs at most \<open>MaxAttempts\<close> times, at least one being allowed, and it is run
  again only after an attempt that failed with one of the configured SQLSTATE codes and not
  with a context error.\<close>

theorem tx_retry_policy:
  assumes "no_lost_reply env" and "withTransaction cfgs False options env db = (db', n, ws, res)"
  shows "int n \<le> rt_MaxAttempts (effective_config cfgs) \<and>
    (\<forall>k. 1 \<le> k \<and> k < int n \<longrightarrow>
       (\<exists>e code. snd (runInTx (ae_tx (env k)) (others_until env 1 (k - 1) db)) = TxReturned (Some e) \<and>
          errors_as_pg e = Some code \<and> code \<in> set (rt_RetryOn (effective_config cfgs)) \<and>
          \<not> errors_is e ErrCanceled \<and> \<not> errors_is e ErrDeadline))"
proof -
  have l: "tx_loop (effective_config cfgs) env 1 (rt_InitialBackoff (effective_config cfgs)) None db = (db', n, ws, res)"
    using assms(2) by (simp add: withTransaction_def Let_def)
  have "isRetryable (Some e) codes \<Longrightarrow> \<exists>code. errors_as_pg e = Some code \<and> code \<in> set codes \<and>
      \<not> errors_is e ErrCanceled \<and> \<not> errors_is e ErrDeadline" for e codes
    by (auto simp: isRetryable_def split: if_splits option.splits)
  note retryable = this
  note run = tx_loop_run [OF assms(1) l]
  have "\<exists>e code. snd (runInTx (ae_tx (env k)) (others_until env 1 (k - 1) db)) = TxReturned (Some e) \<and>
          errors_as_pg e = Some code \<and> code \<in> set (rt_RetryOn (effective_config cfgs)) \<and>
          \<not> errors_is e ErrCanceled \<and> \<not> errors_is e ErrDeadline" if "1 \<le> k" "k < int n" for k
  proof -
    have "1 \<le> k \<and> k < 1 + int n - 1" using that by simp
    with run obtain e where "snd (runInTx (ae_tx (env k)) (others_until env 1 (k - 1) db)) = TxReturned (Some e)"
      "isRetryable (Some e) (rt_RetryOn (effective_config cfgs))" by blast
    with retryable show ?thesis by blast
  qed
  moreover have "int n \<le> rt_MaxAttempts (effective_config cfgs)"
    using run effective_config_pos(1) [of cfgs] by simp
  ultimately show ?thesis by blast
qed

theorem tx_retry_policy_witness:
  "\<exists>e. snd (runInTx (ae_tx (tx_demo_env 1)) (others_until tx_demo_env 1 0 [])) = TxReturned (Some e) \<and>
     \<not> errors_is e ErrCanceled"
  using tx_retry_policy [OF tx_demo_no_lost_reply tx_demo_run] by force

text \<open>C35: When every attempt fails with a retryable error and the context stays alive, the callback
  runs exactly \<open>MaxAttempts\<close> times with a wait between any two, each wait below one and a
  half times the larger of the two configured delays, and the caller gets an error that
  wraps the last one.\<close>

theorem tx_retries_exhausted:
  fixes env :: "int \<Rightarrow> 'd attempt_env" and cfgs :: "RetryConfig list"
  defines "cfg \<equiv> effective_config cfgs"
  defines "B \<equiv> max (rt_InitialBackoff cfg) (rt_MaxBackoff cfg)"
  assumes "\<And>k d. snd (runInTx (ae_tx (env k)) d) = TxReturned (Some (err k))"
    and "\<And>k. isRetryable (Some (err k)) (rt_RetryOn cfg)"
    and "\<And>k. ae_ctx (env k) = None" and "\<And>k. ae_done (env k) = None"
    and "2 \<le> rt_InitialBackoff cfg" and "2 \<le> rt_MaxBackoff cfg" and "B < 2 ^ 62"
  shows "\<exists>db' ws e. withTransaction cfgs False options env db =
      (db', nat (rt_MaxAttempts cfg), ws, TxReturned (Some e)) \<and>
    length ws = nat (rt_MaxAttempts cfg - 1) \<and> (\<forall>w \<in> set ws. 2 \<le> w \<and> 2 * w < 3 * B) \<and>
    (\<forall>c. errors_is (err (rt_MaxAttempts cfg)) c \<longrightarrow> errors_is e c)"
proof -
  obtain db' ws where "tx_loop cfg env 1 (rt_InitialBackoff cfg) None db =
      (db', nat (rt_MaxAttempts cfg + 1 - 1), ws,
       TxReturned (Some (ErrWrap ''postgres: exceeded %d attempts: %w'' [int_dec (rt_MaxAttempts cfg)]
         (err (rt_MaxAttempts cfg)))))"
      "length ws = nat (rt_MaxAttempts cfg - 1)" "\<forall>w \<in> set ws. 2 \<le> w \<and> 2 * w < 3 * B"
  proof (atomize_elim, rule tx_loop_exhausts [where env = env and err = err])
    show "1 \<le> rt_MaxAttempts cfg" unfolding cfg_def by (rule effective_config_pos)
  qed (use assms(3-9) in \<open>simp_all add: B_def\<close>)
  then show ?thesis by (auto simp: withTransaction_def cfg_def Let_def)
qed

definition tx_fail_env :: "int \<Rightarrow> unit attempt_env" where
  "tx_fail_env k = \<lparr>ae_ctx = None,
     ae_tx = \<lparr>te_before = id, te_begin = None, te_fn = (\<lambda>d. (d, FnReturned (Some (ErrPg ''40P01'')))),
       te_commit = CommitOk\<rparr>,
     ae_draw = 0, ae_done = None\<rparr>"

theorem tx_retries_exhausted_witness:
  "\<exists>db' ws e. withTransaction [] False False tx_fail_env () = (db', 3, ws, TxReturned (Some e)) \<and>
     length ws = 2 \<and> errors_is e (ErrPg ''40P01'')"
proof -
  have c: "effective_config [] = defaultRetryConfig" by (simp add: effective_config_def defaultRetryConfig_def)
  have "\<exists>db' ws e. withTransaction [] False False tx_fail_env () =
      (db', nat (rt_MaxAttempts (effective_config [])), ws, TxReturned (Some e)) \<and>
    length ws = nat (rt_MaxAttempts (effective_config []) - 1) \<and>
    (\<forall>w \<in> set ws. 2 \<le> w \<and> 2 * w < 3 * max (rt_InitialBackoff (effective_config [])) (rt_MaxBackoff (effective_config []))) \<and>
    (\<forall>c. errors_is (ErrPg ''40P01'') c \<longrightarrow> errors_is e c)"
    by (rule tx_retries_exhausted [where err = "\<lambda>_. ErrPg ''40P01''"])
       (simp_all add: c defaultRetryConfig_def tx_fail_env_def runInTx_def isRetryable_def)
  then show ?thesis by (auto simp: c defaultRetryConfig_def)
qed

text \<open>A configured first delay of one nanosecond makes the first retry panic instead of
  waiting: half of it is zero, which \<open>rand.Int64N\<close> does not accept.\<close>

theorem tx_tiny_backoff_panics:
  assumes "rt_InitialBackoff (effective_config cfgs) = 1" and "2 \<le> rt_MaxAttempts (effective_config cfgs)"
    and "ae_ctx (env 1) = None" and "runInTx (ae_tx (env 1)) db = (db', TxReturned (Some e))"
    and "isRetryable (Some e) (rt_RetryOn (effective_config cfgs))"
  shows "withTransaction cfgs False options env db = (db', 1, [], TxPanicked ''invalid argument to Int64N'')"
  using assms by (simp add: withTransaction_def Let_def tx_loop.simps [of _ _ 1] Int64N_def)

theorem tx_tiny_backoff_panics_witness:
  "withTransaction [\<lparr>rt_MaxAttempts = 2, rt_RetryOn = [], rt_InitialBackoff = 1, rt_MaxBackoff = 0\<rparr>] False False
     tx_fail_env () = ((), 1, [], TxPanicked ''invalid argument to Int64N'')"
  by (rule tx_tiny_backoff_panics [where e = "ErrPg ''40P01''"])
     (simp_all add: effective_config_def Let_def tx_fail_env_def runInTx_def isRetryable_def)

text \<open>Inside an ambient transaction the callback runs once, in a savepoint: its failure or
  panic, or a failed release, leaves the outer transaction's state as it was and is reported
  without a retry; asking for transaction options is refused before the callback runs.\<close>

theorem savepoint_contract:
  assumes "withTransaction cfgs True options env db = (db', n, ws, res)"
    and "\<And>e. te_commit (ae_tx (env 1)) \<noteq> CommitReplyLost e"
  shows "(options \<longrightarrow> n = 0 \<and> db' = db \<and> (\<exists>e. res = TxReturned (Some e))) \<and>
    (\<not> options \<longrightarrow> n = 1 \<and> ws = [] \<and>
      (res = TxReturned None \<longrightarrow> te_fn (ae_tx (env 1)) db = (db', FnReturned None)) \<and>
      (res \<noteq> TxReturned None \<longrightarrow> db' = db) \<and>
      (\<forall>d e. te_begin (ae_tx (env 1)) = None \<and> te_fn (ae_tx (env 1)) db = (d, FnReturned (Some e)) \<longrightarrow>
         res = TxReturned (Some e)))"
  using assms
  by (auto simp: withTransaction_def withSavepoint_def Let_def
      split: if_splits option.splits fn_outcome.splits commit_outcome.splits prod.splits)

theorem savepoint_contract_witness:
  "fst (withTransaction [] True False tx_demo_env [7]) = [7]"
proof -
  obtain db' n ws res where r: "withTransaction [] True False tx_demo_env [7] = (db', n, ws, res)"
    by (cases "withTransaction [] True False tx_demo_env [7]")
  have "\<And>e. te_commit (ae_tx (tx_demo_env 1)) \<noteq> CommitReplyLost e" by (simp add: tx_demo_env_def)
  from savepoint_contract [OF r this] r show ?thesis by (auto simp: tx_demo_env_def)
qed

end
