(* ===== verification/Migrate.thy ===== *)
theory Migrate
  imports PostgresTx
begin

text \<open>
  Schema migrations (\<open>migrate/migrate.go\<close>): loading and validating the files of all sources,
  applying the pending ones in version order, each in its own transaction, and the status
  report. The hash (\<open>sha\<close>) and the effect of a migration's SQL on the application's schema
  (\<open>run_sql\<close>) are arguments; the answers of the database to every other statement are part
  of the environment.
\<close>

subsection \<open>Files and sources\<close>

text \<open>A directory entry: its name, whether it is a directory, and what reading it gives.\<close>

record fs_entry =
  fe_Name :: string
  fe_IsDir :: bool
  fe_body :: "goerr + string"

text \<open>A source: who owns it, its file system (nil or the answer of \<open>ReadDir\<close>) and directory.\<close>

record Source =
  src_Kind :: string
  src_FS :: "(string \<Rightarrow> goerr + fs_entry list) option"
  src_Dir :: string

record migration =
  mg_Version :: int
  mg_Name :: string
  mg_SQL :: string
  mg_Checksum :: string
  mg_Source :: string

abbreviation EngineSource :: string where "EngineSource \<equiv> ''engine''"
abbreviation AppSource :: string where "AppSource \<equiv> ''app''"

definition name_char :: "char \<Rightarrow> bool" where
  "name_char c \<longleftrightarrow> byte_in 0x61 0x7A c \<or> byte_in 0x41 0x5A c \<or> is_digit c \<or>
     c = CHR ''_'' \<or> c = CHR ''-''"

text \<open>The pattern \<open>^(\d+)_([a-zA-Z0-9_-]+)\.up\.sql$\<close>: its two groups.\<close>

definition migrationPattern :: "string \<Rightarrow> (string \<times> string) option" where
  "migrationPattern s =
     (let ds = takeWhile is_digit s in
      case dropWhile is_digit s of
        [] \<Rightarrow> None
      | c # r \<Rightarrow>
         let mid = take (length r - 7) r in
         if ds \<noteq> [] \<and> c = CHR ''_'' \<and> 7 \<le> length r \<and> drop (length r - 7) r = ''.up.sql'' \<and>
            mid \<noteq> [] \<and> list_all name_char mid
         then Some (ds, mid) else None)"

definition ParseInt32 :: "string \<Rightarrow> goerr + int" where
  "ParseInt32 ds =
     (if dec_val ds < 2 ^ 31 then Inr (int (dec_val ds))
      else Inl (ErrMsg ''strconv.ParseInt: parsing %q: value out of range'' [ds]))"

definition validateVersion :: "string \<Rightarrow> int \<Rightarrow> goerr option" where
  "validateVersion kind version =
     (if kind = EngineSource then
        if version < 1 \<or> version > 999
        then Some (ErrMsg ''engine migration version must be between %d and %d'' [''1'', ''999'']) else None
      else if kind = AppSource then
        if version < 1000
        then Some (ErrMsg ''application migration version must be >= %d'' [''1000'']) else None
      else Some (ErrMsg ''unknown source kind %q'' [kind]))"

subsection \<open>Loading\<close>

text \<open>The accumulators of \<open>loadSources\<close>: the migrations found and the file seen per version.\<close>

type_synonym load_state = "migration list \<times> (int \<rightharpoonup> string)"

definition load_entry ::
  "(string \<Rightarrow> string) \<Rightarrow> string \<Rightarrow> fs_entry \<Rightarrow> load_state \<Rightarrow> goerr + load_state" where
  "load_entry sha kind entry st =
     (let (all, seen) = st in
      if fe_IsDir entry then Inr st
      else (case migrationPattern (fe_Name entry) of
        None \<Rightarrow> Inr st
      | Some (ds, nm) \<Rightarrow>
         (case ParseInt32 ds of
            Inl e \<Rightarrow> Inl (ErrWrap ''migrate: invalid version in %s: %w'' [fe_Name entry] e)
          | Inr version \<Rightarrow>
             (case validateVersion kind version of
                Some e \<Rightarrow> Inl (ErrWrap ''migrate: %s: %w'' [fe_Name entry] e)
              | None \<Rightarrow>
                 (case seen version of
                    Some previous \<Rightarrow>
                      Inl (ErrMsg ''migrate: duplicate version %d in %s and %s''
                             [int_dec version, previous, fe_Name entry])
                  | None \<Rightarrow>
                     (case fe_body entry of
                        Inl e \<Rightarrow> Inl (ErrWrap ''migrate: read %s: %w'' [fe_Name entry] e)
                      | Inr body \<Rightarrow>
                         Inr (all @ [\<lparr>mg_Version = version, mg_Name = nm, mg_SQL = body,
                                     mg_Checksum = sha body, mg_Source = kind\<rparr>],
                              seen(version \<mapsto> fe_Name entry))))))))"

fun load_entries ::
  "(string \<Rightarrow> string) \<Rightarrow> string \<Rightarrow> fs_entry list \<Rightarrow> load_state \<Rightarrow> goerr + load_state" where
  "load_entries sha kind [] st = Inr st"
| "load_entries sha kind (e # es) st =
     (case load_entry sha kind e st of Inl err \<Rightarrow> Inl err | Inr st' \<Rightarrow> load_entries sha kind es st')"

definition source_dir :: "Source \<Rightarrow> string" where
  "source_dir s = (let dir = TrimSpace (src_Dir s) in if dir = [] then ''.'' else dir)"

fun load_each :: "(string \<Rightarrow> string) \<Rightarrow> Source list \<Rightarrow> load_state \<Rightarrow> goerr + load_state" where
  "load_each sha [] st = Inr st"
| "load_each sha (s # ss) st =
     (case src_FS s of
        None \<Rightarrow> load_each sha ss st
      | Some readDir \<Rightarrow>
         (case readDir (source_dir s) of
            Inl e \<Rightarrow> Inl (ErrWrap ''migrate: read %s source: %w'' [src_Kind s] e)
          | Inr entries \<Rightarrow>
             (case load_entries sha (src_Kind s) entries st of
                Inl e \<Rightarrow> Inl e
              | Inr st' \<Rightarrow> load_each sha ss st')))"

definition loadSources :: "(string \<Rightarrow> string) \<Rightarrow> Source list \<Rightarrow> goerr + migration list" where
  "loadSources sha sources =
     (case load_each sha sources ([], Map.empty) of
        Inl e \<Rightarrow> Inl e
      | Inr (all, seen) \<Rightarrow> Inr (sort_key mg_Version all))"

subsection \<open>Applying\<close>

record mig_row =
  mr_version :: int
  mr_source :: string
  mr_name :: string
  mr_checksum :: string
  mr_applied_at :: int

text \<open>The database: the metadata table, once it exists, and everything else.\<close>

record 's mig_db =
  md_meta :: "(mig_row list) option"
  md_schema :: 's

record item_env =
  ie_inspect :: "goerr option"     \<comment> \<open>an error of the lookup other than \<open>ErrNoRows\<close>\<close>
  ie_begin :: "goerr option"
  ie_record :: "goerr option"
  ie_commit :: commit_outcome
  ie_now :: int

definition meta_rows :: "'s mig_db \<Rightarrow> mig_row list" where
  "meta_rows db = (case md_meta db of None \<Rightarrow> [] | Some rows \<Rightarrow> rows)"

definition mig_row_of :: "migration \<Rightarrow> int \<Rightarrow> mig_row" where
  "mig_row_of m now = \<lparr>mr_version = mg_Version m, mr_source = mg_Source m, mr_name = mg_Name m,
     mr_checksum = mg_Checksum m, mr_applied_at = now\<rparr>"

definition applyOne ::
  "(string \<Rightarrow> 's \<Rightarrow> goerr + 's) \<Rightarrow> item_env \<Rightarrow> migration \<Rightarrow> 's mig_db \<Rightarrow> 's mig_db \<times> goerr option" where
  "applyOne run_sql env item db =
     (let v = int_dec (mg_Version item) in
      case ie_inspect env of
        Some e \<Rightarrow> (db, Some (ErrWrap ''migrate: inspect version %d: %w'' [v] e))
      | None \<Rightarrow>
         (case find_row mr_version (mg_Version item) (meta_rows db) of
            Some row \<Rightarrow>
              if mr_checksum row \<noteq> mg_Checksum item then
                (db, Some (ErrMsg ''migrate: version %d (%s) checksum changed: stored %s, current %s''
                             [v, mg_Name item, mr_checksum row, mg_Checksum item]))
              else (db, None)
          | None \<Rightarrow>
             (case ie_begin env of
                Some e \<Rightarrow> (db, Some (ErrWrap ''migrate: begin version %d: %w'' [v] e))
              | None \<Rightarrow>
                 (case run_sql (mg_SQL item) (md_schema db) of
                    Inl e \<Rightarrow> (db, Some (ErrWrap ''migrate: apply version %d (%s): %w'' [v, mg_Name item] e))
                  | Inr schema' \<Rightarrow>
                     (case ie_record env of
                        Some e \<Rightarrow> (db, Some (ErrWrap ''migrate: record version %d: %w'' [v] e))
                      | None \<Rightarrow>
                         (let db' = db\<lparr>md_meta := Some (meta_rows db @ [mig_row_of item (ie_now env)]),
                                      md_schema := schema'\<rparr> in
                          case ie_commit env of
                            CommitOk \<Rightarrow> (db', None)
                          | CommitFailed e \<Rightarrow>
                             (db, Some (ErrWrap ''migrate: commit version %d: %w'' [v] e))
                          | CommitReplyLost e \<Rightarrow>
                             (db', Some (ErrWrap ''migrate: commit version %d: %w'' [v] e))))))))"

fun apply_all ::
  "(string \<Rightarrow> 's \<Rightarrow> goerr + 's) \<Rightarrow> (int \<Rightarrow> item_env) \<Rightarrow> migration list \<Rightarrow> 's mig_db \<Rightarrow> 's mig_db \<times> goerr option" where
  "apply_all run_sql env [] db = (db, None)"
| "apply_all run_sql env (m # ms) db =
     (case applyOne run_sql (env (mg_Version m)) m db of
        (db', Some e) \<Rightarrow> (db', Some e)
      | (db', None) \<Rightarrow> apply_all run_sql env ms db')"

record mig_env =
  ge_acquire :: "goerr option"
  ge_lock :: "goerr option"
  ge_create :: "goerr option"
  ge_item :: "int \<Rightarrow> item_env"

definition migrate_Apply ::
  "(string \<Rightarrow> string) \<Rightarrow> (string \<Rightarrow> 's \<Rightarrow> goerr + 's) \<Rightarrow> mig_env \<Rightarrow> bool \<Rightarrow> Source list \<Rightarrow> 's mig_db
     \<Rightarrow> 's mig_db \<times> goerr option" where
  "migrate_Apply sha run_sql env pool sources db =
     (if \<not> pool then (db, Some (ErrMsg ''migrate: nil pool'' []))
      else (case ge_acquire env of
        Some e \<Rightarrow> (db, Some (ErrWrap ''migrate: acquire connection: %w'' [] e))
      | None \<Rightarrow>
         (case ge_lock env of
            Some e \<Rightarrow> (db, Some (ErrWrap ''migrate: acquire advisory lock: %w'' [] e))
          | None \<Rightarrow>
             (case ge_create env of
                Some e \<Rightarrow> (db, Some (ErrWrap ''migrate: create metadata table: %w'' [] e))
              | None \<Rightarrow>
                 (let db1 = db\<lparr>md_meta := Some (meta_rows db)\<rparr> in
                  case loadSources sha sources of
                    Inl e \<Rightarrow> (db1, Some e)
                  | Inr migrations \<Rightarrow> apply_all run_sql (ge_item env) migrations db1)))))"

subsection \<open>Status\<close>

record MigrationStatus =
  ms_Version :: int
  ms_Name :: string
  ms_Source :: string
  ms_Checksum :: string
  ms_AppliedAt :: "int option"
  ms_Drift :: bool

definition pendingStatus :: "migration list \<Rightarrow> MigrationStatus list" where
  "pendingStatus migrations =
     map (\<lambda>m. \<lparr>ms_Version = mg_Version m, ms_Name = mg_Name m, ms_Source = mg_Source m,
              ms_Checksum = mg_Checksum m, ms_AppliedAt = None, ms_Drift = False\<rparr>) migrations"

definition status_of :: "mig_row list \<Rightarrow> migration \<Rightarrow> MigrationStatus" where
  "status_of rows m =
     (let base = \<lparr>ms_Version = mg_Version m, ms_Name = mg_Name m, ms_Source = mg_Source m,
                  ms_Checksum = mg_Checksum m, ms_AppliedAt = None, ms_Drift = False\<rparr> in
      case find_row mr_version (mg_Version m) rows of
        None \<Rightarrow> base
      | Some a \<Rightarrow> base\<lparr>ms_AppliedAt := Some (mr_applied_at a),
                     ms_Drift := (mr_checksum a \<noteq> mg_Checksum m)\<rparr>)"

text \<open>\<open>query_err\<close> is an error of the query other than the missing table, which the server
  reports as SQLSTATE 42P01.\<close>

definition migrate_Status ::
  "(string \<Rightarrow> string) \<Rightarrow> bool \<Rightarrow> goerr option \<Rightarrow> Source list \<Rightarrow> 's mig_db \<Rightarrow> goerr + MigrationStatus list" where
  "migrate_Status sha pool query_err sources db =
     (if \<not> pool then Inl (ErrMsg ''migrate: nil pool'' [])
      else (case loadSources sha sources of
        Inl e \<Rightarrow> Inl e
      | Inr migrations \<Rightarrow>
         (let err = (case query_err of
                       Some e \<Rightarrow> Some e
                     | None \<Rightarrow> (case md_meta db of None \<Rightarrow> Some (ErrPg ''42P01'') | Some _ \<Rightarrow> None)) in
          case err of
            Some e \<Rightarrow>
              if errors_as_pg e = Some ''42P01'' then Inr (pendingStatus migrations)
              else Inl (ErrWrap ''migrate: query status: %w'' [] e)
          | None \<Rightarrow> Inr (map (status_of (meta_rows db)) migrations))))"

subsection \<open>What loading guarantees\<close>

text \<open>The migration a file stands for, when it is one.\<close>

definition file_migration :: "(string \<Rightarrow> string) \<Rightarrow> string \<Rightarrow> fs_entry \<Rightarrow> migration option" where
  "file_migration sha kind e =
     (if fe_IsDir e then None
      else (case migrationPattern (fe_Name e) of
        None \<Rightarrow> None
      | Some (ds, nm) \<Rightarrow>
         (case fe_body e of
            Inl _ \<Rightarrow> None
          | Inr body \<Rightarrow> Some \<lparr>mg_Version = int (dec_val ds), mg_Name = nm, mg_SQL = body,
                             mg_Checksum = sha body, mg_Source = kind\<rparr>)))"

definition load_inv :: "load_state \<Rightarrow> bool" where
  "load_inv st \<longleftrightarrow> distinct (map mg_Version (fst st)) \<and>
     (\<forall>v. snd st v \<noteq> None \<longleftrightarrow> v \<in> mg_Version ` set (fst st)) \<and>
     (\<forall>m \<in> set (fst st). validateVersion (mg_Source m) (mg_Version m) = None)"

definition entry_migrations :: "(string \<Rightarrow> string) \<Rightarrow> string \<Rightarrow> fs_entry list \<Rightarrow> migration list" where
  "entry_migrations sha kind es = List.map_filter (file_migration sha kind) es"

definition source_migrations :: "(string \<Rightarrow> string) \<Rightarrow> Source \<Rightarrow> migration list" where
  "source_migrations sha s =
     (case src_FS s of
        None \<Rightarrow> []
      | Some readDir \<Rightarrow>
         (case readDir (source_dir s) of Inl _ \<Rightarrow> [] | Inr es \<Rightarrow> entry_migrations sha (src_Kind s) es))"

lemma load_entry_Inr:
  assumes "load_entry sha kind e st = Inr st'" and "load_inv st"
  shows "load_inv st' \<and>
    fst st' = fst st @ (case file_migration sha kind e of None \<Rightarrow> [] | Some m \<Rightarrow> [m])"
proof (cases "fe_IsDir e \<or> migrationPattern (fe_Name e) = None")
  case True
  with assms show ?thesis by (cases st) (auto simp: load_entry_def file_migration_def)
next
  case False
  then obtain ds nm where p: "\<not> fe_IsDir e" "migrationPattern (fe_Name e) = Some (ds, nm)" by auto
  obtain all seen where st: "st = (all, seen)" by (cases st)
  obtain body where body: "fe_body e = Inr body" and v: "validateVersion kind (int (dec_val ds)) = None"
    and new: "seen (int (dec_val ds)) = None"
    and st': "st' = (all @ [\<lparr>mg_Version = int (dec_val ds), mg_Name = nm, mg_SQL = body,
        mg_Checksum = sha body, mg_Source = kind\<rparr>], seen(int (dec_val ds) \<mapsto> fe_Name e))"
    using assms(1) p unfolding st
    by (auto simp: load_entry_def ParseInt32_def split: if_splits option.splits sum.splits)
  have "int (dec_val ds) \<notin> mg_Version ` set all"
    using assms(2) new unfolding load_inv_def st by (metis fst_conv snd_conv)
  then show ?thesis
    using assms(2) p body v new unfolding st st' load_inv_def
    by (auto simp: file_migration_def)
qed

lemma load_entries_Inr:
  "load_entries sha kind es st = Inr st' \<Longrightarrow> load_inv st \<Longrightarrow>
     load_inv st' \<and> fst st' = fst st @ entry_migrations sha kind es"
proof (induction es arbitrary: st)
  case Nil
  then show ?case by (simp add: entry_migrations_def)
next
  case (Cons e es)
  then obtain st1 where st1: "load_entry sha kind e st = Inr st1" "load_entries sha kind es st1 = Inr st'"
    by (auto split: sum.splits)
  from load_entry_Inr [OF st1(1) Cons.prems(2)] Cons.IH [OF st1(2)] show ?case
    by (auto simp: entry_migrations_def List.map_filter_simps split: option.split)
qed

lemma load_each_Inr:
  "load_each sha ss st = Inr st' \<Longrightarrow> load_inv st \<Longrightarrow>
     load_inv st' \<and> fst st' = fst st @ concat (map (source_migrations sha) ss)"
proof (induction ss arbitrary: st)
  case (Cons s ss)
  show ?case
  proof (cases "src_FS s")
    case None
    with Cons show ?thesis by (simp add: source_migrations_def)
  next
    case (Some readDir)
    with Cons.prems(1) obtain es st1 where e: "readDir (source_dir s) = Inr es"
      "load_entries sha (src_Kind s) es st = Inr st1" "load_each sha ss st1 = Inr st'"
      by (auto split: sum.splits)
    from load_entries_Inr [OF e(2) Cons.prems(2)] Cons.IH [OF e(3)] e(1) Some show ?thesis
      by (simp add: source_migrations_def)
  qed
qed simp

lemma loadSources_Inr:
  assumes "loadSources sha sources = Inr ms"
  shows "sorted_wrt (<) (map mg_Version ms)"
    and "set ms = set (concat (map (source_migrations sha) sources))"
    and "\<forall>m \<in> set ms. validateVersion (mg_Source m) (mg_Version m) = None"
    and "distinct (map mg_Version (concat (map (source_migrations sha) sources)))"
proof -
  obtain st where st: "load_each sha sources ([], Map.empty) = Inr st" "ms = sort_key mg_Version (fst st)"
    using assms by (auto simp: loadSources_def split: sum.splits)
  have "load_inv ([], Map.empty)" by (simp add: load_inv_def)
  from load_each_Inr [OF st(1) this] have inv: "load_inv st"
    and all: "fst st = concat (map (source_migrations sha) sources)" by simp_all
  have "distinct (map mg_Version (fst st))" using inv by (simp add: load_inv_def)
  moreover from this have "distinct (map mg_Version ms)"
    unfolding st(2) by (simp add: distinct_map)
  moreover have "sorted (map mg_Version ms)" unfolding st(2) by simp
  ultimately show "sorted_wrt (<) (map mg_Version ms)"
    and "distinct (map mg_Version (concat (map (source_migrations sha) sources)))"
    by (simp_all add: strict_sorted_iff all)
  show "set ms = set (concat (map (source_migrations sha) sources))" unfolding st(2) using all by simp
  show "\<forall>m \<in> set ms. validateVersion (mg_Source m) (mg_Version m) = None"
    using inv unfolding st(2) load_inv_def by simp
qed

subsection \<open>What applying guarantees\<close>

definition pending :: "migration list \<Rightarrow> mig_row list \<Rightarrow> migration list" where
  "pending ms rows = filter (\<lambda>m. find_row mr_version (mg_Version m) rows = None) ms"

fun run_all :: "(string \<Rightarrow> 's \<Rightarrow> goerr + 's) \<Rightarrow> string list \<Rightarrow> 's \<Rightarrow> goerr + 's" where
  "run_all run_sql [] s = Inr s"
| "run_all run_sql (q # qs) s = (case run_sql q s of Inl e \<Rightarrow> Inl e | Inr s' \<Rightarrow> run_all run_sql qs s')"

definition recorded :: "migration \<Rightarrow> 's mig_db \<Rightarrow> bool" where
  "recorded m db \<longleftrightarrow> (\<exists>r. find_row mr_version (mg_Version m) (meta_rows db) = Some r \<and> mr_checksum r = mg_Checksum m)"

lemma applyOne_cases:
  assumes "\<And>e. ie_commit env \<noteq> CommitReplyLost e"
  obtains (present) "recorded m db" "applyOne run_sql env m db = (db, None)"
  | (applied) schema' where "find_row mr_version (mg_Version m) (meta_rows db) = None"
      "run_sql (mg_SQL m) (md_schema db) = Inr schema'"
      "applyOne run_sql env m db =
         (db\<lparr>md_meta := Some (meta_rows db @ [mig_row_of m (ie_now env)]), md_schema := schema'\<rparr>, None)"
  | (refused) e where "applyOne run_sql env m db = (db, Some e)"
proof (cases "snd (applyOne run_sql env m db)")
  case None
  then show thesis
    using assms present applied
    by (auto simp: applyOne_def recorded_def Let_def split: option.splits sum.splits if_splits commit_outcome.splits)
next
  case (Some e)
  have "fst (applyOne run_sql env m db) = db"
    using assms Some
    by (auto simp: applyOne_def Let_def split: option.splits sum.splits if_splits commit_outcome.splits)
  with Some show thesis by (intro refused [of e]) (simp add: prod_eq_iff)
qed

lemma meta_rows_upd [simp]:
  "meta_rows (db\<lparr>md_meta := Some rows, md_schema := s\<rparr>) = rows"
  "meta_rows (db\<lparr>md_meta := Some rows\<rparr>) = rows"
  by (simp_all add: meta_rows_def)

lemma apply_all_complete:
  assumes "\<And>v e. ie_commit (env v) \<noteq> CommitReplyLost e"
    and "apply_all run_sql env ms db = (db', None)" and "distinct (map mg_Version ms)"
  shows "meta_rows db' = meta_rows db @
      map (\<lambda>m. mig_row_of m (ie_now (env (mg_Version m)))) (pending ms (meta_rows db)) \<and>
    run_all run_sql (map mg_SQL (pending ms (meta_rows db))) (md_schema db) = Inr (md_schema db') \<and>
    (\<forall>m \<in> set ms. recorded m db')"
  using assms(2,3)
proof (induction ms arbitrary: db)
  case Nil
  then show ?case by (simp add: pending_def)
next
  case (Cons m ms)
  have d: "distinct (map mg_Version ms)" "mg_Version m \<notin> mg_Version ` set ms" using Cons.prems(2) by auto
  show ?case
  proof (rule applyOne_cases [where env = "env (mg_Version m)" and m = m and db = db and run_sql = run_sql, OF assms(1)],
      goal_cases)
    case 1
    with Cons.prems have "apply_all run_sql env ms db = (db', None)" by simp
    note IH = Cons.IH [OF this d(1)]
    obtain r where r: "find_row mr_version (mg_Version m) (meta_rows db) = Some r" "mr_checksum r = mg_Checksum m"
      using 1 by (auto simp: recorded_def)
    then have "find_row mr_version (mg_Version m) (meta_rows db') = Some r"
      using IH by simp
    with r IH show ?case by (auto simp: pending_def recorded_def)
  next
    case (2 schema')
    define row where "row = mig_row_of m (ie_now (env (mg_Version m)))"
    define db1 where "db1 = db\<lparr>md_meta := Some (meta_rows db @ [row]), md_schema := schema'\<rparr>"
    have rv: "mr_version row = mg_Version m" "mr_checksum row = mg_Checksum m"
      by (simp_all add: row_def mig_row_of_def)
    have "apply_all run_sql env ms db1 = (db', None)" using 2 Cons.prems by (simp add: db1_def row_def)
    note IH = Cons.IH [OF this d(1)]
    have m1: "meta_rows db1 = meta_rows db @ [row]" "md_schema db1 = schema'" by (simp_all add: db1_def)
    have pend: "pending (m # ms) (meta_rows db) = m # pending ms (meta_rows db1)"
      unfolding pending_def m1 using 2(1) d(2)
      by (auto simp: rv intro!: filter_cong split: option.split)
    have "find_row mr_version (mg_Version m) (meta_rows db') = Some row"
      using IH 2(1) by (simp add: m1 rv)
    with rv(2) have "recorded m db'" by (simp add: recorded_def)
    with IH 2(2) show ?case unfolding pend m1 by (simp add: row_def)
  next
    case (3 e)
    with Cons.prems show ?case by simp
  qed
qed

lemma apply_all_noop:
  assumes "\<forall>m \<in> set ms. recorded m db" and "\<And>v. ie_inspect (env v) = None"
  shows "apply_all run_sql env ms db = (db, None)"
  using assms(1)
proof (induction ms)
  case (Cons m ms)
  then obtain r where "find_row mr_version (mg_Version m) (meta_rows db) = Some r" "mr_checksum r = mg_Checksum m"
    by (auto simp: recorded_def)
  then have "applyOne run_sql (env (mg_Version m)) m db = (db, None)"
    using assms(2) by (simp add: applyOne_def)
  with Cons show ?case by simp
qed simp

lemma apply_all_drift:
  assumes "m \<in> set ms" and "find_row mr_version (mg_Version m) (meta_rows db) = Some r"
    and "mr_checksum r \<noteq> mg_Checksum m" and "distinct (map mg_Version ms)"
    and "\<And>v e. ie_commit (env v) \<noteq> CommitReplyLost e"
  shows "snd (apply_all run_sql env ms db) \<noteq> None"
proof
  assume "snd (apply_all run_sql env ms db) = None"
  then obtain db' where a: "apply_all run_sql env ms db = (db', None)"
    by (cases "apply_all run_sql env ms db") auto
  from apply_all_complete [OF assms(5) a assms(4)] assms(1)
  have rows: "meta_rows db' = meta_rows db @
      map (\<lambda>m. mig_row_of m (ie_now (env (mg_Version m)))) (pending ms (meta_rows db))" and "recorded m db'"
    by blast+
  moreover from rows have "find_row mr_version (mg_Version m) (meta_rows db') = Some r"
    using assms(2) by simp
  ultimately show False using assms(3) by (auto simp: recorded_def)
qed

subsection \<open>Properties\<close>

definition mig_demo_fs :: "fs_entry list" where
  "mig_demo_fs =
     [\<lparr>fe_Name = ''1001_b.up.sql'', fe_IsDir = False, fe_body = Inr ''B''\<rparr>,
      \<lparr>fe_Name = ''readme.md'', fe_IsDir = False, fe_body = Inr ''x''\<rparr>,
      \<lparr>fe_Name = ''1000_a.up.sql'', fe_IsDir = False, fe_body = Inr ''A''\<rparr>]"

definition mig_demo_sources :: "Source list" where
  "mig_demo_sources = [\<lparr>src_Kind = AppSource, src_FS = Some (\<lambda>_. Inr mig_demo_fs), src_Dir = []\<rparr>]"

definition mig_demo_ms :: "migration list" where
  "mig_demo_ms =
     [\<lparr>mg_Version = 1000, mg_Name = ''a'', mg_SQL = ''A'', mg_Checksum = ''#A'', mg_Source = AppSource\<rparr>,
      \<lparr>mg_Version = 1001, mg_Name = ''b'', mg_SQL = ''B'', mg_Checksum = ''#B'', mg_Source = AppSource\<rparr>]"

definition mig_demo_item :: item_env where
  "mig_demo_item = \<lparr>ie_inspect = None, ie_begin = None, ie_record = None, ie_commit = CommitOk, ie_now = 0\<rparr>"

definition mig_demo_env :: mig_env where
  "mig_demo_env = \<lparr>ge_acquire = None, ge_lock = None, ge_create = None, ge_item = (\<lambda>_. mig_demo_item)\<rparr>"

text \<open>A schema that is the list of the scripts run, one of which may be broken.\<close>

definition mig_demo_sql :: "string \<Rightarrow> string list \<Rightarrow> goerr + string list" where
  "mig_demo_sql q s = (if q = ''bad'' then Inl (ErrPg ''42601'') else Inr (s @ [q]))"

lemma mig_demo_load: "loadSources (\<lambda>b. CHR ''#'' # b) mig_demo_sources = Inr mig_demo_ms"
proof -
  have p: "migrationPattern ''1001_b.up.sql'' = Some (''1001'', ''b'')"
    "migrationPattern ''1000_a.up.sql'' = Some (''1000'', ''a'')" "migrationPattern ''readme.md'' = None"
    by (simp_all add: migrationPattern_def is_digit_def name_char_def byte_in_def)
  have v: "dec_val ''1001'' = 1001" "dec_val ''1000'' = 1000" by (simp_all add: dec_val_def digit_val_def)
  show ?thesis
    by (simp add: loadSources_def mig_demo_sources_def mig_demo_fs_def load_entry_def p v ParseInt32_def
        validateVersion_def mig_demo_ms_def)
qed

text \<open>When loading succeeds, the migrations are in strictly increasing version order, every one
  has a version of its owner's range (1 to 999 for the engine, from 1000 for applications),
  and they are exactly the migration files of all sources, with the hash of each file's
  content as checksum; so no two files share a version.\<close>

theorem load_sources_spec:
  assumes "loadSources sha sources = Inr ms"
  shows "sorted_wrt (<) (map mg_Version ms) \<and>
    set ms = set (concat (map (source_migrations sha) sources)) \<and>
    distinct (map mg_Version (concat (map (source_migrations sha) sources))) \<and>
    (\<forall>m \<in> set ms. mg_Checksum m = sha (mg_SQL m) \<and>
       (mg_Source m = EngineSource \<and> 1 \<le> mg_Version m \<and> mg_Version m \<le> 999 \<or>
        mg_Source m = AppSource \<and> 1000 \<le> mg_Version m))"
proof -
  note l = loadSources_Inr [OF assms]
  have "mg_Checksum m = sha (mg_SQL m)" if "m \<in> set ms" for m
    using that unfolding l(2)
    by (auto simp: source_migrations_def entry_migrations_def List.map_filter_def file_migration_def
        split: option.splits sum.splits if_splits)
  moreover have "validateVersion k v = None \<Longrightarrow>
      k = EngineSource \<and> 1 \<le> v \<and> v \<le> 999 \<or> k = AppSource \<and> 1000 \<le> v" for k v
    by (auto simp: validateVersion_def split: if_splits)
  ultimately show ?thesis using l by blast
qed

theorem load_sources_spec_witness:
  "sorted_wrt (<) (map mg_Version mig_demo_ms) \<and>
   mg_Checksum (hd mig_demo_ms) = CHR ''#'' # mg_SQL (hd mig_demo_ms) \<and> 1000 \<le> mg_Version (hd mig_demo_ms)"
proof -
  have "hd mig_demo_ms \<in> set mig_demo_ms" "mg_Source (hd mig_demo_ms) \<noteq> EngineSource"
    by (simp_all add: mig_demo_ms_def)
  with load_sources_spec [OF mig_demo_load] show ?thesis by blast
qed

lemma apply_all_meta:
  assumes "\<And>v e. ie_commit (env v) \<noteq> CommitReplyLost e" and "md_meta db \<noteq> None"
    and "apply_all run_sql env ms db = (db', None)"
  shows "md_meta db' \<noteq> None"
  using assms(2,3)
proof (induction ms arbitrary: db)
  case (Cons m ms)
  show ?case
  proof (rule applyOne_cases [where env = "env (mg_Version m)" and m = m and db = db and run_sql = run_sql, OF assms(1)],
      goal_cases)
    case 1
    then show ?case using Cons by simp
  next
    case (2 schema')
    then show ?case
      using Cons.IH [of "db\<lparr>md_meta := Some (meta_rows db @ [mig_row_of m (ie_now (env (mg_Version m)))]),
          md_schema := schema'\<rparr>"] Cons.prems by simp
  next
    case (3 e)
    then show ?case using Cons.prems by simp
  qed
qed simp

text \<open>C6: \<open>Apply\<close> that returns nil has run exactly the scripts of the migration files of all
  sources that were not recorded, in strictly increasing version order, has recorded each of them, and leaves every migration
  recorded under its current checksum; running it again changes nothing.\<close>

theorem migrate_apply_spec:
  assumes "\<And>v e. ie_commit (ge_item env v) \<noteq> CommitReplyLost e"
    and "migrate_Apply sha run_sql env pool sources db = (db', None)"
  shows "\<exists>ms. loadSources sha sources = Inr ms \<and>
    sorted_wrt (<) (map mg_Version ms) \<and> set ms = set (concat (map (source_migrations sha) sources)) \<and>
    meta_rows db' = meta_rows db @
      map (\<lambda>m. mig_row_of m (ie_now (ge_item env (mg_Version m)))) (pending ms (meta_rows db)) \<and>
    run_all run_sql (map mg_SQL (pending ms (meta_rows db))) (md_schema db) = Inr (md_schema db') \<and>
    (\<forall>m \<in> set ms. recorded m db') \<and>
    (\<forall>env2. ge_acquire env2 = None \<and> ge_lock env2 = None \<and> ge_create env2 = None \<and>
        (\<forall>v. ie_inspect (ge_item env2 v) = None) \<longrightarrow>
        migrate_Apply sha run_sql env2 True sources db' = (db', None))"
proof -
  obtain ms where ms: "loadSources sha sources = Inr ms"
    and run: "apply_all run_sql (ge_item env) ms (db\<lparr>md_meta := Some (meta_rows db)\<rparr>) = (db', None)"
    using assms(2) by (auto simp: migrate_Apply_def Let_def split: if_splits option.splits sum.splits)
  have d: "distinct (map mg_Version ms)"
    using loadSources_Inr(1) [OF ms] by (simp add: strict_sorted_iff)
  note c = apply_all_complete [OF assms(1) run d, simplified]
  have "md_meta db' \<noteq> None" by (rule apply_all_meta [OF assms(1) _ run]) simp
  then have same: "db'\<lparr>md_meta := Some (meta_rows db')\<rparr> = db'" by (auto simp: meta_rows_def)
  have "migrate_Apply sha run_sql env2 True sources db' = (db', None)"
    if "ge_acquire env2 = None \<and> ge_lock env2 = None \<and> ge_create env2 = None \<and>
        (\<forall>v. ie_inspect (ge_item env2 v) = None)" for env2
    using that apply_all_noop [OF conjunct2 [OF conjunct2 [OF c]], of "ge_item env2" run_sql] ms
    by (simp add: migrate_Apply_def same)
  with ms c loadSources_Inr(1,2) [OF ms] show ?thesis by auto
qed

theorem migrate_apply_spec_witness:
  "md_schema (fst (migrate_Apply (\<lambda>b. CHR ''#'' # b) mig_demo_sql mig_demo_env True mig_demo_sources
     \<lparr>md_meta = None, md_schema = []\<rparr>)) = [''A'', ''B'']"
proof -
  let ?a = "migrate_Apply (\<lambda>b. CHR ''#'' # b) mig_demo_sql mig_demo_env True mig_demo_sources
     \<lparr>md_meta = None, md_schema = []\<rparr>"
  have n: "\<And>v e. ie_commit (ge_item mig_demo_env v) \<noteq> CommitReplyLost e"
    by (simp add: mig_demo_env_def mig_demo_item_def)
  obtain db' where a: "?a = (db', None)"
    by (simp add: migrate_Apply_def mig_demo_env_def mig_demo_load mig_demo_ms_def applyOne_def mig_demo_item_def
        mig_demo_sql_def meta_rows_def mig_row_of_def)
  from migrate_apply_spec [OF n a] show ?thesis
    using a by (auto simp: mig_demo_load mig_demo_ms_def pending_def meta_rows_def mig_demo_sql_def)
qed

text \<open>C7: \<open>Apply\<close> that returns an error has stopped at a whole number of migrations: the database is
  the one a successful run over the first few migrations, in version order, leaves; nothing
  of the migration that failed remains.\<close>

theorem migrate_failure_prefix:
  assumes "\<And>v e. ie_commit (env v) \<noteq> CommitReplyLost e"
    and "apply_all run_sql env ms db = (db', Some err)"
  shows "\<exists>k < length ms. apply_all run_sql env (take k ms) db = (db', None)"
  using assms(2)
proof (induction ms arbitrary: db)
  case (Cons m ms)
  show ?case
  proof (rule applyOne_cases [where env = "env (mg_Version m)" and m = m and db = db and run_sql = run_sql, OF assms(1)],
      goal_cases)
    case 1
    with Cons obtain k where "k < length ms" "apply_all run_sql env (take k ms) db = (db', None)" by auto
    with 1 show ?case by (intro exI [of _ "Suc k"]) simp
  next
    case (2 schema')
    with Cons obtain k where "k < length ms" "apply_all run_sql env (take k ms)
      (db\<lparr>md_meta := Some (meta_rows db @ [mig_row_of m (ie_now (env (mg_Version m)))]), md_schema := schema'\<rparr>) = (db', None)"
      by auto
    with 2 show ?case by (intro exI [of _ "Suc k"]) simp
  next
    case (3 e)
    with Cons.prems show ?case by (intro exI [of _ 0]) simp
  qed
qed simp

theorem migrate_failure_prefix_witness:
  "\<exists>k < 2. apply_all mig_demo_sql (\<lambda>_. mig_demo_item)
     (take k [mig_demo_ms ! 0, (mig_demo_ms ! 1)\<lparr>mg_SQL := ''bad''\<rparr>]) \<lparr>md_meta = Some [], md_schema = []\<rparr>
     = (\<lparr>md_meta = Some [mig_row_of (mig_demo_ms ! 0) 0], md_schema = [''A'']\<rparr>, None)"
proof -
  let ?ms = "[mig_demo_ms ! 0, (mig_demo_ms ! 1)\<lparr>mg_SQL := ''bad''\<rparr>]"
  have n: "\<And>v e. ie_commit ((\<lambda>_. mig_demo_item) v) \<noteq> CommitReplyLost e" by (simp add: mig_demo_item_def)
  obtain e where "apply_all mig_demo_sql (\<lambda>_. mig_demo_item) ?ms \<lparr>md_meta = Some [], md_schema = []\<rparr> =
      (\<lparr>md_meta = Some [mig_row_of (mig_demo_ms ! 0) 0], md_schema = [''A'']\<rparr>, Some e)"
    by (simp add: applyOne_def mig_demo_item_def mig_demo_sql_def mig_demo_ms_def meta_rows_def mig_row_of_def)
  from migrate_failure_prefix [OF n this] show ?thesis by (simp add: numeral_2_eq_2)
qed

text \<open>\<open>Status\<close> predicts \<open>Apply\<close>: when it reports a drifted checksum, \<open>Apply\<close> fails; when it reports
  every migration as applied and none as drifted, \<open>Apply\<close> returns nil and changes nothing.\<close>

theorem migrate_status_predicts:
  assumes "migrate_Status sha True None sources db = Inr sts" and "md_meta db \<noteq> None"
    and "ge_acquire env = None" and "ge_lock env = None" and "ge_create env = None"
    and "\<And>v. ie_inspect (ge_item env v) = None"
    and "\<And>v e. ie_commit (ge_item env v) \<noteq> CommitReplyLost e"
  shows "((\<exists>s \<in> set sts. ms_Drift s) \<longrightarrow> snd (migrate_Apply sha run_sql env True sources db) \<noteq> None) \<and>
    ((\<forall>s \<in> set sts. ms_AppliedAt s \<noteq> None \<and> \<not> ms_Drift s) \<longrightarrow>
       migrate_Apply sha run_sql env True sources db = (db, None))"
proof -
  obtain ms where ms: "loadSources sha sources = Inr ms" and sts: "sts = map (status_of (meta_rows db)) ms"
    using assms(1,2) by (auto simp: migrate_Status_def Let_def split: sum.splits option.splits if_splits)
  have same: "db\<lparr>md_meta := Some (meta_rows db)\<rparr> = db" using assms(2) by (auto simp: meta_rows_def)
  have ap: "migrate_Apply sha run_sql env True sources db = apply_all run_sql (ge_item env) ms db"
    using assms(3-5) ms by (simp add: migrate_Apply_def same)
  have d: "distinct (map mg_Version ms)"
    using loadSources_Inr(1) [OF ms] by (simp add: strict_sorted_iff)
  have "snd (apply_all run_sql (ge_item env) ms db) \<noteq> None" if dr: "m \<in> set ms" "ms_Drift (status_of (meta_rows db) m)" for m
  proof -
    obtain r where "find_row mr_version (mg_Version m) (meta_rows db) = Some r" "mr_checksum r \<noteq> mg_Checksum m"
      using dr(2) by (auto simp: status_of_def Let_def split: option.splits)
    from apply_all_drift [OF dr(1) this d assms(7)] show ?thesis .
  qed
  moreover have "recorded m db"
    if "ms_AppliedAt (status_of (meta_rows db) m) \<noteq> None" "\<not> ms_Drift (status_of (meta_rows db) m)" for m
    using that by (auto simp: status_of_def recorded_def Let_def split: option.splits)
  ultimately show ?thesis
    unfolding ap sts using apply_all_noop [of ms db "ge_item env" run_sql] assms(6) by auto
qed

theorem migrate_status_predicts_witness:
  "snd (migrate_Apply (\<lambda>b. CHR ''#'' # b) mig_demo_sql mig_demo_env True mig_demo_sources
     \<lparr>md_meta = Some [mig_row_of ((mig_demo_ms ! 0)\<lparr>mg_Checksum := ''old''\<rparr>) 0], md_schema = []\<rparr>) \<noteq> None"
proof -
  let ?db = "\<lparr>md_meta = Some [mig_row_of ((mig_demo_ms ! 0)\<lparr>mg_Checksum := ''old''\<rparr>) 0], md_schema = [] :: string list\<rparr>"
  obtain sts where s: "migrate_Status (\<lambda>b. CHR ''#'' # b) True None mig_demo_sources ?db = Inr sts"
    "\<exists>s \<in> set sts. ms_Drift s"
    by (simp add: migrate_Status_def mig_demo_load mig_demo_ms_def status_of_def meta_rows_def mig_row_of_def)
  have m: "md_meta ?db \<noteq> None" by simp
  show ?thesis
    using migrate_status_predicts [OF s(1) m, of mig_demo_env mig_demo_sql] s(2)
    by (auto simp: mig_demo_env_def mig_demo_item_def)
qed

end
