(* ===== verification/Netip.thy ===== *)
theory Netip
  imports GoStrings
begin

text \<open>
  The part of the standard library's \<open>net/netip\<close> that \<open>httpx/clientip\<close> uses: addresses,
  prefixes, their parsers and the text of an address. An address is a 32-bit word or a
  128-bit word with a zone.
\<close>

unbundle bit_operations_syntax

datatype addr = V4 "32 word" | V6 "128 word" string

datatype addr_prefix = Pfx addr nat

definition addr_Is4 :: "addr \<Rightarrow> bool" where
  "addr_Is4 a = (case a of V4 _ \<Rightarrow> True | V6 _ _ \<Rightarrow> False)"

definition addr_Is6 :: "addr \<Rightarrow> bool" where
  "addr_Is6 a = (case a of V4 _ \<Rightarrow> False | V6 _ _ \<Rightarrow> True)"

definition addr_Zone :: "addr \<Rightarrow> string" where
  "addr_Zone a = (case a of V4 _ \<Rightarrow> [] | V6 _ z \<Rightarrow> z)"

definition addr_IsUnspecified :: "addr \<Rightarrow> bool" where
  "addr_IsUnspecified a \<longleftrightarrow> a = V4 0 \<or> a = V6 0 []"

definition addr_Is4In6 :: "addr \<Rightarrow> bool" where
  "addr_Is4In6 a = (case a of V4 _ \<Rightarrow> False | V6 w _ \<Rightarrow> drop_bit 32 w = 0xFFFF)"

definition addr_Unmap :: "addr \<Rightarrow> addr" where
  "addr_Unmap a =
     (case a of
        V4 w \<Rightarrow> V4 w
      | V6 w z \<Rightarrow> if addr_Is4In6 a then V4 (ucast w) else V6 w z)"

subsection \<open>Parsing addresses\<close>

definition parse_octet :: "string \<Rightarrow> nat option" where
  "parse_octet s =
     (if s \<noteq> [] \<and> list_all is_digit s \<and> (length s = 1 \<or> hd s \<noteq> CHR ''0'') \<and> dec_val s \<le> 255
      then Some (dec_val s) else None)"

text \<open>Four dotted octets.\<close>

definition parse_v4_fields :: "string \<Rightarrow> (nat \<times> nat \<times> nat \<times> nat) option" where
  "parse_v4_fields s =
     (case map parse_octet (split_on CHR ''.'' s) of
        [Some a, Some b, Some c, Some d] \<Rightarrow> Some (a, b, c, d)
      | _ \<Rightarrow> None)"

definition v4_of :: "nat \<times> nat \<times> nat \<times> nat \<Rightarrow> 32 word" where
  "v4_of = (\<lambda>(a, b, c, d). of_nat (((a * 256 + b) * 256 + c) * 256 + d))"

definition parse_v4 :: "string \<Rightarrow> addr option" where
  "parse_v4 s = map_option (\<lambda>q. V4 (v4_of q)) (parse_v4_fields s)"

definition hex_digit :: "char \<Rightarrow> nat option" where
  "hex_digit c =
     (let b = of_char c :: nat in
      if 48 \<le> b \<and> b \<le> 57 then Some (b - 48)
      else if 97 \<le> b \<and> b \<le> 102 then Some (b - 97 + 10)
      else if 65 \<le> b \<and> b \<le> 70 then Some (b - 65 + 10)
      else None)"

definition is_hex :: "char \<Rightarrow> bool" where
  "is_hex c \<longleftrightarrow> hex_digit c \<noteq> None"

definition hex_num :: "string \<Rightarrow> nat" where
  "hex_num s = foldl (\<lambda>n c. n * 16 + the (hex_digit c)) 0 s"

text \<open>The loop over colon-separated groups: the groups read, the position of an ellipsis and
  what is left of the text.\<close>

function v6_loop :: "nat list \<Rightarrow> nat option \<Rightarrow> string \<Rightarrow> (nat list \<times> nat option \<times> string) option" where
  "v6_loop gs ell s =
     (if 8 \<le> length gs then Some (gs, ell, s)
      else
        let ds = takeWhile is_hex s; gs' = gs @ [hex_num ds] in
        if ds = [] \<or> 4 < length ds then None
        else (case dropWhile is_hex s of
          [] \<Rightarrow> Some (gs', ell, [])
        | c # r \<Rightarrow>
           if c = CHR ''.'' then
             (if ell = None \<and> length gs \<noteq> 6 then None
              else if 6 < length gs then None
              else (case parse_v4_fields s of
                      None \<Rightarrow> None
                    | Some (a, b, c, d) \<Rightarrow> Some (gs @ [a * 256 + b, c * 256 + d], ell, [])))
           else if c \<noteq> CHR '':'' \<or> r = [] then None
           else if hd r = CHR '':'' then
             (if ell \<noteq> None then None
              else if tl r = [] then Some (gs', Some (length gs'), [])
              else v6_loop gs' (Some (length gs')) (tl r))
           else v6_loop gs' ell r))"
  by pat_completeness auto
termination
proof (relation "measure (\<lambda>(gs, ell, s). length s)", goal_cases)
  case (2 gs ell s ds gs' c r)
  have "length (c # r) \<le> length s" unfolding 2(5) [symmetric] by (rule length_dropWhile_le)
  then show ?case by simp
next
  case (3 gs ell s ds gs' c r)
  have "length (c # r) \<le> length s" unfolding 3(5) [symmetric] by (rule length_dropWhile_le)
  then show ?case by simp
qed simp

declare v6_loop.simps [simp del]

definition v6_of :: "nat list \<Rightarrow> 128 word" where
  "v6_of gs = of_nat (foldl (\<lambda>n g. n * 65536 + g) 0 gs)"

definition v6_expand :: "nat list \<times> nat option \<times> string \<Rightarrow> (nat list) option" where
  "v6_expand = (\<lambda>(gs, ell, s).
     if s \<noteq> [] then None
     else if length gs < 8 then
       (case ell of None \<Rightarrow> None
        | Some k \<Rightarrow> Some (take k gs @ replicate (8 - length gs) 0 @ drop k gs))
     else if ell \<noteq> None then None else Some gs)"

definition parse_v6_groups :: "string \<Rightarrow> (nat list) option" where
  "parse_v6_groups s =
     (if prefix ''::'' s then
        if drop 2 s = [] then Some (replicate 8 0)
        else Option.bind (v6_loop [] (Some 0) (drop 2 s)) v6_expand
      else Option.bind (v6_loop [] None s) v6_expand)"

definition parse_v6 :: "string \<Rightarrow> addr option" where
  "parse_v6 s =
     (case cut_at CHR ''%'' s of
        None \<Rightarrow> map_option (\<lambda>gs. V6 (v6_of gs) []) (parse_v6_groups s)
      | Some (s', zone) \<Rightarrow>
         if zone = [] then None else map_option (\<lambda>gs. V6 (v6_of gs) zone) (parse_v6_groups s'))"

definition ParseAddr :: "string \<Rightarrow> addr option" where
  "ParseAddr s =
     (case find (\<lambda>c. c = CHR ''.'' \<or> c = CHR '':'' \<or> c = CHR ''%'') s of
        None \<Rightarrow> None
      | Some c \<Rightarrow>
         if c = CHR ''.'' then parse_v4 s else if c = CHR '':'' then parse_v6 s else None)"

subsection \<open>Address with port, prefixes\<close>

definition parse_port :: "string \<Rightarrow> nat option" where
  "parse_port s = (if s \<noteq> [] \<and> list_all is_digit s \<and> dec_val s < 65536 then Some (dec_val s) else None)"

definition ParseAddrPort :: "string \<Rightarrow> (addr \<times> nat) option" where
  "ParseAddrPort s =
     (case cut_last CHR '':'' s of
        None \<Rightarrow> None
      | Some (ip, port) \<Rightarrow>
         if ip = [] \<or> port = [] then None
         else
           let v6 = (hd ip = CHR ''['') in
           if v6 \<and> (length ip < 2 \<or> last ip \<noteq> CHR '']'') then None
           else
             let ip' = (if v6 then butlast (tl ip) else ip) in
             (case (parse_port port, ParseAddr ip') of
                (Some p, Some a) \<Rightarrow> if v6 = addr_Is6 a then Some (a, p) else None
              | _ \<Rightarrow> None))"

definition ParsePrefix :: "string \<Rightarrow> addr_prefix option" where
  "ParsePrefix s =
     (case cut_last CHR ''/'' s of
        None \<Rightarrow> None
      | Some (ip, bits) \<Rightarrow>
         (case ParseAddr ip of
            None \<Rightarrow> None
          | Some a \<Rightarrow>
             if addr_Zone a \<noteq> [] then None
             else if bits = [] \<or> \<not> list_all is_digit bits \<or> (1 < length bits \<and> hd bits = CHR ''0'') then None
             else if dec_val bits > (if addr_Is6 a then 128 else 32) then None
             else Some (Pfx a (dec_val bits))))"

definition prefix_Masked :: "addr_prefix \<Rightarrow> addr_prefix" where
  "prefix_Masked p =
     (case p of
        Pfx (V4 w) n \<Rightarrow> Pfx (V4 (push_bit (32 - n) (drop_bit (32 - n) w))) n
      | Pfx (V6 w z) n \<Rightarrow> Pfx (V6 (push_bit (128 - n) (drop_bit (128 - n) w)) z) n)"

text \<open>A prefix contains the addresses of its family without a zone whose first bits are its
  own.\<close>

definition prefix_Contains :: "addr_prefix \<Rightarrow> addr \<Rightarrow> bool" where
  "prefix_Contains p a =
     (case (p, a) of
        (Pfx (V4 w) n, V4 x) \<Rightarrow> drop_bit (32 - n) (w XOR x) = 0
      | (Pfx (V6 w z) n, V6 x y) \<Rightarrow> y = [] \<and> drop_bit (128 - n) (w XOR x) = 0
      | _ \<Rightarrow> False)"

subsection \<open>Text of an address\<close>

definition octets4 :: "32 word \<Rightarrow> nat list" where
  "octets4 w = map (\<lambda>k. unat (drop_bit k w) mod 256) [24, 16, 8, 0]"

definition string4 :: "32 word \<Rightarrow> string" where
  "string4 w = join_with CHR ''.'' (map nat_dec (octets4 w))"

definition groups6 :: "128 word \<Rightarrow> nat list" where
  "groups6 w = map (\<lambda>k. unat (drop_bit k w) mod 65536) [112, 96, 80, 64, 48, 32, 16, 0]"

definition hex_char :: "nat \<Rightarrow> char" where
  "hex_char n = (if n < 10 then char_of (48 + n) else char_of (87 + n))"

fun nat_hex :: "nat \<Rightarrow> string" where
  "nat_hex n = (if n < 16 then [hex_char n] else nat_hex (n div 16) @ [hex_char (n mod 16)])"

declare nat_hex.simps [simp del]

definition zero_run :: "nat list \<Rightarrow> nat \<Rightarrow> nat" where
  "zero_run gs i = length (takeWhile (\<lambda>g. g = 0) (drop i gs))"

text \<open>The first of the longest runs of at least two zero groups.\<close>

definition best_run :: "nat list \<Rightarrow> (nat \<times> nat) option" where
  "best_run gs =
     foldl (\<lambda>best i.
        let l = zero_run gs i in
        if 2 \<le> l \<and> (case best of None \<Rightarrow> True | Some (s, m) \<Rightarrow> m < l) then Some (i, l) else best)
       None [0..<8]"

definition string6 :: "128 word \<Rightarrow> string" where
  "string6 w =
     (let gs = groups6 w in
      case best_run gs of
        None \<Rightarrow> join_with CHR '':'' (map nat_hex gs)
      | Some (s, l) \<Rightarrow>
         join_with CHR '':'' (map nat_hex (take s gs)) @ ''::'' @
         join_with CHR '':'' (map nat_hex (drop (s + l) gs)))"

definition addr_String :: "addr \<Rightarrow> string" where
  "addr_String a =
     (case a of
        V4 w \<Rightarrow> string4 w
      | V6 w z \<Rightarrow>
         (if addr_Is4In6 a then ''::ffff:'' @ string4 (ucast w) else string6 w) @
         (if z = [] then [] else CHR ''%'' # z))"

subsection \<open>Facts\<close>

lemma xor_cancel: "a XOR b = 0 \<Longrightarrow> b = (a :: 'a::len word)"
proof -
  assume "a XOR b = 0"
  then have "a XOR (a XOR b) = a" by simp
  then show "b = a" by (simp add: xor.assoc [symmetric])
qed

lemma Unmap_not_4in6: "\<not> addr_Is4In6 (addr_Unmap a)"
  by (auto simp: addr_Unmap_def addr_Is4In6_def split: addr.split)

lemma Unmap_idem [simp]: "addr_Unmap (addr_Unmap a) = addr_Unmap a"
  by (auto simp: addr_Unmap_def addr_Is4In6_def split: addr.split)

text \<open>Printing an IPv4 address and reading it back.\<close>

lemma nat_dec_hd: "0 < n \<Longrightarrow> hd (nat_dec n) \<noteq> CHR ''0''"
proof (induction n rule: nat_dec.induct)
  case (1 n)
  show ?case
  proof (cases "n < 10")
    case True
    have "char_of (48 + n) \<noteq> CHR ''0''"
    proof
      assume "char_of (48 + n) = CHR ''0''"
      then have "of_char (char_of (48 + n) :: char) = (of_char CHR ''0'' :: nat)" by simp
      with 1 True show False by simp
    qed
    with True show ?thesis by (simp add: nat_dec.simps [of n])
  next
    case False
    then have "hd (nat_dec (n div 10)) \<noteq> CHR ''0''" using 1 by simp
    moreover have "nat_dec (n div 10) \<noteq> []" using nat_dec_val by blast
    ultimately show ?thesis using False by (simp add: nat_dec.simps [of n])
  qed
qed

lemma parse_octet_nat_dec: "n \<le> 255 \<Longrightarrow> parse_octet (nat_dec n) = Some n"
proof -
  assume n: "n \<le> 255"
  have "length (nat_dec n) = 1 \<or> hd (nat_dec n) \<noteq> CHR ''0''"
    using nat_dec_hd [of n] by (cases "n = 0") (auto simp: nat_dec.simps [of 0])
  with n nat_dec_val [of n] show ?thesis by (auto simp: parse_octet_def list_all_iff)
qed

lemma nat_dec_no_dot: "CHR ''.'' \<notin> set (nat_dec n)" "CHR '':'' \<notin> set (nat_dec n)" "CHR ''%'' \<notin> set (nat_dec n)"
  using nat_dec_val [of n] by (auto simp: is_digit_def)

lemma octets_value:
  assumes "n < 2 ^ 32"
  shows "((n div 2 ^ 24 mod 256 * 256 + n div 2 ^ 16 mod 256) * 256 + n div 2 ^ 8 mod 256) * 256 + n mod 256 = (n::nat)"
proof -
  have "n div 2 ^ 24 mod 256 = n div 2 ^ 24" using assms by (simp add: less_mult_imp_div_less)
  moreover have "n div 2 ^ 24 * 256 + n div 2 ^ 16 mod 256 = n div 2 ^ 16"
    using div_mult_mod_eq [of "n div 2 ^ 16" 256] by (simp add: div_mult2_eq [symmetric])
  moreover have "n div 2 ^ 16 * 256 + n div 2 ^ 8 mod 256 = n div 2 ^ 8"
    using div_mult_mod_eq [of "n div 2 ^ 8" 256] by (simp add: div_mult2_eq [symmetric])
  ultimately show ?thesis using div_mult_mod_eq [of n 256] by simp
qed

lemma parse_string4: "parse_v4_fields (string4 w) =
  Some (unat (drop_bit 24 w) mod 256, unat (drop_bit 16 w) mod 256, unat (drop_bit 8 w) mod 256, unat w mod 256)"
proof -
  have "split_on CHR ''.'' (string4 w) = map nat_dec (octets4 w)"
    unfolding string4_def by (rule split_join) (auto simp: octets4_def nat_dec_no_dot)
  moreover have "parse_octet (nat_dec (x mod 256)) = Some (x mod 256)" for x
    by (rule parse_octet_nat_dec) (simp add: less_Suc_eq_le [symmetric])
  ultimately show ?thesis by (simp add: parse_v4_fields_def octets4_def)
qed

lemma ParseAddr_string4: "ParseAddr (string4 w) = Some (V4 w)"
proof -
  have fields: "v4_of (unat (drop_bit 24 w) mod 256, unat (drop_bit 16 w) mod 256,
      unat (drop_bit 8 w) mod 256, unat w mod 256) = w"
  proof -
    have d: "unat (drop_bit k w) = unat w div 2 ^ k" for k
      unfolding unat_drop_bit_eq by (rule drop_bit_eq_div)
    have "unat w < 2 ^ 32" using unsigned_less [of w, where ?'a = nat] by simp
    from octets_value [OF this]
    have "((unat (drop_bit 24 w) mod 256 * 256 + unat (drop_bit 16 w) mod 256) * 256 +
        unat (drop_bit 8 w) mod 256) * 256 + unat w mod 256 = unat w"
      unfolding d .
    then show ?thesis unfolding v4_of_def prod.case by (simp only: of_nat_unat ucast_id)
  qed
  obtain c where c: "find (\<lambda>c. c = CHR ''.'' \<or> c = CHR '':'' \<or> c = CHR ''%'') (string4 w) = Some c" "c = CHR ''.''"
  proof -
    have m: "set (string4 w) \<subseteq> insert CHR ''.'' (\<Union> (set ` set (map nat_dec (octets4 w))))"
      by (auto simp: string4_def octets4_def)
    have dot: "CHR ''.'' \<in> set (string4 w)" by (simp add: string4_def octets4_def)
    then have "find (\<lambda>c. c = CHR ''.'' \<or> c = CHR '':'' \<or> c = CHR ''%'') (string4 w) \<noteq> None"
      by (auto simp: find_None_iff)
    then obtain c where f: "find (\<lambda>c. c = CHR ''.'' \<or> c = CHR '':'' \<or> c = CHR ''%'') (string4 w) = Some c" by auto
    then have "c \<in> set (string4 w)" "c = CHR ''.'' \<or> c = CHR '':'' \<or> c = CHR ''%''"
      unfolding find_Some_iff by (metis nth_mem)+
    with m nat_dec_no_dot have "c = CHR ''.''" by fastforce
    with f that show thesis by blast
  qed
  then show ?thesis by (simp add: ParseAddr_def parse_v4_def parse_string4 fields)
qed

text \<open>Equations that evaluate the parsers on a literal.\<close>

lemmas v4_eval = ParseAddr_def parse_v4_def v4_of_def parse_v4_fields_def parse_octet_def is_digit_def
  dec_val_def digit_val_def

lemmas v6_eval = parse_v6_def parse_v6_groups_def v6_loop.simps is_hex_def hex_digit_def hex_num_def
  v6_expand_def v6_of_def

lemmas port_eval = ParseAddrPort_def cut_last_def parse_port_def addr_Is6_def Let_def

end
