(* ===== verification/ClientIP.thy ===== *)
theory ClientIP
  imports Netip
begin

text \<open>
  Client address resolution (\<open>httpx/clientip/clientip.go\<close>): building a resolver, parsing the
  peer address and the forwarding headers, and \<open>Resolve\<close>. A request is its remote address
  and the values of each header under its canonical name.
\<close>

definition supportedHeaders :: "string \<Rightarrow> string option" where
  "supportedHeaders key =
     map_of [(''forwarded'', ''Forwarded''), (''x-forwarded-for'', ''X-Forwarded-For''),
             (''x-real-ip'', ''X-Real-IP''), (''cf-connecting-ip'', ''CF-Connecting-IP'')] key"

record Resolver =
  rv_trusted :: "addr_prefix list"
  rv_priority :: "string list"

subsection \<open>Construction\<close>

fun parse_trusted :: "string list \<Rightarrow> addr_prefix list \<Rightarrow> goerr + addr_prefix list" where
  "parse_trusted [] trusted = Inr trusted"
| "parse_trusted (raw # raws) trusted =
     (case ParsePrefix (TrimSpace raw) of
        None \<Rightarrow> Inl (ErrWrap ''clientip: invalid trusted CIDR %q: %w'' [raw]
                      (ErrMsg ''netip.ParsePrefix(%q)'' [TrimSpace raw]))
      | Some p \<Rightarrow>
         let p' = prefix_Masked p in
         if p' \<in> set trusted then Inl (ErrMsg ''clientip: duplicate trusted CIDR %q'' [raw])
         else parse_trusted raws (trusted @ [p']))"

fun parse_priority :: "string list \<Rightarrow> string list \<Rightarrow> string list \<Rightarrow> goerr + string list" where
  "parse_priority [] seen headers = Inr headers"
| "parse_priority (raw # raws) seen headers =
     (let key = ToLower (TrimSpace raw) in
      case supportedHeaders key of
        None \<Rightarrow> Inl (ErrMsg ''clientip: unsupported header %q'' [raw])
      | Some header \<Rightarrow>
         if key \<in> set seen then Inl (ErrMsg ''clientip: duplicate header %q'' [raw])
         else parse_priority raws (seen @ [key]) (headers @ [header]))"

definition clientip_New :: "string list \<Rightarrow> string list \<Rightarrow> goerr + Resolver" where
  "clientip_New trustedCIDRs priority =
     (if priority = [] then Inl (ErrMsg ''clientip: header priority must not be empty'' [])
      else (case parse_trusted trustedCIDRs [] of
        Inl e \<Rightarrow> Inl e
      | Inr trusted \<Rightarrow>
         (case parse_priority priority [] [] of
            Inl e \<Rightarrow> Inl e
          | Inr headers \<Rightarrow> Inr \<lparr>rv_trusted = trusted, rv_priority = headers\<rparr>)))"

subsection \<open>Parsing\<close>

definition rv_contains :: "Resolver \<Rightarrow> addr \<Rightarrow> bool" where
  "rv_contains r a = (let a' = addr_Unmap a in \<exists>p \<in> set (rv_trusted r). prefix_Contains p a')"

text \<open>The peer and its text; \<open>None\<close> when it is not an address, whose text is empty.\<close>

definition parseRemoteAddr :: "string \<Rightarrow> (addr \<times> string) option" where
  "parseRemoteAddr raw =
     (case ParseAddrPort raw of
        Some (a, port) \<Rightarrow>
          if addr_Zone a \<noteq> [] then None
          else let a' = addr_Unmap a in Some (a', addr_String a')
      | None \<Rightarrow>
         (case ParseAddr raw of
            None \<Rightarrow> None
          | Some a \<Rightarrow>
             if addr_Zone a \<noteq> [] then None
             else let a' = addr_Unmap a in Some (a', addr_String a')))"

definition parseBareAddr :: "string \<Rightarrow> addr option" where
  "parseBareAddr raw =
     (if raw = [] \<or> contains_any raw ''[]'' then None
      else (case ParseAddr raw of
        None \<Rightarrow> None
      | Some a \<Rightarrow>
         if addr_Zone a \<noteq> [] \<or> addr_IsUnspecified a then None else Some (addr_Unmap a)))"

definition headerBytes :: "string list \<Rightarrow> nat" where
  "headerBytes values = foldl (\<lambda>total v. total + length v) 0 values"

definition bad_byte :: "char \<Rightarrow> bool" where
  "bad_byte c \<longleftrightarrow> c = CHR 0x0D \<or> c = CHR 0x0A \<or> ((of_char c :: nat) < 0x20 \<and> c \<noteq> CHR 0x09) \<or> c = CHR 0x7F"

text \<open>The scanner of \<open>splitOutsideQuotes\<close>: the parts found, the current part, and whether it is
  inside quotes and after a backslash.\<close>

fun split_scan :: "char \<Rightarrow> string \<Rightarrow> string list \<Rightarrow> string \<Rightarrow> bool \<Rightarrow> bool \<Rightarrow> (string list) option" where
  "split_scan sep [] parts cur quoted escaped =
     (if quoted \<or> escaped then None
      else let l = TrimSpace cur in if l = [] then None else Some (parts @ [l]))"
| "split_scan sep (c # cs) parts cur quoted escaped =
     (if bad_byte c then None
      else if escaped then split_scan sep cs parts (cur @ [c]) quoted False
      else if quoted \<and> c = CHR 0x5C then split_scan sep cs parts (cur @ [c]) quoted True
      else if c = CHR 0x22 then split_scan sep cs parts (cur @ [c]) (\<not> quoted) False
      else if c = sep \<and> \<not> quoted then
        (let part = TrimSpace cur in
         if part = [] then None else split_scan sep cs (parts @ [part]) [] quoted False)
      else split_scan sep cs parts (cur @ [c]) quoted False)"

definition splitOutsideQuotes :: "string \<Rightarrow> char \<Rightarrow> (string list) option" where
  "splitOutsideQuotes raw sep = split_scan sep raw [] [] False False"

text \<open>The unescaping loop over what stands between the quotes; a backslash at its end is an
  error.\<close>

fun unescape :: "string \<Rightarrow> string option" where
  "unescape [] = Some []"
| "unescape (c # cs) =
     (if c = CHR 0x5C then
        (case cs of [] \<Rightarrow> None | d # ds \<Rightarrow> map_option (\<lambda>r. d # r) (unescape ds))
      else map_option (\<lambda>r. c # r) (unescape cs))"

definition bracketed_node :: "string \<Rightarrow> addr option" where
  "bracketed_node raw =
     (case ParseAddrPort raw of
        Some (a, port) \<Rightarrow>
          if addr_Is6 a \<and> addr_Zone a = [] \<and> \<not> addr_IsUnspecified a then Some (addr_Unmap a) else None
      | None \<Rightarrow>
         if \<not> suffix '']'' raw then None
         else (case ParseAddr (butlast (tl raw)) of
           None \<Rightarrow> None
         | Some a \<Rightarrow>
            if addr_Is6 a \<and> addr_Zone a = [] \<and> \<not> addr_IsUnspecified a then Some (addr_Unmap a) else None))"

definition parse_node_text :: "bool \<Rightarrow> string \<Rightarrow> addr option" where
  "parse_node_text quoted raw =
     (if EqualFold raw ''unknown'' \<or> prefix ''_'' raw \<or> raw = [] then None
      else if prefix ''['' raw then bracketed_node raw
      else
        let bare = (case parseBareAddr raw of
                      None \<Rightarrow> None | Some a \<Rightarrow> if addr_Is4 a then Some a else None) in
        if quoted then
          (case ParseAddrPort raw of
             Some (a, port) \<Rightarrow>
               if addr_Is4 a \<and> \<not> addr_IsUnspecified a then Some (addr_Unmap a) else None
           | None \<Rightarrow> bare)
        else bare)"

definition parseForwardedNode :: "string \<Rightarrow> addr option" where
  "parseForwardedNode raw =
     (let q = [CHR 0x22]; quoted = (2 \<le> length raw \<and> prefix q raw \<and> suffix q raw) in
      if prefix q raw \<noteq> suffix q raw then None
      else if quoted then
        (case unescape (butlast (tl raw)) of
           None \<Rightarrow> None
         | Some raw' \<Rightarrow> parse_node_text True raw')
      else parse_node_text False raw)"

text \<open>The parameters of one element: the address of its only \<open>for\<close>, \<open>found\<close> so far.\<close>

fun forwarded_params :: "string list \<Rightarrow> addr option \<Rightarrow> addr option" where
  "forwarded_params [] found = found"
| "forwarded_params (param # ps) found =
     (case cut_at CHR ''='' (TrimSpace param) of
        None \<Rightarrow> None
      | Some (name, val) \<Rightarrow>
         if TrimSpace name = [] \<or> TrimSpace val = [] then None
         else if EqualFold (TrimSpace name) ''for'' then
           (if found \<noteq> None then None
            else (case parseForwardedNode (TrimSpace val) of
                    None \<Rightarrow> None
                  | Some a \<Rightarrow> forwarded_params ps (Some a)))
         else forwarded_params ps found)"

fun all_some :: "('a \<Rightarrow> 'b option) \<Rightarrow> 'a list \<Rightarrow> ('b list) option" where
  "all_some f [] = Some []"
| "all_some f (x # xs) =
     (case f x of None \<Rightarrow> None | Some y \<Rightarrow> map_option (\<lambda>ys. y # ys) (all_some f xs))"

definition forwarded_element :: "string \<Rightarrow> addr option" where
  "forwarded_element element =
     (case splitOutsideQuotes element CHR '';'' of
        None \<Rightarrow> None
      | Some params \<Rightarrow> if params = [] then None else forwarded_params params None)"

definition parseForwarded :: "string \<Rightarrow> (addr list) option" where
  "parseForwarded raw =
     (case splitOutsideQuotes raw CHR '','' of
        None \<Rightarrow> None
      | Some elements \<Rightarrow>
         if elements = [] \<or> length elements > 32 then None else all_some forwarded_element elements)"

definition parseHeader :: "string \<Rightarrow> string list \<Rightarrow> (addr list) option" where
  "parseHeader header values =
     (if header = ''CF-Connecting-IP'' \<or> header = ''X-Real-IP'' then
        (case values of
           [v] \<Rightarrow> if CHR '','' \<in> set v then None
                  else map_option (\<lambda>a. [a]) (parseBareAddr (TrimSpace v))
         | _ \<Rightarrow> None)
      else if headerBytes values > 8192 then None
      else
        let joined = join_with CHR '','' values in
        if header = ''Forwarded'' then parseForwarded joined
        else
          let parts = split_on CHR '','' joined in
          if parts = [] \<or> length parts > 32 then None
          else all_some (\<lambda>part. parseBareAddr (TrimSpace part)) parts)"

subsection \<open>Resolution\<close>

record http_request =
  rq_RemoteAddr :: string
  rq_Values :: "string \<Rightarrow> string list"

text \<open>The scan of the chain from its right end for the first address that is not trusted.\<close>

fun rightmost_untrusted :: "Resolver \<Rightarrow> addr list \<Rightarrow> addr option" where
  "rightmost_untrusted r [] = None"
| "rightmost_untrusted r (a # as) =
     (case rightmost_untrusted r as of
        Some b \<Rightarrow> Some b
      | None \<Rightarrow> if rv_contains r a then None else Some a)"

fun resolve_headers :: "Resolver \<Rightarrow> string list \<Rightarrow> (string \<Rightarrow> string list) \<Rightarrow> string \<Rightarrow> string" where
  "resolve_headers r [] vals peerText = peerText"
| "resolve_headers r (h # hs) vals peerText =
     (if vals h = [] then resolve_headers r hs vals peerText
      else (case parseHeader h (vals h) of
        None \<Rightarrow> peerText
      | Some chain \<Rightarrow>
         (case rightmost_untrusted r chain of Some a \<Rightarrow> addr_String a | None \<Rightarrow> peerText)))"

definition clientip_Resolve :: "Resolver \<Rightarrow> http_request option \<Rightarrow> string" where
  "clientip_Resolve r req =
     (case req of
        None \<Rightarrow> []
      | Some q \<Rightarrow>
         (case parseRemoteAddr (rq_RemoteAddr q) of
            None \<Rightarrow> []
          | Some (peer, peerText) \<Rightarrow>
             if \<not> rv_contains r peer then peerText
             else resolve_headers r (rv_priority r) (rq_Values q) peerText))"

subsection \<open>Facts\<close>

lemma all_some_append:
  "all_some f (xs @ ys) =
     (case all_some f xs of None \<Rightarrow> None | Some a \<Rightarrow> map_option (\<lambda>b. a @ b) (all_some f ys))"
proof (induction xs)
  case Nil
  show ?case by (cases "all_some f ys") simp_all
next
  case (Cons x xs)
  then show ?case by (cases "f x"; cases "all_some f xs"; cases "all_some f ys") simp_all
qed

lemma split_on_append: "split_on c (w @ c # v) = split_on c w @ split_on c v"
proof (induction w)
  case (Cons x xs)
  obtain y ys where "split_on c xs = y # ys" by (cases "split_on c xs") auto
  with Cons show ?case by auto
qed simp

lemma rightmost_untrusted_filter:
  "rightmost_untrusted r as =
     (let u = filter (\<lambda>a. \<not> rv_contains r a) as in if u = [] then None else Some (last u))"
  by (induction as) (auto simp: Let_def split: option.split)

lemma rightmost_untrusted_append:
  "rightmost_untrusted r ys \<noteq> None \<Longrightarrow> rightmost_untrusted r (xs @ ys) = rightmost_untrusted r ys"
  by (induction xs) (auto split: option.split)

lemma resolve_headers_find:
  "resolve_headers r hs vals peerText =
     (case find (\<lambda>h. vals h \<noteq> []) hs of
        None \<Rightarrow> peerText
      | Some h \<Rightarrow>
         (case parseHeader h (vals h) of
            None \<Rightarrow> peerText
          | Some chain \<Rightarrow>
             (case rightmost_untrusted r chain of Some a \<Rightarrow> addr_String a | None \<Rightarrow> peerText)))"
  by (induction hs) auto

text \<open>The scanner on text without quotes, backslashes or control bytes is a split.\<close>

lemma split_scan_plain:
  assumes "\<forall>c \<in> set s. \<not> bad_byte c \<and> c \<noteq> CHR 0x22" and "sep \<notin> set cur"
  shows "split_scan sep s parts cur False False =
    (let ps = map TrimSpace (split_on sep (cur @ s)) in if [] \<in> set ps then None else Some (parts @ ps))"
  using assms
proof (induction s arbitrary: parts cur)
  case Nil
  have "split_on sep cur = [cur]" using Nil.prems(2) split_join [of "[cur]" sep] by simp
  then show ?case by (auto simp: Let_def)
next
  case (Cons c s)
  show ?case
  proof (cases "c = sep")
    case True
    have "split_on sep (cur @ sep # s) = cur # split_on sep s"
      using split_on_append [of sep cur s] split_join [of "[cur]" sep] Cons.prems(2) by simp
    with Cons True show ?thesis by (auto simp: Let_def)
  next
    case False
    with Cons.IH [of "cur @ [c]" parts] Cons.prems show ?thesis by (auto simp: Let_def)
  qed
qed

subsection \<open>Properties\<close>

definition cip_demo :: Resolver where
  "cip_demo = \<lparr>rv_trusted = [Pfx (V4 0x0A000000) 8], rv_priority = [''X-Forwarded-For'']\<rparr>"

definition cip_req :: "string list \<Rightarrow> http_request" where
  "cip_req xff = \<lparr>rq_RemoteAddr = ''10.0.0.1:80'', rq_Values = (\<lambda>h. if h = ''X-Forwarded-For'' then xff else [])\<rparr>"

text \<open>C15: Forwarding headers from a peer that is not a trusted proxy are ignored: the result is the
  peer's own address, or empty when the peer address cannot be read, whatever the headers.\<close>

theorem resolve_untrusted_peer:
  assumes "\<forall>peer t. parseRemoteAddr (rq_RemoteAddr q) = Some (peer, t) \<longrightarrow> \<not> rv_contains r peer"
  shows "clientip_Resolve r (Some q) =
    (case parseRemoteAddr (rq_RemoteAddr q) of None \<Rightarrow> [] | Some (peer, t) \<Rightarrow> addr_String peer)"
  using assms
  by (auto simp: clientip_Resolve_def parseRemoteAddr_def Let_def split: option.splits prod.splits if_splits)

theorem resolve_untrusted_peer_witness:
  "clientip_Resolve \<lparr>rv_trusted = [], rv_priority = [''X-Forwarded-For'']\<rparr> (Some (cip_req [''1.2.3.4''])) =
     (case parseRemoteAddr ''10.0.0.1:80'' of None \<Rightarrow> [] | Some (peer, t) \<Rightarrow> addr_String peer)"
  using resolve_untrusted_peer [of "cip_req [''1.2.3.4'']" "\<lparr>rv_trusted = [], rv_priority = [''X-Forwarded-For'']\<rparr>"]
  by (simp add: cip_req_def rv_contains_def)

lemma trusted_peer_cases:
  assumes "parseRemoteAddr (rq_RemoteAddr q) = Some (peer, t)" and "rv_contains r peer"
  shows "clientip_Resolve r (Some q) =
    (case find (\<lambda>h. rq_Values q h \<noteq> []) (rv_priority r) of
       None \<Rightarrow> addr_String peer
     | Some h \<Rightarrow>
        (case parseHeader h (rq_Values q h) of
           None \<Rightarrow> addr_String peer
         | Some chain \<Rightarrow>
            (let untrusted = filter (\<lambda>a. \<not> rv_contains r a) chain in
             if untrusted = [] then addr_String peer else addr_String (last untrusted))))"
proof -
  have "t = addr_String peer"
    using assms(1) by (auto simp: parseRemoteAddr_def Let_def split: option.splits if_splits)
  then show ?thesis
    using assms
    by (auto simp: clientip_Resolve_def resolve_headers_find rightmost_untrusted_filter Let_def
        split: option.split)
qed

text \<open>C16: Behind a trusted peer the first configured header that is present decides alone: a header
  that does not parse as a whole gives the peer's address (no later header is looked at),
  and otherwise the result is the last address of the chain that is not a trusted proxy, or
  the peer's address when all of them are trusted.\<close>

theorem resolve_trusted_peer:
  assumes "parseRemoteAddr (rq_RemoteAddr q) = Some (peer, t)" and "rv_contains r peer"
  shows "clientip_Resolve r (Some q) =
    (case find (\<lambda>h. rq_Values q h \<noteq> []) (rv_priority r) of
       None \<Rightarrow> addr_String peer
     | Some h \<Rightarrow>
        (case parseHeader h (rq_Values q h) of
           None \<Rightarrow> addr_String peer
         | Some chain \<Rightarrow>
            (let untrusted = filter (\<lambda>a. \<not> rv_contains r a) chain in
             if untrusted = [] then addr_String peer else addr_String (last untrusted))))"
  by (rule trusted_peer_cases [OF assms])

lemma cip_peer: "parseRemoteAddr ''10.0.0.1:80'' = Some (V4 0x0A000001, ''10.0.0.1'')"
  by (simp add: parseRemoteAddr_def v4_eval port_eval addr_Zone_def addr_Unmap_def addr_String_def string4_def
      octets4_def nat_dec.simps char_of_def bit_0)

lemma cip_trusted: "rv_contains cip_demo (V4 0x0A000001)"
  by (simp add: rv_contains_def cip_demo_def addr_Unmap_def prefix_Contains_def)

lemma cip_trim: "TrimSpace '' 1.2.3.4'' = ''1.2.3.4''" "TrimSpace ''6.6.6.6'' = ''6.6.6.6''"
  "TrimSpace '' 10.9.9.9'' = ''10.9.9.9''"
  by code_simp+

lemma cip_bare: "parseBareAddr ''1.2.3.4'' = Some (V4 0x01020304)"
  "parseBareAddr ''6.6.6.6'' = Some (V4 0x06060606)" "parseBareAddr ''10.9.9.9'' = Some (V4 0x0A090909)"
  by (simp_all add: parseBareAddr_def contains_any_def v4_eval addr_Zone_def addr_IsUnspecified_def addr_Unmap_def)

lemma cip_chain:
  "parseHeader ''X-Forwarded-For'' [''6.6.6.6, 1.2.3.4, 10.9.9.9''] =
     Some [V4 0x06060606, V4 0x01020304, V4 0x0A090909]"
  "parseHeader ''X-Forwarded-For'' [''6.6.6.6, 1.2.3.4''] = Some [V4 0x06060606, V4 0x01020304]"
  "parseHeader ''X-Forwarded-For'' ['' 1.2.3.4''] = Some [V4 0x01020304]"
  by (simp_all add: parseHeader_def headerBytes_def Let_def cip_trim cip_bare)

lemma cip_hops: "rv_contains cip_demo (V4 0x0A090909)" "\<not> rv_contains cip_demo (V4 0x01020304)"
  "\<not> rv_contains cip_demo (V4 0x06060606)"
  by (simp_all add: rv_contains_def cip_demo_def addr_Unmap_def prefix_Contains_def)

theorem resolve_trusted_peer_witness:
  "clientip_Resolve cip_demo (Some (cip_req [''6.6.6.6, 1.2.3.4, 10.9.9.9''])) = ''1.2.3.4''"
proof -
  let ?q = "cip_req [''6.6.6.6, 1.2.3.4, 10.9.9.9'']"
  have p: "parseRemoteAddr (rq_RemoteAddr ?q) = Some (V4 0x0A000001, ''10.0.0.1'')"
    by (simp add: cip_req_def cip_peer)
  have h: "find (\<lambda>h. rq_Values ?q h \<noteq> []) (rv_priority cip_demo) = Some ''X-Forwarded-For''"
    by (simp add: cip_demo_def cip_req_def)
  have s: "addr_String (V4 0x01020304) = ''1.2.3.4''"
    by (simp add: addr_String_def string4_def octets4_def nat_dec.simps char_of_def bit_0)
  have v: "rq_Values ?q ''X-Forwarded-For'' = [''6.6.6.6, 1.2.3.4, 10.9.9.9'']" by (simp add: cip_req_def)
  show ?thesis
    unfolding resolve_trusted_peer [OF p cip_trusted] h option.case v cip_chain by (simp add: Let_def s cip_hops)
qed

text \<open>C17: A client cannot choose its address by sending its own \<open>X-Forwarded-For\<close>. Take a request of a
  trusted peer on which this header decides, on any number of lines, and whose last part,
  after a comma, is what the proxies wrote, with an untrusted hop in it. Whatever the client put
  in front of that part, the result is the last untrusted hop of the proxies' part, or, when the
  client's text makes the whole header malformed or too long, the address of the peer: never
  an address the client chose.\<close>

theorem resolve_spoof_resistant:
  assumes "parseRemoteAddr (rq_RemoteAddr q) = Some (peer, t)" and "rv_contains r peer"
    and "find (\<lambda>h. rq_Values q h \<noteq> []) (rv_priority r) = Some ''X-Forwarded-For''"
    and "join_with CHR '','' (rq_Values q ''X-Forwarded-For'') = client @ CHR '','' # proxies"
    and "all_some (\<lambda>part. parseBareAddr (TrimSpace part)) (split_on CHR '','' proxies) = Some chain"
    and "filter (\<lambda>a. \<not> rv_contains r a) chain \<noteq> []"
  shows "clientip_Resolve r (Some q) =
    (if parseHeader ''X-Forwarded-For'' (rq_Values q ''X-Forwarded-For'') = None then addr_String peer
     else addr_String (last (filter (\<lambda>a. \<not> rv_contains r a) chain)))"
proof (cases "parseHeader ''X-Forwarded-For'' (rq_Values q ''X-Forwarded-For'')")
  case None
  then show ?thesis using assms(3) by (simp add: trusted_peer_cases [OF assms(1,2)])
next
  case (Some chain')
  then have "all_some (\<lambda>part. parseBareAddr (TrimSpace part)) (split_on CHR '','' (client @ CHR '','' # proxies)) = Some chain'"
    using assms(4) by (simp add: parseHeader_def Let_def split: if_splits)
  then obtain pre where pre: "chain' = pre @ chain"
    unfolding split_on_append all_some_append using assms(5) by (auto split: option.splits)
  show ?thesis using Some assms(3,6) by (simp add: trusted_peer_cases [OF assms(1,2)] pre Let_def)
qed

theorem resolve_spoof_resistant_witness:
  "clientip_Resolve cip_demo (Some (cip_req [''6.6.6.6, 1.2.3.4''])) = addr_String (V4 0x01020304)"
proof -
  let ?q = "cip_req [''6.6.6.6, 1.2.3.4'']"
  have v: "rq_Values ?q ''X-Forwarded-For'' = [''6.6.6.6, 1.2.3.4'']" by (simp add: cip_req_def)
  have p: "parseRemoteAddr (rq_RemoteAddr ?q) = Some (V4 0x0A000001, ''10.0.0.1'')"
    by (simp add: cip_req_def cip_peer)
  have h: "find (\<lambda>h. rq_Values ?q h \<noteq> []) (rv_priority cip_demo) = Some ''X-Forwarded-For''"
    by (simp add: cip_demo_def cip_req_def)
  have j: "join_with CHR '','' (rq_Values ?q ''X-Forwarded-For'') = ''6.6.6.6'' @ CHR '','' # '' 1.2.3.4''"
    by (simp add: v)
  have c: "all_some (\<lambda>part. parseBareAddr (TrimSpace part)) (split_on CHR '','' '' 1.2.3.4'') = Some [V4 0x01020304]"
    by (simp add: cip_trim cip_bare)
  show ?thesis using resolve_spoof_resistant [OF p cip_trusted h j c] by (simp add: v cip_chain cip_hops)
qed

text \<open>On text without quotes and control bytes the quote-aware splitter is a plain split with
  trimmed parts that refuses an empty part.\<close>

theorem split_outside_quotes_plain:
  assumes "\<forall>c \<in> set raw. \<not> bad_byte c \<and> c \<noteq> CHR 0x22"
  shows "splitOutsideQuotes raw sep =
    (let ps = map TrimSpace (split_on sep raw) in if [] \<in> set ps then None else Some ps)"
  using split_scan_plain [OF assms, of sep "[]" "[]"] by (simp add: splitOutsideQuotes_def)

theorem split_outside_quotes_plain_witness:
  "splitOutsideQuotes ''a, b'' CHR '','' = Some [''a'', ''b'']"
proof -
  have b: "\<forall>c \<in> set ''a, b''. \<not> bad_byte c \<and> c \<noteq> CHR 0x22" by (simp add: bad_byte_def)
  have t: "map TrimSpace (split_on CHR '','' ''a, b'') = [''a'', ''b'']" by code_simp
  show ?thesis unfolding split_outside_quotes_plain [OF b] t by simp
qed

text \<open>A trusted range given as an IPv4-mapped IPv6 prefix trusts nobody: addresses are unmapped
  before they are compared, so no address is ever inside it.\<close>

theorem mapped_cidr_trusts_nobody:
  assumes "drop_bit 32 w = 0xFFFF" and "96 \<le> n" and "n \<le> 128" and "rv_trusted r = [Pfx (V6 w z) n]"
  shows "\<not> rv_contains r a"
proof
  assume "rv_contains r a"
  then obtain x where x: "addr_Unmap a = V6 x []" "drop_bit (128 - n) (w XOR x) = 0"
    using assms(4)
    by (cases "addr_Unmap a") (auto simp: rv_contains_def Let_def prefix_Contains_def)
  have "32 = (32 - (128 - n)) + (128 - n)" using assms(2) by simp
  then have "drop_bit 32 (w XOR x) = drop_bit (32 - (128 - n)) (drop_bit (128 - n) (w XOR x))"
    by (metis drop_bit_drop_bit)
  then have "drop_bit 32 (w XOR x) = 0" unfolding x(2) by simp
  then have "drop_bit 32 w XOR drop_bit 32 x = 0" by simp
  then have "drop_bit 32 x = 0xFFFF" using xor_cancel [of "drop_bit 32 w" "drop_bit 32 x"] assms(1) by simp
  then have "addr_Is4In6 (V6 x [])" by (simp add: addr_Is4In6_def)
  with Unmap_not_4in6 [of a] x(1) show False by simp
qed

theorem mapped_cidr_trusts_nobody_witness:
  "ParsePrefix ''::ffff:10.0.0.0/104'' = Some (Pfx (V6 0xFFFF0A000000 []) 104) \<and>
   \<not> rv_contains \<lparr>rv_trusted = [Pfx (V6 0xFFFF0A000000 []) 104], rv_priority = []\<rparr> (V4 0x0A000001)"
proof -
  have d: "drop_bit 32 (0xFFFF0A000000 :: 128 word) = 0xFFFF" by simp
  have five: "replicate 5 (0::nat) = [0, 0, 0, 0, 0]" by (simp add: eval_nat_numeral)
  have p: "ParsePrefix ''::ffff:10.0.0.0/104'' = Some (Pfx (V6 0xFFFF0A000000 []) 104)"
    by (simp add: ParsePrefix_def cut_last_def v4_eval v6_eval addr_Zone_def addr_Is6_def five)
  from mapped_cidr_trusts_nobody [OF d, of 104] p show ?thesis by simp
qed

end
