(* ===== verification/Health.thy ===== *)
theory Health
  imports GoStrings
begin

text \<open>
  The health registry (\<open>health/registry.go\<close>): registration of checks with generations, the
  readiness handler with its concurrent checks, and the recording of results. The handler's
  goroutines and the requests that run at the same time are the steps of a relation; a
  check itself is application code, represented by the outcome it has.
\<close>

subsection \<open>Registry\<close>

datatype Criticality = Critical | Informational

record 'c entry =
  en_check :: 'c
  en_criticality :: Criticality
  en_generation :: nat       \<comment> \<open>a uint64 in the code; it counts registrations\<close>

record CheckResult =
  cr_Status :: string
  cr_Error :: string
  cr_Criticality :: string

record 'c health_reg =
  hr_checks :: "string \<rightharpoonup> 'c entry"
  hr_timeout :: duration
  hr_verbose :: bool
  hr_logger :: bool                            \<comment> \<open>a logger is set\<close>
  hr_running :: "string set"
  hr_last :: "string \<rightharpoonup> CheckResult"
  hr_next :: nat

definition health_NewRegistry :: "'c health_reg" where
  "health_NewRegistry = \<lparr>hr_checks = Map.empty, hr_timeout = 2 * 1000000000, hr_verbose = False,
     hr_logger = False, hr_running = {}, hr_last = Map.empty, hr_next = 0\<rparr>"

definition AddWithCriticality :: "'c health_reg \<Rightarrow> string \<Rightarrow> 'c option \<Rightarrow> Criticality \<Rightarrow> 'c health_reg" where
  "AddWithCriticality r name check c =
     (case check of
        None \<Rightarrow> r
      | Some ck \<Rightarrow>
         if name = [] then r
         else r\<lparr>hr_next := Suc (hr_next r),
                hr_checks := (hr_checks r)(name \<mapsto>
                  \<lparr>en_check = ck, en_criticality = c, en_generation = Suc (hr_next r)\<rparr>),
                hr_last := (hr_last r)(name := None)\<rparr>)"

definition health_Add :: "'c health_reg \<Rightarrow> string \<Rightarrow> 'c option \<Rightarrow> 'c health_reg" where
  "health_Add r name check = AddWithCriticality r name check Critical"

definition health_AddInformational :: "'c health_reg \<Rightarrow> string \<Rightarrow> 'c option \<Rightarrow> 'c health_reg" where
  "health_AddInformational r name check = AddWithCriticality r name check Informational"

definition health_Remove :: "'c health_reg \<Rightarrow> string \<Rightarrow> 'c health_reg" where
  "health_Remove r name =
     r\<lparr>hr_checks := (hr_checks r)(name := None), hr_last := (hr_last r)(name := None)\<rparr>"

definition health_SetTimeout :: "'c health_reg \<Rightarrow> duration \<Rightarrow> 'c health_reg" where
  "health_SetTimeout r d = r\<lparr>hr_timeout := (if d \<le> 0 then 2 * 1000000000 else d)\<rparr>"

definition health_SetVerbose :: "'c health_reg \<Rightarrow> bool \<Rightarrow> 'c health_reg" where
  "health_SetVerbose r v = r\<lparr>hr_verbose := v\<rparr>"

definition health_SetLogger :: "'c health_reg \<Rightarrow> bool \<Rightarrow> 'c health_reg" where
  "health_SetLogger r logger = r\<lparr>hr_logger := logger\<rparr>"

definition health_Snapshot :: "'c health_reg \<Rightarrow> (string \<rightharpoonup> CheckResult)" where
  "health_Snapshot r = hr_last r"

subsection \<open>One check\<close>

definition criticalityString :: "Criticality \<Rightarrow> string" where
  "criticalityString c = (if c = Informational then ''informational'' else ''critical'')"

text \<open>What the goroutine of a check receives: the check's own result, its panic, or the end of
  the context with the text of its error.\<close>

datatype check_outcome = ChOk | ChError string | ChPanic | ChContext string

definition check_result :: "Criticality \<Rightarrow> check_outcome \<Rightarrow> CheckResult" where
  "check_result c out =
     (case out of
        ChOk \<Rightarrow> \<lparr>cr_Status = ''ok'', cr_Error = [], cr_Criticality = criticalityString c\<rparr>
      | ChError msg \<Rightarrow> \<lparr>cr_Status = ''error'', cr_Error = msg, cr_Criticality = criticalityString c\<rparr>
      | ChPanic \<Rightarrow>
         \<lparr>cr_Status = ''error'', cr_Error = ''internal check panic'', cr_Criticality = criticalityString c\<rparr>
      | ChContext msg \<Rightarrow> \<lparr>cr_Status = ''error'', cr_Error = msg, cr_Criticality = criticalityString c\<rparr>)"

definition already_running :: "Criticality \<Rightarrow> CheckResult" where
  "already_running c =
     \<lparr>cr_Status = ''error'', cr_Error = ''check already running'', cr_Criticality = criticalityString c\<rparr>"

text \<open>\<open>recordResult\<close> and the log record it writes: the check and the statuses before and after.\<close>

datatype health_log = CheckRecovered string string string | CheckUnhealthy string string string

definition transition_log :: "string \<Rightarrow> string \<Rightarrow> string \<Rightarrow> health_log" where
  "transition_log name old new =
     (if new = ''ok'' then CheckRecovered name old new else CheckUnhealthy name old new)"

definition recordResult ::
  "'c health_reg \<Rightarrow> string \<Rightarrow> nat \<Rightarrow> CheckResult \<Rightarrow> 'c health_reg \<times> health_log option" where
  "recordResult r name generation result =
     (case hr_checks r name of
        None \<Rightarrow> (r, None)
      | Some current \<Rightarrow>
         if en_generation current \<noteq> generation then (r, None)
         else
           (r\<lparr>hr_last := (hr_last r)(name \<mapsto> result)\<rparr>,
            case hr_last r name of
              None \<Rightarrow> None
            | Some previous \<Rightarrow>
               if cr_Status previous = cr_Status result \<or> \<not> hr_logger r then None
               else Some (transition_log name (cr_Status previous) (cr_Status result))))"

subsection \<open>One readiness request\<close>

record 'c probe =
  pb_snap :: "string \<rightharpoonup> 'c entry"
  pb_verbose :: bool
  pb_todo :: "string list"                     \<comment> \<open>goroutines not begun\<close>
  pb_wait :: "string list"                     \<comment> \<open>goroutines waiting for their check\<close>
  pb_buf :: "(string \<times> check_outcome) list"    \<comment> \<open>outcomes in the result channels\<close>
  pb_chan :: "(string \<times> CheckResult) list"     \<comment> \<open>results sent to the handler\<close>
  pb_checks :: "string \<rightharpoonup> CheckResult"         \<comment> \<open>results the handler has read\<close>
  pb_ready :: bool

definition probe_start :: "'c health_reg \<Rightarrow> string list \<Rightarrow> 'c probe" where
  "probe_start r names =
     \<lparr>pb_snap = hr_checks r, pb_verbose = hr_verbose r, pb_todo = names, pb_wait = [], pb_buf = [],
      pb_chan = [], pb_checks = Map.empty, pb_ready = True\<rparr>"

definition snap_criticality :: "'c probe \<Rightarrow> string \<Rightarrow> Criticality" where
  "snap_criticality p name = (case pb_snap p name of None \<Rightarrow> Critical | Some e \<Rightarrow> en_criticality e)"

text \<open>Reading one result: record it, redact it, and note whether it blocks readiness.\<close>

definition redact :: "bool \<Rightarrow> CheckResult \<Rightarrow> CheckResult" where
  "redact verbose res = (if \<not> verbose \<and> cr_Error res \<noteq> [] then res\<lparr>cr_Error := ''redacted''\<rparr> else res)"

definition probe_collect ::
  "'c probe \<Rightarrow> string \<Rightarrow> CheckResult \<Rightarrow> 'c health_reg \<Rightarrow> 'c probe \<times> 'c health_reg" where
  "probe_collect p name res r =
     (p\<lparr>pb_chan := remove1 (name, res) (pb_chan p),
        pb_checks := (pb_checks p)(name \<mapsto> redact (pb_verbose p) res),
        pb_ready := (if cr_Status res = ''error'' \<and> snap_criticality p name = Critical
                     then False else pb_ready p)\<rparr>,
      fst (recordResult r name (case pb_snap p name of None \<Rightarrow> 0 | Some e \<Rightarrow> en_generation e) res))"

definition probe_response :: "'c probe \<Rightarrow> nat \<times> string \<times> (string \<rightharpoonup> CheckResult)" where
  "probe_response p =
     (if pb_ready p then (200, ''ok'', pb_checks p) else (503, ''not_ready'', pb_checks p))"

definition probe_done :: "'c probe \<Rightarrow> bool" where
  "probe_done p \<longleftrightarrow> pb_todo p = [] \<and> pb_wait p = [] \<and> pb_chan p = []"

subsection \<open>Concurrent requests\<close>

text \<open>What the goroutine of a check in a request found: the name still in the running set, or what
  its \<open>select\<close> received.\<close>

datatype finding = Busy | Got check_outcome

text \<open>The system: the registry, the requests by number, the checks that are executing, those whose
  outcome is sent but whose goroutine has not yet left the running set, and (for the statements
  only) the entry whose result was recorded last under each name and what each goroutine found.\<close>

record 'c health_sys =
  hs_reg :: "'c health_reg"
  hs_probes :: "nat \<rightharpoonup> 'c probe"
  hs_live :: "(nat \<times> string) list"
  hs_sent :: "(nat \<times> string) list"
  hs_from :: "string \<rightharpoonup> 'c entry"
  hs_got :: "nat \<times> string \<rightharpoonup> finding"

inductive health_step :: "'c health_sys \<Rightarrow> 'c health_sys \<Rightarrow> bool" where
  h_add: "health_step s (s\<lparr>hs_reg := AddWithCriticality (hs_reg s) name check c\<rparr>)"
| h_remove: "health_step s (s\<lparr>hs_reg := health_Remove (hs_reg s) name\<rparr>)"
| h_timeout: "health_step s (s\<lparr>hs_reg := health_SetTimeout (hs_reg s) d\<rparr>)"
| h_verbose: "health_step s (s\<lparr>hs_reg := health_SetVerbose (hs_reg s) v\<rparr>)"
| h_logger: "health_step s (s\<lparr>hs_reg := health_SetLogger (hs_reg s) l\<rparr>)"
| h_probe: "hs_probes s i = None \<Longrightarrow> distinct names \<Longrightarrow> set names = dom (hr_checks (hs_reg s)) \<Longrightarrow>
    health_step s (s\<lparr>hs_probes := (hs_probes s)(i \<mapsto> probe_start (hs_reg s) names)\<rparr>)"
| h_busy: "hs_probes s i = Some p \<Longrightarrow> name \<in> set (pb_todo p) \<Longrightarrow> name \<in> hr_running (hs_reg s) \<Longrightarrow>
    health_step s (s\<lparr>hs_probes := (hs_probes s)(i \<mapsto>
      p\<lparr>pb_todo := remove1 name (pb_todo p),
        pb_chan := (name, already_running (snap_criticality p name)) # pb_chan p\<rparr>),
      hs_got := (hs_got s)((i, name) \<mapsto> Busy)\<rparr>)"
| h_begin: "hs_probes s i = Some p \<Longrightarrow> name \<in> set (pb_todo p) \<Longrightarrow> name \<notin> hr_running (hs_reg s) \<Longrightarrow>
    health_step s (s\<lparr>hs_reg := (hs_reg s)\<lparr>hr_running := insert name (hr_running (hs_reg s))\<rparr>,
      hs_probes := (hs_probes s)(i \<mapsto>
        p\<lparr>pb_todo := remove1 name (pb_todo p), pb_wait := name # pb_wait p\<rparr>),
      hs_live := (i, name) # hs_live s\<rparr>)"
| h_finish: "hs_probes s i = Some p \<Longrightarrow> (i, name) \<in> set (hs_live s) \<Longrightarrow> \<forall>m. out \<noteq> ChContext m \<Longrightarrow>
    health_step s (s\<lparr>hs_probes := (hs_probes s)(i \<mapsto> p\<lparr>pb_buf := (name, out) # pb_buf p\<rparr>),
      hs_live := remove1 (i, name) (hs_live s), hs_sent := (i, name) # hs_sent s\<rparr>)"
| h_clear: "(i, name) \<in> set (hs_sent s) \<Longrightarrow>
    health_step s (s\<lparr>hs_reg := (hs_reg s)\<lparr>hr_running := hr_running (hs_reg s) - {name}\<rparr>,
      hs_sent := remove1 (i, name) (hs_sent s)\<rparr>)"
| h_receive: "hs_probes s i = Some p \<Longrightarrow> name \<in> set (pb_wait p) \<Longrightarrow>
    (name, out) \<in> set (pb_buf p) \<or> (\<exists>m. out = ChContext m) \<Longrightarrow>
    health_step s (s\<lparr>hs_probes := (hs_probes s)(i \<mapsto>
      p\<lparr>pb_wait := remove1 name (pb_wait p),
        pb_chan := (name, check_result (snap_criticality p name) out) # pb_chan p\<rparr>),
      hs_got := (hs_got s)((i, name) \<mapsto> Got out)\<rparr>)"
| h_collect: "hs_probes s i = Some p \<Longrightarrow> (name, res) \<in> set (pb_chan p) \<Longrightarrow>
    probe_collect p name res (hs_reg s) = (p', r') \<Longrightarrow>
    health_step s (s\<lparr>hs_reg := r', hs_probes := (hs_probes s)(i \<mapsto> p'),
      hs_from := (if map_option en_generation (hr_checks (hs_reg s) name) =
                     Some (case pb_snap p name of None \<Rightarrow> 0 | Some e \<Rightarrow> en_generation e)
                  then (hs_from s)(name := pb_snap p name) else hs_from s)\<rparr>)"

inductive health_reach :: "'c health_sys \<Rightarrow> bool" where
  h_init: "health_reach \<lparr>hs_reg = health_NewRegistry, hs_probes = Map.empty, hs_live = [], hs_sent = [], hs_from = Map.empty,
     hs_got = Map.empty\<rparr>"
| h_step: "health_reach s \<Longrightarrow> health_step s s' \<Longrightarrow> health_reach s'"

subsection \<open>Invariants\<close>

text \<open>At most one execution of a check per name.\<close>

definition live_inv :: "'c health_sys \<Rightarrow> bool" where
  "live_inv s \<longleftrightarrow> distinct (map snd (hs_live s @ hs_sent s)) \<and>
     snd ` set (hs_live s @ hs_sent s) = hr_running (hs_reg s)"

lemma map_snd_remove1:
  assumes "distinct (map snd xs)" and "x \<in> set xs"
  shows "snd ` set (remove1 x xs) = snd ` set xs - {snd x}"
proof -
  have d: "distinct xs" "inj_on snd (set xs)" using assms(1) by (simp_all add: distinct_map)
  have "snd ` (set xs - {x}) = snd ` set xs - snd ` {x}"
    using d(2) assms(2) by (intro inj_on_image_set_diff [of snd "set xs"]) auto
  then show ?thesis using d(1) by (simp add: set_remove1_eq)
qed

lemma distinct_map_remove1: "distinct (map f xs) \<Longrightarrow> distinct (map f (remove1 x xs))"
proof (induction xs)
  case (Cons y ys)
  then show ?case using set_remove1_subset [of x ys] by auto
qed simp

lemma reg_ops_running [simp]:
  "hr_running (AddWithCriticality r name check c) = hr_running r"
  "hr_running (health_Remove r name) = hr_running r"
  "hr_running (health_SetTimeout r d) = hr_running r"
  "hr_running (health_SetVerbose r v) = hr_running r"
  "hr_running (health_SetLogger r l) = hr_running r"
  "hr_running (fst (recordResult r name g res)) = hr_running r"
  by (simp_all add: AddWithCriticality_def health_Remove_def health_SetTimeout_def health_SetVerbose_def
      health_SetLogger_def recordResult_def split: option.split)

lemma live_inv_step: "health_step s s' \<Longrightarrow> live_inv s \<Longrightarrow> live_inv s'"
proof (induction rule: health_step.induct)
  case (h_finish s i p name out)
  have "name \<in> snd ` set (hs_live s)" using h_finish.hyps(2) by force
  then show ?case
    using h_finish map_snd_remove1 [of "hs_live s" "(i, name)"] distinct_map_remove1 [of snd "hs_live s" "(i, name)"]
    by (auto simp: live_inv_def image_Un)
next
  case (h_clear i name s)
  have "name \<in> snd ` set (hs_sent s)" using h_clear.hyps by force
  then show ?case
    using h_clear map_snd_remove1 [of "hs_sent s" "(i, name)"] distinct_map_remove1 [of snd "hs_sent s" "(i, name)"]
    by (auto simp: live_inv_def image_Un)
next
  case (h_collect s i p name res p' r')
  then show ?case by (auto simp: live_inv_def probe_collect_def)
qed (auto simp: live_inv_def)

text \<open>Generations identify entries: no snapshot holds an entry that differs from the registered
  one of the same generation, and a recorded result is one of the registered entry.\<close>

definition gen_inv :: "'c health_sys \<Rightarrow> bool" where
  "gen_inv s \<longleftrightarrow>
     (\<forall>n e. hr_checks (hs_reg s) n = Some e \<longrightarrow> 0 < en_generation e \<and> en_generation e \<le> hr_next (hs_reg s)) \<and>
     (\<forall>i p n e. hs_probes s i = Some p \<longrightarrow> pb_snap p n = Some e \<longrightarrow>
        0 < en_generation e \<and> en_generation e \<le> hr_next (hs_reg s) \<and>
        (\<forall>e'. hr_checks (hs_reg s) n = Some e' \<longrightarrow> en_generation e' = en_generation e \<longrightarrow> e' = e)) \<and>
     (\<forall>n res. hr_last (hs_reg s) n = Some res \<longrightarrow>
        (\<exists>e. hs_from s n = Some e \<and> hr_checks (hs_reg s) n = Some e))"

lemma recordResult_keeps [simp]:
  "hr_checks (fst (recordResult r name g res)) = hr_checks r"
  "hr_next (fst (recordResult r name g res)) = hr_next r"
  by (simp_all add: recordResult_def split: option.split)

lemma gen_inv_collect:
  assumes inv: "gen_inv s" and p: "hs_probes s i = Some p"
    and c: "probe_collect p name res (hs_reg s) = (p', r')"
  shows "gen_inv (s\<lparr>hs_reg := r', hs_probes := (hs_probes s)(i \<mapsto> p'),
      hs_from := (if map_option en_generation (hr_checks (hs_reg s) name) =
                     Some (case pb_snap p name of None \<Rightarrow> 0 | Some e \<Rightarrow> en_generation e)
                  then (hs_from s)(name := pb_snap p name) else hs_from s)\<rparr>)"
proof -
  let ?g = "case pb_snap p name of None \<Rightarrow> 0 | Some e \<Rightarrow> en_generation e"
  have p': "pb_snap p' = pb_snap p" and r': "r' = fst (recordResult (hs_reg s) name ?g res)"
    using c by (auto simp: probe_collect_def)
  have keep: "hr_checks r' = hr_checks (hs_reg s)" "hr_next r' = hr_next (hs_reg s)" by (simp_all add: r')
  have last: "hr_last r' n = (if n = name \<and> map_option en_generation (hr_checks (hs_reg s) name) = Some ?g
      then Some res else hr_last (hs_reg s) n)" for n
    by (auto simp: r' recordResult_def split: option.split)
  have same: "pb_snap p name = hr_checks (hs_reg s) name \<and> pb_snap p name \<noteq> None"
    if m: "map_option en_generation (hr_checks (hs_reg s) name) = Some ?g"
  proof -
    obtain e where e: "hr_checks (hs_reg s) name = Some e" "en_generation e = ?g" using m by auto
    have "0 < en_generation e" using inv e(1) by (auto simp: gen_inv_def)
    then obtain e0 where e0: "pb_snap p name = Some e0" using e(2) by (cases "pb_snap p name") auto
    with e(2) have "en_generation e = en_generation e0" by simp
    with inv p e(1) e0 have "e = e0" unfolding gen_inv_def by blast
    with e e0 show ?thesis by simp
  qed
  show ?thesis
    using inv p same unfolding gen_inv_def by (auto simp: keep p' last split: if_splits)
qed

lemma gen_inv_add:
  assumes "gen_inv s"
  shows "gen_inv (s\<lparr>hs_reg := AddWithCriticality (hs_reg s) name check c\<rparr>)"
proof (cases "check = None \<or> name = []")
  case True
  then have "AddWithCriticality (hs_reg s) name check c = hs_reg s"
    by (auto simp: AddWithCriticality_def split: option.split)
  then show ?thesis using assms by simp
next
  case False
  then obtain ck where "check = Some ck" by auto
  with False assms show ?thesis
    unfolding gen_inv_def
    by (auto simp: AddWithCriticality_def le_Suc_eq split: if_splits)
       (metis Suc_n_not_le_n)+
qed

lemma gen_inv_probes:
  assumes "gen_inv s" and "hs_probes s i = Some p" and "pb_snap p' = pb_snap p"
    and "hr_checks r' = hr_checks (hs_reg s)" and "hr_next r' = hr_next (hs_reg s)"
    and "hr_last r' = hr_last (hs_reg s)"
  shows "gen_inv (s\<lparr>hs_reg := r', hs_probes := (hs_probes s)(i \<mapsto> p'), hs_live := lv, hs_sent := sn, hs_got := gt\<rparr>)"
  using assms unfolding gen_inv_def by (auto split: if_splits)

lemma gen_inv_step: "health_step s s' \<Longrightarrow> gen_inv s \<Longrightarrow> gen_inv s'"
proof (induction rule: health_step.induct)
  case (h_add s name check c)
  then show ?case by (rule gen_inv_add)
next
  case (h_remove s name)
  then show ?case unfolding gen_inv_def by (auto simp: health_Remove_def split: if_splits)
next
  case (h_timeout s d)
  then show ?case by (simp add: gen_inv_def health_SetTimeout_def)
next
  case (h_verbose s v)
  then show ?case by (simp add: gen_inv_def health_SetVerbose_def)
next
  case (h_logger s l)
  then show ?case by (simp add: gen_inv_def health_SetLogger_def)
next
  case (h_probe s i names)
  then show ?case unfolding gen_inv_def by (auto simp: probe_start_def split: if_splits)
next
  case (h_busy s i p name)
  then show ?case
    using gen_inv_probes [OF h_busy.prems h_busy.hyps(1), where r' = "hs_reg s" and lv = "hs_live s" and sn = "hs_sent s" and gt = "(hs_got s)((i, name) \<mapsto> Busy)"] by simp
next
  case (h_begin s i p name)
  then show ?case
    using gen_inv_probes [OF h_begin.prems h_begin.hyps(1),
        where r' = "(hs_reg s)\<lparr>hr_running := insert name (hr_running (hs_reg s))\<rparr>" and sn = "hs_sent s" and gt = "hs_got s"] by simp
next
  case (h_finish s i p name out)
  then show ?case
    using gen_inv_probes [OF h_finish.prems h_finish.hyps(1), where r' = "hs_reg s" and gt = "hs_got s"] by simp
next
  case (h_clear i name s)
  then show ?case by (simp add: gen_inv_def)
next
  case (h_receive s i p name out)
  then show ?case
    using gen_inv_probes [OF h_receive.prems h_receive.hyps(1), where r' = "hs_reg s" and lv = "hs_live s" and sn = "hs_sent s" and gt = "(hs_got s)((i, name) \<mapsto> Got out)"] by simp
next
  case (h_collect s i p name res p' r')
  then show ?case by (blast intro: gen_inv_collect)
qed

lemma health_reach_inv: "health_reach s \<Longrightarrow> live_inv s \<and> gen_inv s"
proof (induction rule: health_reach.induct)
  case h_init
  show ?case by (simp add: live_inv_def gen_inv_def health_NewRegistry_def)
next
  case (h_step s s')
  then show ?case by (blast intro: live_inv_step gen_inv_step)
qed

subsection \<open>The answer of a request\<close>

definition probe_inv :: "'c probe \<Rightarrow> bool" where
  "probe_inv p \<longleftrightarrow>
     distinct (pb_todo p @ pb_wait p @ map fst (pb_chan p)) \<and>
     set (pb_todo p @ pb_wait p @ map fst (pb_chan p)) \<inter> dom (pb_checks p) = {} \<and>
     set (pb_todo p @ pb_wait p @ map fst (pb_chan p)) \<union> dom (pb_checks p) = dom (pb_snap p) \<and>
     (pb_ready p \<longleftrightarrow> (\<forall>n r. pb_checks p n = Some r \<longrightarrow> cr_Status r = ''error'' \<longrightarrow> snap_criticality p n \<noteq> Critical)) \<and>
     (\<not> pb_verbose p \<longrightarrow> (\<forall>n r. pb_checks p n = Some r \<longrightarrow> cr_Error r \<in> {[], ''redacted''}))"

lemma redact_Status [simp]: "cr_Status (redact v r) = cr_Status r"
  by (simp add: redact_def)

lemma redact_Error: "\<not> v \<Longrightarrow> cr_Error (redact v r) \<in> {[], ''redacted''}"
  by (auto simp: redact_def)

lemma probe_inv_move:
  assumes inv: "probe_inv p" and q: "pb_snap q = pb_snap p" "pb_verbose q = pb_verbose p"
      "pb_checks q = pb_checks p" "pb_ready q = pb_ready p"
    and perm: "distinct (pb_todo q @ pb_wait q @ map fst (pb_chan q))"
      "set (pb_todo q @ pb_wait q @ map fst (pb_chan q)) = set (pb_todo p @ pb_wait p @ map fst (pb_chan p))"
  shows "probe_inv q"
proof -
  have "snap_criticality q n = snap_criticality p n" for n by (simp add: snap_criticality_def q)
  with inv show ?thesis unfolding probe_inv_def perm(2) q using perm(1) by simp
qed

lemma map_upd_all:
  assumes "m k = None"
  shows "(\<forall>n r. (m(k \<mapsto> v)) n = Some r \<longrightarrow> Q n r) \<longleftrightarrow> Q k v \<and> (\<forall>n r. m n = Some r \<longrightarrow> Q n r)"
proof -
  have "m n = Some r \<Longrightarrow> n \<noteq> k" for n r using assms by auto
  then show ?thesis by (simp add: fun_upd_def) blast
qed

lemma probe_inv_collect:
  assumes inv: "probe_inv p" and m: "(name, res) \<in> set (pb_chan p)"
    and c: "probe_collect p name res r = (p', r')"
  shows "probe_inv p'"
proof -
  let ?open = "\<lambda>p. set (pb_todo p @ pb_wait p @ map fst (pb_chan p))"
  have i: "distinct (pb_todo p @ pb_wait p @ map fst (pb_chan p))" "?open p \<inter> dom (pb_checks p) = {}"
    "?open p \<union> dom (pb_checks p) = dom (pb_snap p)"
    and rdy: "pb_ready p \<longleftrightarrow> (\<forall>n r. pb_checks p n = Some r \<longrightarrow> cr_Status r = ''error'' \<longrightarrow>
        snap_criticality p n \<noteq> Critical)"
    and red: "\<not> pb_verbose p \<Longrightarrow> pb_checks p n = Some r \<Longrightarrow> cr_Error r \<in> {[], ''redacted''}" for n r
    using inv unfolding probe_inv_def by blast+
  have p': "p' = p\<lparr>pb_chan := remove1 (name, res) (pb_chan p),
        pb_checks := (pb_checks p)(name \<mapsto> redact (pb_verbose p) res),
        pb_ready := (if cr_Status res = ''error'' \<and> snap_criticality p name = Critical then False else pb_ready p)\<rparr>"
    using c by (simp add: probe_collect_def)
  have dc: "distinct (map fst (pb_chan p))" using i(1) by simp
  have ch: "map fst (pb_chan p') = remove1 name (map fst (pb_chan p))"
    using map_remove1_distinct [OF dc m] by (simp add: p')
  have n: "name \<in> ?open p" using m by force
  then have nc: "name \<notin> dom (pb_checks p)" using i(2) by blast
  have "name \<in> set (map fst (pb_chan p))" using m by force
  then have eq: "pb_todo p' @ pb_wait p' @ map fst (pb_chan p') =
      remove1 name (pb_todo p @ pb_wait p @ map fst (pb_chan p))"
    using i(1) by (auto simp: ch remove1_append) (simp_all add: p')
  have op: "?open p' = ?open p - {name}" unfolding eq using i(1) by (rule set_remove1_eq)
  have ck: "dom (pb_checks p') = insert name (dom (pb_checks p))" by (simp add: p')
  have "distinct (pb_todo p' @ pb_wait p' @ map fst (pb_chan p'))"
    unfolding eq using i(1) by (rule distinct_remove1)
  moreover have "?open p' \<inter> dom (pb_checks p') = {}" unfolding op ck using i(2) by blast
  moreover have "?open p' \<union> dom (pb_checks p') = dom (pb_snap p')"
    unfolding op ck using i(3) n by (auto simp: p')
  moreover have "pb_ready p' \<longleftrightarrow> (\<forall>n r. pb_checks p' n = Some r \<longrightarrow> cr_Status r = ''error'' \<longrightarrow>
      snap_criticality p' n \<noteq> Critical)"
  proof -
    have cr: "snap_criticality p' k = snap_criticality p k" for k by (simp add: snap_criticality_def p')
    have "pb_checks p name = None" using nc by (simp add: domIff)
    from map_upd_all [of "pb_checks p" name "redact (pb_verbose p) res"
        "\<lambda>n r. cr_Status r = ''error'' \<longrightarrow> snap_criticality p n \<noteq> Critical", OF this] rdy
    show ?thesis unfolding cr by (simp add: p')
  qed
  moreover have "\<not> pb_verbose p' \<longrightarrow> (\<forall>n r. pb_checks p' n = Some r \<longrightarrow> cr_Error r \<in> {[], ''redacted''})"
  proof (intro impI allI)
    fix k r assume v: "\<not> pb_verbose p'" and k: "pb_checks p' k = Some r"
    show "cr_Error r \<in> {[], ''redacted''}"
    proof (cases "k = name")
      case True
      then have "r = redact (pb_verbose p) res" using k by (simp add: p')
      then show ?thesis using v redact_Error [of "pb_verbose p" res] by (simp add: p')
    next
      case False
      with red [of k r] v k show ?thesis by (simp add: p')
    qed
  qed
  ultimately show ?thesis unfolding probe_inv_def by blast
qed

definition probes_inv :: "'c health_sys \<Rightarrow> bool" where
  "probes_inv s \<longleftrightarrow> (\<forall>i p. hs_probes s i = Some p \<longrightarrow> probe_inv p)"

lemma probes_invD: "probes_inv s \<Longrightarrow> hs_probes s i = Some p \<Longrightarrow> probe_inv p"
  by (simp add: probes_inv_def)

lemma probes_inv_upd:
  "probes_inv s \<Longrightarrow> probe_inv q \<Longrightarrow> hs_probes s' = (hs_probes s)(i \<mapsto> q) \<Longrightarrow> probes_inv s'"
  by (simp add: probes_inv_def)

lemma probes_inv_step: "health_step s s' \<Longrightarrow> probes_inv s \<Longrightarrow> probes_inv s'"
proof (induction rule: health_step.induct)
  case (h_probe s i names)
  have "probe_inv (probe_start (hs_reg s) names)"
    using h_probe.hyps by (simp add: probe_inv_def probe_start_def)
  with h_probe.prems show ?case by (rule probes_inv_upd) simp
next
  case (h_busy s i p name)
  note p = probes_invD [OF h_busy.prems h_busy.hyps(1)]
  have "probe_inv (p\<lparr>pb_todo := remove1 name (pb_todo p),
        pb_chan := (name, already_running (snap_criticality p name)) # pb_chan p\<rparr>)"
    by (rule probe_inv_move [OF p])
       (use p h_busy.hyps(2) in \<open>auto simp: probe_inv_def distinct_remove1 dest: notin_set_remove1\<close>)
  with h_busy.prems show ?case by (rule probes_inv_upd) simp
next
  case (h_begin s i p name)
  note p = probes_invD [OF h_begin.prems h_begin.hyps(1)]
  have "probe_inv (p\<lparr>pb_todo := remove1 name (pb_todo p), pb_wait := name # pb_wait p\<rparr>)"
    by (rule probe_inv_move [OF p])
       (use p h_begin.hyps(2) in \<open>auto simp: probe_inv_def distinct_remove1 dest: notin_set_remove1\<close>)
  with h_begin.prems show ?case by (rule probes_inv_upd) simp
next
  case (h_finish s i p name out)
  note p = probes_invD [OF h_finish.prems h_finish.hyps(1)]
  have "probe_inv (p\<lparr>pb_buf := (name, out) # pb_buf p\<rparr>)"
    by (rule probe_inv_move [OF p]) (use p in \<open>auto simp: probe_inv_def\<close>)
  with h_finish.prems show ?case by (rule probes_inv_upd) simp
next
  case (h_receive s i p name out)
  note p = probes_invD [OF h_receive.prems h_receive.hyps(1)]
  have "probe_inv (p\<lparr>pb_wait := remove1 name (pb_wait p),
        pb_chan := (name, check_result (snap_criticality p name) out) # pb_chan p\<rparr>)"
    by (rule probe_inv_move [OF p])
       (use p h_receive.hyps(2) in \<open>auto simp: probe_inv_def distinct_remove1 dest: notin_set_remove1\<close>)
  with h_receive.prems show ?case by (rule probes_inv_upd) simp
next
  case (h_collect s i p name res p' r')
  have "probe_inv p'"
    by (rule probe_inv_collect [OF probes_invD [OF h_collect.prems h_collect.hyps(1)] h_collect.hyps(2,3)])
  with h_collect.prems show ?case by (rule probes_inv_upd) simp
qed (simp_all add: probes_inv_def)

lemma health_reach_probes: "health_reach s \<Longrightarrow> probes_inv s"
proof (induction rule: health_reach.induct)
  case h_init
  show ?case by (simp add: probes_inv_def)
next
  case (h_step s s')
  then show ?case by (blast intro: probes_inv_step)
qed

subsection \<open>What the results report\<close>

text \<open>The specification of a reported result: success exactly when the check itself returned no
  error, otherwise an error with its text, hidden unless the registry is verbose.\<close>

fun failure_text :: "finding \<Rightarrow> string option" where
  "failure_text (Got ChOk) = None"
| "failure_text (Got (ChError msg)) = Some msg"
| "failure_text (Got ChPanic) = Some ''internal check panic''"
| "failure_text (Got (ChContext msg)) = Some msg"
| "failure_text Busy = Some ''check already running''"

definition check_report :: "bool \<Rightarrow> Criticality \<Rightarrow> finding \<Rightarrow> CheckResult" where
  "check_report verbose c f =
     \<lparr>cr_Status = (if failure_text f = None then ''ok'' else ''error''),
      cr_Error = (case failure_text f of
         None \<Rightarrow> [] | Some t \<Rightarrow> if verbose \<or> t = [] then t else ''redacted''),
      cr_Criticality = (case c of Critical \<Rightarrow> ''critical'' | Informational \<Rightarrow> ''informational'')\<rparr>"

lemma check_report_results:
  "already_running c = check_report True c Busy"
  "check_result c out = check_report True c (Got out)"
  "redact v (check_report True c f) = check_report v c f"
  by (auto simp: already_running_def check_result_def check_report_def redact_def criticalityString_def
      split: check_outcome.split Criticality.split option.split)

text \<open>Every result on its way, and every result read, is the report of what its goroutine found;
  what a goroutine received is the outcome its check sent or the end of the context.\<close>

definition found_by :: "(nat \<times> string \<rightharpoonup> finding) \<Rightarrow> nat \<Rightarrow> 'c probe \<Rightarrow> bool" where
  "found_by got i p \<longleftrightarrow>
     (\<forall>n res. (n, res) \<in> set (pb_chan p) \<longrightarrow>
        (\<exists>f. got (i, n) = Some f \<and> res = check_report True (snap_criticality p n) f)) \<and>
     (\<forall>n res. pb_checks p n = Some res \<longrightarrow>
        (\<exists>f. got (i, n) = Some f \<and> res = check_report (pb_verbose p) (snap_criticality p n) f)) \<and>
     (\<forall>n out. got (i, n) = Some (Got out) \<longrightarrow> (n, out) \<in> set (pb_buf p) \<or> (\<exists>m. out = ChContext m))"

definition found_inv :: "'c health_sys \<Rightarrow> bool" where
  "found_inv s \<longleftrightarrow> (\<forall>i p. hs_probes s i = Some p \<longrightarrow> found_by (hs_got s) i p) \<and>
     (\<forall>i n. hs_probes s i = None \<longrightarrow> hs_got s (i, n) = None)"

lemma found_invD: "found_inv s \<Longrightarrow> hs_probes s i = Some p \<Longrightarrow> found_by (hs_got s) i p"
  by (simp add: found_inv_def)

lemma found_inv_upd:
  assumes "found_inv s" "found_by got i q" "hs_probes s' = (hs_probes s)(i \<mapsto> q)" "hs_got s' = got"
    and "\<And>j n. j \<noteq> i \<Longrightarrow> got (j, n) = hs_got s (j, n)"
  shows "found_inv s'"
  using assms by (auto simp: found_inv_def found_by_def)

text \<open>A goroutine reports once: what it found is new, and its result goes to the channel.\<close>

lemma found_by_report:
  assumes inv: "found_by got i p" and p: "probe_inv p" and n: "name \<in> set (pb_todo p) \<union> set (pb_wait p)"
    and q: "pb_snap q = pb_snap p" "pb_verbose q = pb_verbose p" "pb_checks q = pb_checks p" "pb_buf q = pb_buf p"
      "pb_chan q = (name, check_report True (snap_criticality p name) f) # pb_chan p"
    and f: "f = Busy \<or> (\<exists>out. f = Got out \<and> ((name, out) \<in> set (pb_buf p) \<or> (\<exists>m. out = ChContext m)))"
  shows "found_by (got((i, name) \<mapsto> f)) i q"
proof -
  have "name \<notin> fst ` set (pb_chan p)" "pb_checks p name = None"
    using p n unfolding probe_inv_def by auto
  moreover have "snap_criticality q k = snap_criticality p k" for k by (simp add: snap_criticality_def q)
  ultimately show ?thesis using inv f unfolding found_by_def q by (auto simp: image_iff)
qed

lemma found_by_collect:
  assumes "found_by got i p" "(name, res) \<in> set (pb_chan p)" "probe_collect p name res r = (p', r')"
  shows "found_by got i p'"
proof -
  have p': "p' = p\<lparr>pb_chan := remove1 (name, res) (pb_chan p),
        pb_checks := (pb_checks p)(name \<mapsto> redact (pb_verbose p) res), pb_ready := pb_ready p'\<rparr>"
    using assms(3) by (auto simp: probe_collect_def)
  have cr: "snap_criticality p' k = snap_criticality p k" for k by (subst p') (simp add: snap_criticality_def)
  have sel: "set (pb_chan p') \<subseteq> set (pb_chan p)" "pb_checks p' = (pb_checks p)(name \<mapsto> redact (pb_verbose p) res)"
    "pb_verbose p' = pb_verbose p" "pb_buf p' = pb_buf p"
    by (subst p', simp add: set_remove1_subset)+
  obtain f where f: "got (i, name) = Some f" "res = check_report True (snap_criticality p name) f"
    using assms(1,2) unfolding found_by_def by blast
  have "\<exists>f. got (i, n) = Some f \<and> r = check_report (pb_verbose p) (snap_criticality p n) f"
    if "pb_checks p' n = Some r" for n r
    using that f assms(1) unfolding sel(2) found_by_def by (cases "n = name") (auto simp: check_report_results(3))
  then show ?thesis using assms(1) sel(1) unfolding found_by_def cr sel(3,4) by blast
qed

lemma found_inv_step: "health_step s s' \<Longrightarrow> probes_inv s \<Longrightarrow> found_inv s \<Longrightarrow> found_inv s'"
proof (induction rule: health_step.induct)
  case (h_probe s i names)
  then have "found_by (hs_got s) i (probe_start (hs_reg s) names)"
    by (simp add: found_by_def found_inv_def probe_start_def)
  from h_probe.prems(2) this show ?case by (rule found_inv_upd) simp_all
next
  case (h_busy s i p name)
  have "found_by ((hs_got s)((i, name) \<mapsto> Busy)) i (p\<lparr>pb_todo := remove1 name (pb_todo p),
        pb_chan := (name, already_running (snap_criticality p name)) # pb_chan p\<rparr>)"
    by (rule found_by_report [OF found_invD [OF h_busy.prems(2) h_busy.hyps(1)] probes_invD [OF h_busy.prems(1) h_busy.hyps(1)]])
       (use h_busy.hyps(2) in \<open>simp_all add: check_report_results(1)\<close>)
  from h_busy.prems(2) this show ?case by (rule found_inv_upd) simp_all
next
  case (h_begin s i p name)
  have "found_by (hs_got s) i (p\<lparr>pb_todo := remove1 name (pb_todo p), pb_wait := name # pb_wait p\<rparr>)"
    using found_invD [OF h_begin.prems(2) h_begin.hyps(1)] by (simp add: found_by_def snap_criticality_def)
  from h_begin.prems(2) this show ?case by (rule found_inv_upd) simp_all
next
  case (h_finish s i p name out)
  have "found_by (hs_got s) i (p\<lparr>pb_buf := (name, out) # pb_buf p\<rparr>)"
    using found_invD [OF h_finish.prems(2) h_finish.hyps(1)] by (auto simp: found_by_def snap_criticality_def)
  from h_finish.prems(2) this show ?case by (rule found_inv_upd) simp_all
next
  case (h_receive s i p name out)
  have "found_by ((hs_got s)((i, name) \<mapsto> Got out)) i (p\<lparr>pb_wait := remove1 name (pb_wait p),
        pb_chan := (name, check_result (snap_criticality p name) out) # pb_chan p\<rparr>)"
    by (rule found_by_report [OF found_invD [OF h_receive.prems(2) h_receive.hyps(1)] probes_invD [OF h_receive.prems(1) h_receive.hyps(1)]])
       (use h_receive.hyps(2,3) in \<open>simp_all add: check_report_results(2)\<close>)
  from h_receive.prems(2) this show ?case by (rule found_inv_upd) simp_all
next
  case (h_collect s i p name res p' r')
  have "found_by (hs_got s) i p'"
    by (rule found_by_collect [OF found_invD [OF h_collect.prems(2) h_collect.hyps(1)] h_collect.hyps(2,3)])
  from h_collect.prems(2) this show ?case by (rule found_inv_upd) simp_all
qed (simp_all add: found_inv_def)

lemma health_reach_found: "health_reach s \<Longrightarrow> found_inv s"
proof (induction rule: health_reach.induct)
  case h_init
  show ?case by (simp add: found_inv_def)
next
  case (h_step s s')
  then show ?case by (blast intro: found_inv_step health_reach_probes)
qed

subsection \<open>Properties\<close>

text \<open>A run with one registered check and one request, which fails.\<close>

definition hd_entry :: "unit entry" where
  "hd_entry = \<lparr>en_check = (), en_criticality = Critical, en_generation = 1\<rparr>"

definition hd_reg :: "unit health_reg" where
  "hd_reg = AddWithCriticality health_NewRegistry ''db'' (Some ()) Critical"

definition hd1 :: "unit health_sys" where
  "hd1 = \<lparr>hs_reg = hd_reg, hs_probes = [0 \<mapsto> probe_start hd_reg [''db'']], hs_live = [], hs_sent = [], hs_from = Map.empty,
     hs_got = Map.empty\<rparr>"

definition hd2 :: "unit health_sys" where
  "hd2 = hd1\<lparr>hs_reg := hd_reg\<lparr>hr_running := {''db''}\<rparr>,
     hs_probes := [0 \<mapsto> (probe_start hd_reg [''db''])\<lparr>pb_todo := [], pb_wait := [''db'']\<rparr>],
     hs_live := [(0, ''db'')]\<rparr>"

definition hd_res :: CheckResult where
  "hd_res = check_result Critical (ChContext ''context deadline exceeded'')"

definition hd3 :: "unit health_sys" where
  "hd3 = hd2\<lparr>hs_probes := [0 \<mapsto> (probe_start hd_reg [''db''])\<lparr>pb_todo := [], pb_chan := [(''db'', hd_res)]\<rparr>],
     hs_got := [(0, ''db'') \<mapsto> Got (ChContext ''context deadline exceeded'')]\<rparr>"

definition hd4 :: "unit health_sys" where
  "hd4 = hd3\<lparr>hs_reg := (hs_reg hd3)\<lparr>hr_last := [''db'' \<mapsto> hd_res]\<rparr>,
     hs_probes := [0 \<mapsto> (probe_start hd_reg [''db''])\<lparr>pb_todo := [],
        pb_checks := [''db'' \<mapsto> redact False hd_res], pb_ready := False\<rparr>],
     hs_from := [''db'' \<mapsto> hd_entry]\<rparr>"

lemma hd_reg_sel: "hr_checks hd_reg = [''db'' \<mapsto> hd_entry]" "hr_verbose hd_reg = False" "hr_running hd_reg = {}"
  "hr_last hd_reg = Map.empty"
  by (simp_all add: hd_reg_def AddWithCriticality_def health_NewRegistry_def hd_entry_def fun_eq_iff)

lemma hd1_reach: "health_reach hd1"
proof -
  let ?s = "\<lparr>hs_reg = health_NewRegistry :: unit health_reg, hs_probes = Map.empty, hs_live = [], hs_sent = [], hs_from = Map.empty,
     hs_got = Map.empty\<rparr>"
  have "health_reach (?s\<lparr>hs_reg := hd_reg\<rparr>)"
    using health_reach.h_step [OF health_reach.h_init
        health_step.h_add [of ?s "''db''" "Some ()" Critical]]
    by (simp add: hd_reg_def)
  moreover have "health_step (?s\<lparr>hs_reg := hd_reg\<rparr>) ((?s\<lparr>hs_reg := hd_reg\<rparr>)
      \<lparr>hs_probes := (hs_probes (?s\<lparr>hs_reg := hd_reg\<rparr>))(0 \<mapsto> probe_start (hs_reg (?s\<lparr>hs_reg := hd_reg\<rparr>)) [''db''])\<rparr>)"
    by (rule health_step.h_probe) (simp_all add: hd_reg_sel)
  ultimately show ?thesis using health_reach.h_step by (fastforce simp: hd1_def)
qed

lemma hd2_reach: "health_reach hd2"
proof (rule health_reach.h_step [OF hd1_reach])
  show "health_step hd1 hd2"
    using health_step.h_begin [of hd1 0 "probe_start hd_reg [''db'']" "''db''"]
    by (simp add: hd1_def hd2_def probe_start_def hd_reg_sel)
qed

lemma hd3_reach: "health_reach hd3"
proof (rule health_reach.h_step [OF hd2_reach])
  show "health_step hd2 hd3"
    using health_step.h_receive [of hd2 0 "(probe_start hd_reg [''db''])\<lparr>pb_todo := [], pb_wait := [''db'']\<rparr>"
        "''db''" "ChContext ''context deadline exceeded''"]
    by (simp add: hd1_def hd2_def hd3_def probe_start_def hd_res_def snap_criticality_def hd_reg_sel hd_entry_def)
qed

lemma hd4_reach: "health_reach hd4"
proof (rule health_reach.h_step [OF hd3_reach])
  let ?p = "(probe_start hd_reg [''db''])\<lparr>pb_todo := [], pb_chan := [(''db'', hd_res)]\<rparr>"
  have c: "probe_collect ?p ''db'' hd_res (hs_reg hd3) =
      ((probe_start hd_reg [''db''])\<lparr>pb_todo := [], pb_checks := [''db'' \<mapsto> redact False hd_res], pb_ready := False\<rparr>,
       (hs_reg hd3)\<lparr>hr_last := [''db'' \<mapsto> hd_res]\<rparr>)"
    by (simp add: probe_collect_def probe_start_def hd3_def hd2_def hd1_def hd_reg_sel recordResult_def
        snap_criticality_def hd_entry_def hd_res_def check_result_def)
  show "health_step hd3 hd4"
    using health_step.h_collect [of hd3 0 ?p "''db''" hd_res, OF _ _ c]
    by (simp add: hd4_def hd3_def hd2_def hd1_def probe_start_def hd_reg_sel hd_entry_def)
qed

text \<open>C26: When a readiness request has read all its results, it answers for exactly the checks that
  were registered when it began, and for each of them it reports what its goroutine found:
  \<open>ok\<close> exactly when the check ran for this request and returned no error, otherwise \<open>error\<close>,
  for the error it returned, its panic, the end of the context while waiting for it, or because
  an execution of that name was still in the running set. It answers 503 if and only if one of
  these four happened to a check that was registered as critical, and without verbose mode no
  error text other than the redaction leaves the service.\<close>

theorem health_readiness:
  assumes "health_reach s" and "hs_probes s i = Some p" and "probe_done p"
    and "probe_response p = (status, state, checks)"
  shows "dom checks = dom (pb_snap p) \<and> status \<in> {200, 503} \<and> (state = ''ok'' \<longleftrightarrow> status = 200) \<and>
    (\<forall>n e. pb_snap p n = Some e \<longrightarrow> (\<exists>f. hs_got s (i, n) = Some f \<and>
       (\<forall>out. f = Got out \<longrightarrow> (n, out) \<in> set (pb_buf p) \<or> (\<exists>m. out = ChContext m)) \<and>
       checks n = Some (check_report (pb_verbose p) (en_criticality e) f))) \<and>
    (status = 503 \<longleftrightarrow> (\<exists>n e. pb_snap p n = Some e \<and> en_criticality e = Critical \<and> hs_got s (i, n) \<noteq> Some (Got ChOk))) \<and>
    (\<not> pb_verbose p \<longrightarrow> (\<forall>n r. checks n = Some r \<longrightarrow> cr_Error r \<in> {[], ''redacted''}))"
proof -
  have inv: "probe_inv p" using health_reach_probes [OF assms(1)] assms(2) by (rule probes_invD)
  have found: "found_by (hs_got s) i p" using health_reach_found [OF assms(1)] assms(2) by (rule found_invD)
  have c: "checks = pb_checks p" "status = (if pb_ready p then 200 else 503)" "state = (if pb_ready p then ''ok'' else ''not_ready'')"
    using assms(4) by (auto simp: probe_response_def split: if_splits)
  have d: "dom (pb_checks p) = dom (pb_snap p)" using inv assms(3) by (simp add: probe_inv_def probe_done_def)
  have rep: "\<exists>f. hs_got s (i, n) = Some f \<and>
       (\<forall>out. f = Got out \<longrightarrow> (n, out) \<in> set (pb_buf p) \<or> (\<exists>m. out = ChContext m)) \<and>
       pb_checks p n = Some (check_report (pb_verbose p) (en_criticality e) f)" if e: "pb_snap p n = Some e" for n e
  proof -
    obtain r where r: "pb_checks p n = Some r" using d e by blast
    have "snap_criticality p n = en_criticality e" using e by (simp add: snap_criticality_def)
    with r found show ?thesis unfolding found_by_def by fastforce
  qed
  have err: "cr_Status (check_report v k f) = ''error'' \<longleftrightarrow> f \<noteq> Got ChOk" for v k f
    by (cases f rule: failure_text.cases) (simp_all add: check_report_def)
  have "\<not> pb_ready p \<longleftrightarrow> (\<exists>n r. pb_checks p n = Some r \<and> cr_Status r = ''error'' \<and> snap_criticality p n = Critical)"
    using inv unfolding probe_inv_def by blast
  also have "\<dots> \<longleftrightarrow> (\<exists>n e. pb_snap p n = Some e \<and> (\<exists>r. pb_checks p n = Some r \<and> cr_Status r = ''error'') \<and>
       en_criticality e = Critical)"
    using d by (fastforce simp: snap_criticality_def dom_def split: option.splits)
  also have "\<dots> \<longleftrightarrow> (\<exists>n e. pb_snap p n = Some e \<and> en_criticality e = Critical \<and> hs_got s (i, n) \<noteq> Some (Got ChOk))"
  proof -
    have "(\<exists>r. pb_checks p n = Some r \<and> cr_Status r = ''error'') \<longleftrightarrow> hs_got s (i, n) \<noteq> Some (Got ChOk)"
      if "pb_snap p n = Some e" for n e using rep [OF that] by (auto simp: err)
    then show ?thesis by blast
  qed
  finally have blocked: "\<not> pb_ready p \<longleftrightarrow>
      (\<exists>n e. pb_snap p n = Some e \<and> en_criticality e = Critical \<and> hs_got s (i, n) \<noteq> Some (Got ChOk))" .
  have "\<not> pb_verbose p \<longrightarrow> (\<forall>n r. pb_checks p n = Some r \<longrightarrow> cr_Error r \<in> {[], ''redacted''})"
    using inv unfolding probe_inv_def by blast
  with blocked show ?thesis using d rep unfolding c by auto
qed

theorem health_readiness_witness:
  "\<exists>p. hs_probes hd4 0 = Some p \<and> fst (probe_response p) = 503"
proof -
  let ?p = "(probe_start hd_reg [''db''])\<lparr>pb_todo := [], pb_checks := [''db'' \<mapsto> redact False hd_res], pb_ready := False\<rparr>"
  have p: "hs_probes hd4 0 = Some ?p" by (simp add: hd4_def)
  have "probe_done ?p" by (simp add: probe_done_def probe_start_def)
  moreover obtain st state ch where r: "probe_response ?p = (st, state, ch)" by (cases "probe_response ?p")
  ultimately have "st = 503 \<longleftrightarrow> (\<exists>n e. pb_snap ?p n = Some e \<and> en_criticality e = Critical \<and> hs_got hd4 (0, n) \<noteq> Some (Got ChOk))"
    using health_readiness [OF hd4_reach p] by blast
  moreover have "pb_snap ?p ''db'' = Some hd_entry" by (simp add: probe_start_def hd_reg_sel)
  moreover have "hs_got hd4 (0, ''db'') \<noteq> Some (Got ChOk)" by (simp add: hd4_def hd3_def)
  moreover have "en_criticality hd_entry = Critical" by (simp add: hd_entry_def)
  ultimately have "st = 503" by blast
  with p r show ?thesis by auto
qed

text \<open>However many requests probe at the same time, a check never runs twice at once, not even
  when an earlier request gave up waiting for it or when it was replaced meanwhile.\<close>

theorem health_single_execution:
  assumes "health_reach s"
  shows "length (filter (\<lambda>x. snd x = name) (hs_live s)) \<le> 1"
proof -
  have d: "distinct (map snd (hs_live s))" using health_reach_inv [OF assms] by (simp add: live_inv_def)
  have "length (filter (\<lambda>x. snd x = name) (hs_live s)) = length (filter ((=) name) (map snd (hs_live s)))"
    by (simp add: filter_map comp_def eq_commute)
  also have "\<dots> \<le> 1" using d by (rule distinct_filter_eq)
  finally show ?thesis .
qed

theorem health_single_execution_witness: "length (filter (\<lambda>x. snd x = ''db'') (hs_live hd2)) \<le> 1"
  by (rule health_single_execution [OF hd2_reach])

text \<open>The last recorded result of a name is always one of the check that is registered under the
  name now: a request that began before the check was replaced or removed cannot record its
  outcome for the new one.\<close>

theorem health_results_current:
  assumes "health_reach s" and "health_Snapshot (hs_reg s) name = Some res"
  shows "hs_from s name \<noteq> None \<and> hs_from s name = hr_checks (hs_reg s) name"
  using health_reach_inv [OF assms(1)] assms(2) unfolding gen_inv_def health_Snapshot_def by force

theorem health_results_current_witness: "hs_from hd4 ''db'' = hr_checks (hs_reg hd4) ''db''"
  using health_results_current [OF hd4_reach, of "''db''" hd_res] by (simp add: health_Snapshot_def hd4_def)

subsection \<open>Logs of transitions\<close>

text \<open>The results of one check in the order they are recorded, with the records they log.\<close>

primrec record_all ::
  "'c health_reg \<Rightarrow> string \<Rightarrow> nat \<Rightarrow> CheckResult list \<Rightarrow> 'c health_reg \<times> health_log list" where
  "record_all r name g [] = (r, [])"
| "record_all r name g (res # results) =
     (let (r1, entry) = recordResult r name g res; (r2, logs) = record_all r1 name g results
      in (r2, (case entry of None \<Rightarrow> [] | Some l \<Rightarrow> [l]) @ logs))"

definition transitions :: "string \<Rightarrow> string list \<Rightarrow> health_log list" where
  "transitions name sts =
     map (\<lambda>(old, new). transition_log name old new) (filter (\<lambda>(old, new). old \<noteq> new) (zip sts (tl sts)))"

lemma transitions_Cons:
  "transitions name (a # b # sts) =
     (if a = b then [] else [transition_log name a b]) @ transitions name (b # sts)"
  by (simp add: transitions_def)

lemma record_all_logs:
  assumes "hr_checks r name = Some e" and "en_generation e = g" and "hr_logger r"
  shows "snd (record_all r name g results) =
    transitions name ((case hr_last r name of None \<Rightarrow> [] | Some p \<Rightarrow> [cr_Status p]) @ map cr_Status results)"
  using assms(1,3)
proof (induction results arbitrary: r)
  case Nil
  then show ?case by (simp add: transitions_def split: option.split)
next
  case (Cons res results)
  define r1 where "r1 = r\<lparr>hr_last := (hr_last r)(name \<mapsto> res)\<rparr>"
  have rec: "recordResult r name g res = (r1, case hr_last r name of None \<Rightarrow> None | Some p \<Rightarrow>
      if cr_Status p = cr_Status res then None else Some (transition_log name (cr_Status p) (cr_Status res)))"
    using Cons.prems assms(2) by (simp add: recordResult_def r1_def cong: option.case_cong)
  have "snd (record_all r1 name g results) = transitions name (cr_Status res # map cr_Status results)"
    using Cons.IH [of r1] Cons.prems by (simp add: r1_def)
  then show ?case
    by (simp add: rec case_prod_beta Let_def transitions_Cons split: option.split)
qed

text \<open>Health logging is transition-only: after a check is registered, whatever sequence of results is
  recorded for it, one record is logged for each change of status and for nothing else, a recovery
  or a failure according to the new status.\<close>

theorem health_logs_transitions:
  assumes "name \<noteq> []" and "hr_logger r"
  shows "snd (record_all (AddWithCriticality r name (Some check) c) name (Suc (hr_next r)) results) =
    transitions name (map cr_Status results)"
  using assms record_all_logs [of "AddWithCriticality r name (Some check) c" name]
  by (simp add: AddWithCriticality_def)

theorem health_logs_transitions_witness:
  "snd (record_all (health_Add (health_SetLogger health_NewRegistry True) ''db'' (Some ())) ''db'' 1
     (map (check_result Critical) [ChOk, ChError ''x'', ChPanic, ChOk])) =
   [CheckUnhealthy ''db'' ''ok'' ''error'', CheckRecovered ''db'' ''error'' ''ok'']"
  using health_logs_transitions [of "''db''" "health_SetLogger health_NewRegistry True" "()" Critical
      "map (check_result Critical) [ChOk, ChError ''x'', ChPanic, ChOk]"]
  by (simp add: health_Add_def health_SetLogger_def health_NewRegistry_def check_result_def transitions_def
      transition_log_def)

subsection \<open>A request right after a successful one\<close>

definition ok_res :: CheckResult where
  "ok_res = check_result Critical ChOk"

definition answered :: "unit probe" where
  "answered = (probe_start hd_reg [''db''])\<lparr>pb_todo := [], pb_buf := [(''db'', ChOk)], pb_checks := [''db'' \<mapsto> ok_res]\<rparr>"

text \<open>The first request is answered; the goroutine of its check has sent the outcome and not yet
  taken the name from the running set.\<close>

definition sq1 :: "unit health_sys" where
  "sq1 = \<lparr>hs_reg = hd_reg\<lparr>hr_running := {''db''}, hr_last := [''db'' \<mapsto> ok_res]\<rparr>, hs_probes = [0 \<mapsto> answered],
     hs_live = [], hs_sent = [(0, ''db'')], hs_from = [''db'' \<mapsto> hd_entry],
     hs_got = [(0, ''db'') \<mapsto> Got ChOk]\<rparr>"

definition refused :: "unit probe" where
  "refused = (probe_start (hs_reg sq1) [''db''])\<lparr>pb_todo := [],
     pb_checks := [''db'' \<mapsto> redact False (already_running Critical)], pb_ready := False\<rparr>"

lemma sq1_reach: "health_reach sq1"
proof -
  let ?p = "probe_start hd_reg [''db'']"
  let ?a = "hd2\<lparr>hs_probes := [0 \<mapsto> ?p\<lparr>pb_todo := [], pb_wait := [''db''], pb_buf := [(''db'', ChOk)]\<rparr>],
      hs_live := [], hs_sent := [(0, ''db'')]\<rparr>"
  have "health_step hd2 ?a"
    using health_step.h_finish [of hd2 0 "?p\<lparr>pb_todo := [], pb_wait := [''db'']\<rparr>" "''db''" ChOk]
    by (simp add: hd2_def hd1_def probe_start_def)
  with hd2_reach have a: "health_reach ?a" by (rule health_reach.h_step)
  let ?q = "?p\<lparr>pb_todo := [], pb_buf := [(''db'', ChOk)], pb_chan := [(''db'', ok_res)]\<rparr>"
  let ?b = "?a\<lparr>hs_probes := [0 \<mapsto> ?q], hs_got := [(0, ''db'') \<mapsto> Got ChOk]\<rparr>"
  have "health_step ?a ?b"
    using health_step.h_receive [of ?a 0 "?p\<lparr>pb_todo := [], pb_wait := [''db''], pb_buf := [(''db'', ChOk)]\<rparr>" "''db''" ChOk]
    by (simp add: hd2_def hd1_def probe_start_def ok_res_def snap_criticality_def hd_reg_sel hd_entry_def)
  with a have b: "health_reach ?b" by (rule health_reach.h_step)
  have c: "probe_collect ?q ''db'' ok_res (hs_reg ?b) = (answered, hs_reg sq1)"
    by (simp add: probe_collect_def answered_def probe_start_def sq1_def hd2_def hd1_def hd_reg_sel recordResult_def
        snap_criticality_def hd_entry_def ok_res_def check_result_def redact_def)
  have "health_step ?b sq1"
    using health_step.h_collect [of ?b 0 ?q "''db''" ok_res, OF _ _ c]
    by (simp add: sq1_def hd2_def hd1_def probe_start_def hd_reg_sel hd_entry_def)
  with b show ?thesis by (rule health_reach.h_step)
qed

lemma sq1_refused: "\<exists>s. health_step\<^sup>*\<^sup>* sq1 s \<and> hs_probes s 1 = Some refused"
proof -
  let ?r = "hs_reg sq1" and ?p = "probe_start (hs_reg sq1) [''db'']"
  let ?a = "sq1\<lparr>hs_probes := (hs_probes sq1)(1 \<mapsto> ?p)\<rparr>"
  have a: "health_step sq1 ?a"
    by (rule health_step.h_probe) (simp_all add: sq1_def hd_reg_sel)
  let ?q = "?p\<lparr>pb_todo := [], pb_chan := [(''db'', already_running Critical)]\<rparr>"
  let ?b = "sq1\<lparr>hs_probes := (hs_probes sq1)(1 \<mapsto> ?q), hs_got := (hs_got sq1)((1, ''db'') \<mapsto> Busy)\<rparr>"
  have b: "health_step ?a ?b"
    using health_step.h_busy [of ?a 1 ?p "''db''"]
    by (simp add: sq1_def probe_start_def snap_criticality_def hd_reg_sel hd_entry_def)
  have "fst (probe_collect ?q ''db'' (already_running Critical) (hs_reg ?b)) = refused"
    by (simp add: probe_collect_def refused_def probe_start_def sq1_def hd_reg_sel
        snap_criticality_def hd_entry_def already_running_def)
  then obtain r' where c: "probe_collect ?q ''db'' (already_running Critical) (hs_reg ?b) = (refused, r')"
    by (metis prod.collapse)
  have "hs_probes ?b 1 = Some ?q" by simp
  from health_step.h_collect [OF this _ c] obtain s where "health_step ?b s" "hs_probes s 1 = Some refused" by force
  moreover have "health_step\<^sup>*\<^sup>* sq1 ?b"
    by (rule converse_rtranclp_into_rtranclp [where r = health_step, OF a r_into_rtranclp [where r = health_step, OF b]])
  ultimately show ?thesis by (blast intro: rtranclp.rtrancl_into_rtrancl)
qed

text \<open>C27: A readiness request that begins after a successful one has been answered can still be answered
  503: the check sends its outcome before its goroutine takes the name from the running set, so
  the next request can find the name there and report \<open>check already running\<close> for a critical
  check that is not executing and whose last outcome was a success.
\<close>

theorem health_busy_after_success:
  "\<exists>(s :: unit health_sys) s' first second.
     health_reach s \<and> hs_live s = [] \<and> hs_probes s = [0 \<mapsto> first] \<and> probe_done first \<and> fst (probe_response first) = 200 \<and>
     health_step\<^sup>*\<^sup>* s s' \<and> hs_probes s' 1 = Some second \<and> probe_done second \<and> fst (probe_response second) = 503"
proof -
  obtain s where "health_step\<^sup>*\<^sup>* sq1 s" "hs_probes s 1 = Some refused" using sq1_refused by blast
  moreover have "probe_done answered" "fst (probe_response answered) = 200" "probe_done refused"
    "fst (probe_response refused) = 503"
    by (simp_all add: answered_def refused_def probe_done_def probe_response_def probe_start_def)
  moreover have "hs_live sq1 = []" "hs_probes sq1 = [0 \<mapsto> answered]" by (simp_all add: sq1_def)
  ultimately show ?thesis using sq1_reach by blast
qed

end
