(* ===== verification/Schema.thy ===== *)
theory Schema
  imports GoStrings "HOL-Library.AList" "HOL-Library.Multiset" "HOL-Library.List_Lexorder" "HOL-Library.Char_ord"
begin

text \<open>
  Schema snapshots and drift detection (\<open>schema/schema.go\<close>): capturing the catalog rows into a
  snapshot, reading stored snapshots of both versions, and comparing two snapshots. A Go map
  is an association list with distinct keys. The language leaves the order of \<open>range\<close> over
  a map open, so the comparison takes it as an argument: \<open>ord\<close> gives, for each place of the
  code that iterates, the order of the keys. The rows a catalog query returns and what
  \<open>encoding/json\<close> reads from a text are arguments too.
\<close>

subsection \<open>Snapshots\<close>

record Sequence =
  sq_Name :: string
  sq_DataType :: string
  sq_Start :: string
  sq_MinValue :: string
  sq_MaxValue :: string
  sq_Increment :: string
  sq_Cycle :: bool
  sq_Cache :: string

record Column =
  co_Name :: string
  co_DataType :: string
  co_IsNullable :: bool
  co_Default :: "string option"
  co_Position :: int

record Index =
  ix_Name :: string
  ix_Unique :: bool
  ix_Primary :: bool
  ix_Columns :: "string list"
  ix_Definition :: string

record Constraint =
  cn_Name :: string
  cn_Type :: string
  cn_Definition :: string

record Table =
  tb_Name :: string
  tb_Columns :: "Column list"
  tb_Indexes :: "Index list"
  tb_Constraints :: "Constraint list"

text \<open>The tables are pointers in the code, \<^term>\<open>None\<close> being nil.\<close>

record Snapshot =
  sn_SnapshotVersion :: int
  sn_CapturedAt :: int
  sn_Tables :: "(string \<times> Table option) list"
  sn_Enums :: "(string \<times> string list) list"
  sn_Sequences :: "Sequence list"

subsection \<open>Capture\<close>

definition ignoreTable :: "string \<Rightarrow> bool" where
  "ignoreTable name \<longleftrightarrow> name = ''_devengine_migrations'' \<or> prefix ''pg_'' name \<or>
     prefix ''information_schema'' name"

text \<open>
  The answer to a query: an error, or the rows it yields one by one (each scanned or failing
  to scan) and the error, if any, that ended the iteration (\<open>rows.Err()\<close>).
\<close>

type_synonym 'r answer = "goerr + (goerr + 'r) list \<times> goerr option"

fun each_row :: "('r \<Rightarrow> 's \<Rightarrow> 's) \<Rightarrow> (goerr + 'r) list \<Rightarrow> 's \<Rightarrow> goerr + 's" where
  "each_row f [] st = Inr st"
| "each_row f (Inl err # rows) st = Inl err"
| "each_row f (Inr row # rows) st = each_row f rows (f row st)"

definition read_rows :: "('r \<Rightarrow> 's \<Rightarrow> 's) \<Rightarrow> 'r answer \<Rightarrow> 's \<Rightarrow> goerr + 's" where
  "read_rows f ans st =
     (case ans of
        Inl err \<Rightarrow> Inl err
      | Inr (rows, end_err) \<Rightarrow>
          (case each_row f rows st of
             Inl err \<Rightarrow> Inl err
           | Inr st' \<Rightarrow> (case end_err of Some err \<Rightarrow> Inl err | None \<Rightarrow> Inr st')))"

definition empty_table :: "string \<Rightarrow> Table" where
  "empty_table name = \<lparr>tb_Name = name, tb_Columns = [], tb_Indexes = [], tb_Constraints = []\<rparr>"

text \<open>
  The step the three table captures share: skip an ignored table, find or create the entry,
  and change the table it points to. Every pointer in a captured map comes from this step.
\<close>

definition on_table :: "string \<Rightarrow> (Table \<Rightarrow> Table) \<Rightarrow> Snapshot \<Rightarrow> Snapshot" where
  "on_table tableName f snap =
     (if ignoreTable tableName then snap
      else
        (let tbl = (case map_of (sn_Tables snap) tableName of
                      Some (Some tbl) \<Rightarrow> tbl
                    | _ \<Rightarrow> empty_table tableName)
         in snap\<lparr>sn_Tables := AList.update tableName (Some (f tbl)) (sn_Tables snap)\<rparr>))"

definition captureColumns :: "(string \<times> Column) answer \<Rightarrow> Snapshot \<Rightarrow> goerr + Snapshot" where
  "captureColumns =
     read_rows (\<lambda>(tableName, c). on_table tableName (\<lambda>tbl. tbl\<lparr>tb_Columns := tb_Columns tbl @ [c]\<rparr>))"

definition captureIndexes :: "(string \<times> Index) answer \<Rightarrow> Snapshot \<Rightarrow> goerr + Snapshot" where
  "captureIndexes =
     read_rows (\<lambda>(tableName, i). on_table tableName (\<lambda>tbl. tbl\<lparr>tb_Indexes := tb_Indexes tbl @ [i]\<rparr>))"

definition captureConstraints :: "(string \<times> Constraint) answer \<Rightarrow> Snapshot \<Rightarrow> goerr + Snapshot" where
  "captureConstraints =
     read_rows (\<lambda>(tableName, c).
       on_table tableName (\<lambda>tbl. tbl\<lparr>tb_Constraints := tb_Constraints tbl @ [c]\<rparr>))"

definition add_label :: "string \<times> string \<Rightarrow> (string \<times> string list) list \<Rightarrow> (string \<times> string list) list" where
  "add_label row enums =
     (case row of (typName, label) \<Rightarrow>
        AList.update typName
          ((case map_of enums typName of Some labels \<Rightarrow> labels | None \<Rightarrow> []) @ [label]) enums)"

definition captureEnums :: "(string \<times> string) answer \<Rightarrow> Snapshot \<Rightarrow> goerr + Snapshot" where
  "captureEnums ans snap =
     (case read_rows add_label ans [] of
        Inl err \<Rightarrow> Inl err
      | Inr enums \<Rightarrow> Inr (if length enums > 0 then snap\<lparr>sn_Enums := enums\<rparr> else snap))"

definition captureSequences :: "Sequence answer \<Rightarrow> Snapshot \<Rightarrow> goerr + Snapshot" where
  "captureSequences ans snap =
     (case read_rows (\<lambda>s seqs. seqs @ [s]) ans [] of
        Inl err \<Rightarrow> Inl err
      | Inr seqs \<Rightarrow> Inr (snap\<lparr>sn_Sequences := seqs\<rparr>))"

text \<open>What the catalog answers to the five queries.\<close>

record catalog =
  ct_columns :: "(string \<times> Column) answer"
  ct_indexes :: "(string \<times> Index) answer"
  ct_constraints :: "(string \<times> Constraint) answer"
  ct_enums :: "(string \<times> string) answer"
  ct_sequences :: "Sequence answer"

definition wrap_err :: "string \<Rightarrow> goerr + 'a \<Rightarrow> goerr + 'a" where
  "wrap_err ctx r = (case r of Inl err \<Rightarrow> Inl (ErrWrap ctx [] err) | Inr x \<Rightarrow> Inr x)"

definition and_then :: "goerr + 'a \<Rightarrow> ('a \<Rightarrow> goerr + 'b) \<Rightarrow> goerr + 'b" where
  "and_then r f = (case r of Inl err \<Rightarrow> Inl err | Inr x \<Rightarrow> f x)"

definition schema_Capture :: "int \<Rightarrow> catalog \<Rightarrow> goerr + Snapshot" where
  "schema_Capture now cat =
     and_then (wrap_err ''schema: capture columns: %w'' (captureColumns (ct_columns cat)
        \<lparr>sn_SnapshotVersion = 2, sn_CapturedAt = now, sn_Tables = [], sn_Enums = [], sn_Sequences = []\<rparr>)) (\<lambda>snap.
     and_then (wrap_err ''schema: capture indexes: %w'' (captureIndexes (ct_indexes cat) snap)) (\<lambda>snap.
     and_then (wrap_err ''schema: capture constraints: %w'' (captureConstraints (ct_constraints cat) snap)) (\<lambda>snap.
     and_then (wrap_err ''schema: capture enums: %w'' (captureEnums (ct_enums cat) snap)) (\<lambda>snap.
     wrap_err ''schema: capture sequences: %w'' (captureSequences (ct_sequences cat) snap)))))"

subsection \<open>Stored snapshots\<close>

text \<open>
  What \<open>json.Unmarshal\<close> puts into the local struct: the raw text of \<open>sequences\<close> is empty when
  the field is absent.
\<close>

record raw_snapshot =
  rw_SnapshotVersion :: int
  rw_CapturedAt :: int
  rw_Tables :: "(string \<times> Table option) list"
  rw_Enums :: "(string \<times> string list) list"
  rw_Sequences :: string

record json_reader =
  jn_snapshot :: "string \<Rightarrow> goerr + raw_snapshot"
  jn_sequences :: "string \<Rightarrow> goerr + Sequence list"
  jn_names :: "string \<Rightarrow> goerr + string list"

definition named_sequence :: "string \<Rightarrow> Sequence" where
  "named_sequence name = \<lparr>sq_Name = name, sq_DataType = [], sq_Start = [], sq_MinValue = [],
     sq_MaxValue = [], sq_Increment = [], sq_Cycle = False, sq_Cache = []\<rparr>"

definition UnmarshalSnapshot :: "json_reader \<Rightarrow> string \<Rightarrow> goerr + Snapshot" where
  "UnmarshalSnapshot js data =
     (case jn_snapshot js data of
        Inl err \<Rightarrow> Inl (ErrWrap ''schema: unmarshal snapshot: %w'' [] err)
      | Inr raw \<Rightarrow>
          (let s = \<lparr>sn_SnapshotVersion = (if rw_SnapshotVersion raw = 0 then 1 else rw_SnapshotVersion raw),
                    sn_CapturedAt = rw_CapturedAt raw, sn_Tables = rw_Tables raw,
                    sn_Enums = rw_Enums raw, sn_Sequences = []\<rparr>
           in if length (rw_Sequences raw) > 0 \<and> rw_Sequences raw \<noteq> ''null''
              then (case jn_sequences js (rw_Sequences raw) of
                      Inr seqs \<Rightarrow> Inr (s\<lparr>sn_Sequences := seqs\<rparr>)
                    | Inl err \<Rightarrow>
                        (case jn_names js (rw_Sequences raw) of
                           Inl legacyErr \<Rightarrow> Inl (ErrWrap ''schema: unmarshal sequences: %w'' [] err)
                         | Inr names \<Rightarrow> Inr (s\<lparr>sn_Sequences := map named_sequence names\<rparr>)))
              else Inr s))"

subsection \<open>Drift\<close>

datatype DriftKind =
    DriftTableAdded | DriftTableRemoved
  | DriftColumnAdded | DriftColumnRemoved | DriftColumnChanged
  | DriftIndexAdded | DriftIndexRemoved | DriftIndexChanged
  | DriftConstraintAdded | DriftConstraintRemoved | DriftConstraintChanged
  | DriftSequenceAdded | DriftSequenceRemoved | DriftSequenceChanged
  | DriftEnumChanged

fun drift_kind_text :: "DriftKind \<Rightarrow> string" where
  "drift_kind_text DriftTableAdded = ''table_added''"
| "drift_kind_text DriftTableRemoved = ''table_removed''"
| "drift_kind_text DriftColumnAdded = ''column_added''"
| "drift_kind_text DriftColumnRemoved = ''column_removed''"
| "drift_kind_text DriftColumnChanged = ''column_changed''"
| "drift_kind_text DriftIndexAdded = ''index_added''"
| "drift_kind_text DriftIndexRemoved = ''index_removed''"
| "drift_kind_text DriftIndexChanged = ''index_changed''"
| "drift_kind_text DriftConstraintAdded = ''constraint_added''"
| "drift_kind_text DriftConstraintRemoved = ''constraint_removed''"
| "drift_kind_text DriftConstraintChanged = ''constraint_changed''"
| "drift_kind_text DriftSequenceAdded = ''sequence_added''"
| "drift_kind_text DriftSequenceRemoved = ''sequence_removed''"
| "drift_kind_text DriftSequenceChanged = ''sequence_changed''"
| "drift_kind_text DriftEnumChanged = ''enum_changed''"

record DriftEntry =
  de_Kind :: DriftKind
  de_Table :: string
  de_Object :: string
  de_Detail :: string

record DriftResult =
  dr_HasDrift :: bool
  dr_Entries :: "DriftEntry list"

abbreviation mk_entry :: "DriftKind \<Rightarrow> string \<Rightarrow> string \<Rightarrow> string \<Rightarrow> DriftEntry" where
  "mk_entry k t ob d \<equiv> \<lparr>de_Kind = k, de_Table = t, de_Object = ob, de_Detail = d\<rparr>"

text \<open>A map built by assigning \<open>m[name x] = x\<close> for each element in order.\<close>

definition index_by :: "('a \<Rightarrow> string) \<Rightarrow> 'a list \<Rightarrow> (string \<times> 'a) list" where
  "index_by name xs = fold (\<lambda>x m. AList.update (name x) x m) xs []"

definition indexColumns :: "Column list \<Rightarrow> (string \<times> Column) list" where
  "indexColumns cols = index_by co_Name cols"

text \<open>The order of \<open>range\<close> at a place of the code, for the keys of the map.\<close>

type_synonym range_order = "string list \<Rightarrow> string list \<Rightarrow> string list"

definition range_over :: "range_order \<Rightarrow> string list \<Rightarrow> (string \<times> 'v) list \<Rightarrow> (string \<times> 'v) list" where
  "range_over ord site m =
     List.map_filter (\<lambda>k. map_option (Pair k) (map_of m k)) (ord site (map fst m))"

definition arrow :: string where
  "arrow = [CHR 0xE2, CHR 0x86, CHR 0x92]"

definition bool_text :: "bool \<Rightarrow> string" where
  "bool_text b = (if b then ''true'' else ''false'')"

definition default_text :: "string option \<Rightarrow> string" where
  "default_text d = (case d of Some s \<Rightarrow> s | None \<Rightarrow> [])"

definition column_changed :: "Column \<Rightarrow> Column \<Rightarrow> bool" where
  "column_changed col liveCol \<longleftrightarrow> co_DataType col \<noteq> co_DataType liveCol \<or>
     co_IsNullable col \<noteq> co_IsNullable liveCol \<or>
     default_text (co_Default col) \<noteq> default_text (co_Default liveCol)"

definition column_detail :: "Column \<Rightarrow> Column \<Rightarrow> string" where
  "column_detail col liveCol =
     ''type: '' @ co_DataType col @ arrow @ co_DataType liveCol @
     '' nullable: '' @ bool_text (co_IsNullable col) @ arrow @ bool_text (co_IsNullable liveCol) @
     '' default: '' @ default_text (co_Default col) @ arrow @ default_text (co_Default liveCol)"

text \<open>\<open>None\<close> is the nil-pointer panic of reading a field of a nil table.\<close>

definition diffColumns :: "range_order \<Rightarrow> string \<Rightarrow> Table option \<Rightarrow> Table option \<Rightarrow> DriftEntry list option" where
  "diffColumns ord tableName base live =
     (case (base, live) of
        (Some b, Some l) \<Rightarrow>
          (let baseIdx = indexColumns (tb_Columns b);
               liveIdx = indexColumns (tb_Columns l)
           in Some (
             concat (map (\<lambda>(name, col).
                case map_of baseIdx name of
                  None \<Rightarrow> [mk_entry DriftColumnAdded tableName name (co_DataType col)]
                | Some _ \<Rightarrow> []) (range_over ord [''live columns'', tableName] liveIdx)) @
             concat (map (\<lambda>(name, col).
                case map_of liveIdx name of
                  None \<Rightarrow> [mk_entry DriftColumnRemoved tableName name []]
                | Some liveCol \<Rightarrow>
                    if column_changed col liveCol
                    then [mk_entry DriftColumnChanged tableName name (column_detail col liveCol)]
                    else []) (range_over ord [''base columns'', tableName] baseIdx))))
      | _ \<Rightarrow> None)"

definition diffIndexes :: "range_order \<Rightarrow> string \<Rightarrow> Table option \<Rightarrow> Table option \<Rightarrow> DriftEntry list option" where
  "diffIndexes ord tableName base live =
     (case (base, live) of
        (Some b, Some l) \<Rightarrow>
          (let baseIdx = index_by ix_Name (tb_Indexes b);
               liveIdx = index_by ix_Name (tb_Indexes l)
           in Some (
             concat (map (\<lambda>(name, _).
                case map_of baseIdx name of
                  None \<Rightarrow> [mk_entry DriftIndexAdded tableName name []]
                | Some _ \<Rightarrow> []) (range_over ord [''live indexes'', tableName] liveIdx)) @
             concat (map (\<lambda>(name, col).
                case map_of liveIdx name of
                  None \<Rightarrow> [mk_entry DriftIndexRemoved tableName name []]
                | Some liveCol \<Rightarrow>
                    if ix_Definition col \<noteq> ix_Definition liveCol
                    then [mk_entry DriftIndexChanged tableName name
                            (''def: '' @ ix_Definition col @ arrow @ ix_Definition liveCol)]
                    else []) (range_over ord [''base indexes'', tableName] baseIdx))))
      | _ \<Rightarrow> None)"

definition diffConstraints :: "range_order \<Rightarrow> string \<Rightarrow> Table option \<Rightarrow> Table option \<Rightarrow> DriftEntry list option" where
  "diffConstraints ord tableName base live =
     (case (base, live) of
        (Some b, Some l) \<Rightarrow>
          (let baseCon = index_by cn_Name (tb_Constraints b);
               liveCon = index_by cn_Name (tb_Constraints l)
           in Some (
             concat (map (\<lambda>(name, _).
                case map_of baseCon name of
                  None \<Rightarrow> [mk_entry DriftConstraintAdded tableName name []]
                | Some _ \<Rightarrow> []) (range_over ord [''live constraints'', tableName] liveCon)) @
             concat (map (\<lambda>(name, c).
                case map_of liveCon name of
                  None \<Rightarrow> [mk_entry DriftConstraintRemoved tableName name []]
                | Some liveC \<Rightarrow>
                    if cn_Definition c \<noteq> cn_Definition liveC
                    then [mk_entry DriftConstraintChanged tableName name
                            (''def: '' @ cn_Definition c @ arrow @ cn_Definition liveC)]
                    else []) (range_over ord [''base constraints'', tableName] baseCon))))
      | _ \<Rightarrow> None)"

text \<open>The verb \<open>%+v\<close> on a sequence and \<open>%v\<close> on a list of strings.\<close>

definition sequence_text :: "Sequence \<Rightarrow> string" where
  "sequence_text s =
     ''{Name:'' @ sq_Name s @ '' DataType:'' @ sq_DataType s @ '' Start:'' @ sq_Start s @
     '' MinValue:'' @ sq_MinValue s @ '' MaxValue:'' @ sq_MaxValue s @
     '' Increment:'' @ sq_Increment s @ '' Cycle:'' @ bool_text (sq_Cycle s) @
     '' Cache:'' @ sq_Cache s @ ''}''"

definition strings_text :: "string list \<Rightarrow> string" where
  "strings_text ss = ''['' @ join_with (CHR '' '') ss @ '']''"

definition diffSequences :: "range_order \<Rightarrow> Sequence list \<Rightarrow> Sequence list \<Rightarrow> bool \<Rightarrow> DriftEntry list" where
  "diffSequences ord base live compareConfiguration =
     (let baseMap = index_by sq_Name base;
          liveMap = index_by sq_Name live
      in concat (map (\<lambda>(name, sequence).
            case map_of baseMap name of
              None \<Rightarrow> [mk_entry DriftSequenceAdded [] name []]
            | Some b \<Rightarrow>
                if compareConfiguration \<and> b \<noteq> sequence
                then [mk_entry DriftSequenceChanged [] name
                        (''base='' @ sequence_text b @ '' live='' @ sequence_text sequence)]
                else []) (range_over ord [''live sequences''] liveMap)) @
         concat (map (\<lambda>(name, _).
            case map_of liveMap name of
              None \<Rightarrow> [mk_entry DriftSequenceRemoved [] name []]
            | Some _ \<Rightarrow> []) (range_over ord [''base sequences''] baseMap)))"

definition schema_join :: "string list \<Rightarrow> string" where
  "schema_join ss = join_with (CHR '','') ss"

definition diffEnums :: "range_order \<Rightarrow> (string \<times> string list) list \<Rightarrow> (string \<times> string list) list \<Rightarrow> DriftEntry list" where
  "diffEnums ord base live =
     concat (map (\<lambda>(name, liveVals).
        let baseVals = (case map_of base name of Some vs \<Rightarrow> vs | None \<Rightarrow> [])
        in if map_of base name = None \<or> schema_join baseVals \<noteq> schema_join liveVals
           then [mk_entry DriftEnumChanged [] name
                   (''base='' @ strings_text baseVals @ '' live='' @ strings_text liveVals)]
           else []) (range_over ord [''live enums''] live)) @
     concat (map (\<lambda>(name, _).
        case map_of live name of
          None \<Rightarrow> [mk_entry DriftEnumChanged [] name ''removed'']
        | Some _ \<Rightarrow> []) (range_over ord [''base enums''] base))"

definition drift_key :: "DriftEntry \<Rightarrow> string" where
  "drift_key e = de_Table e @ ''/'' @ drift_kind_text (de_Kind e) @ ''/'' @ de_Object e"

text \<open>The part of the second loop for one table of the baseline; \<open>None\<close> when it panics.\<close>

definition compare_table ::
  "range_order \<Rightarrow> Snapshot \<Rightarrow> string \<times> Table option \<Rightarrow> DriftEntry list option" where
  "compare_table ord live row =
     (case row of (name, tbl) \<Rightarrow>
        (case map_of (sn_Tables live) name of
           None \<Rightarrow> Some [mk_entry DriftTableRemoved name [] []]
         | Some liveTbl \<Rightarrow>
             map_option concat (those
               [diffColumns ord name tbl liveTbl, diffIndexes ord name tbl liveTbl,
                diffConstraints ord name tbl liveTbl])))"

text \<open>The entries \<open>compare\<close> collects.\<close>

definition added_tables :: "range_order \<Rightarrow> Snapshot \<Rightarrow> Snapshot \<Rightarrow> DriftEntry list" where
  "added_tables ord base live =
     concat (map (\<lambda>(name, _).
        case map_of (sn_Tables base) name of
          None \<Rightarrow> [mk_entry DriftTableAdded name [] []]
        | Some _ \<Rightarrow> []) (range_over ord [''live tables''] (sn_Tables live)))"

definition compare_entries :: "range_order \<Rightarrow> Snapshot \<Rightarrow> Snapshot \<Rightarrow> DriftEntry list option" where
  "compare_entries ord base live =
     (case those (map (compare_table ord live) (range_over ord [''base tables''] (sn_Tables base))) of
        None \<Rightarrow> None
      | Some tables \<Rightarrow>
          Some (added_tables ord base live @ concat tables @
                diffSequences ord (sn_Sequences base) (sn_Sequences live) (2 \<le> sn_SnapshotVersion base) @
                diffEnums ord (sn_Enums base) (sn_Enums live)))"

text \<open>
  \<open>compare\<close>. The entries are sorted by their key; \<open>sort.Slice\<close> leaves the order of equal
  keys open, and the order here is one of those it allows.
\<close>

definition schema_compare :: "range_order \<Rightarrow> Snapshot \<Rightarrow> Snapshot \<Rightarrow> DriftResult option" where
  "schema_compare ord base live =
     (case compare_entries ord base live of
        None \<Rightarrow> None
      | Some entries \<Rightarrow> Some \<lparr>dr_HasDrift = 0 < length entries, dr_Entries = sort_key drift_key entries\<rparr>)"

definition schema_Diff :: "range_order \<Rightarrow> Snapshot \<Rightarrow> Snapshot \<Rightarrow> DriftResult option" where
  "schema_Diff = schema_compare"

definition schema_Report :: "range_order \<Rightarrow> Snapshot \<Rightarrow> Snapshot \<Rightarrow> DriftResult option" where
  "schema_Report = schema_compare"

end
