(* ===== verification/SchemaDrift.thy ===== *)
theory SchemaDrift
  imports Schema
begin

text \<open>
  The specification of drift, as sets of entries over the maps two snapshots hold, and the
  proof that the loops of the comparison compute it: which entries they collect, when they
  panic, that the order of map iteration does not show, and when there is no drift at all.
\<close>

subsection \<open>What drift is\<close>

text \<open>
  The comparison of two maps: what only the live side has was added, what only the baseline
  has was removed, what both have and is not the same was changed.
\<close>

definition map_drift ::
  "(string \<Rightarrow> 'a \<Rightarrow> 'e) \<Rightarrow> (string \<Rightarrow> 'e) \<Rightarrow> ('a \<Rightarrow> 'a \<Rightarrow> bool) \<Rightarrow> (string \<Rightarrow> 'a \<Rightarrow> 'a \<Rightarrow> 'e) \<Rightarrow>
   (string \<rightharpoonup> 'a) \<Rightarrow> (string \<rightharpoonup> 'a) \<Rightarrow> 'e set" where
  "map_drift added removed same changed base live =
     {added n y | n y. base n = None \<and> live n = Some y} \<union>
     {removed n | n x. base n = Some x \<and> live n = None} \<union>
     {changed n x y | n x y. base n = Some x \<and> live n = Some y \<and> \<not> same x y}"

text \<open>The last element with a name: what a map built in order holds.\<close>

definition named :: "('a \<Rightarrow> string) \<Rightarrow> 'a list \<Rightarrow> string \<rightharpoonup> 'a" where
  "named name xs = map_of (rev (map (\<lambda>x. (name x, x)) xs))"

text \<open>
  Two columns are the same when type, nullability and declared default agree; no default and
  an empty one declare the same. A change is described by both sides of the three.
\<close>

definition declared_default :: "Column \<Rightarrow> string option" where
  "declared_default c = (case co_Default c of Some d \<Rightarrow> if d = [] then None else Some d | None \<Rightarrow> None)"

definition same_column :: "Column \<Rightarrow> Column \<Rightarrow> bool" where
  "same_column c d \<longleftrightarrow> (co_DataType c, co_IsNullable c, declared_default c) =
     (co_DataType d, co_IsNullable d, declared_default d)"

definition column_change :: "Column \<Rightarrow> Column \<Rightarrow> string" where
  "column_change c d =
     (let default = (\<lambda>x. case declared_default x of None \<Rightarrow> [] | Some t \<Rightarrow> t);
          nullable = (\<lambda>x. if co_IsNullable x then ''true'' else ''false'')
      in concat [''type: '', co_DataType c, arrow, co_DataType d,
          '' nullable: '', nullable c, arrow, nullable d, '' default: '', default c, arrow, default d])"

definition column_drift :: "string \<Rightarrow> Table \<Rightarrow> Table \<Rightarrow> DriftEntry set" where
  "column_drift t b l =
     map_drift (\<lambda>n c. mk_entry DriftColumnAdded t n (co_DataType c)) (\<lambda>n. mk_entry DriftColumnRemoved t n [])
       same_column (\<lambda>n c d. mk_entry DriftColumnChanged t n (column_change c d))
       (named co_Name (tb_Columns b)) (named co_Name (tb_Columns l))"

definition index_drift :: "string \<Rightarrow> Table \<Rightarrow> Table \<Rightarrow> DriftEntry set" where
  "index_drift t b l =
     map_drift (\<lambda>n _. mk_entry DriftIndexAdded t n []) (\<lambda>n. mk_entry DriftIndexRemoved t n [])
       (\<lambda>c d. ix_Definition c = ix_Definition d)
       (\<lambda>n c d. mk_entry DriftIndexChanged t n (''def: '' @ ix_Definition c @ arrow @ ix_Definition d))
       (named ix_Name (tb_Indexes b)) (named ix_Name (tb_Indexes l))"

definition constraint_drift :: "string \<Rightarrow> Table \<Rightarrow> Table \<Rightarrow> DriftEntry set" where
  "constraint_drift t b l =
     map_drift (\<lambda>n _. mk_entry DriftConstraintAdded t n []) (\<lambda>n. mk_entry DriftConstraintRemoved t n [])
       (\<lambda>c d. cn_Definition c = cn_Definition d)
       (\<lambda>n c d. mk_entry DriftConstraintChanged t n (''def: '' @ cn_Definition c @ arrow @ cn_Definition d))
       (named cn_Name (tb_Constraints b)) (named cn_Name (tb_Constraints l))"

definition sequence_drift :: "bool \<Rightarrow> Sequence list \<Rightarrow> Sequence list \<Rightarrow> DriftEntry set" where
  "sequence_drift conf b l =
     map_drift (\<lambda>n _. mk_entry DriftSequenceAdded [] n []) (\<lambda>n. mk_entry DriftSequenceRemoved [] n [])
       (\<lambda>s u. conf \<longrightarrow> s = u)
       (\<lambda>n s u. mk_entry DriftSequenceChanged [] n (''base='' @ sequence_text s @ '' live='' @ sequence_text u))
       (named sq_Name b) (named sq_Name l)"

text \<open>
  Drift is stated over a relation that says which label lists are the same: equality for the
  specification, equality of the joined labels for what the code compares.
\<close>

definition enum_drift :: "(string list \<Rightarrow> string list \<Rightarrow> bool) \<Rightarrow> (string \<rightharpoonup> string list) \<Rightarrow> (string \<rightharpoonup> string list) \<Rightarrow> DriftEntry set" where
  "enum_drift labels b l =
     map_drift (\<lambda>n vs. mk_entry DriftEnumChanged [] n (''base='' @ strings_text [] @ '' live='' @ strings_text vs))
       (\<lambda>n. mk_entry DriftEnumChanged [] n ''removed'')
       labels
       (\<lambda>n us vs. mk_entry DriftEnumChanged [] n (''base='' @ strings_text us @ '' live='' @ strings_text vs)) b l"

definition schema_drift_by :: "(string list \<Rightarrow> string list \<Rightarrow> bool) \<Rightarrow> Snapshot \<Rightarrow> Snapshot \<Rightarrow> DriftEntry set" where
  "schema_drift_by labels base live =
     map_drift (\<lambda>t _. mk_entry DriftTableAdded t [] []) (\<lambda>t. mk_entry DriftTableRemoved t [] []) (\<lambda>_ _. True)
       (\<lambda>t _ _. mk_entry DriftTableAdded t [] []) (map_of (sn_Tables base)) (map_of (sn_Tables live)) \<union>
     (\<Union>{column_drift t b l \<union> index_drift t b l \<union> constraint_drift t b l | t b l.
          map_of (sn_Tables base) t = Some (Some b) \<and> map_of (sn_Tables live) t = Some (Some l)}) \<union>
     sequence_drift (2 \<le> sn_SnapshotVersion base) (sn_Sequences base) (sn_Sequences live) \<union>
     enum_drift labels (map_of (sn_Enums base)) (map_of (sn_Enums live))"

definition schema_drift :: "Snapshot \<Rightarrow> Snapshot \<Rightarrow> DriftEntry set" where
  "schema_drift base live = schema_drift_by (=) base live"

definition joined_alike :: "string list \<Rightarrow> string list \<Rightarrow> bool" where
  "joined_alike us vs \<longleftrightarrow> schema_join us = schema_join vs"

text \<open>
  The labels of a snapshot are plain when every enum has a label and no label has a comma.
\<close>

definition labels_plain :: "Snapshot \<Rightarrow> bool" where
  "labels_plain s \<longleftrightarrow> list_all (\<lambda>(_, ls). ls \<noteq> [] \<and> list_all (\<lambda>l. CHR '','' \<notin> set l) ls) (sn_Enums s)"

text \<open>Maps have distinct keys, and \<open>range\<close> visits every key once.\<close>

definition snapshot_wf :: "Snapshot \<Rightarrow> bool" where
  "snapshot_wf s \<longleftrightarrow> distinct (map fst (sn_Tables s)) \<and> distinct (map fst (sn_Enums s))"

definition valid_order :: "range_order \<Rightarrow> bool" where
  "valid_order ord \<longleftrightarrow> (\<forall>site ks. mset (ord site ks) = mset ks)"

subsection \<open>The loops compute it\<close>

lemma map_of_fold_update:
  "map_of (fold (\<lambda>x m. AList.update (name x) x m) xs m) = map_of m ++ named name xs"
  by (induction xs arbitrary: m)
     (auto simp: named_def update_conv' map_add_def fun_eq_iff split: option.splits)

lemma map_of_index_by [simp]: "map_of (index_by name xs) = named name xs"
  by (simp add: index_by_def map_of_fold_update)

lemma distinct_index_by [simp]: "distinct (map fst (index_by name xs))"
proof -
  have "distinct (map fst m) \<Longrightarrow> distinct (map fst (fold (\<lambda>x m. AList.update (name x) x m) xs m))" for m
    by (induction xs arbitrary: m) (simp_all add: distinct_update)
  then show ?thesis by (simp add: index_by_def)
qed

lemma in_range_over:
  assumes "valid_order ord"
  shows "(k, v) \<in> set (range_over ord site m) \<longleftrightarrow> map_of m k = Some v"
proof -
  have "set (ord site (map fst m)) = fst ` set m"
    using assms by (metis valid_order_def list.set_map set_mset_mset)
  then have "k \<in> set (ord site (map fst m))" if "map_of m k = Some v"
    using that by (metis map_of_SomeD fst_conv image_eqI)
  then show ?thesis
    unfolding range_over_def by (auto simp: map_filter_def image_iff)
qed

lemma in_loop:
  assumes "valid_order ord"
  shows "e \<in> set (concat (map (\<lambda>(n, y). h n y) (range_over ord site m))) \<longleftrightarrow>
     (\<exists>n y. map_of m n = Some y \<and> e \<in> set (h n y))"
proof -
  have "e \<in> set (concat (map (\<lambda>(n, y). h n y) (range_over ord site m))) \<longleftrightarrow>
     (\<exists>n y. (n, y) \<in> set (range_over ord site m) \<and> e \<in> set (h n y))"
    by force
  then show ?thesis by (simp add: in_range_over [OF assms])
qed

lemma in_map_drift:
  "e \<in> map_drift added removed same changed base live \<longleftrightarrow>
     (\<exists>n y. base n = None \<and> live n = Some y \<and> e = added n y) \<or>
     (\<exists>n x. base n = Some x \<and> live n = None \<and> e = removed n) \<or>
     (\<exists>n x y. base n = Some x \<and> live n = Some y \<and> \<not> same x y \<and> e = changed n x y)"
proof -
  have "e \<in> {added n y | n y. base n = None \<and> live n = Some y} \<longleftrightarrow>
     (\<exists>n y. base n = None \<and> live n = Some y \<and> e = added n y)" by blast
  moreover have "e \<in> {removed n | n x. base n = Some x \<and> live n = None} \<longleftrightarrow>
     (\<exists>n x. base n = Some x \<and> live n = None \<and> e = removed n)" by blast
  moreover have "e \<in> {changed n x y | n x y. base n = Some x \<and> live n = Some y \<and> \<not> same x y} \<longleftrightarrow>
     (\<exists>n x y. base n = Some x \<and> live n = Some y \<and> \<not> same x y \<and> e = changed n x y)" by blast
  ultimately show ?thesis by (simp only: map_drift_def Un_iff disj_assoc)
qed

lemma map_drift_empty_iff:
  "map_drift added removed same changed base live = {} \<longleftrightarrow> (\<forall>n. rel_option same (base n) (live n))"
proof
  assume "map_drift added removed same changed base live = {}"
  then have none: "\<And>e. e \<notin> map_drift added removed same changed base live" by simp
  show "\<forall>n. rel_option same (base n) (live n)"
  proof
    fix n
    have "\<not> (base n = None \<and> live n = Some y)" for y
      using none [of "added n y"] unfolding in_map_drift by blast
    moreover have "\<not> (base n = Some x \<and> live n = None)" for x
      using none [of "removed n"] unfolding in_map_drift by blast
    moreover have "\<not> (base n = Some x \<and> live n = Some y \<and> \<not> same x y)" for x y
      using none [of "changed n x y"] unfolding in_map_drift by blast
    ultimately show "rel_option same (base n) (live n)"
      by (cases "base n"; cases "live n") auto
  qed
next
  assume r [rule_format]: "\<forall>n. rel_option same (base n) (live n)"
  show "map_drift added removed same changed base live = {}"
  proof (rule equals0I)
    fix e assume "e \<in> map_drift added removed same changed base live"
    then show False
    proof (unfold in_map_drift, elim disjE exE conjE)
      fix n y assume "base n = None" "live n = Some y" then show False using r [of n] by simp
    next
      fix n x assume "base n = Some x" "live n = None" then show False using r [of n] by simp
    next
      fix n x y assume "base n = Some x" "live n = Some y" "\<not> same x y"
      then show False using r [of n] by simp
    qed
  qed
qed

text \<open>The two loops of a comparing function, with the changes found in either of them.\<close>

lemma loop_added:
  assumes "valid_order ord"
  shows "e \<in> set (concat (map (\<lambda>(n, y). case base n of None \<Rightarrow> [added n y] | Some x \<Rightarrow> if c x y then [changed n x y] else [])
            (range_over ord site live))) \<longleftrightarrow>
     (\<exists>n y. base n = None \<and> map_of live n = Some y \<and> e = added n y) \<or>
     (\<exists>n x y. base n = Some x \<and> map_of live n = Some y \<and> c x y \<and> e = changed n x y)"
proof -
  have "(e \<in> set (case base n of None \<Rightarrow> [added n y] | Some x \<Rightarrow> if c x y then [changed n x y] else [])) \<longleftrightarrow>
     (base n = None \<and> e = added n y) \<or> (\<exists>x. base n = Some x \<and> c x y \<and> e = changed n x y)" for n y
    by (cases "base n") auto
  then show ?thesis unfolding in_loop [OF assms] by blast
qed

lemma loop_only:
  assumes "valid_order ord"
  shows "e \<in> set (concat (map (\<lambda>(n, y). case other n of None \<Rightarrow> [only n y] | Some x \<Rightarrow> []) (range_over ord site m))) \<longleftrightarrow>
     (\<exists>n y. other n = None \<and> map_of m n = Some y \<and> e = only n y)"
proof -
  have "(e \<in> set (case other n of None \<Rightarrow> [only n y] | Some x \<Rightarrow> [])) \<longleftrightarrow> other n = None \<and> e = only n y" for n y
    by (cases "other n") auto
  then show ?thesis unfolding in_loop [OF assms] by blast
qed

lemma loop_removed:
  assumes "valid_order ord"
  shows "e \<in> set (concat (map (\<lambda>(n, x). case live n of None \<Rightarrow> [removed n] | Some y \<Rightarrow> if c x y then [changed n x y] else [])
            (range_over ord site base))) \<longleftrightarrow>
     (\<exists>n x. map_of base n = Some x \<and> live n = None \<and> e = removed n) \<or>
     (\<exists>n x y. map_of base n = Some x \<and> live n = Some y \<and> c x y \<and> e = changed n x y)"
  using loop_added [OF assms, where e = e and base = live and added = "\<lambda>n x. removed n" and c = "\<lambda>y x. c x y"
      and changed = "\<lambda>n y x. changed n x y" and site = site and live = base]
  by blast

lemma two_loops:
  assumes "valid_order ord"
  shows "set (concat (map (\<lambda>(n, y). case map_of base n of None \<Rightarrow> [added n y] | Some x \<Rightarrow> []) (range_over ord site live)) @
      concat (map (\<lambda>(n, x). case map_of live n of None \<Rightarrow> [removed n] | Some y \<Rightarrow> if c x y then [changed n x y] else [])
        (range_over ord site' base))) =
    map_drift added removed (\<lambda>x y. \<not> c x y) changed (map_of base) (map_of live)"
proof (rule set_eqI, unfold set_append Un_iff loop_only [OF assms] loop_removed [OF assms] in_map_drift not_not)
qed (rule refl)

lemma same_refl [simp]: "same_column c c" "joined_alike ls ls"
  by (simp_all add: same_column_def joined_alike_def)

lemma column_changed_iff: "column_changed c d \<longleftrightarrow> \<not> same_column c d"
  by (auto simp: column_changed_def same_column_def declared_default_def default_text_def split: option.splits if_splits)

lemma column_detail_eq: "column_detail c d = column_change c d"
  by (simp add: column_detail_def column_change_def declared_default_def default_text_def bool_text_def Let_def
      split: option.splits)

lemma set_diffColumns:
  assumes "valid_order ord"
  shows "\<exists>es. diffColumns ord t (Some b) (Some l) = Some es \<and> set es = column_drift t b l"
  unfolding diffColumns_def Let_def column_drift_def indexColumns_def prod.case option.case column_changed_iff column_detail_eq
  by (intro exI conjI, rule refl) (rule trans [OF two_loops [OF assms]], simp only: map_of_index_by not_not)

lemma set_diffIndexes:
  assumes "valid_order ord"
  shows "\<exists>es. diffIndexes ord t (Some b) (Some l) = Some es \<and> set es = index_drift t b l"
  unfolding diffIndexes_def Let_def index_drift_def prod.case option.case
  by (intro exI conjI, rule refl) (rule trans [OF two_loops [OF assms]], simp only: map_of_index_by not_not)

lemma set_diffConstraints:
  assumes "valid_order ord"
  shows "\<exists>es. diffConstraints ord t (Some b) (Some l) = Some es \<and> set es = constraint_drift t b l"
  unfolding diffConstraints_def Let_def constraint_drift_def prod.case option.case
  by (intro exI conjI, rule refl) (rule trans [OF two_loops [OF assms]], simp only: map_of_index_by not_not)

lemma set_diffSequences:
  assumes "valid_order ord"
  shows "set (diffSequences ord b l conf) = sequence_drift conf b l"
proof (rule set_eqI)
  fix e show "e \<in> set (diffSequences ord b l conf) \<longleftrightarrow> e \<in> sequence_drift conf b l"
    unfolding diffSequences_def Let_def sequence_drift_def set_append Un_iff loop_only [OF assms]
      loop_added [OF assms] in_map_drift map_of_index_by not_imp
    by blast
qed

lemma set_diffEnums:
  assumes "valid_order ord"
  shows "set (diffEnums ord b l) = enum_drift joined_alike (map_of b) (map_of l)"
proof (rule set_eqI)
  fix e
  have shape: "(let baseVals = (case map_of b n of Some vs \<Rightarrow> vs | None \<Rightarrow> [])
        in if map_of b n = None \<or> schema_join baseVals \<noteq> schema_join vs
           then [mk_entry DriftEnumChanged [] n (''base='' @ strings_text baseVals @ '' live='' @ strings_text vs)]
           else []) =
     (case map_of b n of
        None \<Rightarrow> [mk_entry DriftEnumChanged [] n (''base='' @ strings_text [] @ '' live='' @ strings_text vs)]
      | Some us \<Rightarrow> if schema_join us \<noteq> schema_join vs
           then [mk_entry DriftEnumChanged [] n (''base='' @ strings_text us @ '' live='' @ strings_text vs)]
           else [])" for n vs
    by (cases "map_of b n") (simp_all add: Let_def)
  show "e \<in> set (diffEnums ord b l) \<longleftrightarrow> e \<in> enum_drift joined_alike (map_of b) (map_of l)"
    unfolding diffEnums_def shape enum_drift_def joined_alike_def set_append Un_iff loop_only [OF assms]
      loop_added [OF assms] in_map_drift
    by blast
qed

lemma diffs_panic_iff:
  assumes "valid_order ord"
  shows "(\<exists>es. map_option concat (those [diffColumns ord t x y, diffIndexes ord t x y, diffConstraints ord t x y]) = Some es) \<longleftrightarrow>
     x \<noteq> None \<and> y \<noteq> None"
proof (cases "x \<noteq> None \<and> y \<noteq> None")
  case True
  then obtain b l where [simp]: "x = Some b" "y = Some l" by auto
  show ?thesis
    using set_diffColumns [OF assms, of t b l] set_diffIndexes [OF assms, of t b l]
      set_diffConstraints [OF assms, of t b l]
    by auto
next
  case False
  then have "diffColumns ord t x y = None" by (cases x; cases y) (simp_all add: diffColumns_def)
  with False show ?thesis by auto
qed

lemma those_eq_Some_iff: "those xs = Some ys \<longleftrightarrow> xs = map Some ys"
proof (induction xs arbitrary: ys)
  case (Cons x xs)
  show ?case
    by (cases x; cases ys) (auto simp: Cons.IH)
qed auto

lemma those_None_iff: "those xs = None \<longleftrightarrow> None \<in> set xs"
  by (induction xs) (auto split: option.splits)

lemma compare_table_set:
  assumes "valid_order ord" "compare_table ord live (t, x) = Some es"
  shows "set es = {e. map_of (sn_Tables live) t = None \<and> e = mk_entry DriftTableRemoved t [] []} \<union>
     (\<Union>{column_drift t b l \<union> index_drift t b l \<union> constraint_drift t b l | b l.
        x = Some b \<and> map_of (sn_Tables live) t = Some (Some l)})"
proof (cases "map_of (sn_Tables live) t")
  case None
  then show ?thesis using assms(2) by (auto simp: compare_table_def)
next
  case (Some y)
  with assms(2) have es: "map_option concat (those [diffColumns ord t x y, diffIndexes ord t x y, diffConstraints ord t x y]) = Some es"
    by (simp add: compare_table_def)
  with diffs_panic_iff [OF assms(1), of t x y] obtain b l where bl: "x = Some b" "y = Some l" by auto
  show ?thesis
    using es set_diffColumns [OF assms(1), of t b l] set_diffIndexes [OF assms(1), of t b l]
      set_diffConstraints [OF assms(1), of t b l] Some bl
    by auto
qed

lemma compare_table_None_iff:
  assumes "valid_order ord"
  shows "compare_table ord live (t, x) = None \<longleftrightarrow>
     (\<exists>y. map_of (sn_Tables live) t = Some y \<and> (x = None \<or> y = None))"
proof (cases "map_of (sn_Tables live) t")
  case (Some y)
  have "compare_table ord live (t, x) = map_option concat (those
      [diffColumns ord t x y, diffIndexes ord t x y, diffConstraints ord t x y])"
    using Some by (simp add: compare_table_def)
  then show ?thesis
    using diffs_panic_iff [OF assms, of t x y] Some by (metis option.inject not_None_eq)
qed (simp add: compare_table_def)

lemma schema_compare_panic_iff:
  assumes "valid_order ord"
  shows "schema_compare ord base live = None \<longleftrightarrow>
     (\<exists>t x y. map_of (sn_Tables base) t = Some x \<and> map_of (sn_Tables live) t = Some y \<and> (x = None \<or> y = None))"
proof -
  have "schema_compare ord base live = None \<longleftrightarrow>
     None \<in> set (map (compare_table ord live) (range_over ord [''base tables''] (sn_Tables base)))"
    unfolding those_None_iff [symmetric] by (simp add: schema_compare_def compare_entries_def split: option.split)
  also have "\<dots> \<longleftrightarrow> (\<exists>t x. map_of (sn_Tables base) t = Some x \<and> compare_table ord live (t, x) = None)"
    by (auto simp: image_iff in_range_over [OF assms]) (metis in_range_over [OF assms])+
  finally show ?thesis unfolding compare_table_None_iff [OF assms] by blast
qed

lemma in_compare_tables:
  assumes ok: "valid_order ord"
    and ts: "those (map (compare_table ord live) (range_over ord site (sn_Tables base))) = Some tables"
  shows "e \<in> set (concat tables) \<longleftrightarrow>
     (\<exists>t x es. map_of (sn_Tables base) t = Some x \<and> compare_table ord live (t, x) = Some es \<and> e \<in> set es)"
proof -
  have m: "map (compare_table ord live) (range_over ord site (sn_Tables base)) = map Some tables"
    using ts by (simp only: those_eq_Some_iff)
  have "es \<in> set tables \<longleftrightarrow> Some es \<in> set (map (compare_table ord live) (range_over ord site (sn_Tables base)))" for es
    unfolding m by auto
  also have "\<dots> es \<longleftrightarrow> (\<exists>t x. map_of (sn_Tables base) t = Some x \<and> compare_table ord live (t, x) = Some es)" for es
    using in_range_over [OF ok, of _ _ site "sn_Tables base"] by (auto simp: image_iff) (metis, metis)
  finally show ?thesis by (simp only: set_concat UN_iff bex_simps) blast
qed

lemma in_table_drift:
  assumes ok: "valid_order ord"
    and ts: "those (map (compare_table ord live) (range_over ord site (sn_Tables base))) = Some tables"
  shows "e \<in> set (concat tables) \<longleftrightarrow>
     (\<exists>t x. map_of (sn_Tables base) t = Some x \<and> map_of (sn_Tables live) t = None \<and> e = mk_entry DriftTableRemoved t [] []) \<or>
     (\<exists>t b l. map_of (sn_Tables base) t = Some (Some b) \<and> map_of (sn_Tables live) t = Some (Some l) \<and>
        e \<in> column_drift t b l \<union> index_drift t b l \<union> constraint_drift t b l)"
proof -
  have "(\<exists>es. compare_table ord live (t, x) = Some es \<and> e \<in> set es) \<longleftrightarrow>
      map_of (sn_Tables live) t = None \<and> e = mk_entry DriftTableRemoved t [] [] \<or>
      (\<exists>b l. x = Some b \<and> map_of (sn_Tables live) t = Some (Some l) \<and>
        e \<in> column_drift t b l \<union> index_drift t b l \<union> constraint_drift t b l)" (is "?L \<longleftrightarrow> ?R")
    if "map_of (sn_Tables base) t = Some x" for t x
  proof (cases "compare_table ord live (t, x)")
    case None
    then show ?thesis using compare_table_None_iff [OF ok, of live t x] by auto
  next
    case (Some es)
    have "e \<in> set es \<longleftrightarrow> ?R" unfolding compare_table_set [OF ok Some] by blast
    then show ?thesis using Some by (simp only: option.inject) blast
  qed
  then show ?thesis unfolding in_compare_tables [OF ok ts] by blast
qed

lemma set_compare_entries:
  assumes ok: "valid_order ord" and es: "compare_entries ord base live = Some es"
  shows "set es = schema_drift_by joined_alike base live"
proof (rule set_eqI)
  fix e
  obtain tables where ts: "those (map (compare_table ord live) (range_over ord [''base tables''] (sn_Tables base))) = Some tables"
    and es': "es = added_tables ord base live @ concat tables @
       diffSequences ord (sn_Sequences base) (sn_Sequences live) (2 \<le> sn_SnapshotVersion base) @
       diffEnums ord (sn_Enums base) (sn_Enums live)"
    using es unfolding compare_entries_def by (auto split: option.splits)
  show "e \<in> set es \<longleftrightarrow> e \<in> schema_drift_by joined_alike base live"
    unfolding es' schema_drift_by_def set_append Un_iff set_diffSequences [OF ok] set_diffEnums [OF ok]
      in_table_drift [OF ok ts] added_tables_def loop_only [OF ok] in_map_drift
    by blast
qed

lemma set_compare:
  assumes "valid_order ord" "schema_compare ord base live = Some r"
  shows "set (dr_Entries r) = schema_drift_by joined_alike base live"
    and "dr_HasDrift r \<longleftrightarrow> schema_drift_by joined_alike base live \<noteq> {}"
    and "sorted (map drift_key (dr_Entries r))"
  using set_compare_entries [OF assms(1)] assms(2)
  by (fastforce simp: schema_compare_def split: option.splits)+

subsection \<open>The order of iteration does not show\<close>

lemma mset_range_over:
  assumes "valid_order ord" "valid_order ord'"
  shows "mset (range_over ord site m) = mset (range_over ord' site' m)"
proof -
  have "mset (ord site (map fst m)) = mset (ord' site' (map fst m))"
    using assms by (simp add: valid_order_def)
  then show ?thesis by (simp add: range_over_def map_filter_def)
qed

lemma mset_concat_map:
  assumes "mset xs = mset ys" "\<And>x. x \<in> set xs \<Longrightarrow> mset (f x) = mset (g x)"
  shows "mset (concat (map f xs)) = mset (concat (map g ys))"
proof -
  have flat: "mset (concat (map h zs)) = (\<Sum>x\<in>#mset zs. mset (h x))" for h :: "'a \<Rightarrow> 'b list" and zs
    by (induction zs) simp_all
  have "image_mset (\<lambda>x. mset (f x)) (mset xs) = image_mset (\<lambda>x. mset (g x)) (mset ys)"
    unfolding assms(1) [symmetric] by (rule image_mset_cong) (simp add: assms(2))
  then show ?thesis by (simp only: flat)
qed

lemma mset_loop:
  assumes "valid_order ord" "valid_order ord'"
  shows "mset (concat (map f (range_over ord site m))) = mset (concat (map f (range_over ord' site' m)))"
  by (rule mset_concat_map [OF mset_range_over [OF assms]]) simp

lemma diffs_order:
  assumes "valid_order ord" "valid_order ord'"
  shows "map_option mset (diffColumns ord t x y) = map_option mset (diffColumns ord' t x y)"
    and "map_option mset (diffIndexes ord t x y) = map_option mset (diffIndexes ord' t x y)"
    and "map_option mset (diffConstraints ord t x y) = map_option mset (diffConstraints ord' t x y)"
  by (cases x; cases y; simp add: diffColumns_def diffIndexes_def diffConstraints_def Let_def;
      intro arg_cong2 [where f = "(+)"] mset_loop [OF assms])+

lemma compare_table_order:
  assumes "valid_order ord" "valid_order ord'"
  shows "map_option mset (compare_table ord live row) = map_option mset (compare_table ord' live row)"
proof -
  obtain t x where [simp]: "row = (t, x)" by (cases row)
  show ?thesis
  proof (cases "map_of (sn_Tables live) t")
    case (Some y)
    have three: "map_option (mset \<circ> concat) (those [a, b, c]) = map_option (mset \<circ> concat) (those [a', b', c'])"
      if "map_option mset a = map_option mset a'" "map_option mset b = map_option mset b'"
        "map_option mset c = map_option mset c'" for a b c a' b' c' :: "DriftEntry list option"
      using that by (cases a; cases a'; cases b; cases b'; cases c; cases c') simp_all
    show ?thesis
      using three [OF diffs_order [OF assms, of t x y]] Some
      by (simp add: compare_table_def option.map_comp)
  qed (simp add: compare_table_def)
qed

lemma those_order:
  assumes "list_all2 (\<lambda>a b. map_option mset a = map_option mset b) as bs"
  shows "map_option (mset \<circ> concat) (those as) = map_option (mset \<circ> concat) (those bs)"
  using assms
proof (induction as bs rule: list_all2_induct)
  case (Cons a as b bs)
  show ?case
    using Cons by (cases a; cases b; cases "those as"; cases "those bs") auto
qed simp

lemma those_perm:
  assumes "mset as = mset bs"
  shows "map_option (mset \<circ> concat) (those as) = map_option (mset \<circ> concat) (those bs)"
proof (cases "None \<in> set as")
  case True
  moreover have "None \<in> set bs" using True assms by (metis set_mset_mset)
  ultimately show ?thesis by (simp add: those_None_iff [THEN iffD2])
next
  case False
  moreover have "None \<notin> set bs" using False assms by (metis set_mset_mset)
  ultimately obtain xs ys where xy: "those as = Some xs" "those bs = Some ys"
    by (metis not_None_eq those_None_iff)
  then have "image_mset Some (mset xs) = image_mset Some (mset ys)"
    using assms by (metis mset_map those_eq_Some_iff)
  then have "image_mset the (image_mset Some (mset xs)) = image_mset the (image_mset Some (mset ys))" by simp
  then have "mset xs = mset ys" by (simp add: multiset.map_comp o_def)
  then have "mset (concat (map id xs)) = mset (concat (map id ys))" by (rule mset_concat_map) simp
  then show ?thesis using xy by simp
qed

lemma compare_entries_order:
  assumes "valid_order ord" "valid_order ord'"
  shows "map_option mset (compare_entries ord base live) = map_option mset (compare_entries ord' base live)"
proof -
  let ?site = "[''base tables'']"
  let ?m = "sn_Tables base"
  have "map_option (mset \<circ> concat) (those (map (compare_table ord live) (range_over ord ?site ?m))) =
      map_option (mset \<circ> concat) (those (map (compare_table ord' live) (range_over ord ?site ?m)))"
    by (rule those_order) (simp add: list_all2_map1 list_all2_map2 list_all2_same compare_table_order [OF assms])
  also have "\<dots> = map_option (mset \<circ> concat) (those (map (compare_table ord' live) (range_over ord' ?site ?m)))"
    by (rule those_perm) (simp add: mset_range_over [OF assms, of _ _ ?site])
  finally have eq: "map_option (mset \<circ> concat) (those (map (compare_table ord live) (range_over ord ?site ?m))) =
      map_option (mset \<circ> concat) (those (map (compare_table ord' live) (range_over ord' ?site ?m)))" .
  have "mset (added_tables ord base live) = mset (added_tables ord' base live)"
    unfolding added_tables_def by (rule mset_loop [OF assms])
  moreover have "mset (diffSequences ord b l c) = mset (diffSequences ord' b l c)" for b l c
    by (simp add: diffSequences_def Let_def) (intro arg_cong2 [where f = "(+)"] mset_loop [OF assms])
  moreover have "mset (diffEnums ord b l) = mset (diffEnums ord' b l)" for b l
    by (simp add: diffEnums_def del: mset_concat) (intro arg_cong2 [where f = "(+)"] mset_loop [OF assms])
  ultimately show ?thesis
    using eq by (cases "those (map (compare_table ord live) (range_over ord ?site ?m))";
      cases "those (map (compare_table ord' live) (range_over ord' ?site ?m))")
      (simp_all add: compare_entries_def)
qed

text \<open>
  A key tells an entry from all others when no table name has a slash: the kind decides which
  comparison found it, table and object which pair of objects it is about.
\<close>

definition slash_free :: "Snapshot \<Rightarrow> bool" where
  "slash_free s \<longleftrightarrow> list_all (\<lambda>(t, _). CHR ''/'' \<notin> set t) (sn_Tables s)"

lemma map_drift_object:
  assumes "e \<in> map_drift added removed same changed base live"
    and "\<And>n y. ob (added n y) = n" "\<And>n. ob (removed n) = n" "\<And>n x y. ob (changed n x y) = n"
  shows "(base (ob e) \<noteq> None \<or> live (ob e) \<noteq> None) \<and>
     e = (case (base (ob e), live (ob e)) of
            (None, Some y) \<Rightarrow> added (ob e) y
          | (Some x, Some y) \<Rightarrow> changed (ob e) x y
          | (_, None) \<Rightarrow> removed (ob e))"
  using assms(1) unfolding in_map_drift by (elim disjE exE conjE) (simp_all add: assms(2-4))

lemma kind_text_no_slash: "CHR ''/'' \<notin> set (drift_kind_text k)"
  by (cases k) simp_all

lemma kind_text_inj: "drift_kind_text k = drift_kind_text k' \<longleftrightarrow> k = k'"
proof -
  let ?find = "\<lambda>s. find (\<lambda>k. drift_kind_text k = s)
    [DriftTableAdded, DriftTableRemoved, DriftColumnAdded, DriftColumnRemoved, DriftColumnChanged,
     DriftIndexAdded, DriftIndexRemoved, DriftIndexChanged, DriftConstraintAdded, DriftConstraintRemoved,
     DriftConstraintChanged, DriftSequenceAdded, DriftSequenceRemoved, DriftSequenceChanged, DriftEnumChanged]"
  have found: "?find (drift_kind_text k) = Some k" for k by (cases k) simp_all
  have "Some k = Some k'" if same: "drift_kind_text k = drift_kind_text k'"
    by (rule trans [OF found [of k, symmetric]]) (simp only: same found)
  then show ?thesis by blast
qed

lemma cut_unique:
  fixes c :: char
  assumes "a @ c # b = a' @ c # b'" "c \<notin> set a" "c \<notin> set a'"
  shows "a = a' \<and> b = b'"
proof -
  have "Some (a, b) = cut_at c (a' @ c # b')"
    unfolding assms(1) [symmetric] by (rule cut_at_append [OF assms(2), symmetric])
  then show ?thesis unfolding cut_at_append [OF assms(3)] by simp
qed

lemma drift_key_eq:
  assumes "drift_key e = drift_key e'" "CHR ''/'' \<notin> set (de_Table e)" "CHR ''/'' \<notin> set (de_Table e')"
  shows "de_Table e = de_Table e' \<and> de_Kind e = de_Kind e' \<and> de_Object e = de_Object e'"
proof -
  have "de_Table e = de_Table e' \<and>
     drift_kind_text (de_Kind e) @ ''/'' @ de_Object e = drift_kind_text (de_Kind e') @ ''/'' @ de_Object e'"
    using assms unfolding drift_key_def by (intro cut_unique [where c = "CHR ''/''"]) simp_all
  moreover from this have "drift_kind_text (de_Kind e) = drift_kind_text (de_Kind e') \<and> de_Object e = de_Object e'"
    by (intro cut_unique [where c = "CHR ''/''"]) (simp_all add: kind_text_no_slash)
  ultimately show ?thesis by (simp add: kind_text_inj)
qed

fun drift_part :: "(string list \<Rightarrow> string list \<Rightarrow> bool) \<Rightarrow> Snapshot \<Rightarrow> Snapshot \<Rightarrow> DriftKind \<Rightarrow> string \<Rightarrow> DriftEntry set" where
  "drift_part labels base live k t =
     (let b = the (the (map_of (sn_Tables base) t)); l = the (the (map_of (sn_Tables live) t))
      in if k \<in> {DriftColumnAdded, DriftColumnRemoved, DriftColumnChanged} then column_drift t b l
         else if k \<in> {DriftIndexAdded, DriftIndexRemoved, DriftIndexChanged} then index_drift t b l
         else if k \<in> {DriftConstraintAdded, DriftConstraintRemoved, DriftConstraintChanged} then constraint_drift t b l
         else if k \<in> {DriftSequenceAdded, DriftSequenceRemoved, DriftSequenceChanged}
         then sequence_drift (2 \<le> sn_SnapshotVersion base) (sn_Sequences base) (sn_Sequences live)
         else if k = DriftEnumChanged then enum_drift labels (map_of (sn_Enums base)) (map_of (sn_Enums live))
         else {mk_entry k t [] []})"

lemma drift_part_complete:
  assumes "e \<in> schema_drift_by labels base live"
  shows "e \<in> drift_part labels base live (de_Kind e) (de_Table e)"
  using assms unfolding schema_drift_by_def Un_iff
proof (elim disjE)
  assume "e \<in> map_drift (\<lambda>t _. mk_entry DriftTableAdded t [] []) (\<lambda>t. mk_entry DriftTableRemoved t [] []) (\<lambda>_ _. True)
       (\<lambda>t _ _. mk_entry DriftTableAdded t [] []) (map_of (sn_Tables base)) (map_of (sn_Tables live))"
  then show ?thesis unfolding in_map_drift by auto
next
  assume "e \<in> (\<Union>{column_drift t b l \<union> index_drift t b l \<union> constraint_drift t b l | t b l.
          map_of (sn_Tables base) t = Some (Some b) \<and> map_of (sn_Tables live) t = Some (Some l)})"
  then obtain t b l where bl: "map_of (sn_Tables base) t = Some (Some b)" "map_of (sn_Tables live) t = Some (Some l)"
    and e: "e \<in> column_drift t b l \<or> e \<in> index_drift t b l \<or> e \<in> constraint_drift t b l" by auto
  from e show ?thesis
  proof (elim disjE)
    assume c: "e \<in> column_drift t b l"
    then have "de_Kind e \<in> {DriftColumnAdded, DriftColumnRemoved, DriftColumnChanged} \<and> de_Table e = t"
      unfolding column_drift_def in_map_drift by auto
    with c bl show ?thesis by auto
  next
    assume c: "e \<in> index_drift t b l"
    then have "de_Kind e \<in> {DriftIndexAdded, DriftIndexRemoved, DriftIndexChanged} \<and> de_Table e = t"
      unfolding index_drift_def in_map_drift by auto
    with c bl show ?thesis by auto
  next
    assume c: "e \<in> constraint_drift t b l"
    then have "de_Kind e \<in> {DriftConstraintAdded, DriftConstraintRemoved, DriftConstraintChanged} \<and> de_Table e = t"
      unfolding constraint_drift_def in_map_drift by auto
    with c bl show ?thesis by auto
  qed
next
  assume c: "e \<in> sequence_drift (2 \<le> sn_SnapshotVersion base) (sn_Sequences base) (sn_Sequences live)"
  then have "de_Kind e \<in> {DriftSequenceAdded, DriftSequenceRemoved, DriftSequenceChanged}"
    unfolding sequence_drift_def in_map_drift by auto
  with c show ?thesis by auto
next
  assume c: "e \<in> enum_drift labels (map_of (sn_Enums base)) (map_of (sn_Enums live))"
  then have "de_Kind e = DriftEnumChanged" unfolding enum_drift_def in_map_drift by auto
  with c show ?thesis by simp
qed

lemma drift_part_determined:
  assumes "e \<in> drift_part labels base live k t" "e' \<in> drift_part labels base live k t" "de_Object e = de_Object e'"
  shows "e = e'"
proof -
  have det: "e = e'"
    if "e \<in> map_drift added removed same changed b l" "e' \<in> map_drift added removed same changed b l"
      "\<And>n y. de_Object (added n y) = n" "\<And>n. de_Object (removed n) = n" "\<And>n x y. de_Object (changed n x y) = n"
    for added :: "string \<Rightarrow> 'x \<Rightarrow> DriftEntry" and removed same changed b l
  proof -
    note o = map_drift_object [OF that(1), of de_Object, OF that(3-5), THEN conjunct2]
    note o' = map_drift_object [OF that(2), of de_Object, OF that(3-5), THEN conjunct2]
    show ?thesis
      by (rule trans [OF o], rule trans [OF _ o' [symmetric]]) (simp only: assms(3))
  qed
  show ?thesis
    using assms(1,2) unfolding drift_part.simps Let_def column_drift_def index_drift_def constraint_drift_def
      sequence_drift_def enum_drift_def
    by (auto split: if_splits elim!: det)
qed

lemma drift_table_known:
  assumes "e \<in> schema_drift_by labels base live"
  shows "de_Table e = [] \<or> map_of (sn_Tables base) (de_Table e) \<noteq> None \<or> map_of (sn_Tables live) (de_Table e) \<noteq> None"
  using assms unfolding schema_drift_by_def Un_iff
proof (elim disjE)
  assume "e \<in> map_drift (\<lambda>t _. mk_entry DriftTableAdded t [] []) (\<lambda>t. mk_entry DriftTableRemoved t [] []) (\<lambda>_ _. True)
       (\<lambda>t _ _. mk_entry DriftTableAdded t [] []) (map_of (sn_Tables base)) (map_of (sn_Tables live))"
  then show ?thesis unfolding in_map_drift by auto
next
  assume "e \<in> (\<Union>{column_drift t b l \<union> index_drift t b l \<union> constraint_drift t b l | t b l.
          map_of (sn_Tables base) t = Some (Some b) \<and> map_of (sn_Tables live) t = Some (Some l)})"
  then obtain t b l where "map_of (sn_Tables base) t = Some (Some b)"
    and "e \<in> column_drift t b l \<or> e \<in> index_drift t b l \<or> e \<in> constraint_drift t b l" by auto
  moreover from this(2) have "de_Table e = t"
    unfolding column_drift_def index_drift_def constraint_drift_def in_map_drift by auto
  ultimately show ?thesis by simp
next
  assume "e \<in> sequence_drift (2 \<le> sn_SnapshotVersion base) (sn_Sequences base) (sn_Sequences live)"
  then show ?thesis unfolding sequence_drift_def in_map_drift by auto
next
  assume "e \<in> enum_drift labels (map_of (sn_Enums base)) (map_of (sn_Enums live))"
  then show ?thesis unfolding enum_drift_def in_map_drift by auto
qed

lemma slash_free_lookup: "slash_free s \<Longrightarrow> map_of (sn_Tables s) t \<noteq> None \<Longrightarrow> CHR ''/'' \<notin> set t"
  by (auto simp: slash_free_def list_all_iff dest!: map_of_SomeD)

lemma drift_key_inj:
  assumes "slash_free base" "slash_free live"
  shows "inj_on drift_key (schema_drift_by labels base live)"
proof (rule inj_onI)
  fix e e' assume e: "e \<in> schema_drift_by labels base live" "e' \<in> schema_drift_by labels base live" and k: "drift_key e = drift_key e'"
  have "CHR ''/'' \<notin> set (de_Table x)" if "x \<in> schema_drift_by labels base live" for x
    using drift_table_known [OF that] slash_free_lookup assms by (metis empty_iff empty_set)
  with k e have "de_Table e = de_Table e' \<and> de_Kind e = de_Kind e' \<and> de_Object e = de_Object e'"
    by (intro drift_key_eq) blast+
  with drift_part_complete [OF e(1)] drift_part_complete [OF e(2)] show "e = e'"
    by (metis drift_part_determined)
qed

subsection \<open>Equal schemas\<close>

text \<open>
  When two snapshots describe the same schema: the same tables, in them columns of the same
  type, nullability and declared default, indexes and constraints of the same definition, the
  same sequences (by name only, for a version 1 baseline) and the same enums, label by label.
\<close>

definition same_table :: "Table \<Rightarrow> Table \<Rightarrow> bool" where
  "same_table b l \<longleftrightarrow>
     (\<forall>n. rel_option same_column (named co_Name (tb_Columns b) n) (named co_Name (tb_Columns l) n)) \<and>
     (\<forall>n. rel_option (\<lambda>i j. ix_Definition i = ix_Definition j)
           (named ix_Name (tb_Indexes b) n) (named ix_Name (tb_Indexes l) n)) \<and>
     (\<forall>n. rel_option (\<lambda>c d. cn_Definition c = cn_Definition d)
           (named cn_Name (tb_Constraints b) n) (named cn_Name (tb_Constraints l) n))"

definition same_schema_by :: "(string list \<Rightarrow> string list \<Rightarrow> bool) \<Rightarrow> Snapshot \<Rightarrow> Snapshot \<Rightarrow> bool" where
  "same_schema_by labels base live \<longleftrightarrow>
     (\<forall>t. rel_option (rel_option same_table) (map_of (sn_Tables base) t) (map_of (sn_Tables live) t)) \<and>
     (\<forall>n. rel_option (\<lambda>s u. 2 \<le> sn_SnapshotVersion base \<longrightarrow> s = u)
           (named sq_Name (sn_Sequences base) n) (named sq_Name (sn_Sequences live) n)) \<and>
     (\<forall>n. rel_option labels (map_of (sn_Enums base) n) (map_of (sn_Enums live) n))"

definition same_schema :: "Snapshot \<Rightarrow> Snapshot \<Rightarrow> bool" where
  "same_schema base live \<longleftrightarrow> same_schema_by (=) base live"

definition no_nil_tables :: "Snapshot \<Rightarrow> bool" where
  "no_nil_tables s \<longleftrightarrow> list_all (\<lambda>(_, x). x \<noteq> None) (sn_Tables s)"

lemma no_nil_lookup: "no_nil_tables s \<Longrightarrow> map_of (sn_Tables s) t = Some x \<Longrightarrow> x \<noteq> None"
  by (fastforce simp: no_nil_tables_def list_all_iff dest: map_of_SomeD)

lemma same_table_drift:
  "column_drift t b l \<union> index_drift t b l \<union> constraint_drift t b l = {} \<longleftrightarrow> same_table b l"
  by (simp only: Un_empty column_drift_def index_drift_def constraint_drift_def map_drift_empty_iff
      same_table_def conj_assoc)

lemma same_schema_by_iff:
  assumes "no_nil_tables base" "no_nil_tables live"
  shows "schema_drift_by labels base live = {} \<longleftrightarrow> same_schema_by labels base live"
proof -
  let ?b = "map_of (sn_Tables base)"
  let ?l = "map_of (sn_Tables live)"
  have "(\<forall>t. rel_option (\<lambda>_ _. True) (?b t) (?l t)) \<and>
      (\<Union>{column_drift t b l \<union> index_drift t b l \<union> constraint_drift t b l | t b l.
          ?b t = Some (Some b) \<and> ?l t = Some (Some l)}) = {} \<longleftrightarrow>
      (\<forall>t. rel_option (\<lambda>_ _. True) (?b t) (?l t)) \<and>
      (\<forall>t b l. ?b t = Some (Some b) \<longrightarrow> ?l t = Some (Some l) \<longrightarrow>
         column_drift t b l \<union> index_drift t b l \<union> constraint_drift t b l = {})"
    by (simp only: Union_empty_conv) blast
  also have "\<dots> \<longleftrightarrow> (\<forall>t. rel_option (\<lambda>_ _. True) (?b t) (?l t) \<and>
      (\<forall>b l. ?b t = Some (Some b) \<longrightarrow> ?l t = Some (Some l) \<longrightarrow> same_table b l))"
    unfolding same_table_drift by blast
  also have "\<dots> \<longleftrightarrow> (\<forall>t. rel_option (rel_option same_table) (?b t) (?l t))"
  proof (rule iff_allI)
    fix t
    show "rel_option (\<lambda>_ _. True) (?b t) (?l t) \<and>
      (\<forall>b l. ?b t = Some (Some b) \<longrightarrow> ?l t = Some (Some l) \<longrightarrow> same_table b l) \<longleftrightarrow>
      rel_option (rel_option same_table) (?b t) (?l t)"
      using no_nil_lookup [OF assms(1), of t] no_nil_lookup [OF assms(2), of t]
      by (cases "?b t"; cases "?l t") auto
  qed
  finally have tables: "(\<forall>t. rel_option (\<lambda>_ _. True) (?b t) (?l t)) \<and>
      (\<Union>{column_drift t b l \<union> index_drift t b l \<union> constraint_drift t b l | t b l.
          ?b t = Some (Some b) \<and> ?l t = Some (Some l)}) = {} \<longleftrightarrow>
      (\<forall>t. rel_option (rel_option same_table) (?b t) (?l t))" .
  show ?thesis
    unfolding schema_drift_by_def Un_empty sequence_drift_def enum_drift_def map_drift_empty_iff same_schema_by_def tables
    by (rule conj_assoc)
qed

text \<open>On plain labels the joined texts tell label lists apart, so what is reported is the drift.\<close>

lemma labels_plain_joined:
  assumes "labels_plain base" "labels_plain live" "map_of (sn_Enums base) n = Some us" "map_of (sn_Enums live) n = Some vs"
  shows "joined_alike us vs \<longleftrightarrow> us = vs"
proof -
  have plain: "split_on (CHR '','') (schema_join ls) = ls" if "labels_plain s" "map_of (sn_Enums s) n = Some ls" for s ls
    using that unfolding schema_join_def
    by (intro split_join) (auto simp: labels_plain_def list_all_iff dest!: map_of_SomeD)
  show ?thesis
    unfolding joined_alike_def by (metis plain assms)
qed

lemma schema_drift_plain:
  assumes "labels_plain base" "labels_plain live"
  shows "schema_drift_by joined_alike base live = schema_drift base live"
proof -
  have "enum_drift joined_alike (map_of (sn_Enums base)) (map_of (sn_Enums live)) =
      enum_drift (=) (map_of (sn_Enums base)) (map_of (sn_Enums live))"
    unfolding enum_drift_def set_eq_iff in_map_drift
    by (simp add: labels_plain_joined [OF assms] cong: conj_cong)
  then show ?thesis by (simp only: schema_drift_def schema_drift_by_def)
qed

lemma same_schema_iff:
  assumes "no_nil_tables base" "no_nil_tables live"
  shows "schema_drift base live = {} \<longleftrightarrow> same_schema base live"
  unfolding schema_drift_def same_schema_def by (rule same_schema_by_iff [OF assms])

end
