(* ===== verification/SchemaTheorems.thy ===== *)
theory SchemaTheorems
  imports SchemaDrift
begin

text \<open>
  The properties of the schema package: exactness and determinism of drift detection, the
  contents of a captured snapshot, baselines of the older version, and the blind spot of the
  enum comparison. The three passes of a capture over the tables share one contract.
\<close>

subsection \<open>Capture\<close>

lemma each_row_Inr: "each_row f rows st = Inr st' \<Longrightarrow> \<exists>rs. rows = map Inr rs \<and> st' = fold f rs st"
proof (induction f rows st rule: each_row.induct)
  case (3 f row rows st)
  then obtain rs where "rows = map Inr rs" "st' = fold f rs (f row st)" by auto
  then show ?case by (intro exI [of _ "row # rs"]) simp
qed (auto intro: exI [of _ "[]"])

lemma read_rows_Inr:
  "read_rows f ans st = Inr st' \<Longrightarrow> \<exists>rs. ans = Inr (map Inr rs, None) \<and> st' = fold f rs st"
  by (auto simp: read_rows_def split: sum.splits prod.splits option.splits dest!: each_row_Inr)

lemma read_rows_full [simp]: "read_rows f (Inr (map Inr rs, None)) st = Inr (fold f rs st)"
proof -
  have "each_row f (map Inr rs) st = Inr (fold f rs st)" by (induction rs arbitrary: st) simp_all
  then show ?thesis by (simp add: read_rows_def)
qed

text \<open>The tables of a snapshot as a function: an absent table is the empty one.\<close>

definition table_of :: "Snapshot \<Rightarrow> string \<Rightarrow> Table" where
  "table_of s t = (case map_of (sn_Tables s) t of Some (Some tbl) \<Rightarrow> tbl | _ \<Rightarrow> empty_table t)"

lemma on_table_facts:
  "table_of (on_table t f s) u = (if u = t \<and> \<not> ignoreTable t then f (table_of s t) else table_of s u)"
  "map_of (sn_Tables (on_table t f s)) u \<noteq> None \<longleftrightarrow> map_of (sn_Tables s) u \<noteq> None \<or> u = t \<and> \<not> ignoreTable t"
  "no_nil_tables s \<Longrightarrow> no_nil_tables (on_table t f s)"
  "distinct (map fst (sn_Tables s)) \<Longrightarrow> distinct (map fst (sn_Tables (on_table t f s)))"
  "sn_Enums (on_table t f s) = sn_Enums s" "sn_SnapshotVersion (on_table t f s) = sn_SnapshotVersion s"
  "sn_Sequences (on_table t f s) = sn_Sequences s"
proof -
  show "table_of (on_table t f s) u = (if u = t \<and> \<not> ignoreTable t then f (table_of s t) else table_of s u)"
    by (auto simp: table_of_def on_table_def update_conv' Let_def split: option.splits)
  show "map_of (sn_Tables (on_table t f s)) u \<noteq> None \<longleftrightarrow> map_of (sn_Tables s) u \<noteq> None \<or> u = t \<and> \<not> ignoreTable t"
    by (auto simp: on_table_def update_conv' Let_def)
  show "no_nil_tables (on_table t f s)" if "no_nil_tables s"
  proof -
    have "x \<noteq> None" if "(k, x) \<in> set (AList.update t (Some y) m)" "\<forall>(_, x) \<in> set m. x \<noteq> None" for k x y and m :: "(string \<times> Table option) list"
      using that by (induction m) (auto split: if_splits)
    with that show ?thesis by (fastforce simp: no_nil_tables_def on_table_def Let_def list_all_iff)
  qed
  show "distinct (map fst (sn_Tables (on_table t f s)))" if "distinct (map fst (sn_Tables s))"
    using that by (simp add: on_table_def Let_def distinct_update)
qed (simp_all add: on_table_def Let_def)

text \<open>
  The contract of a pass over the tables: \<open>get\<close> reads what the pass collects in a table, \<open>upd\<close>
  appends one element to it. The three passes of \<open>Capture\<close> are instances.
\<close>

locale table_pass =
  fixes get :: "Table \<Rightarrow> 'x list"
    and upd :: "'x \<Rightarrow> Table \<Rightarrow> Table"
  assumes get_upd: "get (upd x tbl) = get tbl @ [x]"
begin

definition pass :: "(string \<times> 'x) list \<Rightarrow> Snapshot \<Rightarrow> Snapshot" where
  "pass rows s = fold (\<lambda>(t, x). on_table t (upd x)) rows s"

lemma pass_simps: "pass [] s = s" "pass ((t, x) # rows) s = pass rows (on_table t (upd x) s)"
  by (simp_all add: pass_def)

lemma get_pass:
  "get (table_of (pass rows s) u) =
     get (table_of s u) @ (if ignoreTable u then [] else map snd (filter (\<lambda>(t, _). t = u) rows))"
  by (induction rows arbitrary: s) (auto simp: pass_simps on_table_facts(1) get_upd)

lemma other_pass:
  assumes "\<And>x tbl. g (upd x tbl) = g tbl"
  shows "g (table_of (pass rows s) u) = g (table_of s u)"
  by (induction rows arbitrary: s) (auto simp: pass_simps on_table_facts(1) assms)

lemma known_pass:
  "map_of (sn_Tables (pass rows s)) u \<noteq> None \<longleftrightarrow>
     map_of (sn_Tables s) u \<noteq> None \<or> u \<in> fst ` set rows \<and> \<not> ignoreTable u"
proof (induction rows arbitrary: s)
  case (Cons r rows)
  show ?case by (cases r) (simp only: pass_simps Cons.IH on_table_facts(2), auto)
qed (simp add: pass_simps)

lemma keeps_pass:
  "no_nil_tables s \<Longrightarrow> no_nil_tables (pass rows s)"
  "distinct (map fst (sn_Tables s)) \<Longrightarrow> distinct (map fst (sn_Tables (pass rows s)))"
  "sn_Enums (pass rows s) = sn_Enums s"
  "sn_SnapshotVersion (pass rows s) = sn_SnapshotVersion s"
  "sn_Sequences (pass rows s) = sn_Sequences s"
  by (induction rows arbitrary: s) (auto simp: pass_simps on_table_facts)

lemma pass_captured: "pass rows (s\<lparr>sn_CapturedAt := n\<rparr>) = (pass rows s)\<lparr>sn_CapturedAt := n\<rparr>"
proof (induction rows arbitrary: s)
  case (Cons r rows)
  obtain t x where r: "r = (t, x)" by (cases r)
  have "on_table t f (s\<lparr>sn_CapturedAt := n\<rparr>) = (on_table t f s)\<lparr>sn_CapturedAt := n\<rparr>" for f
    by (simp add: on_table_def Let_def)
  then show ?case by (simp add: r pass_simps Cons.IH)
qed (simp add: pass_simps)

end

interpretation columns_pass: table_pass tb_Columns "\<lambda>c tbl. tbl\<lparr>tb_Columns := tb_Columns tbl @ [c]\<rparr>"
  by unfold_locales simp

interpretation indexes_pass: table_pass tb_Indexes "\<lambda>i tbl. tbl\<lparr>tb_Indexes := tb_Indexes tbl @ [i]\<rparr>"
  by unfold_locales simp

interpretation constraints_pass: table_pass tb_Constraints "\<lambda>c tbl. tbl\<lparr>tb_Constraints := tb_Constraints tbl @ [c]\<rparr>"
  by unfold_locales simp

lemma capture_passes:
  "captureColumns ans s = Inr s' \<Longrightarrow> \<exists>rs. ans = Inr (map Inr rs, None) \<and> s' = columns_pass.pass rs s"
  "captureIndexes ans' s = Inr s' \<Longrightarrow> \<exists>rs. ans' = Inr (map Inr rs, None) \<and> s' = indexes_pass.pass rs s"
  "captureConstraints ans'' s = Inr s' \<Longrightarrow> \<exists>rs. ans'' = Inr (map Inr rs, None) \<and> s' = constraints_pass.pass rs s"
  by (auto simp: captureColumns_def captureIndexes_def captureConstraints_def columns_pass.pass_def
      indexes_pass.pass_def constraints_pass.pass_def dest!: read_rows_Inr)

lemma add_labels:
  "map_of (fold add_label rs m) n =
     (case (map_of m n, map snd (filter (\<lambda>(t, _). t = n) rs)) of
        (None, []) \<Rightarrow> None
      | (None, ls) \<Rightarrow> Some ls
      | (Some vs, ls) \<Rightarrow> Some (vs @ ls))"
proof (induction rs arbitrary: m)
  case (Cons r rs)
  obtain t l where r: "r = (t, l)" by (cases r)
  have "map_of (add_label (t, l) m) = (map_of m)(t \<mapsto> (case map_of m t of Some ls \<Rightarrow> ls | None \<Rightarrow> []) @ [l])"
    by (simp add: add_label_def update_conv')
  then show ?case
    by (cases "t = n"; cases "map_of m n") (simp_all add: Cons.IH r split: list.split)
qed (simp split: option.split)

lemma distinct_add_labels: "distinct (map fst m) \<Longrightarrow> distinct (map fst (fold add_label rs m))"
  by (induction rs arbitrary: m) (auto simp: add_label_def distinct_update split: prod.splits)

lemma capture_enums:
  assumes "captureEnums ans s = Inr s'" "sn_Enums s = []"
  shows "\<exists>rs. ans = Inr (map Inr rs, None) \<and> s' = s\<lparr>sn_Enums := fold add_label rs []\<rparr>"
  using assms by (auto simp: captureEnums_def split: sum.splits if_splits dest!: read_rows_Inr)

lemma capture_sequences:
  assumes "captureSequences ans s = Inr s'"
  shows "\<exists>rs. ans = Inr (map Inr rs, None) \<and> s' = s\<lparr>sn_Sequences := rs\<rparr>"
proof -
  have "fold (\<lambda>s seqs. seqs @ [s]) rs acc = acc @ rs" for rs acc :: "Sequence list"
    by (induction rs arbitrary: acc) simp_all
  then show ?thesis
    using assms by (auto simp: captureSequences_def split: sum.splits dest!: read_rows_Inr)
qed

text \<open>A successful capture: every query answered in full, and the snapshot is their rows.\<close>

lemma capture_ok:
  assumes "schema_Capture now cat = Inr s"
  obtains cols idxs cons labels seqs where
    "ct_columns cat = Inr (map Inr cols, None)" "ct_indexes cat = Inr (map Inr idxs, None)"
    "ct_constraints cat = Inr (map Inr cons, None)" "ct_enums cat = Inr (map Inr labels, None)"
    "ct_sequences cat = Inr (map Inr seqs, None)"
    "s = (constraints_pass.pass cons (indexes_pass.pass idxs (columns_pass.pass cols
       \<lparr>sn_SnapshotVersion = 2, sn_CapturedAt = now, sn_Tables = [], sn_Enums = [], sn_Sequences = []\<rparr>)))
       \<lparr>sn_Enums := fold add_label labels [], sn_Sequences := seqs\<rparr>"
proof -
  let ?s0 = "\<lparr>sn_SnapshotVersion = 2, sn_CapturedAt = now, sn_Tables = [], sn_Enums = [], sn_Sequences = []\<rparr>"
  obtain s1 s2 s3 s4 where c: "captureColumns (ct_columns cat) ?s0 = Inr s1" "captureIndexes (ct_indexes cat) s1 = Inr s2"
      "captureConstraints (ct_constraints cat) s2 = Inr s3" "captureEnums (ct_enums cat) s3 = Inr s4"
      "captureSequences (ct_sequences cat) s4 = Inr s"
    using assms by (auto simp: schema_Capture_def and_then_def wrap_err_def split: sum.splits)
  obtain cols where 1: "ct_columns cat = Inr (map Inr cols, None)" "s1 = columns_pass.pass cols ?s0"
    using capture_passes(1) [OF c(1)] by auto
  obtain idxs where 2: "ct_indexes cat = Inr (map Inr idxs, None)" "s2 = indexes_pass.pass idxs s1"
    using capture_passes(2) [OF c(2)] by auto
  obtain cons where 3: "ct_constraints cat = Inr (map Inr cons, None)" "s3 = constraints_pass.pass cons s2"
    using capture_passes(3) [OF c(3)] by auto
  have "sn_Enums s3 = []" by (simp add: 1 2 3 columns_pass.keeps_pass indexes_pass.keeps_pass constraints_pass.keeps_pass)
  then obtain labels where 4: "ct_enums cat = Inr (map Inr labels, None)" "s4 = s3\<lparr>sn_Enums := fold add_label labels []\<rparr>"
    using capture_enums [OF c(4)] by auto
  obtain seqs where 5: "ct_sequences cat = Inr (map Inr seqs, None)" "s = s4\<lparr>sn_Sequences := seqs\<rparr>"
    using capture_sequences [OF c(5)] by auto
  show thesis using 1 2 3 4 5 by (intro that) simp_all
qed

lemma capture_full:
  assumes "ct_columns cat = Inr (map Inr cols, None)" "ct_indexes cat = Inr (map Inr idxs, None)"
    "ct_constraints cat = Inr (map Inr cons, None)" "ct_enums cat = Inr (map Inr labels, None)"
    "ct_sequences cat = Inr (map Inr seqs, None)"
  shows "\<exists>s. schema_Capture now cat = Inr s"
  by (simp add: schema_Capture_def and_then_def wrap_err_def captureColumns_def captureIndexes_def
      captureConstraints_def captureEnums_def captureSequences_def assms)

lemma same_schema_refl:
  assumes "sn_Tables s = sn_Tables s'" "sn_Sequences s = sn_Sequences s'" "sn_Enums s = sn_Enums s'"
  shows "same_schema_by joined_alike s s'"
  unfolding same_schema_by_def assms by (auto simp: same_table_def intro!: option.rel_refl)

lemmas all_passes =
  columns_pass.get_pass columns_pass.other_pass indexes_pass.get_pass indexes_pass.other_pass
  constraints_pass.get_pass constraints_pass.other_pass
  columns_pass.keeps_pass indexes_pass.keeps_pass constraints_pass.keeps_pass

text \<open>What a successful capture holds.\<close>

lemma capture_contents:
  fixes cols idxs cons labels seqs now
  defines "s0 \<equiv> \<lparr>sn_SnapshotVersion = 2, sn_CapturedAt = now, sn_Tables = [], sn_Enums = [], sn_Sequences = []\<rparr>"
  defines "s \<equiv> (constraints_pass.pass cons (indexes_pass.pass idxs (columns_pass.pass cols s0)))
     \<lparr>sn_Enums := fold add_label labels [], sn_Sequences := seqs\<rparr>"
  shows "sn_SnapshotVersion s = 2" "no_nil_tables s" "snapshot_wf s" "sn_Sequences s = seqs"
    "map_of (sn_Tables s) t \<noteq> None \<longleftrightarrow>
       \<not> ignoreTable t \<and> t \<in> fst ` set cols \<union> fst ` set idxs \<union> fst ` set cons"
    "\<not> ignoreTable t \<Longrightarrow> tb_Columns (table_of s t) = map snd (filter (\<lambda>(u, _). u = t) cols)"
    "\<not> ignoreTable t \<Longrightarrow> tb_Indexes (table_of s t) = map snd (filter (\<lambda>(u, _). u = t) idxs)"
    "\<not> ignoreTable t \<Longrightarrow> tb_Constraints (table_of s t) = map snd (filter (\<lambda>(u, _). u = t) cons)"
    "map_of (sn_Enums s) n = (case map snd (filter (\<lambda>(u, _). u = n) labels) of [] \<Rightarrow> None | ls \<Rightarrow> Some ls)"
proof -
  let ?s3 = "constraints_pass.pass cons (indexes_pass.pass idxs (columns_pass.pass cols s0))"
  have tables: "sn_Tables s = sn_Tables ?s3" by (simp add: s_def)
  then have t_of: "table_of s = table_of ?s3" by (simp add: fun_eq_iff table_of_def)
  have start: "no_nil_tables s0" "distinct (map fst (sn_Tables s0))" "table_of s0 t = empty_table t"
    "sn_SnapshotVersion s0 = 2" "map_of (sn_Tables s0) t = None" for t
    by (simp_all add: s0_def no_nil_tables_def table_of_def)
  show "sn_SnapshotVersion s = 2" by (simp add: s_def all_passes start)
  show "no_nil_tables s"
  proof -
    have "no_nil_tables ?s3" using start(1) by (simp add: all_passes)
    then show ?thesis by (simp add: no_nil_tables_def tables)
  qed
  show "snapshot_wf s"
    using start(2) by (simp add: snapshot_wf_def s_def distinct_add_labels all_passes)
  show "sn_Sequences s = seqs" by (simp add: s_def)
  show "map_of (sn_Tables s) t \<noteq> None \<longleftrightarrow>
       \<not> ignoreTable t \<and> t \<in> fst ` set cols \<union> fst ` set idxs \<union> fst ` set cons"
    unfolding tables constraints_pass.known_pass indexes_pass.known_pass columns_pass.known_pass start(5) by blast
  show "tb_Columns (table_of s t) = map snd (filter (\<lambda>(u, _). u = t) cols)"
       "tb_Indexes (table_of s t) = map snd (filter (\<lambda>(u, _). u = t) idxs)"
       "tb_Constraints (table_of s t) = map snd (filter (\<lambda>(u, _). u = t) cons)" if "\<not> ignoreTable t"
    using that by (simp_all add: t_of all_passes start(3) empty_table_def)
  show "map_of (sn_Enums s) n = (case map snd (filter (\<lambda>(u, _). u = n) labels) of [] \<Rightarrow> None | ls \<Rightarrow> Some ls)"
    by (simp add: s_def add_labels)
qed

subsection \<open>Properties\<close>

text \<open>C18: Drift detection is exact. When both snapshots hold no nil table and plain enum labels
  (no enum without labels, no label with a comma), the comparison returns, for every order in
  which Go may iterate over the maps: the reported entries are exactly the differences between
  the two snapshots, each with its detail. Tables, columns, indexes, constraints, sequences and
  enums that only one side has are reported as added or removed; those both have are reported
  when a column differs in type, nullability or declared default (none and empty declare the
  same), an index or constraint in its definition, a sequence in its configuration (unless the
  baseline is of version 1, which has names only), an enum in its list of labels. The entries
  are sorted by table, kind and object, and drift is flagged exactly when there is one.
\<close>

theorem schema_diff_exact:
  assumes "valid_order ord" "no_nil_tables base" "no_nil_tables live" "labels_plain base" "labels_plain live"
  shows "\<exists>r. schema_Diff ord base live = Some r \<and> set (dr_Entries r) = schema_drift base live \<and>
     sorted (map drift_key (dr_Entries r)) \<and> (dr_HasDrift r \<longleftrightarrow> schema_drift base live \<noteq> {})"
proof -
  obtain r where "schema_compare ord base live = Some r"
    using schema_compare_panic_iff [OF assms(1), of base live] no_nil_lookup [OF assms(2)] no_nil_lookup [OF assms(3)]
    by (metis not_None_eq)
  with set_compare [OF assms(1) this] schema_drift_plain [OF assms(4,5)] show ?thesis
    by (auto simp: schema_Diff_def)
qed

text \<open>C19: No drift means the same schema: the comparison of two snapshots without nil tables and with
  plain enum labels (no enum without labels, no label with a comma) flags nothing exactly when
  they have the same tables with the same columns (type, nullability and default, none being
  the empty one), indexes and constraints, the same sequences (by name only when the baseline
  is of version 1) and the same enums with the same labels in the same order. Of any two
  snapshots, a nil table on either side of a common name, and nothing else, makes it panic.
\<close>

theorem schema_no_drift_iff:
  assumes "valid_order ord"
  shows "(schema_Diff ord base live = None \<longleftrightarrow>
      (\<exists>t x y. map_of (sn_Tables base) t = Some x \<and> map_of (sn_Tables live) t = Some y \<and> (x = None \<or> y = None))) \<and>
    (no_nil_tables base \<and> no_nil_tables live \<and> labels_plain base \<and> labels_plain live \<longrightarrow>
      (\<exists>r. schema_Diff ord base live = Some r \<and> (\<not> dr_HasDrift r \<longleftrightarrow> same_schema base live)))"
proof (intro conjI impI)
  show "schema_Diff ord base live = None \<longleftrightarrow>
      (\<exists>t x y. map_of (sn_Tables base) t = Some x \<and> map_of (sn_Tables live) t = Some y \<and> (x = None \<or> y = None))"
    unfolding schema_Diff_def by (rule schema_compare_panic_iff [OF assms])
  assume n: "no_nil_tables base \<and> no_nil_tables live \<and> labels_plain base \<and> labels_plain live"
  obtain r where "schema_compare ord base live = Some r"
    using schema_compare_panic_iff [OF assms, of base live] no_nil_lookup n by (metis not_None_eq)
  with set_compare(2) [OF assms this] schema_drift_plain same_schema_iff n
  show "\<exists>r. schema_Diff ord base live = Some r \<and> (\<not> dr_HasDrift r \<longleftrightarrow> same_schema base live)"
    by (auto simp: schema_Diff_def)
qed

text \<open>The report does not depend on the order of map iteration: when no table name has a
  slash, every order gives the same result, the same list of entries included.
\<close>

theorem schema_diff_deterministic:
  assumes "valid_order ord" "valid_order ord'" "slash_free base" "slash_free live"
  shows "schema_Diff ord base live = schema_Diff ord' base live"
proof (cases "compare_entries ord base live")
  case None
  with compare_entries_order [OF assms(1,2), of base live] show ?thesis
    by (simp add: schema_Diff_def schema_compare_def)
next
  case (Some es)
  with compare_entries_order [OF assms(1,2), of base live] obtain es' where
    es': "compare_entries ord' base live = Some es'" "mset es = mset es'"
    by (cases "compare_entries ord' base live") auto
  have "inj_on drift_key (set es)"
    unfolding set_compare_entries [OF assms(1) Some] by (rule drift_key_inj [OF assms(3,4)])
  then have "sort_key drift_key es = sort_key drift_key es'"
    using es'(2) by (intro sort_key_inj_key_eq) simp_all
  moreover have "length es = length es'" using es'(2) by (rule mset_eq_length)
  ultimately show ?thesis using Some es' by (simp add: schema_Diff_def schema_compare_def)
qed

lemma recapture_clean:
  assumes "schema_Capture now cat = Inr s" "valid_order ord"
  shows "\<exists>s' r. schema_Capture later cat = Inr s' \<and> schema_Diff ord s s' = Some r \<and> \<not> dr_HasDrift r"
proof (rule capture_ok [OF assms(1)], goal_cases)
  case (1 cols idxs cons labels seqs)
  obtain s' where s': "schema_Capture later cat = Inr s'"
    using capture_full [OF 1(1-5)] by blast
  have "s' = (constraints_pass.pass cons (indexes_pass.pass idxs (columns_pass.pass cols
       \<lparr>sn_SnapshotVersion = 2, sn_CapturedAt = later, sn_Tables = [], sn_Enums = [], sn_Sequences = []\<rparr>)))
       \<lparr>sn_Enums := fold add_label labels [], sn_Sequences := seqs\<rparr>"
    by (rule capture_ok [OF s']) (simp add: 1 inj_eq [OF inj_mapI, of Inr])
  moreover have "\<lparr>sn_SnapshotVersion = 2, sn_CapturedAt = later, sn_Tables = [], sn_Enums = [], sn_Sequences = []\<rparr> =
      \<lparr>sn_SnapshotVersion = 2, sn_CapturedAt = now, sn_Tables = [], sn_Enums = [], sn_Sequences = []\<rparr>\<lparr>sn_CapturedAt := later\<rparr>"
    by simp
  ultimately have s'_s: "s' = s\<lparr>sn_CapturedAt := later\<rparr>"
    by (simp only: 1(6) columns_pass.pass_captured indexes_pass.pass_captured constraints_pass.pass_captured) simp
  have nil: "no_nil_tables s" unfolding 1(6) by (rule capture_contents)
  then have nil': "no_nil_tables s'" by (simp add: s'_s no_nil_tables_def)
  have "same_schema_by joined_alike s s'" by (rule same_schema_refl) (simp_all add: s'_s)
  moreover obtain r where r: "schema_compare ord s s' = Some r"
    using schema_compare_panic_iff [OF assms(2), of s s'] no_nil_lookup nil nil' by (metis not_None_eq)
  ultimately have "\<not> dr_HasDrift r"
    using set_compare(2) [OF assms(2) r] same_schema_by_iff [OF nil nil'] by simp
  then show ?case using s' r by (auto simp: schema_Diff_def)
qed

text \<open>Capturing reads the catalog faithfully. A capture succeeds only when all five queries were
  answered in full; then the snapshot has version 2 and no nil table, its tables are those
  the rows name, less the ignored ones, each with its columns, indexes and constraints in
  row order; enums hold their labels in order and the sequences are the rows. An unchanged
  catalog captured again, at any time, shows no drift.
\<close>

theorem schema_capture_spec:
  assumes "schema_Capture now cat = Inr s" "valid_order ord"
  shows "\<exists>cols idxs cons labels seqs.
     ct_columns cat = Inr (map Inr cols, None) \<and> ct_indexes cat = Inr (map Inr idxs, None) \<and>
     ct_constraints cat = Inr (map Inr cons, None) \<and> ct_enums cat = Inr (map Inr labels, None) \<and>
     ct_sequences cat = Inr (map Inr seqs, None) \<and>
     sn_SnapshotVersion s = 2 \<and> no_nil_tables s \<and> snapshot_wf s \<and> sn_Sequences s = seqs \<and>
     (\<forall>t. (map_of (sn_Tables s) t \<noteq> None \<longleftrightarrow>
            \<not> ignoreTable t \<and> t \<in> fst ` set cols \<union> fst ` set idxs \<union> fst ` set cons) \<and>
          (\<not> ignoreTable t \<longrightarrow>
            tb_Columns (table_of s t) = map snd (filter (\<lambda>(u, _). u = t) cols) \<and>
            tb_Indexes (table_of s t) = map snd (filter (\<lambda>(u, _). u = t) idxs) \<and>
            tb_Constraints (table_of s t) = map snd (filter (\<lambda>(u, _). u = t) cons))) \<and>
     (\<forall>n. map_of (sn_Enums s) n =
          (case map snd (filter (\<lambda>(u, _). u = n) labels) of [] \<Rightarrow> None | ls \<Rightarrow> Some ls)) \<and>
     (\<forall>later. \<exists>s' r. schema_Capture later cat = Inr s' \<and> schema_Diff ord s s' = Some r \<and> \<not> dr_HasDrift r)"
proof -
  obtain cols idxs cons labels seqs where rows: "ct_columns cat = Inr (map Inr cols, None)"
    "ct_indexes cat = Inr (map Inr idxs, None)" "ct_constraints cat = Inr (map Inr cons, None)"
    "ct_enums cat = Inr (map Inr labels, None)" "ct_sequences cat = Inr (map Inr seqs, None)"
    and s: "s = (constraints_pass.pass cons (indexes_pass.pass idxs (columns_pass.pass cols
       \<lparr>sn_SnapshotVersion = 2, sn_CapturedAt = now, sn_Tables = [], sn_Enums = [], sn_Sequences = []\<rparr>)))
       \<lparr>sn_Enums := fold add_label labels [], sn_Sequences := seqs\<rparr>"
    by (rule capture_ok [OF assms(1)])
  note held = capture_contents [where cons = cons and idxs = idxs and cols = cols and now = now and labels = labels
      and seqs = seqs, folded s]
  have again: "\<exists>s' r. schema_Capture later cat = Inr s' \<and> schema_Diff ord s s' = Some r \<and> \<not> dr_HasDrift r" for later
    by (rule recapture_clean [OF assms])
  show ?thesis
    by (rule exI [of _ cols], rule exI [of _ idxs], rule exI [of _ cons], rule exI [of _ labels], rule exI [of _ seqs],
        intro conjI allI impI) (rule rows | rule again | rule held | assumption)+
qed

lemma named_None_iff: "named name xs n = None \<longleftrightarrow> n \<notin> name ` set xs"
  by (auto simp: named_def map_of_eq_None_iff image_iff)

text \<open>Baselines of version 1 stay usable. A stored snapshot that lists sequences by name only
  loads, and against a live schema with the same tables and enums and sequences of exactly
  these names it shows no drift, whatever the configuration of the live sequences.
\<close>

theorem schema_legacy_baseline:
  assumes "valid_order ord"
    and raw: "jn_snapshot js data = Inr raw" "rw_SnapshotVersion raw = 0 \<or> rw_SnapshotVersion raw = 1"
      "rw_Sequences raw \<noteq> []" "rw_Sequences raw \<noteq> ''null''"
      "jn_sequences js (rw_Sequences raw) = Inl err" "jn_names js (rw_Sequences raw) = Inr names"
    and live: "no_nil_tables live" "rw_Tables raw = sn_Tables live" "rw_Enums raw = sn_Enums live"
      "set names = sq_Name ` set (sn_Sequences live)"
  shows "\<exists>base r. UnmarshalSnapshot js data = Inr base \<and> schema_Diff ord base live = Some r \<and> \<not> dr_HasDrift r"
proof -
  define base where "base = \<lparr>sn_SnapshotVersion = 1, sn_CapturedAt = rw_CapturedAt raw, sn_Tables = sn_Tables live,
     sn_Enums = sn_Enums live, sn_Sequences = map named_sequence names\<rparr>"
  have loaded: "UnmarshalSnapshot js data = Inr base"
    using raw live(2,3) by (auto simp: UnmarshalSnapshot_def Let_def base_def)
  have nil: "no_nil_tables base" using live(1) by (simp add: no_nil_tables_def base_def)
  have "rel_option (\<lambda>_ _. True) (named sq_Name (map named_sequence names) n) (named sq_Name (sn_Sequences live) n)" for n
    using named_None_iff [of sq_Name "map named_sequence names" n] named_None_iff [of sq_Name "sn_Sequences live" n] live(4)
    by (cases "named sq_Name (map named_sequence names) n"; cases "named sq_Name (sn_Sequences live) n")
       (auto simp: image_image named_sequence_def)
  moreover have "same_table b b" for b by (simp add: same_table_def option.rel_refl)
  ultimately have "same_schema_by joined_alike base live"
    by (simp add: same_schema_by_def joined_alike_def base_def option.rel_refl)
  moreover obtain r where r: "schema_compare ord base live = Some r"
    using schema_compare_panic_iff [OF assms(1), of base live] no_nil_lookup nil live(1) by (metis not_None_eq)
  ultimately have "\<not> dr_HasDrift r"
    using set_compare(2) [OF assms(1) r] same_schema_by_iff [OF nil live(1)] by simp
  then show ?thesis using loaded r by (auto simp: schema_Diff_def)
qed

text \<open>Labels with a comma hide drift. Two enums whose label lists differ only in whether a
  comma separates two labels or belongs to one compare as equal, so replacing the labels
  \<open>x\<close>, \<open>y\<close> by the single label \<open>x,y\<close> is never reported.
\<close>

theorem schema_enum_comma_blind:
  assumes "valid_order ord" "no_nil_tables s"
  shows "\<exists>r. schema_Diff ord (s\<lparr>sn_Enums := [(n, [x, y])]\<rparr>) (s\<lparr>sn_Enums := [(n, [x @ '','' @ y])]\<rparr>) = Some r \<and>
     \<not> dr_HasDrift r"
proof -
  let ?a = "s\<lparr>sn_Enums := [(n, [x, y])]\<rparr>" and ?b = "s\<lparr>sn_Enums := [(n, [x @ '','' @ y])]\<rparr>"
  have nil: "no_nil_tables ?a" "no_nil_tables ?b" using assms(2) by (simp_all add: no_nil_tables_def)
  have "same_table b b" for b by (simp add: same_table_def option.rel_refl)
  then have "same_schema_by joined_alike ?a ?b"
    by (simp add: same_schema_by_def joined_alike_def schema_join_def option.rel_refl)
  moreover obtain r where r: "schema_compare ord ?a ?b = Some r"
    using schema_compare_panic_iff [OF assms(1), of ?a ?b] no_nil_lookup nil by (metis not_None_eq)
  ultimately show ?thesis
    using set_compare(2) [OF assms(1) r] same_schema_by_iff [OF nil] by (auto simp: schema_Diff_def)
qed

subsection \<open>Witnesses\<close>

definition demo_order :: range_order where
  "demo_order site ks = rev ks"

lemma demo_order_valid: "valid_order demo_order" "valid_order (\<lambda>_ ks. ks)"
  by (simp_all add: valid_order_def demo_order_def)

definition demo_column :: Column where
  "demo_column = \<lparr>co_Name = ''id'', co_DataType = ''bigint'', co_IsNullable = False, co_Default = None, co_Position = 1\<rparr>"

definition demo_sequence :: Sequence where
  "demo_sequence = (named_sequence ''s'')\<lparr>sq_DataType := ''bigint'', sq_Cycle := True\<rparr>"

definition demo_base :: Snapshot where
  "demo_base = \<lparr>sn_SnapshotVersion = 2, sn_CapturedAt = 0,
     sn_Tables = [(''users'', Some ((empty_table ''users'')\<lparr>tb_Columns := [demo_column]\<rparr>))],
     sn_Enums = [(''mood'', [''ok'', ''sad''])], sn_Sequences = [demo_sequence]\<rparr>"

definition demo_live :: Snapshot where
  "demo_live = demo_base\<lparr>sn_Tables := [(''users'', Some ((empty_table ''users'')\<lparr>tb_Columns :=
     [demo_column\<lparr>co_DataType := ''integer''\<rparr>]\<rparr>)), (''posts'', Some (empty_table ''posts''))],
     sn_Enums := [(''mood'', [''ok'', ''glad''])]\<rparr>"

definition demo_catalog :: catalog where
  "demo_catalog = \<lparr>ct_columns = Inr ([Inr (''users'', demo_column), Inr (''pg_x'', demo_column)], None),
     ct_indexes = Inr ([], None), ct_constraints = Inr ([], None),
     ct_enums = Inr ([Inr (''mood'', ''ok''), Inr (''mood'', ''sad'')], None),
     ct_sequences = Inr ([Inr demo_sequence], None)\<rparr>"

definition demo_raw :: raw_snapshot where
  "demo_raw = \<lparr>rw_SnapshotVersion = 0, rw_CapturedAt = 0, rw_Tables = sn_Tables demo_base,
     rw_Enums = sn_Enums demo_base, rw_Sequences = ''[s]''\<rparr>"

definition demo_json :: json_reader where
  "demo_json = \<lparr>jn_snapshot = (\<lambda>_. Inr demo_raw),
     jn_sequences = (\<lambda>_. Inl (ErrApp ''json'')), jn_names = (\<lambda>_. Inr [''s''])\<rparr>"

lemmas schema_demos = demo_base_def demo_live_def demo_column_def demo_sequence_def named_sequence_def
  empty_table_def no_nil_tables_def slash_free_def labels_plain_def

theorem schema_diff_exact_witness:
  "\<exists>r. schema_Diff demo_order demo_base demo_live = Some r \<and> set (dr_Entries r) = schema_drift demo_base demo_live \<and>
     sorted (map drift_key (dr_Entries r)) \<and> (dr_HasDrift r \<longleftrightarrow> schema_drift demo_base demo_live \<noteq> {})"
  by (rule schema_diff_exact [OF demo_order_valid(1)]) (simp_all add: schema_demos)

theorem schema_no_drift_iff_witness:
  "\<exists>r. schema_Diff demo_order demo_base demo_live = Some r \<and> (\<not> dr_HasDrift r \<longleftrightarrow> same_schema demo_base demo_live)"
proof -
  have "no_nil_tables demo_base \<and> no_nil_tables demo_live \<and> labels_plain demo_base \<and> labels_plain demo_live"
    by (simp add: schema_demos)
  with schema_no_drift_iff [OF demo_order_valid(1), of demo_base demo_live] show ?thesis by blast
qed

theorem schema_diff_deterministic_witness:
  "schema_Diff demo_order demo_base demo_live = schema_Diff (\<lambda>_ ks. ks) demo_base demo_live"
  by (rule schema_diff_deterministic [OF demo_order_valid]) (simp_all add: schema_demos)

lemma demo_capture: "\<exists>s. schema_Capture 5 demo_catalog = Inr s"
  by (simp add: schema_Capture_def and_then_def wrap_err_def captureColumns_def captureIndexes_def
      captureConstraints_def captureEnums_def captureSequences_def read_rows_def demo_catalog_def)

theorem schema_capture_spec_witness:
  "\<exists>s s' r. schema_Capture 5 demo_catalog = Inr s \<and> schema_Capture 9 demo_catalog = Inr s' \<and>
     schema_Diff demo_order s s' = Some r \<and> \<not> dr_HasDrift r"
proof -
  obtain s where "schema_Capture 5 demo_catalog = Inr s" using demo_capture by blast
  with schema_capture_spec [OF this demo_order_valid(1)] show ?thesis by blast
qed

theorem schema_legacy_baseline_witness:
  "\<exists>base r. UnmarshalSnapshot demo_json ''{}'' = Inr base \<and> schema_Diff demo_order base demo_base = Some r \<and> \<not> dr_HasDrift r"
  by (rule schema_legacy_baseline [OF demo_order_valid(1), where raw = demo_raw and err = "ErrApp ''json''" and names = "[''s'']"])
     (simp_all add: demo_json_def demo_raw_def schema_demos)

theorem schema_enum_comma_blind_witness:
  "\<exists>r. schema_Diff demo_order (demo_base\<lparr>sn_Enums := [(''mood'', [''a'', ''b''])]\<rparr>)
     (demo_base\<lparr>sn_Enums := [(''mood'', [''a'' @ '','' @ ''b''])]\<rparr>) = Some r \<and> \<not> dr_HasDrift r"
  by (rule schema_enum_comma_blind [OF demo_order_valid(1)]) (simp add: schema_demos)

end
