(* ===== verification/Engine.thy ===== *)
theory Engine
  imports GoStrings
begin

text \<open>
  Construction and registration of an engine (\<open>engine/engine.go\<close>, \<open>engine/options.go\<close>,
  \<open>engine/module.go\<close>, \<open>engine/worker.go\<close>): the options, \<open>New\<close>, the routes, \<open>Register\<close> with
  modules that register further modules and workers, and \<open>AddWorker\<close>. \<open>Run\<close> is in \<open>EngineRun\<close>.
  A logger, tracer or meter is an opaque value, \<open>None\<close> being nil.
\<close>

subsection \<open>Engines\<close>

datatype Profile = ProfileHTTPAndWorker | ProfileHTTP | ProfileWorker

definition profile_String :: "Profile \<Rightarrow> string" where
  "profile_String p =
     (case p of ProfileHTTP \<Rightarrow> ''http-only'' | ProfileWorker \<Rightarrow> ''worker-only'' | ProfileHTTPAndWorker \<Rightarrow> ''http+worker'')"

record serverTimeouts =
  st_readHeader :: duration
  st_read :: duration
  st_write :: duration
  st_idle :: duration

text \<open>A worker: its name and its code.\<close>

datatype 'b Worker = Worker (wk_Name: string) (wk_Run: 'b)

text \<open>
  The engine. \<open>'s\<close> is the type of loggers, tracers and meters, \<open>'h\<close> of middleware and \<open>'b\<close> of a
  worker's code. The maps \<open>registered\<close> and \<open>workerNames\<close> are used as sets; modules are kept by name.
\<close>

record ('s, 'h, 'b) Engine =
  eg_name :: string
  eg_address :: string
  eg_profile :: Profile
  eg_version :: string
  eg_environment :: string
  eg_logger :: 's
  eg_mux :: "string list"
  eg_modules :: "string list"
  eg_workers :: "'b Worker list"
  eg_middleware :: "'h option list"
  eg_shutdownTimeout :: duration
  eg_workerShutdownTimeout :: duration
  eg_serverTimeouts :: serverTimeouts
  eg_tracer :: 's
  eg_meter :: 's
  eg_registered :: "string set"
  eg_workerNames :: "string set"
  eg_started :: bool

subsection \<open>Options\<close>

datatype ('s, 'h) Option =
    WithName string
  | WithAddress string
  | WithProfile Profile
  | WithVersion string
  | WithEnvironment string
  | WithLogger "'s option"
  | WithShutdownTimeout duration
  | WithWorkerShutdownTimeout duration
  | WithServerTimeouts duration duration duration duration
  | WithMiddleware "'h option list"
  | WithTelemetry "'s option" "'s option"

fun apply_option :: "('s, 'h) Option \<Rightarrow> ('s, 'h, 'b) Engine \<Rightarrow> ('s, 'h, 'b) Engine" where
  "apply_option (WithName name) e = e\<lparr>eg_name := name\<rparr>"
| "apply_option (WithAddress address) e = e\<lparr>eg_address := address\<rparr>"
| "apply_option (WithProfile p) e = e\<lparr>eg_profile := p\<rparr>"
| "apply_option (WithVersion version) e = e\<lparr>eg_version := version\<rparr>"
| "apply_option (WithEnvironment env) e = e\<lparr>eg_environment := env\<rparr>"
| "apply_option (WithLogger logger) e = (case logger of Some l \<Rightarrow> e\<lparr>eg_logger := l\<rparr> | None \<Rightarrow> e)"
| "apply_option (WithShutdownTimeout timeout) e =
     (if timeout > 0 then e\<lparr>eg_shutdownTimeout := timeout\<rparr> else e)"
| "apply_option (WithWorkerShutdownTimeout timeout) e =
     (if timeout > 0 then e\<lparr>eg_workerShutdownTimeout := timeout\<rparr> else e)"
| "apply_option (WithServerTimeouts readHeader read write idle) e =
     e\<lparr>eg_serverTimeouts := \<lparr>st_readHeader = readHeader, st_read = read, st_write = write, st_idle = idle\<rparr>\<rparr>"
| "apply_option (WithMiddleware middleware) e = e\<lparr>eg_middleware := eg_middleware e @ middleware\<rparr>"
| "apply_option (WithTelemetry tracer meter) e =
     (let e1 = (case tracer of Some t \<Rightarrow> e\<lparr>eg_tracer := t\<rparr> | None \<Rightarrow> e)
      in (case meter of Some m \<Rightarrow> e1\<lparr>eg_meter := m\<rparr> | None \<Rightarrow> e1))"

abbreviation seconds :: "int \<Rightarrow> duration" where
  "seconds n \<equiv> n * 1000000000"

text \<open>The defaults; \<open>log\<close>, \<open>nt\<close> and \<open>nm\<close> are the JSON logger and the no-op tracer and meter.\<close>

definition default_engine :: "'s \<Rightarrow> 's \<Rightarrow> 's \<Rightarrow> ('s, 'h, 'b) Engine" where
  "default_engine log nt nm =
     \<lparr>eg_name = ''devengine-app'', eg_address = '':8080'', eg_profile = ProfileHTTPAndWorker,
      eg_version = [], eg_environment = [], eg_logger = log, eg_mux = [], eg_modules = [],
      eg_workers = [], eg_middleware = [], eg_shutdownTimeout = seconds 10,
      eg_workerShutdownTimeout = seconds 30,
      eg_serverTimeouts = \<lparr>st_readHeader = seconds 5, st_read = seconds 30, st_write = seconds 30,
        st_idle = seconds 60\<rparr>,
      eg_tracer = nt, eg_meter = nm, eg_registered = {}, eg_workerNames = {}, eg_started = False\<rparr>"

definition engine_New :: "'s \<Rightarrow> 's \<Rightarrow> 's \<Rightarrow> ('s, 'h) Option list \<Rightarrow> ('s, 'h, 'b) Engine" where
  "engine_New log nt nm options = fold apply_option options (default_engine log nt nm)"

subsection \<open>Routes\<close>

text \<open>
  \<open>http.ServeMux\<close> panics when a pattern conflicts with one it has (or is malformed): \<open>conflict\<close>
  says when, \<open>None\<close> is the panic.
\<close>

definition engine_Handle ::
  "(string list \<Rightarrow> string \<Rightarrow> bool) \<Rightarrow> string \<Rightarrow> ('s, 'h, 'b) Engine \<Rightarrow> ('s, 'h, 'b) Engine option" where
  "engine_Handle conflict pattern e =
     (if conflict (eg_mux e) pattern then None else Some (e\<lparr>eg_mux := eg_mux e @ [pattern]\<rparr>))"

definition installInfrastructureRoutes ::
  "(string list \<Rightarrow> string \<Rightarrow> bool) \<Rightarrow> ('s, 'h, 'b) Engine \<Rightarrow> ('s, 'h, 'b) Engine option" where
  "installInfrastructureRoutes conflict e =
     (case engine_Handle conflict ''GET /healthz'' e of
        None \<Rightarrow> None
      | Some e' \<Rightarrow> engine_Handle conflict ''GET /readyz'' e')"

subsection \<open>Workers\<close>

fun add_workers :: "'b Worker option list \<Rightarrow> ('s, 'h, 'b) Engine \<Rightarrow> ('s, 'h, 'b) Engine \<times> goerr option" where
  "add_workers [] e = (e, None)"
| "add_workers (None # ws) e = (e, Some (ErrMsg ''engine: nil worker'' []))"
| "add_workers (Some w # ws) e =
     (if wk_Name w = [] then (e, Some (ErrMsg ''engine: worker name is required'' []))
      else if wk_Name w \<in> eg_workerNames e
      then (e, Some (ErrMsg ''engine: worker %q already registered'' [wk_Name w]))
      else add_workers ws (e\<lparr>eg_workerNames := insert (wk_Name w) (eg_workerNames e),
                            eg_workers := eg_workers e @ [w]\<rparr>))"

definition engine_AddWorker :: "'b Worker option list \<Rightarrow> ('s, 'h, 'b) Engine \<Rightarrow> ('s, 'h, 'b) Engine \<times> goerr option" where
  "engine_AddWorker ws e =
     (if eg_started e then (e, Some (ErrMsg ''engine: cannot register workers after start'' []))
      else add_workers ws e)"

subsection \<open>Modules\<close>

text \<open>
  A module: its name and what its \<open>Register\<close> does, a sequence of calls to the engine and then
  its own result. After a call that fails the module either returns that error (the flag) or
  goes on. A \<open>ModuleFunc\<close> with a nil function is a module with no calls and result nil.
\<close>

datatype 'b Module =
    Module (mod_Name: string) (mod_calls: "'b engine_call list") (mod_result: "goerr option")
and 'b engine_call =
    CallRegister bool "'b Module option list"
  | CallAddWorker bool "'b Worker option list"

text \<open>The section under the lock at the start of one round of \<open>Register\<close>: the refusals, or the
  reservation of the name.\<close>

definition reserve_module :: "string \<Rightarrow> ('s, 'h, 'b) Engine \<Rightarrow> goerr + ('s, 'h, 'b) Engine" where
  "reserve_module name e =
     (if name = [] then Inl (ErrMsg ''engine: module name is required'' [])
      else if eg_started e then Inl (ErrMsg ''engine: cannot register modules after start'' [])
      else if name \<in> eg_registered e then Inl (ErrMsg ''engine: module %q already registered'' [name])
      else Inr (e\<lparr>eg_registered := insert name (eg_registered e)\<rparr>))"

definition release_module :: "string \<Rightarrow> ('s, 'h, 'b) Engine \<Rightarrow> ('s, 'h, 'b) Engine" where
  "release_module name e = e\<lparr>eg_registered := eg_registered e - {name}\<rparr>"

definition append_module :: "string \<Rightarrow> ('s, 'h, 'b) Engine \<Rightarrow> ('s, 'h, 'b) Engine" where
  "append_module name e = e\<lparr>eg_modules := eg_modules e @ [name]\<rparr>"

fun engine_Register :: "'b Module option list \<Rightarrow> ('s, 'h, 'b) Engine \<Rightarrow> ('s, 'h, 'b) Engine \<times> goerr option"
  and module_Register :: "'b engine_call list \<Rightarrow> goerr option \<Rightarrow> ('s, 'h, 'b) Engine \<Rightarrow> ('s, 'h, 'b) Engine \<times> goerr option"
where
  "engine_Register [] e = (e, None)"
| "engine_Register (None # ms) e = (e, Some (ErrMsg ''engine: nil module'' []))"
| "engine_Register (Some (Module name calls result) # ms) e =
     (case reserve_module name e of
        Inl err \<Rightarrow> (e, Some err)
      | Inr e1 \<Rightarrow>
          (case module_Register calls result e1 of
             (e2, Some err) \<Rightarrow> (release_module name e2, Some (ErrWrap ''register module %q: %w'' [name] err))
           | (e2, None) \<Rightarrow> engine_Register ms (append_module name e2)))"
| "module_Register [] result e = (e, result)"
| "module_Register (CallRegister give_up ms # calls) result e =
     (case engine_Register ms e of
        (e', Some err) \<Rightarrow> if give_up then (e', Some err) else module_Register calls result e'
      | (e', None) \<Rightarrow> module_Register calls result e')"
| "module_Register (CallAddWorker give_up ws # calls) result e =
     (case engine_AddWorker ws e of
        (e', Some err) \<Rightarrow> if give_up then (e', Some err) else module_Register calls result e'
      | (e', None) \<Rightarrow> module_Register calls result e')"

subsection \<open>Registration as atomic sections\<close>

text \<open>
  What one thread does under the lock is atomic; between the sections of one \<open>Register\<close>, code
  of the module and other threads run. The relation has one rule for each section. The list
  \<open>pending\<close> holds the names whose module is being registered.
\<close>

type_synonym ('s, 'h, 'b) reg_state = "('s, 'h, 'b) Engine \<times> string list"

inductive reg_step :: "('s, 'h, 'b) reg_state \<Rightarrow> ('s, 'h, 'b) reg_state \<Rightarrow> bool" where
  reserve: "reserve_module name e = Inr e' \<Longrightarrow> reg_step (e, pending) (e', name # pending)"
| release: "name \<in> set pending \<Longrightarrow> reg_step (e, pending) (release_module name e, remove1 name pending)"
| append: "name \<in> set pending \<Longrightarrow> reg_step (e, pending) (append_module name e, remove1 name pending)"
| workers: "reg_step (e, pending) (fst (engine_AddWorker ws e), pending)"
| start: "reg_step (e, pending) (e\<lparr>eg_started := True\<rparr>, pending)"

inductive_cases reg_stepE: "reg_step s s'"

text \<open>A call of \<open>Register\<close>, nested ones included, is a run of sections.\<close>

lemma reg_trans: "reg_step\<^sup>*\<^sup>* a b \<Longrightarrow> reg_step\<^sup>*\<^sup>* b c \<Longrightarrow> reg_step\<^sup>*\<^sup>* a c"
  by (rule rtranclp_trans)

lemma Register_runs:
  "reg_step\<^sup>*\<^sup>* (e, pending) (fst (engine_Register ms e), pending)"
  "reg_step\<^sup>*\<^sup>* (e, pending) (fst (module_Register calls result e), pending)"
proof (induction ms e and calls result e arbitrary: pending and pending rule: engine_Register_module_Register.induct)
  case (3 name calls result ms e)
  show ?case
  proof (cases "reserve_module name e")
    case (Inr e1)
    obtain e2 r where c: "module_Register calls result e1 = (e2, r)" by (cases "module_Register calls result e1")
    have "reg_step (e, pending) (e1, name # pending)" using Inr by (rule reg_step.reserve)
    moreover have "reg_step\<^sup>*\<^sup>* (e1, name # pending) (e2, name # pending)"
      using "3.IH"(1) [OF Inr, of "name # pending"] c by simp
    ultimately have body: "reg_step\<^sup>*\<^sup>* (e, pending) (e2, name # pending)" by (rule converse_rtranclp_into_rtranclp)
    show ?thesis
    proof (cases r)
      case None
      have "reg_step (e2, name # pending) (append_module name e2, pending)"
        using reg_step.append [of name "name # pending" e2] by simp
      then have "reg_step\<^sup>*\<^sup>* (e, pending) (append_module name e2, pending)"
        by (rule rtranclp.rtrancl_into_rtrancl [OF body])
      then show ?thesis
        using "3.IH"(2) [OF Inr c [symmetric] None, of pending] by (auto simp: Inr c None intro: reg_trans)
    next
      case (Some err)
      have "reg_step (e2, name # pending) (release_module name e2, pending)"
        using reg_step.release [of name "name # pending" e2] by simp
      then show ?thesis using body by (simp add: Inr c Some)
    qed
  qed simp
next
  case (5 give_up ms calls result e)
  then show ?case by (fastforce split: prod.splits option.splits if_splits intro: reg_trans)
next
  case (6 give_up ws calls result e)
  have "reg_step\<^sup>*\<^sup>* (e, pending) (fst (engine_AddWorker ws e), pending)"
    by (rule r_into_rtranclp) (rule reg_step.workers)
  with 6 show ?case by (fastforce split: prod.splits option.splits if_splits intro: reg_trans)
qed simp_all

subsection \<open>The invariant of registration\<close>

definition reg_inv :: "('s, 'h, 'b) reg_state \<Rightarrow> bool" where
  "reg_inv s \<longleftrightarrow> (case s of (e, pending) \<Rightarrow>
     distinct (eg_modules e @ pending) \<and> set (eg_modules e @ pending) = eg_registered e \<and>
     distinct (map wk_Name (eg_workers e)) \<and> wk_Name ` set (eg_workers e) = eg_workerNames e \<and>
     [] \<notin> eg_registered e \<and> [] \<notin> eg_workerNames e)"

lemma reg_invI:
  assumes "distinct (eg_modules e @ pending)" "set (eg_modules e @ pending) = eg_registered e"
    "distinct (map wk_Name (eg_workers e))" "wk_Name ` set (eg_workers e) = eg_workerNames e"
    "[] \<notin> eg_registered e" "[] \<notin> eg_workerNames e"
  shows "reg_inv (e, pending)"
  using assms by (simp add: reg_inv_def)

lemma add_workers_all:
  "reg_inv (e, pending) \<Longrightarrow>
     reg_inv (fst (add_workers ws e), pending) \<and> eg_modules (fst (add_workers ws e)) = eg_modules e \<and>
     eg_registered (fst (add_workers ws e)) = eg_registered e \<and>
     prefix (eg_workers e) (eg_workers (fst (add_workers ws e))) \<and>
     eg_started (fst (add_workers ws e)) = eg_started e"
proof (induction ws e rule: add_workers.induct)
  case (3 w ws e)
  let ?e = "e\<lparr>eg_workerNames := insert (wk_Name w) (eg_workerNames e), eg_workers := eg_workers e @ [w]\<rparr>"
  show ?case
  proof (cases "wk_Name w = [] \<or> wk_Name w \<in> eg_workerNames e")
    case True
    with "3.prems" show ?thesis by auto
  next
    case False
    then have "reg_inv (?e, pending)" using "3.prems" by (fastforce simp: reg_inv_def)
    with "3.IH" False show ?thesis by (auto simp: prefix_def)
  qed
qed simp_all

lemmas add_workers_keeps = add_workers_all [THEN conjunct1] add_workers_all [THEN conjunct2, THEN conjunct1]
  add_workers_all [THEN conjunct2, THEN conjunct2, THEN conjunct1]
  add_workers_all [THEN conjunct2, THEN conjunct2, THEN conjunct2, THEN conjunct1]
  add_workers_all [THEN conjunct2, THEN conjunct2, THEN conjunct2, THEN conjunct2]

lemma reserve_Inr:
  "reserve_module name e = Inr e' \<longleftrightarrow>
     name \<noteq> [] \<and> \<not> eg_started e \<and> name \<notin> eg_registered e \<and> e' = e\<lparr>eg_registered := insert name (eg_registered e)\<rparr>"
  by (auto simp: reserve_module_def)

lemma reg_step_inv: "reg_step s s' \<Longrightarrow> reg_inv s \<Longrightarrow> reg_inv s'"
proof (induction rule: reg_step.induct)
  case (reserve name e e' pending)
  then show ?case by (auto simp: reserve_Inr reg_inv_def)
next
  case (release name pending e)
  then have "set (eg_modules e) \<union> (set pending - {name}) = eg_registered e - {name}" by (auto simp: reg_inv_def)
  with release show ?case by (auto simp: reg_inv_def release_module_def)
next
  case (append name pending e)
  then have "insert name (set (eg_modules e)) \<union> (set pending - {name}) = eg_registered e" by (auto simp: reg_inv_def)
  with append show ?case by (auto simp: reg_inv_def append_module_def)
next
  case (workers e pending ws)
  then show ?case by (simp add: engine_AddWorker_def add_workers_keeps(1))
qed (simp add: reg_inv_def)

lemma reg_run_inv: "reg_step\<^sup>*\<^sup>* s s' \<Longrightarrow> reg_inv s \<Longrightarrow> reg_inv s'"
  by (induction rule: rtranclp_induct) (auto intro: reg_step_inv)

lemma apply_option_keeps:
  "eg_modules (apply_option opt e) = eg_modules e" "eg_workers (apply_option opt e) = eg_workers e"
  "eg_registered (apply_option opt e) = eg_registered e" "eg_workerNames (apply_option opt e) = eg_workerNames e"
  "eg_started (apply_option opt e) = eg_started e" "eg_mux (apply_option opt e) = eg_mux e"
  by (cases opt; auto simp: Let_def split: option.splits)+

lemma fold_options_keeps:
  "eg_modules (fold apply_option opts e) = eg_modules e" "eg_workers (fold apply_option opts e) = eg_workers e"
  "eg_registered (fold apply_option opts e) = eg_registered e"
  "eg_workerNames (fold apply_option opts e) = eg_workerNames e"
  "eg_started (fold apply_option opts e) = eg_started e" "eg_mux (fold apply_option opts e) = eg_mux e"
  by (induction opts arbitrary: e) (simp_all add: apply_option_keeps)

lemma engine_New_empty:
  "eg_modules (engine_New log nt nm opts) = []" "eg_workers (engine_New log nt nm opts) = []"
  "eg_registered (engine_New log nt nm opts) = {}" "eg_workerNames (engine_New log nt nm opts) = {}"
  "\<not> eg_started (engine_New log nt nm opts)" "eg_mux (engine_New log nt nm opts) = []"
  by (simp_all add: engine_New_def fold_options_keeps default_engine_def)

lemma reg_inv_New: "reg_inv (engine_New log nt nm opts, [])"
  by (simp add: reg_inv_def engine_New_empty)

lemma reg_step_started:
  "reg_step s s' \<Longrightarrow> eg_started (fst s) \<Longrightarrow>
     eg_started (fst s') \<and> eg_workers (fst s') = eg_workers (fst s) \<and> eg_registered (fst s') \<subseteq> eg_registered (fst s)"
  by (induction rule: reg_step.induct)
     (auto simp: reserve_Inr release_module_def append_module_def engine_AddWorker_def)

lemma reg_run_started:
  "reg_step\<^sup>*\<^sup>* s s' \<Longrightarrow> eg_started (fst s) \<Longrightarrow>
     eg_started (fst s') \<and> eg_workers (fst s') = eg_workers (fst s) \<and> eg_registered (fst s') \<subseteq> eg_registered (fst s)"
  by (induction rule: rtranclp_induct) (use reg_step_started in \<open>fastforce+\<close>)

lemma reg_step_grows:
  "reg_step s s' \<Longrightarrow> reg_inv s \<Longrightarrow>
     prefix (eg_modules (fst s)) (eg_modules (fst s')) \<and> prefix (eg_workers (fst s)) (eg_workers (fst s'))"
  by (induction rule: reg_step.induct)
     (auto simp: reserve_Inr release_module_def append_module_def engine_AddWorker_def add_workers_keeps)

lemma reg_run_grows:
  "reg_step\<^sup>*\<^sup>* s s' \<Longrightarrow> reg_inv s \<Longrightarrow>
     prefix (eg_modules (fst s)) (eg_modules (fst s')) \<and> prefix (eg_workers (fst s)) (eg_workers (fst s'))"
proof (induction rule: rtranclp_induct)
  case (step t u)
  then show ?case using reg_step_grows [OF step.hyps(2)] reg_run_inv [OF step.hyps(1)]
    by (meson prefix_order.trans)
qed simp

lemma Register_keeps:
  assumes "reg_inv (e, pending)"
  shows "reg_inv (fst (engine_Register ms e), pending)"
    and "prefix (eg_modules e) (eg_modules (fst (engine_Register ms e)))"
    and "prefix (eg_workers e) (eg_workers (fst (engine_Register ms e)))"
  using reg_run_inv [OF Register_runs(1) assms] reg_run_grows [OF Register_runs(1) assms] by simp_all

lemma Register_ok:
  assumes "engine_Register ms e = (e', None)" "reg_inv (e, pending)"
  shows "\<exists>mods. ms = map Some mods \<and> mod_Name ` set mods \<subseteq> set (eg_modules e') - set (eg_modules e)"
  using assms
proof (induction ms arbitrary: e)
  case (Cons m ms)
  then obtain name calls result where m: "m = Some (Module name calls result)"
    by (cases m) (simp, metis Module.exhaust)
  obtain e1 where e1: "reserve_module name e = Inr e1"
    using Cons.prems(1) m by (auto split: sum.splits)
  obtain e2 where e2: "module_Register calls result e1 = (e2, None)"
    using Cons.prems(1) m e1 by (auto split: prod.splits option.splits)
  have rest: "engine_Register ms (append_module name e2) = (e', None)"
    using Cons.prems(1) m e1 e2 by simp
  have "reg_step\<^sup>*\<^sup>* (e, pending) (e1, name # pending)" using e1 by (auto intro: reg_step.reserve)
  also have "reg_step\<^sup>*\<^sup>* (e1, name # pending) (e2, name # pending)"
    using Register_runs(2) [of e1 "name # pending" calls result] e2 by simp
  finally have run: "reg_step\<^sup>*\<^sup>* (e, pending) (e2, name # pending)" .
  then have "reg_step\<^sup>*\<^sup>* (e, pending) (append_module name e2, pending)"
    using reg_step.append [of name "name # pending" e2] by (auto intro: rtranclp.rtrancl_into_rtrancl)
  then have inv: "reg_inv (append_module name e2, pending)" using reg_run_inv Cons.prems(2) by blast
  obtain mods where mods: "ms = map Some mods" "mod_Name ` set mods \<subseteq> set (eg_modules e') - set (eg_modules (append_module name e2))"
    using Cons.IH [OF rest inv] by auto
  have "prefix (eg_modules e) (eg_modules e2)" using reg_run_grows [OF run] Cons.prems(2) by simp
  moreover have "prefix (eg_modules (append_module name e2)) (eg_modules e')"
    using Register_keeps(2) [OF inv, of ms] rest by simp
  moreover have "name \<notin> set (eg_modules e)" using e1 Cons.prems(2) by (auto simp: reserve_Inr reg_inv_def)
  ultimately show ?case
    using m mods by (intro exI [of _ "Module name calls result # mods"])
      (auto simp: append_module_def dest: set_mono_prefix)
qed simp

subsection \<open>Properties\<close>

text \<open>C9: Registration stays consistent whatever modules and threads do. From a new engine, after
  any interleaving of the locked sections of \<open>Register\<close>, \<open>AddWorker\<close> and the start: the
  registered names are exactly those of the registered modules and of the modules being
  registered, no name occurs twice or is empty, and worker names are unique and recorded.
  Once the engine has started the workers are fixed, and no new name is reserved.
\<close>

theorem engine_registration_consistent:
  assumes "reg_step\<^sup>*\<^sup>* (engine_New log nt nm opts, []) (e, pending)"
  shows "distinct (eg_modules e @ pending) \<and> set (eg_modules e @ pending) = eg_registered e \<and>
     distinct (map wk_Name (eg_workers e)) \<and> wk_Name ` set (eg_workers e) = eg_workerNames e \<and>
     [] \<notin> eg_registered e \<and> [] \<notin> eg_workerNames e \<and>
     (eg_started e \<longrightarrow> (\<forall>e' pending'. reg_step\<^sup>*\<^sup>* (e, pending) (e', pending') \<longrightarrow>
        eg_workers e' = eg_workers e \<and> eg_registered e' \<subseteq> eg_registered e))"
proof -
  have "reg_inv (e, pending)" by (rule reg_run_inv [OF assms reg_inv_New])
  moreover have "eg_workers e' = eg_workers e \<and> eg_registered e' \<subseteq> eg_registered e"
    if "eg_started e" "reg_step\<^sup>*\<^sup>* (e, pending) (e', pending')" for e' pending'
    using reg_run_started [OF that(2)] that(1) by simp
  ultimately show ?thesis unfolding reg_inv_def prod.case by blast
qed

text \<open>The effect of one \<open>Register\<close> call, with modules that register modules in turn: modules and
  workers are only added; when it succeeds no module was nil and every one of them is
  registered; when it fails, the names it leaves reserved are exactly those of the modules
  that did complete, so the failing module's name is free again.
\<close>

theorem engine_register_effect:
  assumes "reg_inv (e, pending)" "engine_Register ms e = (e', r)"
  shows "\<exists>new. eg_modules e' = eg_modules e @ new \<and> eg_registered e' = eg_registered e \<union> set new \<and>
     distinct new \<and> set new \<inter> eg_registered e = {} \<and> prefix (eg_workers e) (eg_workers e') \<and>
     (r = None \<longrightarrow> (\<exists>mods. ms = map Some mods \<and> mod_Name ` set mods \<subseteq> set new))"
proof -
  have inv: "reg_inv (e', pending)" and p: "prefix (eg_modules e) (eg_modules e')" "prefix (eg_workers e) (eg_workers e')"
    using Register_keeps [OF assms(1), of ms] assms(2) by simp_all
  then obtain new where new: "eg_modules e' = eg_modules e @ new" by (auto simp: prefix_def)
  have "eg_registered e' = eg_registered e \<union> set new" "distinct new" "set new \<inter> eg_registered e = {}"
    using inv assms(1) new unfolding reg_inv_def by auto
  moreover have "\<exists>mods. ms = map Some mods \<and> mod_Name ` set mods \<subseteq> set new" if r: "r = None"
  proof -
    obtain mods where "ms = map Some mods" "mod_Name ` set mods \<subseteq> set (eg_modules e') - set (eg_modules e)"
      using Register_ok [OF assms(2) [unfolded r] assms(1)] by blast
    with new show ?thesis by (intro exI [of _ mods]) auto
  qed
  ultimately show ?thesis using new p by blast
qed

text \<open>Construction. Whatever options are given, both shutdown timeouts are positive and the
  logger, tracer and meter are the defaults or given non-nil values; middleware is the
  concatenation of the given lists in order, and the engine is not started and empty.
\<close>

theorem engine_new_sound:
  fixes opts :: "('s, 'h) Option list"
  shows "let e = engine_New log nt nm opts :: ('s, 'h, 'b) Engine in
     0 < eg_shutdownTimeout e \<and> 0 < eg_workerShutdownTimeout e \<and>
     (eg_logger e = log \<or> WithLogger (Some (eg_logger e)) \<in> set opts) \<and>
     (eg_tracer e = nt \<or> (\<exists>m. WithTelemetry (Some (eg_tracer e)) m \<in> set opts)) \<and>
     (eg_meter e = nm \<or> (\<exists>t. WithTelemetry t (Some (eg_meter e)) \<in> set opts)) \<and>
     eg_middleware e = concat (map (\<lambda>opt. case opt of WithMiddleware ms \<Rightarrow> ms | _ \<Rightarrow> []) opts) \<and>
     \<not> eg_started e \<and> eg_workers e = [] \<and> eg_modules e = [] \<and> eg_mux e = []"
proof -
  let ?ok = "\<lambda>opts0 opts e. 0 < eg_shutdownTimeout e \<and> 0 < eg_workerShutdownTimeout e \<and>
     (eg_logger e = log \<or> WithLogger (Some (eg_logger e)) \<in> set opts0) \<and>
     (eg_tracer e = nt \<or> (\<exists>m. WithTelemetry (Some (eg_tracer e)) m \<in> set opts0)) \<and>
     (eg_meter e = nm \<or> (\<exists>t. WithTelemetry t (Some (eg_meter e)) \<in> set opts0))"
  have gen: "?ok (pre @ opts) opts (fold apply_option opts e)" if "?ok pre opts e"
    for pre and e :: "('s, 'h, 'b) Engine"
    using that
  proof (induction opts arbitrary: pre e)
    case (Cons opt opts)
    have "?ok (pre @ [opt]) opts (apply_option opt e)"
      using Cons.prems by (cases opt) (auto simp: Let_def split: option.splits)
    from Cons.IH [OF this] show ?case by simp
  qed simp
  have "?ok opts opts (engine_New log nt nm opts :: ('s, 'h, 'b) Engine)"
    unfolding engine_New_def using gen [of "default_engine log nt nm" "[]"] by (simp add: default_engine_def)
  moreover have "eg_middleware (fold apply_option opts e) =
      eg_middleware e @ concat (map (\<lambda>opt. case opt of WithMiddleware ms \<Rightarrow> ms | _ \<Rightarrow> []) opts)" for e :: "('s, 'h, 'b) Engine"
  proof (induction opts arbitrary: e)
    case (Cons opt opts)
    then show ?case by (cases opt) (auto simp: Let_def split: option.splits)
  qed simp
  ultimately show ?thesis
    unfolding Let_def by (simp add: engine_New_empty) (simp add: engine_New_def default_engine_def)
qed

subsection \<open>Witnesses\<close>

type_synonym demo_engine = "(unit, unit, unit) Engine"

definition demo_new :: demo_engine where
  "demo_new = engine_New () () () []"

definition demo_module :: "unit Module" where
  "demo_module = Module ''mail'' [CallAddWorker True [Some (Worker ''sender'' ())],
     CallRegister False [Some (Module ''templates'' [] None), Some (Module ''mail'' [] None)]] None"

lemma demo_new_start: "reg_step\<^sup>*\<^sup>* (demo_new, []) (demo_new\<lparr>eg_started := True\<rparr>, [])"
  by (rule r_into_rtranclp) (rule reg_step.start)

theorem engine_registration_consistent_witness:
  "distinct (eg_modules (demo_new\<lparr>eg_started := True\<rparr>) @ []) \<and> eg_workers (demo_new\<lparr>eg_started := True\<rparr>) = []"
  using engine_registration_consistent [of "()" "()" "()" "[] :: (unit, unit) Option list" "demo_new\<lparr>eg_started := True\<rparr>" "[]"]
    demo_new_start
  by (simp add: demo_new_def engine_New_empty)

theorem engine_register_effect_witness:
  "reg_inv (demo_new, []) \<and> engine_Register [Some demo_module] demo_new =
     (fst (engine_Register [Some demo_module] demo_new), None) \<and>
   (\<exists>new. eg_modules (fst (engine_Register [Some demo_module] demo_new)) = new \<and> ''mail'' \<in> set new)"
proof -
  have inv: "reg_inv (demo_new, [])" by (simp add: demo_new_def reg_inv_New)
  have run: "engine_Register [Some demo_module] demo_new = (fst (engine_Register [Some demo_module] demo_new), None)"
    by (simp add: demo_new_def demo_module_def reserve_module_def engine_AddWorker_def engine_New_empty
        append_module_def)
  from engine_register_effect [OF inv run] have
    "\<exists>new mods. eg_modules (fst (engine_Register [Some demo_module] demo_new)) = new \<and>
       [Some demo_module] = map Some mods \<and> mod_Name ` set mods \<subseteq> set new"
    by (auto simp: demo_new_def engine_New_empty)
  then have "''mail'' \<in> set (eg_modules (fst (engine_Register [Some demo_module] demo_new)))"
    by (auto simp: demo_module_def)
  with inv run show ?thesis by blast
qed

end
