(* ===== verification/EngineRun.thy ===== *)
theory EngineRun
  imports Engine
begin

text \<open>
  The lifecycle of an engine (\<open>Run\<close> of \<open>engine/engine.go\<close>): the worker goroutines, the goroutine of
  the HTTP server and the goroutine of \<open>Run\<close> itself, as the steps of a relation in any
  interleaving. They share the context, the error channel and the workers' \<open>done\<close> channels.
  What a worker's code, the server and the operating system do is the environment: it
  chooses when a worker returns and with what, when the server fails, when the context ends and with
  what cause, what \<open>Shutdown\<close> returns, and when the timer of \<open>waitForWorkers\<close> fires.
\<close>

subsection \<open>State\<close>

text \<open>The points between the visible actions of a worker's goroutine.\<close>

datatype worker_point =
    WRunning
  | WReturned "goerr option"   \<comment> \<open>\<open>Run\<close> of the worker has returned, the context is not yet looked at\<close>
  | WReporting goerr   \<comment> \<open>about to send on the channel\<close>
  | WCancelling        \<comment> \<open>has sent, about to cancel\<close>
  | WClosing           \<comment> \<open>about to close \<open>done\<close>\<close>
  | WDone

datatype server_point = SServing | SReporting goerr | SCancelling | SExited

text \<open>The points of \<open>Run\<close>, with the value of \<open>runErr\<close>.\<close>

datatype main_point =
    MWait
  | MShutdown "goerr option"
  | MCancel "goerr option"
  | MWaitWorkers nat "goerr option"
  | MDrain "goerr option"
  | MReturned "goerr option"

text \<open>
  The last four fields record history: what was sent to the channel and by which workers, what
  the non-blocking send dropped, what workers returned (with whether their goroutine then found
  the context ended),
  and the error of \<open>Shutdown\<close>.
\<close>

record run_state =
  rn_workers :: "(string \<times> worker_point) list"
  rn_server :: "server_point option"   \<comment> \<open>\<open>None\<close> when no server was started\<close>
  rn_ctx :: "goerr option"             \<comment> \<open>the cause, once the context has ended\<close>
  rn_errCh :: "goerr list"
  rn_main :: main_point
  rn_reports :: "goerr list"
  rn_failed :: "string list"
  rn_dropped :: "goerr list"
  rn_exits :: "(string \<times> goerr option \<times> bool) list"
  rn_shutdown_err :: "goerr option"

abbreviation ErrServerClosed :: goerr where
  "ErrServerClosed \<equiv> ErrSentinel ''http: Server closed''"

definition initial_run :: "'b Worker list \<Rightarrow> bool \<Rightarrow> run_state" where
  "initial_run ws server =
     \<lparr>rn_workers = map (\<lambda>w. (wk_Name w, WRunning)) ws,
      rn_server = (if server then Some SServing else None), rn_ctx = None, rn_errCh = [],
      rn_main = MWait, rn_reports = [], rn_failed = [], rn_dropped = [], rn_exits = [],
      rn_shutdown_err = None\<rparr>"

text \<open>The beginning of \<open>Run\<close>, up to the \<open>select\<close>; \<open>None\<close> is the panic of a conflicting route.\<close>

definition run_start ::
  "(string list \<Rightarrow> string \<Rightarrow> bool) \<Rightarrow> ('s, 'h, 'b) Engine \<Rightarrow> (('s, 'h, 'b) Engine \<times> (goerr + run_state)) option" where
  "run_start conflict e =
     (if eg_started e then Some (e, Inl (ErrMsg ''engine: already started'' []))
      else
        (let e1 = e\<lparr>eg_started := True\<rparr>;
             ws = (if eg_profile e1 \<noteq> ProfileHTTP then eg_workers e1 else [])
         in if eg_profile e1 \<noteq> ProfileWorker
            then (case installInfrastructureRoutes conflict e1 of
                    None \<Rightarrow> None
                  | Some e2 \<Rightarrow> Some (e2, Inr (initial_run ws True)))
            else Some (e1, Inr (initial_run ws False))))"

subsection \<open>Steps\<close>

text \<open>The channel has room for every worker that was registered and the server.\<close>

definition send_err :: "nat \<Rightarrow> goerr \<Rightarrow> run_state \<Rightarrow> run_state" where
  "send_err cap err s =
     (if length (rn_errCh s) < cap
      then s\<lparr>rn_errCh := rn_errCh s @ [err], rn_reports := rn_reports s @ [err]\<rparr>
      else s\<lparr>rn_dropped := rn_dropped s @ [err]\<rparr>)"

definition cancel_run :: "run_state \<Rightarrow> run_state" where
  "cancel_run s = s\<lparr>rn_ctx := (case rn_ctx s of None \<Rightarrow> Some ErrCanceled | Some c \<Rightarrow> Some c)\<rparr>"

definition set_worker :: "nat \<Rightarrow> worker_point \<Rightarrow> run_state \<Rightarrow> run_state" where
  "set_worker i p s = s\<lparr>rn_workers := (rn_workers s)[i := (fst (rn_workers s ! i), p)]\<rparr>"

text \<open>What the goroutine does with the result of \<open>worker.Run\<close>.\<close>

definition worker_result :: "string \<Rightarrow> goerr option \<Rightarrow> bool \<Rightarrow> worker_point" where
  "worker_result name err ctx_ended =
     (let err' = (if err = None \<and> \<not> ctx_ended
                  then Some (ErrMsg ''exited unexpectedly before shutdown'' []) else err)
      in case err' of
           None \<Rightarrow> WClosing
         | Some e \<Rightarrow> if errors_is e ErrCanceled then WClosing
                     else WReporting (ErrWrap ''worker %q: %w'' [name] e))"

text \<open>\<open>unfinishedWorkerNames\<close>, and the error of \<open>waitForWorkers\<close> (\<open>timeout\<close> is the duration as text).\<close>

definition unfinishedWorkerNames :: "(string \<times> worker_point) list \<Rightarrow> string list" where
  "unfinishedWorkerNames ws = map fst (filter (\<lambda>(_, p). p \<noteq> WDone) ws)"

definition timeout_error :: "string \<Rightarrow> string list \<Rightarrow> goerr" where
  "timeout_error timeout names = ErrMsg ''engine: worker shutdown exceeded %s: %v'' (timeout # names)"

definition ctx_runErr :: "goerr \<Rightarrow> goerr option" where
  "ctx_runErr cause = (if errors_is cause ErrCanceled then None else Some cause)"

inductive main_step :: "string \<Rightarrow> run_state \<Rightarrow> run_state \<Rightarrow> bool" for timeout :: string where
  main_ctx: "rn_main s = MWait \<Longrightarrow> rn_ctx s = Some cause \<Longrightarrow>
     main_step timeout s (s\<lparr>rn_main := MShutdown (ctx_runErr cause)\<rparr>)"
| main_err: "rn_main s = MWait \<Longrightarrow> rn_errCh s = err # rest \<Longrightarrow>
     main_step timeout s (s\<lparr>rn_main := MShutdown (Some err), rn_errCh := rest\<rparr>)"
| main_no_server: "rn_main s = MShutdown r \<Longrightarrow> rn_server s = None \<Longrightarrow>
     main_step timeout s (s\<lparr>rn_main := MCancel r\<rparr>)"
| main_shutdown: "rn_main s = MShutdown r \<Longrightarrow> rn_server s \<noteq> None \<Longrightarrow>
     main_step timeout s (s\<lparr>rn_main := MCancel (if err \<noteq> None \<and> r = None then err else r), rn_shutdown_err := err\<rparr>)"
| main_cancel: "rn_main s = MCancel r \<Longrightarrow>
     main_step timeout s (cancel_run (s\<lparr>rn_main := MWaitWorkers 0 r\<rparr>))"
| main_worker: "rn_main s = MWaitWorkers k r \<Longrightarrow> k < length (rn_workers s) \<Longrightarrow> snd (rn_workers s ! k) = WDone \<Longrightarrow>
     main_step timeout s (s\<lparr>rn_main := MWaitWorkers (Suc k) r\<rparr>)"
| main_all: "rn_main s = MWaitWorkers k r \<Longrightarrow> k = length (rn_workers s) \<Longrightarrow>
     main_step timeout s (s\<lparr>rn_main := MDrain r\<rparr>)"
| main_timer: "rn_main s = MWaitWorkers k r \<Longrightarrow> k < length (rn_workers s) \<Longrightarrow>
     names = unfinishedWorkerNames (rn_workers s) \<Longrightarrow>
     main_step timeout s (s\<lparr>rn_main := MDrain (if names = [] then r
        else errors_join [r, Some (timeout_error timeout names)])\<rparr>)"
| main_return: "rn_main s = MDrain (Some e) \<Longrightarrow> main_step timeout s (s\<lparr>rn_main := MReturned (Some e)\<rparr>)"
| main_drain: "rn_main s = MDrain None \<Longrightarrow> rn_errCh s = err # rest \<Longrightarrow>
     main_step timeout s (s\<lparr>rn_main := MReturned (Some err), rn_errCh := rest\<rparr>)"
| main_clean: "rn_main s = MDrain None \<Longrightarrow> rn_errCh s = [] \<Longrightarrow>
     main_step timeout s (s\<lparr>rn_main := MReturned None\<rparr>)"

inductive env_step :: "nat \<Rightarrow> run_state \<Rightarrow> run_state \<Rightarrow> bool" for cap :: nat where
  worker_exit: "i < length (rn_workers s) \<Longrightarrow> rn_workers s ! i = (name, WRunning) \<Longrightarrow>
     env_step cap s (set_worker i (WReturned err) s)"
| worker_check: "i < length (rn_workers s) \<Longrightarrow> rn_workers s ! i = (name, WReturned err) \<Longrightarrow>
     env_step cap s (set_worker i (worker_result name err (rn_ctx s \<noteq> None))
       (s\<lparr>rn_exits := rn_exits s @ [(name, err, rn_ctx s \<noteq> None)]\<rparr>))"
| worker_send: "i < length (rn_workers s) \<Longrightarrow> rn_workers s ! i = (name, WReporting err) \<Longrightarrow>
     env_step cap s (set_worker i WCancelling (send_err cap err (s\<lparr>rn_failed := rn_failed s @ [name]\<rparr>)))"
| worker_cancel: "i < length (rn_workers s) \<Longrightarrow> rn_workers s ! i = (name, WCancelling) \<Longrightarrow>
     env_step cap s (cancel_run (set_worker i WClosing s))"
| worker_close: "i < length (rn_workers s) \<Longrightarrow> rn_workers s ! i = (name, WClosing) \<Longrightarrow>
     env_step cap s (set_worker i WDone s)"
| server_exit: "rn_server s = Some SServing \<Longrightarrow>
     env_step cap s (s\<lparr>rn_server := Some (if errors_is err ErrServerClosed then SExited
        else SReporting (ErrWrap ''http server: %w'' [] err))\<rparr>)"
| server_send: "rn_server s = Some (SReporting err) \<Longrightarrow>
     env_step cap s (send_err cap err (s\<lparr>rn_server := Some SCancelling\<rparr>))"
| server_cancel: "rn_server s = Some SCancelling \<Longrightarrow>
     env_step cap s (cancel_run (s\<lparr>rn_server := Some SExited\<rparr>))"
| ctx_end: "rn_ctx s = None \<Longrightarrow> env_step cap s (s\<lparr>rn_ctx := Some cause\<rparr>)"

definition run_step :: "nat \<Rightarrow> string \<Rightarrow> run_state \<Rightarrow> run_state \<Rightarrow> bool" where
  "run_step cap timeout s s' \<longleftrightarrow> main_step timeout s s' \<or> env_step cap s s'"

lemma run_induct [consumes 1, case_names start step]:
  assumes "(run_step cap timeout)\<^sup>*\<^sup>* s0 s" "P s0"
    and "\<And>s s'. (run_step cap timeout)\<^sup>*\<^sup>* s0 s \<Longrightarrow> P s \<Longrightarrow> run_step cap timeout s s' \<Longrightarrow> P s'"
  shows "P s"
  using assms(1) by (induction rule: rtranclp_induct) (use assms(2,3) in blast)+

subsection \<open>No report is dropped\<close>

text \<open>How many sends a goroutine may still make.\<close>

fun point_weight :: "worker_point \<Rightarrow> nat" where
  "point_weight WRunning = 1"
| "point_weight (WReturned _) = 1"
| "point_weight (WReporting _) = 1"
| "point_weight _ = 0"

definition unsent :: "run_state \<Rightarrow> nat" where
  "unsent s = sum_list (map (point_weight \<circ> snd) (rn_workers s)) +
     (case rn_server s of Some SServing \<Rightarrow> 1 | Some (SReporting _) \<Rightarrow> 1 | _ \<Rightarrow> 0)"

definition queue_inv :: "nat \<Rightarrow> run_state \<Rightarrow> bool" where
  "queue_inv cap s \<longleftrightarrow> rn_dropped s = [] \<and> length (rn_errCh s) + unsent s \<le> cap"

lemma workers_weight:
  assumes "i < length ws"
  shows "sum_list (map (point_weight \<circ> snd) (ws[i := (n, p)])) + point_weight (snd (ws ! i)) =
     sum_list (map (point_weight \<circ> snd) ws) + point_weight p"
proof -
  have "point_weight (snd (ws ! i)) \<le> sum_list (map (point_weight \<circ> snd) ws)"
    using elem_le_sum_list [of i "map (point_weight \<circ> snd) ws"] assms by simp
  then show ?thesis using assms by (simp add: map_update sum_list_update)
qed

lemma queue_inv_main: "main_step timeout s s' \<Longrightarrow> queue_inv cap s \<Longrightarrow> queue_inv cap s'"
  by (induction rule: main_step.induct) (auto simp: queue_inv_def unsent_def cancel_run_def)

lemma queue_inv_env: "env_step cap s s' \<Longrightarrow> queue_inv cap s \<Longrightarrow> queue_inv cap s'"
proof (induction rule: env_step.induct)
  case (worker_exit i s name err)
  from workers_weight [OF worker_exit(1), of name "WReturned err"] worker_exit
  show ?case by (simp add: queue_inv_def unsent_def set_worker_def)
next
  case (worker_check i s name err)
  let ?p = "worker_result name err (rn_ctx s \<noteq> None)"
  have "point_weight ?p \<le> 1" by (cases ?p) simp_all
  with worker_check workers_weight [OF worker_check(1), of name ?p]
  show ?case by (simp add: queue_inv_def unsent_def set_worker_def)
next
  case (worker_send i s name err)
  from workers_weight [OF worker_send(1), of name WCancelling] worker_send
  show ?case by (simp add: queue_inv_def unsent_def set_worker_def send_err_def)
next
  case (worker_cancel i s name)
  from workers_weight [OF worker_cancel(1), of name WClosing] worker_cancel
  show ?case by (simp add: queue_inv_def unsent_def set_worker_def cancel_run_def)
next
  case (worker_close i s name)
  from workers_weight [OF worker_close(1), of name WDone] worker_close
  show ?case by (simp add: queue_inv_def unsent_def set_worker_def)
qed (auto simp: queue_inv_def unsent_def cancel_run_def send_err_def)

lemma queue_inv_initial: "length ws < cap \<Longrightarrow> queue_inv cap (initial_run ws server)"
proof -
  have "sum_list (map (point_weight \<circ> snd) (map (\<lambda>w. (wk_Name w, WRunning)) ws)) = length ws" by (induction ws) simp_all
  then show "length ws < cap \<Longrightarrow> queue_inv cap (initial_run ws server)"
    by (simp add: queue_inv_def unsent_def initial_run_def)
qed

lemma queue_inv_reachable:
  assumes "(run_step cap timeout)\<^sup>*\<^sup>* (initial_run ws server) s" "length ws < cap"
  shows "queue_inv cap s"
  using assms(1)
proof (induction rule: run_induct)
  case (step s s')
  then show ?case by (auto simp: run_step_def intro: queue_inv_main queue_inv_env)
qed (rule queue_inv_initial [OF assms(2)])

subsection \<open>What a clean return means\<close>

definition all_done :: "run_state \<Rightarrow> bool" where
  "all_done s \<longleftrightarrow> (\<forall>(_, p) \<in> set (rn_workers s). p = WDone)"

definition main_inv :: "run_state \<Rightarrow> bool" where
  "main_inv s \<longleftrightarrow>
     (case rn_main s of
        MWait \<Rightarrow> rn_failed s \<noteq> [] \<longrightarrow> rn_errCh s \<noteq> []
      | MShutdown r \<Rightarrow> r = None \<longrightarrow> rn_failed s \<noteq> [] \<longrightarrow> rn_errCh s \<noteq> []
      | MCancel r \<Rightarrow> r = None \<longrightarrow> rn_failed s \<noteq> [] \<longrightarrow> rn_errCh s \<noteq> []
      | MWaitWorkers k r \<Rightarrow> k \<le> length (rn_workers s) \<and> (\<forall>i < k. snd (rn_workers s ! i) = WDone) \<and>
          (r = None \<longrightarrow> rn_failed s \<noteq> [] \<longrightarrow> rn_errCh s \<noteq> [])
      | MDrain r \<Rightarrow> r = None \<longrightarrow> all_done s \<and> (rn_failed s \<noteq> [] \<longrightarrow> rn_errCh s \<noteq> [])
      | MReturned r \<Rightarrow> r = None \<longrightarrow> all_done s \<and> rn_failed s = [])"

lemma all_done_nth: "all_done s \<longleftrightarrow> (\<forall>i < length (rn_workers s). snd (rn_workers s ! i) = WDone)"
  unfolding all_done_def by (metis (mono_tags, lifting) case_prodE case_prod_beta in_set_conv_nth nth_mem prod.collapse)

lemma no_unfinished: "unfinishedWorkerNames (rn_workers s) = [] \<longleftrightarrow> all_done s"
  by (auto simp: unfinishedWorkerNames_def all_done_def filter_empty_conv)

lemma main_inv_main: "main_step timeout s s' \<Longrightarrow> main_inv s \<Longrightarrow> main_inv s'"
proof (induction rule: main_step.induct)
  case (main_all s k r)
  then show ?case by (auto simp: main_inv_def all_done_nth)
next
  case (main_worker s k r)
  then show ?case by (auto simp: main_inv_def less_Suc_eq)
next
  case (main_timer s k r names)
  then show ?case
  proof (cases "names = []")
    case True
    with main_timer(3) no_unfinished [of s] have "all_done s" by simp
    then have "all_done (s\<lparr>rn_main := m\<rparr>)" for m by (simp add: all_done_def)
    with True main_timer show ?thesis by (simp add: main_inv_def)
  qed (auto simp: main_inv_def)
qed (auto simp: main_inv_def cancel_run_def all_done_def)

text \<open>A worker's step keeps the workers that are done, whatever else it changes.\<close>

lemma set_worker_done:
  assumes "i < length (rn_workers s)" "snd (rn_workers s ! i) \<noteq> WDone"
  shows "snd (rn_workers s ! j) = WDone \<Longrightarrow> snd (rn_workers (set_worker i p s) ! j) = WDone"
    and "\<not> all_done s"
    and "length (rn_workers (set_worker i p s)) = length (rn_workers s)"
  using assms by (auto simp: set_worker_def nth_list_update all_done_nth)

lemma main_inv_transfer:
  assumes "main_inv s" "rn_main s' = rn_main s" "length (rn_workers s') = length (rn_workers s)"
    and "\<And>j. j < length (rn_workers s) \<Longrightarrow> snd (rn_workers s ! j) = WDone \<Longrightarrow> snd (rn_workers s' ! j) = WDone"
    and "rn_failed s' \<noteq> [] \<longrightarrow> rn_failed s = [] \<or> rn_errCh s \<noteq> [] \<longrightarrow> rn_errCh s' \<noteq> []"
    and "all_done s \<Longrightarrow> rn_failed s' = rn_failed s"
  shows "main_inv s'"
proof -
  have dn: "all_done s \<Longrightarrow> all_done s'" using assms(3,4) by (simp add: all_done_nth)
  have errs: "rn_failed s \<noteq> [] \<longrightarrow> rn_errCh s \<noteq> [] \<Longrightarrow> rn_failed s' \<noteq> [] \<longrightarrow> rn_errCh s' \<noteq> []" using assms(5) by blast
  show ?thesis
    using assms(1,2,3,4,6) dn errs unfolding main_inv_def by (cases "rn_main s") auto
qed

lemma main_inv_env:
  assumes "env_step cap s s'" "queue_inv cap s" "main_inv s"
  shows "main_inv s'"
  using assms
proof (induction rule: env_step.induct)
  case (worker_exit i s name err)
  note d = set_worker_done [of i s]
  show ?case
    using worker_exit d by (intro main_inv_transfer [OF worker_exit(4)]) (auto simp: set_worker_def nth_list_update)
next
  case (worker_check i s name err)
  note d = set_worker_done [of i s]
  show ?case
    using worker_check d by (intro main_inv_transfer [OF worker_check(4)]) (auto simp: set_worker_def nth_list_update)
next
  case (worker_send i s name err)
  have "0 < unsent s" using workers_weight [OF worker_send(1), of name WDone] worker_send(2) by (simp add: unsent_def)
  then have room: "length (rn_errCh s) < cap" using worker_send(3) by (simp add: queue_inv_def)
  then show ?case
    using worker_send set_worker_done(2) [of i s]
    by (intro main_inv_transfer [OF worker_send(4)]) (auto simp: set_worker_def send_err_def nth_list_update)
next
  case (worker_cancel i s name)
  then show ?case
    using set_worker_done(2) [of i s]
    by (intro main_inv_transfer [OF worker_cancel(4)]) (auto simp: set_worker_def cancel_run_def nth_list_update)
next
  case (worker_close i s name)
  then show ?case
    by (intro main_inv_transfer [OF worker_close(4)]) (auto simp: set_worker_def nth_list_update)
next
  case (server_send s err)
  then show ?case by (intro main_inv_transfer [OF server_send(3)]) (auto simp: send_err_def)
next
  case (server_cancel s)
  then show ?case by (intro main_inv_transfer [OF server_cancel(3)]) (auto simp: cancel_run_def)
next
  case (server_exit s err)
  then show ?case by (intro main_inv_transfer [OF server_exit(3)]) auto
next
  case (ctx_end s cause)
  then show ?case by (intro main_inv_transfer [OF ctx_end(3)]) auto
qed

text \<open>A worker that failed or left before the end of the context is on its way to the channel, or has
  reported.\<close>

definition bad_exit :: "goerr option \<Rightarrow> bool \<Rightarrow> bool" where
  "bad_exit err ended \<longleftrightarrow> (case err of None \<Rightarrow> \<not> ended | Some e \<Rightarrow> \<not> errors_is e ErrCanceled)"

definition exits_inv :: "run_state \<Rightarrow> bool" where
  "exits_inv s \<longleftrightarrow> ((\<exists>(n, err, ended) \<in> set (rn_exits s). bad_exit err ended) \<longrightarrow>
     rn_failed s \<noteq> [] \<or> (\<exists>i < length (rn_workers s). \<exists>e. snd (rn_workers s ! i) = WReporting e))"

lemma worker_result_iff: "(\<exists>e. worker_result name err ended = WReporting e) \<longleftrightarrow> bad_exit err ended"
  by (auto simp: worker_result_def bad_exit_def Let_def split: option.splits)

lemma exits_inv_step:
  assumes "run_step cap timeout s s'" "exits_inv s"
  shows "exits_inv s'"
  using assms(1) unfolding run_step_def
proof
  assume "main_step timeout s s'"
  then show ?thesis using assms(2) by (cases rule: main_step.cases) (auto simp: exits_inv_def cancel_run_def)
next
  assume "env_step cap s s'"
  then show ?thesis using assms(2)
  proof (induction rule: env_step.induct)
    case (worker_exit i s name err)
    then show ?case by (auto simp: exits_inv_def set_worker_def nth_list_update) (metis snd_conv worker_point.distinct)+
  next
    case (worker_check i s name err)
    let ?p = "worker_result name err (rn_ctx s \<noteq> None)"
    have "\<exists>j < length (rn_workers s). \<exists>e. snd ((rn_workers s)[i := (name, ?p)] ! j) = WReporting e"
      if "j < length (rn_workers s)" "snd (rn_workers s ! j) = WReporting e" for j e
      using that worker_check(1,2) by (intro exI [of _ j]) (auto simp: nth_list_update)
    moreover have "\<exists>j < length (rn_workers s). \<exists>e. snd ((rn_workers s)[i := (name, ?p)] ! j) = WReporting e"
      if "bad_exit err (rn_ctx s \<noteq> None)"
      using that worker_check(1) worker_result_iff [of name err "rn_ctx s \<noteq> None"] by (intro exI [of _ i]) auto
    ultimately show ?case
      using worker_check(2,3) unfolding exits_inv_def by (auto simp: set_worker_def)
  next
    case (worker_send i s name err)
    then show ?case by (simp add: exits_inv_def set_worker_def send_err_def)
  next
    case (worker_cancel i s name)
    then show ?case by (auto simp: exits_inv_def set_worker_def cancel_run_def nth_list_update) (metis snd_conv worker_point.distinct)+
  next
    case (worker_close i s name)
    then show ?case by (auto simp: exits_inv_def set_worker_def nth_list_update) (metis snd_conv worker_point.distinct)+
  qed (auto simp: exits_inv_def cancel_run_def send_err_def)
qed

subsection \<open>Where an error comes from\<close>

definition reported :: "run_state \<Rightarrow> goerr \<Rightarrow> bool" where
  "reported s e \<longleftrightarrow> e \<in> set (rn_reports s) \<or> rn_ctx s = Some e \<and> \<not> errors_is e ErrCanceled"

definition explained :: "run_state \<Rightarrow> goerr \<Rightarrow> bool" where
  "explained s e \<longleftrightarrow> reported s e \<or> rn_shutdown_err s = Some e"

text \<open>A timeout is joined to the error there was before, if any.\<close>

definition final_error :: "string \<Rightarrow> run_state \<Rightarrow> goerr \<Rightarrow> bool" where
  "final_error timeout s e \<longleftrightarrow> explained s e \<or>
     (\<exists>r names. names \<noteq> [] \<and> set names \<subseteq> fst ` set (rn_workers s) \<and> (\<forall>x. r = Some x \<longrightarrow> explained s x) \<and>
        errors_join [r, Some (timeout_error timeout names)] = Some e)"

definition error_inv :: "string \<Rightarrow> run_state \<Rightarrow> bool" where
  "error_inv timeout s \<longleftrightarrow> set (rn_errCh s) \<subseteq> set (rn_reports s) \<and>
     (case rn_main s of
        MWait \<Rightarrow> True
      | MShutdown r \<Rightarrow> (\<forall>e. r = Some e \<longrightarrow> reported s e)
      | MCancel r \<Rightarrow> (\<forall>e. r = Some e \<longrightarrow> explained s e)
      | MWaitWorkers k r \<Rightarrow> (\<forall>e. r = Some e \<longrightarrow> explained s e)
      | MDrain r \<Rightarrow> (\<forall>e. r = Some e \<longrightarrow> final_error timeout s e)
      | MReturned r \<Rightarrow> (\<forall>e. r = Some e \<longrightarrow> final_error timeout s e))"

lemma error_inv_main: "main_step timeout s s' \<Longrightarrow> error_inv timeout s \<Longrightarrow> error_inv timeout s'"
proof (induction rule: main_step.induct)
  case (main_ctx s cause)
  then show ?case by (auto simp: error_inv_def ctx_runErr_def reported_def)
next
  case (main_err s err rest)
  then show ?case by (auto simp: error_inv_def reported_def)
next
  case (main_shutdown s r err)
  then show ?case by (auto simp: error_inv_def explained_def reported_def)
next
  case (main_no_server s r)
  then show ?case by (auto simp: error_inv_def explained_def reported_def)
next
  case (main_cancel s r)
  then show ?case by (auto simp: error_inv_def explained_def reported_def cancel_run_def split: option.splits)
next
  case (main_worker s k r)
  then show ?case by (auto simp: error_inv_def explained_def reported_def)
next
  case (main_all s k r)
  then show ?case by (auto simp: error_inv_def final_error_def explained_def reported_def)
next
  case (main_timer s k r names)
  have sub: "set names \<subseteq> fst ` set (rn_workers s)" by (auto simp: main_timer(3) unfinishedWorkerNames_def)
  show ?case
  proof (cases "names = []")
    case True
    with main_timer show ?thesis by (auto simp: error_inv_def final_error_def explained_def reported_def)
  next
    case False
    with main_timer sub show ?thesis
      unfolding error_inv_def final_error_def
      by (simp add: explained_def reported_def) (intro allI impI disjI2 exI [of _ r] exI [of _ names], simp)
  qed
next
  case (main_return s e)
  then show ?case by (auto simp: error_inv_def final_error_def explained_def reported_def)
next
  case (main_drain s err rest)
  then show ?case by (auto simp: error_inv_def final_error_def explained_def reported_def)
qed (auto simp: error_inv_def)

text \<open>The environment only adds reports, never takes a cause back, and keeps the workers' names.\<close>

lemma env_step_grows:
  "env_step cap s s' \<Longrightarrow> set (rn_reports s) \<subseteq> set (rn_reports s') \<and> (rn_ctx s \<noteq> None \<longrightarrow> rn_ctx s' = rn_ctx s) \<and>
     map fst (rn_workers s') = map fst (rn_workers s) \<and> rn_shutdown_err s' = rn_shutdown_err s \<and>
     rn_main s' = rn_main s \<and>
     (set (rn_errCh s) \<subseteq> set (rn_reports s) \<longrightarrow> set (rn_errCh s') \<subseteq> set (rn_reports s'))"
proof (induction rule: env_step.induct)
  case (worker_exit i s name err)
  then show ?case by (auto simp: set_worker_def map_update list_update_same_conv)
next
  case (worker_check i s name err)
  then show ?case by (auto simp: set_worker_def map_update list_update_same_conv)
next
  case (worker_send i s name err)
  then show ?case by (auto simp: set_worker_def send_err_def map_update list_update_same_conv)
next
  case (worker_cancel i s name)
  then show ?case by (auto simp: set_worker_def cancel_run_def map_update list_update_same_conv)
next
  case (worker_close i s name)
  then show ?case by (auto simp: set_worker_def map_update list_update_same_conv)
qed (auto simp: send_err_def cancel_run_def)

lemma error_inv_env:
  assumes "env_step cap s s'" "error_inv timeout s"
  shows "error_inv timeout s'"
proof -
  note g = env_step_grows [OF assms(1)]
  have r: "reported s e \<Longrightarrow> reported s' e" for e using g by (auto simp: reported_def)
  have x: "explained s e \<Longrightarrow> explained s' e" for e using g r by (auto simp: explained_def)
  have names: "fst ` set (rn_workers s') = fst ` set (rn_workers s)" using g by (metis list.set_map)
  have f: "final_error timeout s e \<Longrightarrow> final_error timeout s' e" for e
    unfolding final_error_def names using x by blast
  show ?thesis
    using assms(2) g r x f unfolding error_inv_def by (cases "rn_main s") auto
qed

subsection \<open>Runs of an engine\<close>

definition runs_to :: "(string list \<Rightarrow> string \<Rightarrow> bool) \<Rightarrow> string \<Rightarrow> ('s, 'h, 'b) Engine \<Rightarrow> run_state \<Rightarrow> bool" where
  "runs_to conflict timeout e s \<longleftrightarrow>
     (\<exists>e' s0. run_start conflict e = Some (e', Inr s0) \<and> (run_step (length (eg_workers e) + 1) timeout)\<^sup>*\<^sup>* s0 s)"

lemma run_start_initial:
  "run_start conflict e = Some (e', Inr s0) \<Longrightarrow>
     s0 = initial_run (if eg_profile e = ProfileHTTP then [] else eg_workers e) (eg_profile e \<noteq> ProfileWorker)"
  by (auto simp: run_start_def Let_def split: if_splits option.splits)

lemma runs_to_inv:
  assumes "runs_to conflict timeout e s"
  shows "queue_inv (length (eg_workers e) + 1) s \<and> main_inv s \<and> exits_inv s \<and> error_inv timeout s \<and>
     map fst (rn_workers s) = (if eg_profile e = ProfileHTTP then [] else map wk_Name (eg_workers e))"
proof -
  let ?ws = "if eg_profile e = ProfileHTTP then [] else eg_workers e"
  let ?sv = "eg_profile e \<noteq> ProfileWorker"
  have run: "(run_step (length (eg_workers e) + 1) timeout)\<^sup>*\<^sup>* (initial_run ?ws ?sv) s"
    using assms run_start_initial unfolding runs_to_def by metis
  from run have "queue_inv (length (eg_workers e) + 1) s" by (rule queue_inv_reachable) simp
  moreover from run have "queue_inv (length (eg_workers e) + 1) s \<and> main_inv s \<and> exits_inv s \<and> error_inv timeout s \<and>
      map fst (rn_workers s) = map wk_Name ?ws"
  proof (induction rule: run_induct)
    case start
    have "queue_inv (length (eg_workers e) + 1) (initial_run ?ws ?sv)" by (rule queue_inv_initial) simp
    then show ?case by (auto simp: initial_run_def main_inv_def exits_inv_def error_inv_def)
  next
    case (step s s')
    have q: "queue_inv (length (eg_workers e) + 1) s'"
      using step by (auto simp: run_step_def intro: queue_inv_main queue_inv_env)
    have m: "main_inv s'" using step by (auto simp: run_step_def intro: main_inv_main main_inv_env)
    have x: "exits_inv s'" using step by (auto intro: exits_inv_step)
    have r: "error_inv timeout s'" using step by (auto simp: run_step_def intro: error_inv_main error_inv_env)
    have "map fst (rn_workers s') = map fst (rn_workers s)"
      using step(2) unfolding run_step_def
      by (elim disjE) (auto elim!: main_step.cases simp: cancel_run_def dest!: env_step_grows)
    then show ?case using q m x r step by metis
  qed
  ultimately show ?thesis by auto
qed

subsection \<open>Shutdown ends\<close>

definition main_measure :: "run_state \<Rightarrow> nat" where
  "main_measure s =
     (case rn_main s of
        MWait \<Rightarrow> length (rn_workers s) + 5
      | MShutdown _ \<Rightarrow> length (rn_workers s) + 4
      | MCancel _ \<Rightarrow> length (rn_workers s) + 3
      | MWaitWorkers k _ \<Rightarrow> length (rn_workers s) - k + 2
      | MDrain _ \<Rightarrow> 1
      | MReturned _ \<Rightarrow> 0)"

lemma main_step_decreases: "main_step timeout s s' \<Longrightarrow> main_measure s' < main_measure s"
  by (induction rule: main_step.induct) (auto simp: main_measure_def cancel_run_def)

lemma main_step_enabled:
  assumes "main_inv s" "rn_main s = MWait \<Longrightarrow> rn_ctx s \<noteq> None" "\<nexists>r. rn_main s = MReturned r"
  shows "\<exists>s'. main_step timeout s s'"
proof (cases "rn_main s")
  case MWait
  with assms(2) show ?thesis by (auto intro: main_step.main_ctx)
next
  case (MShutdown r)
  then show ?thesis
    by (cases "rn_server s = None")
       (blast intro: main_step.main_no_server, blast intro: main_step.main_shutdown [where err = None])
next
  case (MCancel r)
  then show ?thesis by (blast intro: main_step.main_cancel)
next
  case (MWaitWorkers k r)
  then have "k \<le> length (rn_workers s)" using assms(1) by (simp add: main_inv_def)
  then show ?thesis
    using MWaitWorkers by (cases "k = length (rn_workers s)")
      (blast intro: main_step.main_all, metis le_neq_implies_less main_step.main_timer)
next
  case (MDrain r)
  then show ?thesis
    by (cases r; cases "rn_errCh s") (blast intro: main_step.intros)+
qed (use assms(3) in blast)

lemma main_leaves_wait: "main_step timeout s s' \<Longrightarrow> rn_main s' \<noteq> MWait"
  by (induction rule: main_step.induct) (simp_all add: cancel_run_def)

lemma main_alone_returns:
  assumes "main_inv s" "rn_main s = MWait \<Longrightarrow> rn_ctx s \<noteq> None"
  shows "\<exists>s' r. (main_step timeout)\<^sup>*\<^sup>* s s' \<and> rn_main s' = MReturned r"
  using assms
proof (induction "main_measure s" arbitrary: s rule: less_induct)
  case less
  show ?case
  proof (cases "\<exists>r. rn_main s = MReturned r")
    case False
    then obtain s1 where s1: "main_step timeout s s1" using main_step_enabled less.prems by blast
    have "\<exists>s' r. (main_step timeout)\<^sup>*\<^sup>* s1 s' \<and> rn_main s' = MReturned r"
      by (rule less.hyps) (use s1 main_step_decreases main_inv_main [OF s1 less.prems(1)] main_leaves_wait in blast)+
    then show ?thesis using s1 by (meson converse_rtranclp_into_rtranclp)
  qed blast
qed

subsection \<open>Properties\<close>

text \<open>C10: A clean return tells the truth. When \<open>Run\<close> returns nil, every started worker has finished,
  none of them reported a failure, no report was ever dropped, and every worker returned
  either a cancellation, or nil with the context ended when its goroutine looked right after:
  a failure or an early return of a worker always surfaces as an error of \<open>Run\<close>.
\<close>

theorem engine_clean_exit:
  assumes "runs_to conflict timeout e s" "rn_main s = MReturned None"
  shows "unfinishedWorkerNames (rn_workers s) = [] \<and> rn_failed s = [] \<and> rn_dropped s = [] \<and>
     map fst (rn_workers s) = (if eg_profile e = ProfileHTTP then [] else map wk_Name (eg_workers e)) \<and>
     (\<forall>(name, err, ended) \<in> set (rn_exits s).
        (case err of None \<Rightarrow> ended | Some x \<Rightarrow> errors_is x ErrCanceled))"
proof -
  note inv = runs_to_inv [OF assms(1)]
  have ad: "all_done s" and nf: "rn_failed s = []" using inv assms(2) by (simp_all add: main_inv_def)
  then have "\<not> (\<exists>i < length (rn_workers s). \<exists>x. snd (rn_workers s ! i) = WReporting x)"
    by (auto simp: all_done_nth)
  then have "\<forall>(name, err, ended) \<in> set (rn_exits s). \<not> bad_exit err ended"
    using inv nf unfolding exits_inv_def by blast
  then have "\<forall>(name, err, ended) \<in> set (rn_exits s). (case err of None \<Rightarrow> ended | Some x \<Rightarrow> errors_is x ErrCanceled)"
    by (auto simp: bad_exit_def split: option.splits)
  then show ?thesis using inv ad nf no_unfinished [of s] by (simp add: queue_inv_def)
qed

text \<open>An error of \<open>Run\<close> is genuine: it is an error a worker or the server reported, a cause of
  the context other than cancellation, the error of the server's shutdown, or the join of
  such an error (if there was one) with a timeout that names workers of the engine.
\<close>

theorem engine_error_explained:
  assumes "runs_to conflict timeout e s" "rn_main s = MReturned (Some err)"
  shows "err \<in> set (rn_reports s) \<or> (rn_ctx s = Some err \<and> \<not> errors_is err ErrCanceled) \<or> rn_shutdown_err s = Some err \<or>
     (\<exists>r names. names \<noteq> [] \<and> set names \<subseteq> wk_Name ` set (eg_workers e) \<and>
        err = the (errors_join [r, Some (timeout_error timeout names)]) \<and>
        (\<forall>x. r = Some x \<longrightarrow> x \<in> set (rn_reports s) \<or> rn_ctx s = Some x \<or> rn_shutdown_err s = Some x))"
proof -
  note inv = runs_to_inv [OF assms(1)]
  have fe: "final_error timeout s err" using inv assms(2) by (simp add: error_inv_def)
  have names: "fst ` set (rn_workers s) \<subseteq> wk_Name ` set (eg_workers e)"
    using inv by (metis empty_subsetI empty_set list.set_map order_refl)
  from fe show ?thesis unfolding final_error_def
  proof
    assume "explained s err"
    then show ?thesis by (auto simp: explained_def reported_def)
  next
    assume "\<exists>r names. names \<noteq> [] \<and> set names \<subseteq> fst ` set (rn_workers s) \<and> (\<forall>x. r = Some x \<longrightarrow> explained s x) \<and>
        errors_join [r, Some (timeout_error timeout names)] = Some err"
    then obtain r ns where "ns \<noteq> []" "set ns \<subseteq> fst ` set (rn_workers s)" "\<forall>x. r = Some x \<longrightarrow> explained s x"
      "errors_join [r, Some (timeout_error timeout ns)] = Some err" by blast
    with names show ?thesis
      by (intro disjI2 exI [of _ r] exI [of _ ns]) (auto simp: explained_def reported_def)
  qed
qed

text \<open>C29: Shutdown ends whatever the workers do. Once the context has ended, \<open>Run\<close> is never stuck:
  it can always take its next step, each step brings it closer to its return, no step of
  another goroutine takes it back, and alone it returns after at most five steps
  more than there are workers.
\<close>

theorem engine_shutdown_bounded:
  assumes "runs_to conflict timeout e s" "rn_ctx s \<noteq> None"
  shows "(\<exists>s' r. (main_step timeout)\<^sup>*\<^sup>* s s' \<and> rn_main s' = MReturned r) \<and>
     ((\<nexists>r. rn_main s = MReturned r) \<longrightarrow> (\<exists>s'. main_step timeout s s')) \<and>
     (\<forall>s'. main_step timeout s s' \<longrightarrow> main_measure s' < main_measure s) \<and>
     (\<forall>cap s'. env_step cap s s' \<longrightarrow> main_measure s' = main_measure s) \<and>
     main_measure s \<le> length (eg_workers e) + 5"
proof -
  note inv = runs_to_inv [OF assms(1)]
  have "length (rn_workers s) \<le> length (eg_workers e)"
    using inv by (metis length_map le0 list.size(3) order_refl)
  then have "main_measure s \<le> length (eg_workers e) + 5" by (cases "rn_main s") (auto simp: main_measure_def)
  moreover have "main_measure s' = main_measure s" if "env_step cap s s'" for cap s'
  proof -
    have "length (rn_workers s') = length (rn_workers s)" "rn_main s' = rn_main s"
      using env_step_grows [OF that] map_eq_imp_length_eq [of fst "rn_workers s'" fst "rn_workers s"] by blast+
    then show ?thesis by (simp only: main_measure_def)
  qed
  moreover have "\<exists>s' r. (main_step timeout)\<^sup>*\<^sup>* s s' \<and> rn_main s' = MReturned r"
    by (rule main_alone_returns) (simp_all add: inv assms(2))
  moreover have "\<exists>s'. main_step timeout s s'" if "\<nexists>r. rn_main s = MReturned r"
    by (rule main_step_enabled) (use that in \<open>simp_all add: inv assms(2)\<close>)
  ultimately show ?thesis by (simp add: main_step_decreases)
qed

subsection \<open>Witnesses\<close>

text \<open>A worker-only engine whose single worker returns after the context was cancelled.\<close>

definition demo_worker_engine :: demo_engine where
  "demo_worker_engine = demo_new\<lparr>eg_profile := ProfileWorker, eg_workers := [Worker ''w'' ()]\<rparr>"

definition demo_run :: "worker_point \<Rightarrow> goerr option \<Rightarrow> main_point \<Rightarrow> (string \<times> goerr option \<times> bool) list \<Rightarrow> run_state" where
  "demo_run p ctx m exits = \<lparr>rn_workers = [(''w'', p)], rn_server = None, rn_ctx = ctx, rn_errCh = [],
     rn_main = m, rn_reports = [], rn_failed = [], rn_dropped = [], rn_exits = exits, rn_shutdown_err = None\<rparr>"

abbreviation no_conflict :: "string list \<Rightarrow> string \<Rightarrow> bool" where
  "no_conflict \<equiv> \<lambda>_ _. False"

lemma demo_run_start: "run_start no_conflict demo_worker_engine =
     Some (demo_worker_engine\<lparr>eg_started := True\<rparr>, Inr (demo_run WRunning None MWait []))"
  by (simp add: run_start_def demo_worker_engine_def demo_new_def engine_New_empty initial_run_def demo_run_def)

lemma demo_cancelled: "runs_to no_conflict ''30s'' demo_worker_engine (demo_run WRunning (Some ErrCanceled) MWait [])"
proof -
  have "run_step 2 ''30s'' (demo_run WRunning None MWait []) (demo_run WRunning (Some ErrCanceled) MWait [])"
    using env_step.ctx_end [of "demo_run WRunning None MWait []" 2 ErrCanceled] by (simp add: demo_run_def run_step_def)
  then show ?thesis
    unfolding runs_to_def using demo_run_start by (auto simp: demo_worker_engine_def numeral_2_eq_2)
qed

lemma two_steps: "r a b \<Longrightarrow> r b c \<Longrightarrow> r\<^sup>*\<^sup>* a c"
  by (meson converse_rtranclp_into_rtranclp r_into_rtranclp)

lemma three_steps: "r a b \<Longrightarrow> r b c \<Longrightarrow> r c d \<Longrightarrow> r\<^sup>*\<^sup>* a d"
  by (meson converse_rtranclp_into_rtranclp two_steps)

lemma demo_shutting: "(main_step t)\<^sup>*\<^sup>* (demo_run p (Some ErrCanceled) MWait x) (demo_run p (Some ErrCanceled) (MWaitWorkers 0 None) x)"
proof -
  have "main_step t (demo_run p (Some ErrCanceled) MWait x) (demo_run p (Some ErrCanceled) (MShutdown None) x)"
    using main_step.main_ctx [of "demo_run p (Some ErrCanceled) MWait x" ErrCanceled t] by (simp add: demo_run_def ctx_runErr_def)
  moreover have "main_step t (demo_run p (Some ErrCanceled) (MShutdown None) x) (demo_run p (Some ErrCanceled) (MCancel None) x)"
    using main_step.main_no_server [of "demo_run p (Some ErrCanceled) (MShutdown None) x" None t] by (simp add: demo_run_def)
  moreover have "main_step t (demo_run p (Some ErrCanceled) (MCancel None) x) (demo_run p (Some ErrCanceled) (MWaitWorkers 0 None) x)"
    using main_step.main_cancel [of "demo_run p (Some ErrCanceled) (MCancel None) x" None t] by (simp add: demo_run_def cancel_run_def)
  ultimately show ?thesis by (rule three_steps)
qed

lemma main_runs: "(main_step t)\<^sup>*\<^sup>* s s' \<Longrightarrow> (run_step cap t)\<^sup>*\<^sup>* s s'"
  by (rule rtranclp_mono [THEN predicate2D, rotated]) (auto simp: run_step_def)

lemma runs_to_extend:
  assumes "runs_to conflict t e s" "(run_step (length (eg_workers e) + 1) t)\<^sup>*\<^sup>* s s'"
  shows "runs_to conflict t e s'"
  using assms unfolding runs_to_def by (meson rtranclp_trans)

lemma demo_waiting: "runs_to no_conflict ''30s'' demo_worker_engine (demo_run WRunning (Some ErrCanceled) (MWaitWorkers 0 None) [])"
  by (rule runs_to_extend [OF demo_cancelled main_runs [OF demo_shutting]])

lemma demo_finished: "runs_to no_conflict ''30s'' demo_worker_engine
   (demo_run WDone (Some ErrCanceled) (MReturned None) [(''w'', None, True)])"
proof (rule runs_to_extend [OF demo_waiting])
  let ?c = "Some ErrCanceled" and ?x = "[(''w'', None, True)]"
  have step0: "run_step 2 ''30s'' (demo_run WRunning ?c (MWaitWorkers 0 None) []) (demo_run (WReturned None) ?c (MWaitWorkers 0 None) [])"
    using env_step.worker_exit [of 0 "demo_run WRunning ?c (MWaitWorkers 0 None) []" "''w''" 2 None]
    by (simp add: run_step_def demo_run_def set_worker_def)
  have step1: "run_step 2 ''30s'' (demo_run (WReturned None) ?c (MWaitWorkers 0 None) []) (demo_run WClosing ?c (MWaitWorkers 0 None) ?x)"
    using env_step.worker_check [of 0 "demo_run (WReturned None) ?c (MWaitWorkers 0 None) []" "''w''" None 2]
    by (simp add: run_step_def demo_run_def set_worker_def worker_result_def)
  have step2: "run_step 2 ''30s'' (demo_run WClosing ?c (MWaitWorkers 0 None) ?x) (demo_run WDone ?c (MWaitWorkers 0 None) ?x)"
    using env_step.worker_close [of 0 "demo_run WClosing ?c (MWaitWorkers 0 None) ?x" "''w''" 2]
    by (simp add: run_step_def demo_run_def set_worker_def)
  have step3: "run_step 2 ''30s'' (demo_run WDone ?c (MWaitWorkers 0 None) ?x) (demo_run WDone ?c (MWaitWorkers 1 None) ?x)"
    using main_step.main_worker [of "demo_run WDone ?c (MWaitWorkers 0 None) ?x" 0 None] by (simp add: run_step_def demo_run_def)
  have step4: "run_step 2 ''30s'' (demo_run WDone ?c (MWaitWorkers 1 None) ?x) (demo_run WDone ?c (MDrain None) ?x)"
    using main_step.main_all [of "demo_run WDone ?c (MWaitWorkers 1 None) ?x" 1 None] by (simp add: run_step_def demo_run_def)
  have step5: "run_step 2 ''30s'' (demo_run WDone ?c (MDrain None) ?x) (demo_run WDone ?c (MReturned None) ?x)"
    using main_step.main_clean [of "demo_run WDone ?c (MDrain None) ?x"] by (simp add: run_step_def demo_run_def)
  have "(run_step 2 ''30s'')\<^sup>*\<^sup>* (demo_run WRunning ?c (MWaitWorkers 0 None) []) (demo_run WDone ?c (MReturned None) ?x)"
    by (rule converse_rtranclp_into_rtranclp [OF step0 converse_rtranclp_into_rtranclp [OF step1 converse_rtranclp_into_rtranclp [OF step2
          converse_rtranclp_into_rtranclp [OF step3 converse_rtranclp_into_rtranclp [OF step4 r_into_rtranclp [where r = "run_step 2 ''30s''", OF step5]]]]]])
  then show "(run_step (length (eg_workers demo_worker_engine) + 1) ''30s'')\<^sup>*\<^sup>*
     (demo_run WRunning ?c (MWaitWorkers 0 None) []) (demo_run WDone ?c (MReturned None) ?x)"
    by (simp add: demo_worker_engine_def numeral_2_eq_2)
qed

lemma demo_stuck: "runs_to no_conflict ''30s'' demo_worker_engine (demo_run WRunning (Some ErrCanceled)
     (MReturned (errors_join [None, Some (timeout_error ''30s'' [''w''])])) [])"
proof (rule runs_to_extend [OF demo_waiting], rule main_runs)
  let ?c = "Some ErrCanceled" and ?r = "errors_join [None, Some (timeout_error ''30s'' [''w''])]"
  obtain e where e: "?r = Some e" by (simp add: errors_join_def)
  have "main_step ''30s'' (demo_run WRunning ?c (MWaitWorkers 0 None) []) (demo_run WRunning ?c (MDrain ?r) [])"
    using main_step.main_timer [of "demo_run WRunning ?c (MWaitWorkers 0 None) []" 0 None "[''w'']" "''30s''"]
    by (simp add: demo_run_def unfinishedWorkerNames_def)
  moreover have "main_step ''30s'' (demo_run WRunning ?c (MDrain ?r) []) (demo_run WRunning ?c (MReturned ?r) [])"
    using main_step.main_return [of "demo_run WRunning ?c (MDrain ?r) []" e "''30s''"] e by (simp add: demo_run_def)
  ultimately show "(main_step ''30s'')\<^sup>*\<^sup>* (demo_run WRunning ?c (MWaitWorkers 0 None) []) (demo_run WRunning ?c (MReturned ?r) [])"
    by (rule two_steps)
qed

theorem engine_clean_exit_witness:
  "runs_to no_conflict ''30s'' demo_worker_engine (demo_run WDone (Some ErrCanceled) (MReturned None) [(''w'', None, True)]) \<and>
   rn_dropped (demo_run WDone (Some ErrCanceled) (MReturned None) [(''w'', None, True)]) = []"
  using engine_clean_exit [OF demo_finished] demo_finished by (simp add: demo_run_def)

theorem engine_error_explained_witness:
  "\<exists>r names. names \<noteq> [] \<and> set names \<subseteq> {''w''} \<and>
     the (errors_join [None, Some (timeout_error ''30s'' [''w''])]) = the (errors_join [r, Some (timeout_error ''30s'' names)])"
proof -
  obtain e where e: "errors_join [None, Some (timeout_error ''30s'' [''w''])] = Some e" "e \<noteq> ErrCanceled"
    by (simp add: errors_join_def)
  from engine_error_explained [OF demo_stuck [unfolded e]] e show ?thesis
    by (auto simp: demo_run_def demo_worker_engine_def)
qed

theorem engine_shutdown_bounded_witness:
  "\<exists>s' r. (main_step ''30s'')\<^sup>*\<^sup>* (demo_run WRunning (Some ErrCanceled) MWait []) s' \<and> rn_main s' = MReturned r"
  using engine_shutdown_bounded [OF demo_cancelled] by (simp add: demo_run_def)

end
