(* ===== verification/Uuid.thy ===== *)
theory Uuid
  imports GoStrings "HOL-Library.List_Lexorder" "HOL-Library.Char_ord"
begin

text \<open>
  Identifiers (\<open>id/uuidv7.go\<close>): a UUID of version 7 from sixteen random bytes and the clock,
  and its text. The random source and the clock are arguments. Go orders strings by bytes,
  which is the lexicographic order of the list of characters.
\<close>

unbundle bit_operations_syntax

subsection \<open>Hexadecimal text\<close>

text \<open>\<open>hex.Encode\<close>: two lower-case digits for each byte.\<close>

definition hex_digit :: "nat \<Rightarrow> char" where
  "hex_digit n = (if n < 10 then char_of (48 + n) else char_of (87 + n))"

definition hex_byte :: "8 word \<Rightarrow> string" where
  "hex_byte b = [hex_digit (unat b div 16), hex_digit (unat b mod 16)]"

definition hex_encode :: "8 word list \<Rightarrow> string" where
  "hex_encode bs = concat (map hex_byte bs)"

definition hex_val :: "char \<Rightarrow> nat" where
  "hex_val c = (if of_char c < (97 :: nat) then of_char c - 48 else of_char c - 87)"

definition hex_value :: "string \<Rightarrow> nat" where
  "hex_value s = foldl (\<lambda>a c. 16 * a + hex_val c) 0 s"

definition is_hex :: "char \<Rightarrow> bool" where
  "is_hex c \<longleftrightarrow> (\<exists>n < 16. c = hex_digit n)"

lemma hex_val_digit: "n < 16 \<Longrightarrow> hex_val (hex_digit n) = n"
  by (simp add: hex_val_def hex_digit_def)

lemma hex_digit_less: "m < 16 \<Longrightarrow> n < 16 \<Longrightarrow> hex_digit m < hex_digit n \<longleftrightarrow> m < n"
  by (simp add: hex_digit_def less_char_def)

lemma is_hex_less: "is_hex c \<Longrightarrow> is_hex d \<Longrightarrow> c < d \<longleftrightarrow> hex_val c < hex_val d"
  by (auto simp: is_hex_def hex_val_digit hex_digit_less)

lemma is_hex_val: "is_hex c \<Longrightarrow> hex_val c < 16"
  by (auto simp: is_hex_def hex_val_digit)

lemma is_hex_inj: "is_hex c \<Longrightarrow> is_hex d \<Longrightarrow> hex_val c = hex_val d \<longleftrightarrow> c = d"
  by (auto simp: is_hex_def hex_val_digit)

lemma hex_byte_facts:
  "length (hex_byte b) = 2" "\<forall>c \<in> set (hex_byte b). is_hex c" "hex_value (hex_byte b) = unat b"
proof -
  have "unat b < 2 ^ LENGTH(8)" by (rule unsigned_less)
  then have u: "unat b < 256" by simp
  have "is_hex (hex_digit (unat b div 16))" "is_hex (hex_digit (unat b mod 16))"
    unfolding is_hex_def using u by (intro exI conjI, rule_tac [2] refl, simp)+
  then show "\<forall>c \<in> set (hex_byte b). is_hex c" by (simp add: hex_byte_def)
  show "hex_value (hex_byte b) = unat b"
    using u by (simp add: hex_byte_def hex_value_def hex_val_digit)
qed (simp add: hex_byte_def)

lemma hex_value_append: "hex_value (s @ t) = hex_value s * 16 ^ length t + hex_value t"
proof -
  have "foldl (\<lambda>a c. 16 * a + hex_val c) k t = k * 16 ^ length t + foldl (\<lambda>a c. 16 * a + hex_val c) 0 t" for k
  proof (induction t arbitrary: k)
    case (Cons c t)
    let ?F = "foldl (\<lambda>a c. 16 * a + hex_val c)"
    have l: "?F k (c # t) = (16 * k + hex_val c) * 16 ^ length t + ?F 0 t"
      by (simp only: foldl_Cons Cons.IH [of "16 * k + hex_val c"])
    have r: "?F 0 (c # t) = hex_val c * 16 ^ length t + ?F 0 t"
      by (simp only: foldl_Cons mult_0_right add_0_left Cons.IH [of "hex_val c"])
    show ?case unfolding l r by (simp add: algebra_simps)
  qed simp
  then show ?thesis unfolding hex_value_def foldl_append by blast
qed

lemma hex_encode_facts:
  "length (hex_encode bs) = 2 * length bs" "\<forall>c \<in> set (hex_encode bs). is_hex c"
  by (induction bs) (auto simp: hex_encode_def hex_byte_facts)

lemma hex_value_less: "\<forall>c \<in> set s. is_hex c \<Longrightarrow> hex_value s < 16 ^ length s"
proof (induction s)
  case (Cons c s)
  have "hex_value (c # s) = hex_val c * 16 ^ length s + hex_value s"
    using hex_value_append [of "[c]" s] by (simp add: hex_value_def)
  moreover have "hex_val c \<le> 15" using Cons.prems is_hex_val [of c] by simp
  then have "hex_val c * 16 ^ length s \<le> 15 * 16 ^ length s" by (rule mult_le_mono1)
  moreover have "hex_value s < 16 ^ length s" using Cons by simp
  ultimately show ?case unfolding length_Cons power_Suc by linarith
qed (simp add: hex_value_def)

text \<open>The order of equally long hexadecimal texts is the order of their values.\<close>

lemma hex_order:
  assumes "length s = length t" "\<forall>c \<in> set s. is_hex c" "\<forall>c \<in> set t. is_hex c"
  shows "s < t \<longleftrightarrow> hex_value s < hex_value t"
  using assms
proof (induction s t rule: list_induct2)
  case (Cons c s d t)
  have v: "hex_value (c # s) = hex_val c * 16 ^ length s + hex_value s"
    "hex_value (d # t) = hex_val d * 16 ^ length s + hex_value t"
    using hex_value_append [of "[c]" s] hex_value_append [of "[d]" t] Cons.hyps by (simp_all add: hex_value_def)
  have b: "hex_value s < 16 ^ length s" "hex_value t < 16 ^ length s"
    using hex_value_less [of s] hex_value_less [of t] Cons.prems Cons.hyps by simp_all
  have cd: "c < d \<longleftrightarrow> hex_val c < hex_val d" "hex_val c = hex_val d \<longleftrightarrow> c = d"
    using is_hex_less is_hex_inj Cons.prems by simp_all
  have mono: "hex_value (c # s) < hex_value (d # t)" if "hex_val c < hex_val d"
  proof -
    have "(hex_val c + 1) * 16 ^ length s \<le> hex_val d * 16 ^ length s" using that by (intro mult_le_mono1) simp
    then show ?thesis using v b by (simp add: algebra_simps)
  qed
  have anti: "\<not> hex_value (c # s) < hex_value (d # t)" if "hex_val d < hex_val c"
  proof -
    have "(hex_val d + 1) * 16 ^ length s \<le> hex_val c * 16 ^ length s" using that by (intro mult_le_mono1) simp
    then show ?thesis using v b by (simp add: algebra_simps)
  qed
  consider "hex_val c < hex_val d" | "c = d" | "hex_val d < hex_val c"
    using cd by (metis linorder_less_linear)
  then show ?case
  proof cases
    case 1 with mono cd show ?thesis by simp
  next
    case 2 with v Cons.IH Cons.prems show ?thesis by simp
  next
    case 3
    then have "\<not> c < d" "c \<noteq> d" using cd by auto
    with anti [OF 3] show ?thesis by simp
  qed
qed simp

subsection \<open>UUID version 7\<close>

text \<open>\<open>byte(milliseconds >> n)\<close>.\<close>

definition ms_byte :: "64 word \<Rightarrow> nat \<Rightarrow> 8 word" where
  "ms_byte milliseconds n = ucast (drop_bit n milliseconds)"

text \<open>The sixteen bytes, from the random ones.\<close>

definition uuid_raw :: "8 word list \<Rightarrow> 64 word \<Rightarrow> 8 word list" where
  "uuid_raw random milliseconds =
     (let raw = random[0 := ms_byte milliseconds 40, 1 := ms_byte milliseconds 32,
                       2 := ms_byte milliseconds 24, 3 := ms_byte milliseconds 16,
                       4 := ms_byte milliseconds 8, 5 := ms_byte milliseconds 0];
          raw = raw[6 := (raw ! 6 AND 0x0f) OR 0x70]
      in raw[8 := (raw ! 8 AND 0x3f) OR 0x80])"

definition slice :: "nat \<Rightarrow> nat \<Rightarrow> 'a list \<Rightarrow> 'a list" where
  "slice i j xs = take (j - i) (drop i xs)"

definition uuid_text :: "8 word list \<Rightarrow> string" where
  "uuid_text raw =
     (let encoded = hex_encode raw
      in slice 0 8 encoded @ ''-'' @ slice 8 12 encoded @ ''-'' @ slice 12 16 encoded @ ''-'' @
         slice 16 20 encoded @ ''-'' @ slice 20 32 encoded)"

text \<open>\<open>time.Now().UTC().UnixMilli()\<close> is an int64, converted to uint64.\<close>

definition UUIDv7 :: "goerr + 8 word list \<Rightarrow> int \<Rightarrow> goerr + string" where
  "UUIDv7 rand unix_milli =
     (case rand of
        Inl err \<Rightarrow> Inl err
      | Inr random \<Rightarrow> Inr (uuid_text (uuid_raw random (of_int unix_milli))))"

text \<open>\<open>None\<close> is the panic.\<close>

definition MustUUIDv7 :: "goerr + 8 word list \<Rightarrow> int \<Rightarrow> string option" where
  "MustUUIDv7 rand unix_milli = (case UUIDv7 rand unix_milli of Inl err \<Rightarrow> None | Inr value \<Rightarrow> Some value)"

subsection \<open>Layout\<close>

lemma sixteen:
  assumes "length xs = 16"
  obtains x0 x1 x2 x3 x4 x5 x6 x7 x8 x9 x10 x11 x12 x13 x14 x15
  where "xs = [x0, x1, x2, x3, x4, x5, x6, x7, x8, x9, x10, x11, x12, x13, x14, x15]"
  using assms by (auto simp: length_Suc_conv numeral_eq_Suc)

text \<open>The text as five groups of bytes: \<open>stamp\<close> holds the clock, \<open>v\<close> the version, \<open>w\<close> the variant.\<close>

lemma uuid_text_shape:
  assumes "length random = 16"
  obtains b6 b7 b8 b9 node where
    "uuid_text (uuid_raw random ms) =
       hex_encode [ms_byte ms 40, ms_byte ms 32, ms_byte ms 24, ms_byte ms 16] @ ''-'' @
       hex_encode [ms_byte ms 8, ms_byte ms 0] @ ''-'' @
       hex_encode [(b6 AND 0x0f) OR 0x70, b7] @ ''-'' @
       hex_encode [(b8 AND 0x3f) OR 0x80, b9] @ ''-'' @ hex_encode node"
    "length node = 6" "[b6, b7, b8, b9] @ node = drop 6 random"
proof (rule sixteen [OF assms], goal_cases)
  case (1 x0 x1 x2 x3 x4 x5 x6 x7 x8 x9 x10 x11 x12 x13 x14 x15)
  show ?case
    by (rule that [of x6 x7 x8 x9 "[x10, x11, x12, x13, x14, x15]"])
       (simp_all add: 1(2) uuid_raw_def uuid_text_def Let_def hex_encode_def hex_byte_def slice_def)
qed

lemma unat_drop: "unat (drop_bit n w) = unat w div 2 ^ n"
  unfolding unat_drop_bit_eq by (rule drop_bit_eq_div)

lemma version_digit: "unat ((b AND 0x0f) OR 0x70 :: 8 word) div 16 = 7"
proof -
  have "drop_bit 4 ((b AND 0x0f) OR 0x70 :: 8 word) = 7" by simp
  then have "unat (drop_bit 4 ((b AND 0x0f) OR 0x70 :: 8 word)) = 7" by simp
  then show ?thesis by (simp only: unat_drop) simp
qed

lemma variant_digit: "unat ((b AND 0x3f) OR 0x80 :: 8 word) div 16 \<in> {8, 9, 10, 11}"
proof -
  have "drop_bit 4 ((b AND 0x3f) OR 0x80 :: 8 word) = (drop_bit 4 b AND 3) OR 8" by simp
  moreover have "unat ((x AND 3) OR 8 :: 8 word) \<in> {8, 9, 10, 11}" for x :: "8 word"
  proof -
    have "unat (x AND 3) = unat x mod 4"
      by (simp add: unsigned_and_eq flip: take_bit_eq_mod [of 2, simplified]) (simp add: take_bit_eq_mask mask_eq_exp_minus_1)
    then have "unat ((x AND 3) OR 8) = (unat x mod 4) OR 8" by (simp add: unsigned_or_eq)
    moreover have "unat x mod 4 = 0 \<or> unat x mod 4 = 1 \<or> unat x mod 4 = 2 \<or> unat x mod 4 = 3" by linarith
    ultimately show ?thesis by (elim disjE) simp_all
  qed
  ultimately have "unat (drop_bit 4 ((b AND 0x3f) OR 0x80 :: 8 word)) \<in> {8, 9, 10, 11}" by simp
  then show ?thesis by (simp only: unat_drop) simp
qed

lemma variant_hex:
  assumes "n \<in> {8, 9, 10, 11}"
  shows "hex_digit n \<in> {CHR ''8'', CHR ''9'', CHR ''a'', CHR ''b''}"
proof -
  have "hex_digit 8 = CHR ''8''" "hex_digit 9 = CHR ''9''" "hex_digit 10 = CHR ''a''" "hex_digit 11 = CHR ''b''"
    by (simp_all add: hex_digit_def char_of_def bit_0)
  with assms show ?thesis by auto
qed

lemma ms_byte_value: "unat (ms_byte ms n) = unat ms div 2 ^ n mod 256"
proof -
  have "unat (ms_byte ms n) = take_bit 8 (unat (drop_bit n ms))"
    by (simp add: ms_byte_def unsigned_ucast_eq)
  then show ?thesis by (simp only: unat_drop take_bit_eq_mod) simp
qed

lemma digits_mod:
  fixes m :: nat
  shows "m mod 2 ^ 16 = m div 2 ^ 8 mod 256 * 256 + m mod 256"
    "m div 2 ^ 16 mod 2 ^ 32 = ((m div 2 ^ 40 mod 256 * 256 + m div 2 ^ 32 mod 256) * 256 + m div 2 ^ 24 mod 256) * 256 + m div 2 ^ 16 mod 256"
proof -
  show "m mod 2 ^ 16 = m div 2 ^ 8 mod 256 * 256 + m mod 256"
    using mod_mult2_eq [of m 256 256] by simp
  let ?k = "m div 2 ^ 16"
  have "?k mod (256 * (256 * (256 * 256))) = 256 * (?k div 256 mod (256 * (256 * 256))) + ?k mod 256"
    by (rule mod_mult2_eq)
  moreover have "?k div 256 mod (256 * (256 * 256)) = 256 * (?k div 256 div 256 mod (256 * 256)) + ?k div 256 mod 256"
    by (rule mod_mult2_eq)
  moreover have "?k div 256 div 256 mod (256 * 256) = 256 * (?k div 256 div 256 div 256 mod 256) + ?k div 256 div 256 mod 256"
    by (rule mod_mult2_eq)
  ultimately show "m div 2 ^ 16 mod 2 ^ 32 = ((m div 2 ^ 40 mod 256 * 256 + m div 2 ^ 32 mod 256) * 256 + m div 2 ^ 24 mod 256) * 256 + m div 2 ^ 16 mod 256"
    by (simp add: div_mult2_eq [symmetric])
qed

lemma hex_value_bytes: "hex_value (hex_encode (bs @ [b])) = hex_value (hex_encode bs) * 256 + unat b"
  by (simp add: hex_encode_def hex_value_append hex_byte_facts)

lemma stamp_values:
  "hex_value (hex_encode [ms_byte ms 40, ms_byte ms 32, ms_byte ms 24, ms_byte ms 16]) = unat ms div 2 ^ 16 mod 2 ^ 32"
  "hex_value (hex_encode [ms_byte ms 8, ms_byte ms 0]) = unat ms mod 2 ^ 16"
proof -
  have one: "hex_value (hex_encode [a]) = unat a" for a by (simp add: hex_encode_def hex_byte_facts)
  have two: "hex_value (hex_encode [a, b]) = unat a * 256 + unat b" for a b
    using hex_value_bytes [of "[a]" b] one [of a] by simp
  have "hex_value (hex_encode [a, b, c, d]) = ((unat a * 256 + unat b) * 256 + unat c) * 256 + unat d" for a b c d
    using hex_value_bytes [of "[a, b, c]" d] hex_value_bytes [of "[a, b]" c] two [of a b] by simp
  then show "hex_value (hex_encode [ms_byte ms 40, ms_byte ms 32, ms_byte ms 24, ms_byte ms 16]) = unat ms div 2 ^ 16 mod 2 ^ 32"
    by (simp only: digits_mod ms_byte_value)
  show "hex_value (hex_encode [ms_byte ms 8, ms_byte ms 0]) = unat ms mod 2 ^ 16"
    by (simp only: two digits_mod ms_byte_value) simp
qed

text \<open>The bits that stay random: twelve beside the version, fourteen beside the variant, and the
  last six bytes.\<close>

lemma low_bits:
  "unat ((b AND 0x0f) OR 0x70 :: 8 word) mod 16 = unat b mod 16"
  "unat ((b AND 0x3f) OR 0x80 :: 8 word) mod 64 = unat b mod 64"
proof -
  have u: "unat (take_bit n w) = unat w mod 2 ^ n" for n and w :: "8 word"
    by (simp only: unsigned_take_bit_eq take_bit_eq_mod [of n "unat w"])
  have mask: "take_bit n (b AND k) = take_bit n b" if "take_bit n k = mask n" for n and k :: "8 word"
    by (simp add: that) (simp flip: take_bit_eq_mask)
  have "take_bit 4 ((b AND 0x0f) OR 0x70 :: 8 word) = take_bit 4 b"
    using mask [of 4 "0x0f"] by (simp add: mask_numeral)
  then show "unat ((b AND 0x0f) OR 0x70 :: 8 word) mod 16 = unat b mod 16"
    using u [of 4 b] u [of 4 "(b AND 0x0f) OR 0x70"] by simp
  have "take_bit 6 ((b AND 0x3f) OR 0x80 :: 8 word) = take_bit 6 b"
    using mask [of 6 "0x3f"] by (simp add: mask_numeral)
  then show "unat ((b AND 0x3f) OR 0x80 :: 8 word) mod 64 = unat b mod 64"
    using u [of 6 b] u [of 6 "(b AND 0x3f) OR 0x80"] by simp
qed

definition bytes_value :: "8 word list \<Rightarrow> nat" where
  "bytes_value bs = foldl (\<lambda>a b. 256 * a + unat b) 0 bs"

lemma hex_value_encode: "hex_value (hex_encode bs) = bytes_value bs"
proof (induction bs rule: rev_induct)
  case Nil
  show ?case by (simp add: hex_encode_def hex_value_def bytes_value_def)
next
  case (snoc b bs)
  then show ?case by (simp add: hex_value_bytes bytes_value_def)
qed

lemma bytes_value_pair: "bytes_value [x, y] = 256 * unat x + unat y"
  by (simp add: bytes_value_def)

lemma random_values:
  "hex_value (drop 1 (hex_encode [(b AND 0x0f) OR 0x70, c])) = 256 * (unat b mod 16) + unat c"
  "hex_value (hex_encode [(b AND 0x3f) OR 0x80, c]) mod 2 ^ 14 = 256 * (unat b mod 64) + unat c"
proof -
  have "unat c < 2 ^ LENGTH(8)" by (rule unsigned_less)
  then have c: "unat c < 256" by simp
  have "drop 1 (hex_encode [(b AND 0x0f) OR 0x70, c]) = [hex_digit (unat b mod 16)] @ hex_byte c"
    by (simp add: hex_encode_def hex_byte_def low_bits)
  moreover have "hex_value [hex_digit (unat b mod 16)] = unat b mod 16"
    by (simp add: hex_value_def hex_val_digit)
  ultimately show "hex_value (drop 1 (hex_encode [(b AND 0x0f) OR 0x70, c])) = 256 * (unat b mod 16) + unat c"
    by (simp only: hex_value_append hex_byte_facts) simp
  let ?x = "unat ((b AND 0x3f) OR 0x80 :: 8 word)"
  have "(256 * ?x + unat c) mod (256 * 64) = 256 * (?x mod 64) + unat c"
    using c mod_mult2_eq [of "256 * ?x + unat c" 256 64] by simp
  then show "hex_value (hex_encode [(b AND 0x3f) OR 0x80, c]) mod 2 ^ 14 = 256 * (unat b mod 64) + unat c"
    by (simp add: hex_value_encode bytes_value_pair low_bits)
qed

lemma less_append:
  fixes a b :: string
  assumes "length a = length b"
  shows "a @ x < b @ y \<longleftrightarrow> a < b \<or> a = b \<and> x < y"
  using assms by (induction a b rule: list_induct2) auto

subsection \<open>Properties\<close>

lemma all_below_36: "(\<forall>i < 36. P i) \<longleftrightarrow> (\<forall>i \<in> set [0..<36]. P i)" for P :: "nat \<Rightarrow> bool"
  by auto

text \<open>Five groups joined by dashes, position by position.\<close>

lemma groups_nth:
  fixes a b c d e :: string
  assumes "length a = 8" "length b = 4" "length c = 4" "length d = 4" "length e = 12"
    and hex: "\<forall>x \<in> set (a @ b @ c @ d @ e). is_hex x"
  defines "u \<equiv> a @ ''-'' @ b @ ''-'' @ c @ ''-'' @ d @ ''-'' @ e"
  shows "length u = 36" "u ! 8 = CHR ''-''" "u ! 13 = CHR ''-''" "u ! 18 = CHR ''-''" "u ! 23 = CHR ''-''"
    "u ! 14 = c ! 0" "u ! 19 = d ! 0" "take 8 u = a" "take 4 (drop 9 u) = b"
    "take 3 (drop 15 u) = drop 1 c" "take 4 (drop 19 u) = d" "drop 24 u = e"
    "i < 36 \<Longrightarrow> i \<notin> {8, 13, 18, 23} \<Longrightarrow> is_hex (u ! i)"
proof -
  show "length u = 36" "u ! 8 = CHR ''-''" "u ! 13 = CHR ''-''" "u ! 18 = CHR ''-''" "u ! 23 = CHR ''-''"
    "u ! 14 = c ! 0" "u ! 19 = d ! 0" "take 8 u = a" "take 4 (drop 9 u) = b"
    "take 3 (drop 15 u) = drop 1 c" "take 4 (drop 19 u) = d" "drop 24 u = e"
    using assms(1-5) by (simp_all add: u_def nth_append)
  assume i: "i < 36" "i \<notin> {8, 13, 18, 23}"
  consider "i < 8" | "8 < i \<and> i < 13" | "13 < i \<and> i < 18" | "18 < i \<and> i < 23" | "23 < i" using i by fastforce
  then have "u ! i \<in> set (a @ b @ c @ d @ e)"
  proof cases
    case 1 then have "u ! i = a ! i" using assms(1) by (simp add: u_def nth_append)
    with 1 assms(1) show ?thesis by simp
  next
    case 2 then have "u ! i = b ! (i - 9)" using assms(1-2) by (auto simp: u_def nth_append nth_Cons')
    with 2 assms(2) nth_mem [of "i - 9" b] show ?thesis by auto
  next
    case 3 then have "u ! i = c ! (i - 14)" using assms(1-3) by (auto simp: u_def nth_append nth_Cons')
    with 3 assms(3) nth_mem [of "i - 14" c] show ?thesis by auto
  next
    case 4 then have "u ! i = d ! (i - 19)" using assms(1-4) by (auto simp: u_def nth_append nth_Cons')
    with 4 assms(4) nth_mem [of "i - 19" d] show ?thesis by auto
  next
    case 5 then have "u ! i = e ! (i - 24)" using assms(1-5) by (auto simp: u_def nth_append nth_Cons')
    with 5 i assms(5) nth_mem [of "i - 24" e] show ?thesis by auto
  qed
  then show "is_hex (u ! i)" using hex by blast
qed

lemma milli_word: "0 \<le> t \<Longrightarrow> t < 2 ^ 48 \<Longrightarrow> unat (of_int t :: 64 word) = nat t"
  by (simp add: unsigned_of_int take_bit_int_eq_self)

lemma stamp_total:
  assumes "0 \<le> t" "t < 2 ^ 48"
  shows "hex_value (hex_encode [ms_byte (of_int t) 40, ms_byte (of_int t) 32, ms_byte (of_int t) 24, ms_byte (of_int t) 16] @
     hex_encode [ms_byte (of_int t) 8, ms_byte (of_int t) 0]) = nat t"
proof -
  have n: "nat t < 2 ^ 48" using assms by (simp add: nat_less_iff)
  have "nat t div 2 ^ 16 < 2 ^ 32" by (rule less_mult_imp_div_less) (use n in simp)
  then show ?thesis
    unfolding hex_value_append stamp_values milli_word [OF assms]
    using div_mult_mod_eq [of "nat t" "2 ^ 16"] by (simp add: hex_encode_facts)
qed

text \<open>C30: The text of a version 7 UUID: 36 characters in five groups, the version digit 7, a variant
  digit 8, 9, a or b, hexadecimal digits elsewhere; the first twelve digits read back as the
  clock, for every time before the year 10889, and the rest reads back as the random bytes: the
  digits after the version are the lower half of byte 6 and byte 7, the fourth group less its
  two variant bits the lower six bits of byte 8 and byte 9, the last group bytes 10 to 15.
\<close>

theorem uuid_layout:
  assumes "length random = 16" "0 \<le> t" "t < 2 ^ 48"
  shows "\<exists>u. UUIDv7 (Inr random) t = Inr u \<and> length u = 36 \<and>
     u ! 8 = CHR ''-'' \<and> u ! 13 = CHR ''-'' \<and> u ! 18 = CHR ''-'' \<and> u ! 23 = CHR ''-'' \<and>
     u ! 14 = CHR ''7'' \<and> u ! 19 \<in> {CHR ''8'', CHR ''9'', CHR ''a'', CHR ''b''} \<and>
     (\<forall>i < 36. i \<notin> {8, 13, 18, 23} \<longrightarrow> is_hex (u ! i)) \<and>
     hex_value (take 8 u @ take 4 (drop 9 u)) = nat t \<and>
     hex_value (take 3 (drop 15 u)) = 256 * (unat (random ! 6) mod 16) + unat (random ! 7) \<and>
     hex_value (take 4 (drop 19 u)) mod 2 ^ 14 = 256 * (unat (random ! 8) mod 64) + unat (random ! 9) \<and>
     hex_value (drop 24 u) = bytes_value (drop 10 random)"
proof (rule uuid_text_shape [OF assms(1), of "of_int t"], goal_cases)
  case (1 b6 b7 b8 b9 node)
  let ?ms = "of_int t :: 64 word"
  let ?a = "hex_encode [ms_byte ?ms 40, ms_byte ?ms 32, ms_byte ?ms 24, ms_byte ?ms 16]"
  let ?b = "hex_encode [ms_byte ?ms 8, ms_byte ?ms 0]"
  let ?c = "hex_encode [(b6 AND 0x0f) OR 0x70, b7]" and ?d = "hex_encode [(b8 AND 0x3f) OR 0x80, b9]" and ?e = "hex_encode node"
  let ?u = "?a @ ''-'' @ ?b @ ''-'' @ ?c @ ''-'' @ ?d @ ''-'' @ ?e"
  have lens: "length ?a = 8" "length ?b = 4" "length ?c = 4" "length ?d = 4" "length ?e = 12"
    using 1(2) by (simp_all add: hex_encode_facts)
  have hex: "\<forall>x \<in> set (?a @ ?b @ ?c @ ?d @ ?e). is_hex x" using hex_encode_facts(2) by (simp only: set_append) blast
  note g = groups_nth [OF lens hex]
  have v: "?c ! 0 = CHR ''7''"
    by (simp add: hex_encode_def hex_byte_def version_digit hex_digit_def char_of_def bit_0)
  have "?d ! 0 = hex_digit (unat ((b8 AND 0x3f) OR 0x80) div 16)" by (simp add: hex_encode_def hex_byte_def)
  then have w: "?d ! 0 \<in> {CHR ''8'', CHR ''9'', CHR ''a'', CHR ''b''}"
    using variant_hex [OF variant_digit [of b8]] by (simp only:)
  have made: "UUIDv7 (Inr random) t = Inr ?u" by (simp only: UUIDv7_def sum.case 1(1))
  have u14: "?u ! 14 = CHR ''7''" by (rule trans [OF g(6) v])
  have u19: "?u ! 19 \<in> {CHR ''8'', CHR ''9'', CHR ''a'', CHR ''b''}" unfolding g(7) by (rule w)
  have val: "hex_value (take 8 ?u @ take 4 (drop 9 ?u)) = nat t"
    unfolding g(8,9) by (rule stamp_total [OF assms(2,3)])
  have r: "random ! 6 = b6" "random ! 7 = b7" "random ! 8 = b8" "random ! 9 = b9" "drop 10 random = node"
  proof -
    have "drop 6 random ! k = ([b6, b7, b8, b9] @ node) ! k" for k using 1(3) by simp
    from this [of 0] this [of 1] this [of 2] this [of 3]
    show "random ! 6 = b6" "random ! 7 = b7" "random ! 8 = b8" "random ! 9 = b9" using assms(1) by simp_all
    have "drop 4 (drop 6 random) = node" by (simp only: 1(3) [symmetric]) simp
    then show "drop 10 random = node" by simp
  qed
  have ra: "hex_value (take 3 (drop 15 ?u)) = 256 * (unat (random ! 6) mod 16) + unat (random ! 7)"
    unfolding g(10) r by (rule random_values(1))
  have rb: "hex_value (take 4 (drop 19 ?u)) mod 2 ^ 14 = 256 * (unat (random ! 8) mod 64) + unat (random ! 9)"
    unfolding g(11) r by (rule random_values(2))
  have rc: "hex_value (drop 24 ?u) = bytes_value (drop 10 random)" unfolding g(12) r by (rule hex_value_encode)
  define u where "u = ?u"
  note facts = made u14 u19 val ra rb rc g(1-5) g(13)
  show ?case
    using facts [folded u_def] by (intro exI [of _ u] conjI allI impI) assumption+
qed

text \<open>Identifiers are ordered by time: of two identifiers made at different milliseconds, the
  earlier one is the smaller text, whatever the random bytes are.
\<close>

theorem uuid_time_ordered:
  assumes "length r = 16" "length r' = 16" "0 \<le> t" "t < t'" "t' < 2 ^ 48"
    and "UUIDv7 (Inr r) t = Inr u" "UUIDv7 (Inr r') t' = Inr u'"
  shows "u < u'"
proof -
  let ?a = "\<lambda>ms. hex_encode [ms_byte ms 40, ms_byte ms 32, ms_byte ms 24, ms_byte ms 16]"
  let ?b = "\<lambda>ms. hex_encode [ms_byte ms 8, ms_byte ms 0]"
  have form: "\<exists>rest. v = ?a (of_int s) @ ''-'' @ ?b (of_int s) @ rest" if "UUIDv7 (Inr q) s = Inr v" "length q = 16" for q s v
    using uuid_text_shape [OF that(2), of "of_int s"] that(1) by (auto simp: UUIDv7_def)
  obtain x x' where u: "u = ?a (of_int t) @ ''-'' @ ?b (of_int t) @ x" "u' = ?a (of_int t') @ ''-'' @ ?b (of_int t') @ x'"
    using form [OF assms(6,1)] form [OF assms(7,2)] by blast
  have len: "length (?a ms) = 8" "length (?b ms) = 4" for ms by (simp_all add: hex_encode_facts)
  have val: "hex_value (?a (of_int s) @ ?b (of_int s)) = nat s" if "0 \<le> s" "s < 2 ^ 48" for s
    by (rule stamp_total [OF that])
  have "nat t < nat t'" using assms by simp
  then have "?a (of_int t) @ ?b (of_int t) < ?a (of_int t') @ ?b (of_int t')"
    using assms val [of t] val [of t'] hex_encode_facts(2)
    by (subst hex_order) (auto simp: len)
  then show ?thesis unfolding u using len by (auto simp: less_append)
qed

theorem uuid_layout_witness:
  "\<exists>u. UUIDv7 (Inr (replicate 16 0xff)) 1700000000000 = Inr u \<and> length u = 36 \<and> u ! 14 = CHR ''7''"
  using uuid_layout [of "replicate 16 0xff" 1700000000000] by auto

theorem uuid_time_ordered_witness:
  "\<exists>u u'. UUIDv7 (Inr (replicate 16 0xff)) 5 = Inr u \<and> UUIDv7 (Inr (replicate 16 0)) 6 = Inr u' \<and> u < u'"
proof -
  obtain u u' where "UUIDv7 (Inr (replicate 16 0xff)) 5 = Inr u" "UUIDv7 (Inr (replicate 16 0)) 6 = Inr u'"
    by (simp add: UUIDv7_def)
  with uuid_time_ordered [OF _ _ _ _ _ this] show ?thesis by simp
qed

end
