(* ===== verification/Httpx.thy ===== *)
theory Httpx
  imports Uuid
begin

text \<open>
  HTTP helpers and middleware (\<open>httpx/json.go\<close>, \<open>httpx/problem\<close>, \<open>httpx/requestid\<close>,
  \<open>httpx/middleware\<close>): the response writer of \<open>net/http\<close> with the status writers wrapped around it,
  JSON and problem responses, and each middleware as a function on handlers. JSON encoding
  and decoding, the source of request identifiers, the clock and the tracer are arguments.
\<close>

subsection \<open>Requests, responses and handlers\<close>

text \<open>The context holds the request identifier and the client address. Header names are canonical.\<close>

record http_request =
  rq_Method :: string
  rq_Path :: string
  rq_Host :: string
  rq_Pattern :: string
  rq_header :: "string \<rightharpoonup> string"
  rq_request_id :: "string option"
  rq_client_ip :: "string option"

record span =
  sp_name :: string
  sp_attributes :: "(string \<times> string) list"

datatype log_entry =
    RequestLog (lg_method: string) (lg_path: string) (lg_status: int) (lg_request_id: string)
  | PanicLog string string

text \<open>
  The response being built: the header map, the status and headers once sent, informational
  responses, the body; the status fields of the writers wrapped around it, innermost first;
  and what was logged and recorded.
\<close>

record http_world =
  hw_header :: "string \<rightharpoonup> string"
  hw_sent :: "(int \<times> (string \<rightharpoonup> string)) option"
  hw_info :: "int list"
  hw_body :: string
  hw_status :: "int list"
  hw_logs :: "log_entry list"
  hw_spans :: "span list"
  hw_metrics :: "(string \<times> string) list list"

text \<open>
  A handler changes the world and may panic. A router writes the matched pattern into the
  request it was given; the last field is the pattern of the caller's request afterwards.
\<close>

record http_result =
  hs_world :: http_world
  hs_panic :: "string option"
  hs_pattern :: string

type_synonym handler = "http_request \<Rightarrow> http_world \<Rightarrow> http_result"

subsection \<open>Writing a response\<close>

definition header_Set :: "string \<Rightarrow> string \<Rightarrow> http_world \<Rightarrow> http_world" where
  "header_Set key value w = w\<lparr>hw_header := (hw_header w)(key \<mapsto> value)\<rparr>"

definition informational :: "int \<Rightarrow> bool" where
  "informational code \<longleftrightarrow> 100 \<le> code \<and> code \<le> 199 \<and> code \<noteq> 101"

text \<open>\<open>WriteHeader\<close> of \<open>net/http\<close>: only the first final status counts; the flag is the panic on an
  invalid code.\<close>

definition raw_WriteHeader :: "int \<Rightarrow> http_world \<Rightarrow> http_world \<times> bool" where
  "raw_WriteHeader code w =
     (if hw_sent w \<noteq> None then (w, False)
      else if code < 100 \<or> 999 < code then (w, True)
      else if informational code then (w\<lparr>hw_info := hw_info w @ [code]\<rparr>, False)
      else (w\<lparr>hw_sent := Some (code, hw_header w)\<rparr>, False))"

definition body_allowed :: "int \<Rightarrow> bool" where
  "body_allowed code \<longleftrightarrow> \<not> (100 \<le> code \<and> code \<le> 199) \<and> code \<noteq> 204 \<and> code \<noteq> 304"

definition raw_Write :: "string \<Rightarrow> http_world \<Rightarrow> http_world" where
  "raw_Write bytes w =
     (let w1 = (if hw_sent w = None then w\<lparr>hw_sent := Some (200, hw_header w)\<rparr> else w)
      in case hw_sent w1 of
           Some (code, _) \<Rightarrow> if body_allowed code then w1\<lparr>hw_body := hw_body w1 @ bytes\<rparr> else w1
         | None \<Rightarrow> w1)"

text \<open>
  \<open>statusWriter\<close>: each wrapper records the first status it sees and forwards the call. A wrapper
  sees every call of the ones inside it, so \<open>Write\<close> fills in 200 wherever nothing was recorded.
\<close>

definition status_WriteHeader :: "int \<Rightarrow> http_world \<Rightarrow> http_world \<times> bool" where
  "status_WriteHeader status w =
     raw_WriteHeader status (w\<lparr>hw_status := map (\<lambda>s. if s = 0 then status else s) (hw_status w)\<rparr>)"

definition status_Write :: "string \<Rightarrow> http_world \<Rightarrow> http_world" where
  "status_Write p w =
     raw_Write p (if 0 \<in> set (hw_status w) then fst (status_WriteHeader 200 w) else w)"

subsection \<open>JSON\<close>

definition DefaultMaxBodyBytes :: int where
  "DefaultMaxBodyBytes = 2 ^ 20"

abbreviation ErrMaxBytes :: goerr where
  "ErrMaxBytes \<equiv> ErrSentinel ''http: request body too large''"

text \<open>\<open>decode n\<close> gives the results of the first and of the second \<open>Decode\<close> on a body limited to \<open>n\<close> bytes.\<close>

definition DecodeStrict :: "(int \<Rightarrow> goerr option \<times> goerr option) \<Rightarrow> int \<Rightarrow> goerr option" where
  "DecodeStrict decode maxBytes0 =
     (let maxBytes = (if maxBytes0 \<le> 0 then DefaultMaxBodyBytes else maxBytes0)
      in case decode maxBytes of
           (Some err, _) \<Rightarrow>
             if errors_is err ErrMaxBytes
             then Some (ErrMsg ''request body too large (limit %d bytes)'' [int_dec maxBytes])
             else if errors_is err ErrEOF then Some (ErrMsg ''request body is empty'' [])
             else Some err
         | (None, None) \<Rightarrow> Some (ErrMsg ''request body must contain a single JSON value'' [])
         | (None, Some err) \<Rightarrow> if errors_is err ErrEOF then None else Some err)"

definition DecodeJSON :: "(int \<Rightarrow> goerr option \<times> goerr option) \<Rightarrow> int \<Rightarrow> goerr option" where
  "DecodeJSON decode maxBytes = DecodeStrict decode maxBytes"

text \<open>The flag is the panic of an invalid status; \<open>enc\<close> is what the encoder writes, or its error.\<close>

definition httpx_Encode :: "('p \<Rightarrow> goerr + string) \<Rightarrow> int \<Rightarrow> 'p \<Rightarrow> http_world \<Rightarrow> http_world \<times> bool \<times> goerr option" where
  "httpx_Encode enc status payload w =
     (case status_WriteHeader status
             (header_Set ''X-Content-Type-Options'' ''nosniff''
               (header_Set ''Content-Type'' ''application/json; charset=utf-8'' w)) of
        (w', True) \<Rightarrow> (w', True, None)
      | (w', False) \<Rightarrow>
          (case enc payload of
             Inl err \<Rightarrow> (w', False, Some err)
           | Inr bytes \<Rightarrow> (status_Write bytes w', False, None)))"

definition WriteJSON :: "('p \<Rightarrow> goerr + string) \<Rightarrow> int \<Rightarrow> 'p \<Rightarrow> http_world \<Rightarrow> http_world \<times> bool \<times> goerr option" where
  "WriteJSON enc status payload w = httpx_Encode enc status payload w"

definition WriteError ::
  "((string \<times> string) list \<Rightarrow> goerr + string) \<Rightarrow> int \<Rightarrow> string \<Rightarrow> http_world \<Rightarrow> http_world \<times> bool \<times> goerr option" where
  "WriteError enc status code w = httpx_Encode enc status [(''error'', code)] w"

subsection \<open>Problem responses\<close>

record Problem =
  pb_Type :: string
  pb_Title :: string
  pb_Status :: int
  pb_Detail :: string
  pb_Code :: string
  pb_RequestID :: string

definition requestid_FromContext :: "http_request \<Rightarrow> string" where
  "requestid_FromContext r = (case rq_request_id r of Some v \<Rightarrow> v | None \<Rightarrow> [])"

definition requestid_WithContext :: "string \<Rightarrow> http_request \<Rightarrow> http_request" where
  "requestid_WithContext i r = r\<lparr>rq_request_id := Some i\<rparr>"

definition problem_Write :: "(Problem \<Rightarrow> string) \<Rightarrow> Problem \<Rightarrow> http_world \<Rightarrow> http_world \<times> bool" where
  "problem_Write enc p0 w =
     (let p = (if pb_Status p0 = 0 then p0\<lparr>pb_Status := 500\<rparr> else p0)
      in case status_WriteHeader (pb_Status p)
                (header_Set ''X-Content-Type-Options'' ''nosniff''
                  (header_Set ''Content-Type'' ''application/problem+json; charset=utf-8'' w)) of
           (w', True) \<Rightarrow> (w', True)
         | (w', False) \<Rightarrow> (status_Write (enc p) w', False))"

definition problem_Error ::
  "(Problem \<Rightarrow> string) \<Rightarrow> http_request \<Rightarrow> int \<Rightarrow> string \<Rightarrow> string \<Rightarrow> http_world \<Rightarrow> http_world \<times> bool" where
  "problem_Error enc r status code detail w =
     problem_Write enc \<lparr>pb_Type = [], pb_Title = [], pb_Status = status, pb_Detail = detail,
       pb_Code = code, pb_RequestID = requestid_FromContext r\<rparr> w"

definition problem_NotFound :: "(Problem \<Rightarrow> string) \<Rightarrow> http_request \<Rightarrow> http_world \<Rightarrow> http_world \<times> bool" where
  "problem_NotFound enc r = problem_Error enc r 404 ''NOT_FOUND'' ''The requested resource was not found.''"

definition problem_BadRequest :: "(Problem \<Rightarrow> string) \<Rightarrow> http_request \<Rightarrow> string \<Rightarrow> http_world \<Rightarrow> http_world \<times> bool" where
  "problem_BadRequest enc r detail = problem_Error enc r 400 ''BAD_REQUEST'' detail"

definition problem_UnprocessableEntity :: "(Problem \<Rightarrow> string) \<Rightarrow> http_request \<Rightarrow> string \<Rightarrow> http_world \<Rightarrow> http_world \<times> bool" where
  "problem_UnprocessableEntity enc r detail = problem_Error enc r 422 ''UNPROCESSABLE_ENTITY'' detail"

definition problem_InternalServerError :: "(Problem \<Rightarrow> string) \<Rightarrow> http_request \<Rightarrow> http_world \<Rightarrow> http_world \<times> bool" where
  "problem_InternalServerError enc r = problem_Error enc r 500 ''INTERNAL_ERROR'' ''An unexpected error occurred.''"

definition problem_Unauthorized :: "(Problem \<Rightarrow> string) \<Rightarrow> http_request \<Rightarrow> http_world \<Rightarrow> http_world \<times> bool" where
  "problem_Unauthorized enc r = problem_Error enc r 401 ''UNAUTHORIZED'' ''Authentication is required.''"

definition problem_Forbidden :: "(Problem \<Rightarrow> string) \<Rightarrow> http_request \<Rightarrow> http_world \<Rightarrow> http_world \<times> bool" where
  "problem_Forbidden enc r =
     problem_Error enc r 403 ''FORBIDDEN'' ''You do not have permission to perform this action.''"

end
