(* ===== verification/Middleware.thy ===== *)
theory Middleware
  imports Httpx
begin

text \<open>
  The middleware of \<open>httpx/middleware\<close> as functions on handlers, their composition (\<open>Chain\<close>, and
  the same loop in \<open>Engine.Run\<close>), and the properties of a chain: what the client is sent, what is
  logged, and what the telemetry can see of the route.
\<close>

subsection \<open>Composition\<close>

type_synonym middleware = "handler \<Rightarrow> handler"

definition Chain :: "handler \<Rightarrow> middleware option list \<Rightarrow> handler" where
  "Chain h ms = foldr (\<lambda>m h. case m of Some f \<Rightarrow> f h | None \<Rightarrow> h) ms h"

subsection \<open>The middleware\<close>

definition SecurityHeaders :: middleware where
  "SecurityHeaders next r w =
     next r (header_Set ''Permissions-Policy'' ''camera=(), microphone=(), geolocation=()''
       (header_Set ''Referrer-Policy'' ''no-referrer''
         (header_Set ''X-Frame-Options'' ''DENY''
           (header_Set ''X-Content-Type-Options'' ''nosniff'' w))))"

text \<open>\<open>uuid\<close> is the result of \<open>id.MustUUIDv7\<close>, \<open>None\<close> its panic. The next handler gets a copy of the request.\<close>

definition RequestID :: "string option \<Rightarrow> middleware" where
  "RequestID uuid next r w =
     (let given = TrimSpace (case rq_header r ''X-Request-Id'' of Some v \<Rightarrow> v | None \<Rightarrow> []);
          reqID = (if given = [] \<or> length given > 128 then uuid else Some given)
      in case reqID of
           None \<Rightarrow> \<lparr>hs_world = w, hs_panic = Some ''rand'', hs_pattern = rq_Pattern r\<rparr>
         | Some i \<Rightarrow>
             (next (requestid_WithContext i r) (header_Set ''X-Request-Id'' i w))\<lparr>hs_pattern := rq_Pattern r\<rparr>)"

definition ClientIP :: "(http_request \<Rightarrow> string) \<Rightarrow> middleware" where
  "ClientIP from_request next r w =
     (next (r\<lparr>rq_client_ip := Some (from_request r)\<rparr>) w)\<lparr>hs_pattern := rq_Pattern r\<rparr>"

text \<open>The flag says whether a logger was given.\<close>

definition Recover :: "bool \<Rightarrow> (Problem \<Rightarrow> string) \<Rightarrow> middleware" where
  "Recover logger enc next r w =
     (let res = next r w
      in case hs_panic res of
           None \<Rightarrow> res
         | Some recovered \<Rightarrow>
             (let w1 = (if logger
                        then (hs_world res)\<lparr>hw_logs := hw_logs (hs_world res) @
                               [PanicLog recovered (requestid_FromContext r)]\<rparr>
                        else hs_world res)
              in case problem_InternalServerError enc r w1 of
                   (w2, panicked) \<Rightarrow>
                     res\<lparr>hs_world := w2, hs_panic := (if panicked then Some ''invalid WriteHeader code'' else None)\<rparr>))"

text \<open>Running the next handler behind a new status writer: its final status, and the world without it.\<close>

definition with_status :: "handler \<Rightarrow> http_request \<Rightarrow> http_world \<Rightarrow> http_result \<times> int" where
  "with_status next r w =
     (let res = next r (w\<lparr>hw_status := 0 # hw_status w\<rparr>);
          w1 = hs_world res
      in (res\<lparr>hs_world := w1\<lparr>hw_status := tl (hw_status w1)\<rparr>\<rparr>, hd (hw_status w1)))"

definition Logging :: "bool \<Rightarrow> middleware" where
  "Logging logger next r w =
     (let (res, recorded) = with_status next r w
      in if hs_panic res \<noteq> None \<or> \<not> logger then res
         else
           (let status = (if recorded = 0 then 200 else recorded); w1 = hs_world res
            in res\<lparr>hs_world := w1\<lparr>hw_logs := hw_logs w1 @
                 [RequestLog (rq_Method r) (rq_Path r) status (requestid_FromContext r)]\<rparr>\<rparr>))"

subsection \<open>Telemetry\<close>

definition routePattern :: "http_request \<Rightarrow> string" where
  "routePattern r =
     (let pattern = TrimSpace (rq_Pattern r)
      in if pattern = [] then []
         else
           (let p = (if prefix (rq_Method r @ '' '') pattern
                     then TrimSpace (drop (length (rq_Method r @ '' '')) pattern) else pattern)
            in case cut_at (CHR ''/'') p of Some (_, b) \<Rightarrow> CHR ''/'' # b | None \<Rightarrow> p))"

definition httpSpanName :: "string \<Rightarrow> string \<Rightarrow> string" where
  "httpSpanName method route = (if route = [] then method else method @ '' '' @ route)"

text \<open>The host of \<open>net.SplitHostPort\<close>, \<open>None\<close> when it returns an error.\<close>

definition SplitHost :: "string \<Rightarrow> string option" where
  "SplitHost s =
     (case cut_last (CHR '':'') s of
        None \<Rightarrow> None
      | Some (before, port) \<Rightarrow>
          if prefix ''['' s
          then (case cut_at (CHR '']'') s of
                  None \<Rightarrow> None
                | Some (h, rest) \<Rightarrow>
                    if rest \<noteq> CHR '':'' # port then None
                    else if CHR ''['' \<in> set (tl s) \<or> CHR '']'' \<in> set rest then None
                    else Some (tl h))
          else if CHR '':'' \<in> set before then None
          else if CHR ''['' \<in> set s \<or> CHR '']'' \<in> set s then None
          else Some before)"

definition trim_brackets :: "string \<Rightarrow> string" where
  "trim_brackets s = rev (dropWhile (\<lambda>c. c \<in> set ''[]'') (rev (dropWhile (\<lambda>c. c \<in> set ''[]'') s)))"

definition serverAddress :: "string \<Rightarrow> string" where
  "serverAddress hostport0 =
     (let hostport = TrimSpace hostport0
      in if hostport = [] then []
         else (case SplitHost hostport of Some host \<Rightarrow> host | None \<Rightarrow> trim_brackets hostport))"

text \<open>
  The attributes set before the next handler runs, and after. The \<open>named\<close> flag says whether the
  tracer's spans have \<open>SetName\<close>. A panic ends the span as it is and records no metric. The
  next handler gets a copy of the request, whose pattern is read afterwards.
\<close>

definition span_before :: "http_request \<Rightarrow> (string \<times> string) list" where
  "span_before r =
     [(''http.request.method'', rq_Method r), (''url.path'', rq_Path r)] @
     (if serverAddress (rq_Host r) \<noteq> [] then [(''server.address'', serverAddress (rq_Host r))] else []) @
     (if requestid_FromContext r \<noteq> [] then [(''http.request_id'', requestid_FromContext r)] else [])"

definition Telemetry :: "bool \<Rightarrow> middleware" where
  "Telemetry named next r w =
     (let (res0, recorded) = with_status next r w;
          res = res0\<lparr>hs_pattern := rq_Pattern r\<rparr>;
          w1 = hs_world res
      in if hs_panic res \<noteq> None
         then res\<lparr>hs_world := w1\<lparr>hw_spans := hw_spans w1 @ [\<lparr>sp_name = rq_Method r, sp_attributes = span_before r\<rparr>]\<rparr>\<rparr>
         else
           (let route = routePattern (r\<lparr>rq_Pattern := hs_pattern res0\<rparr>);
                status = (if recorded = 0 then 200 else recorded);
                sp = \<lparr>sp_name = (if route \<noteq> [] \<and> named then httpSpanName (rq_Method r) route else rq_Method r),
                      sp_attributes = span_before r @ (if route \<noteq> [] then [(''http.route'', route)] else []) @
                        [(''http.response.status_code'', int_dec status)]\<rparr>;
                attrs = [(''http.request.method'', rq_Method r), (''http.response.status_code'', int_dec status)] @
                        (if route \<noteq> [] then [(''http.route'', route)] else [])
            in res\<lparr>hs_world := w1\<lparr>hw_spans := hw_spans w1 @ [sp], hw_metrics := hw_metrics w1 @ [attrs]\<rparr>\<rparr>))"

text \<open>A router that matched \<open>pattern\<close>: it writes the pattern into the request it was given and runs the
  handler of the route.\<close>

definition routed :: "string \<Rightarrow> handler \<Rightarrow> handler" where
  "routed pattern h r w = (h (r\<lparr>rq_Pattern := pattern\<rparr>) w)\<lparr>hs_pattern := pattern\<rparr>"

subsection \<open>Composition laws\<close>

lemma Chain_append: "Chain h (as @ bs) = Chain (Chain h bs) as"
  by (simp add: Chain_def)

lemma Chain_simps [simp]: "Chain h [] = h" "Chain h (None # ms) = Chain h ms" "Chain h (Some f # ms) = f (Chain h ms)"
  by (simp_all add: Chain_def)

subsection \<open>Recovery\<close>

lemma raw_WriteHeader_valid: "100 \<le> code \<Longrightarrow> code \<le> 999 \<Longrightarrow> \<not> snd (raw_WriteHeader code w)"
  by (simp add: raw_WriteHeader_def)

lemma raw_WriteHeader_fields:
  "hw_logs (fst (raw_WriteHeader code w)) = hw_logs w" "hw_body (fst (raw_WriteHeader code w)) = hw_body w"
  "hw_header (fst (raw_WriteHeader code w)) = hw_header w" "hw_status (fst (raw_WriteHeader code w)) = hw_status w"
  by (simp_all add: raw_WriteHeader_def)

definition panic_problem :: "http_request \<Rightarrow> Problem" where
  "panic_problem r = \<lparr>pb_Type = [], pb_Title = [], pb_Status = 500, pb_Detail = ''An unexpected error occurred.'',
     pb_Code = ''INTERNAL_ERROR'', pb_RequestID = requestid_FromContext r\<rparr>"

definition problem_headers :: "(string \<rightharpoonup> string) \<Rightarrow> string \<rightharpoonup> string" where
  "problem_headers h = h(''Content-Type'' \<mapsto> ''application/problem+json; charset=utf-8'',
     ''X-Content-Type-Options'' \<mapsto> ''nosniff'')"

lemma status_Write_fields:
  "hw_logs (status_Write p w) = hw_logs w"
  "hw_sent (status_Write p w) = (case hw_sent w of None \<Rightarrow> Some (200, hw_header w) | Some x \<Rightarrow> Some x)"
  "hw_body (status_Write p w) =
     (if body_allowed (case hw_sent w of None \<Rightarrow> 200 | Some (c, _) \<Rightarrow> c) then hw_body w @ p else hw_body w)"
  by (auto simp: status_Write_def raw_Write_def Let_def status_WriteHeader_def raw_WriteHeader_def informational_def
      body_allowed_def split: option.splits)

lemma InternalServerError_effect:
  "\<not> snd (problem_InternalServerError enc r w)"
  "hw_sent (fst (problem_InternalServerError enc r w)) =
     (case hw_sent w of None \<Rightarrow> Some (500, problem_headers (hw_header w)) | Some x \<Rightarrow> Some x)"
  "hw_body (fst (problem_InternalServerError enc r w)) =
     (if body_allowed (case hw_sent w of None \<Rightarrow> 500 | Some (c, _) \<Rightarrow> c) then hw_body w @ enc (panic_problem r) else hw_body w)"
  "hw_logs (fst (problem_InternalServerError enc r w)) = hw_logs w"
  by (auto simp: problem_InternalServerError_def problem_Error_def problem_Write_def Let_def status_WriteHeader_def
      raw_WriteHeader_def header_Set_def informational_def status_Write_fields panic_problem_def problem_headers_def
      fun_upd_twist split: option.splits prod.splits)

lemma recover_effect:
  assumes "hs_panic (next_h r w) = Some v"
  shows "hs_panic (Recover logger enc next_h r w) = None \<and>
     (hw_sent (hs_world (next_h r w)) = None \<longrightarrow>
        hw_sent (hs_world (Recover logger enc next_h r w)) = Some (500, problem_headers (hw_header (hs_world (next_h r w)))) \<and>
        hw_body (hs_world (Recover logger enc next_h r w)) = hw_body (hs_world (next_h r w)) @ enc (panic_problem r)) \<and>
     (hw_sent (hs_world (next_h r w)) \<noteq> None \<longrightarrow>
        hw_sent (hs_world (Recover logger enc next_h r w)) = hw_sent (hs_world (next_h r w)) \<and>
        prefix (hw_body (hs_world (next_h r w))) (hw_body (hs_world (Recover logger enc next_h r w)))) \<and>
     hw_logs (hs_world (Recover logger enc next_h r w)) = hw_logs (hs_world (next_h r w)) @
       (if logger then [PanicLog v (requestid_FromContext r)] else [])"
proof -
  let ?w = "hs_world (next_h r w)"
  let ?w1 = "if logger then ?w\<lparr>hw_logs := hw_logs ?w @ [PanicLog v (requestid_FromContext r)]\<rparr> else ?w"
  have out: "Recover logger enc next_h r w =
      (next_h r w)\<lparr>hs_world := fst (problem_InternalServerError enc r ?w1), hs_panic := None\<rparr>"
    unfolding Recover_def Let_def assms option.case by (simp only: case_prod_beta InternalServerError_effect(1) if_False)
  have w1: "hw_sent ?w1 = hw_sent ?w" "hw_header ?w1 = hw_header ?w" "hw_body ?w1 = hw_body ?w"
    "hw_logs ?w1 = hw_logs ?w @ (if logger then [PanicLog v (requestid_FromContext r)] else [])" by simp_all
  show ?thesis
    unfolding out
    by (simp del: if_split add: InternalServerError_effect w1) (auto simp: body_allowed_def split: option.splits)
qed

subsection \<open>Recorded statuses\<close>

text \<open>One use of the response writer by a handler, without informational responses.\<close>

inductive plain_write :: "http_world \<Rightarrow> http_world \<Rightarrow> bool" where
  set: "plain_write w (header_Set k v w)"
| status: "status_WriteHeader c w = (w', False) \<Longrightarrow> \<not> informational c \<Longrightarrow> plain_write w w'"
| body: "plain_write w (status_Write p w)"
| observe: "plain_write w (w\<lparr>hw_logs := l, hw_spans := s, hw_metrics := m\<rparr>)"

definition plain_handler :: "handler \<Rightarrow> bool" where
  "plain_handler h \<longleftrightarrow> (\<forall>r w. plain_write\<^sup>*\<^sup>* w (hs_world (h r w)))"

definition sent_status :: "http_world \<Rightarrow> int" where
  "sent_status w = (case hw_sent w of None \<Rightarrow> 0 | Some (c, _) \<Rightarrow> c)"

definition status_inv :: "http_world \<Rightarrow> bool" where
  "status_inv w \<longleftrightarrow> hw_status w \<noteq> [] \<and> hd (hw_status w) = sent_status w \<and> (hw_sent w \<noteq> None \<longrightarrow> sent_status w \<noteq> 0)"

lemma status_WriteHeader_inv:
  assumes "status_WriteHeader c w = (w', False)" "\<not> informational c" "status_inv w"
  shows "status_inv w'"
proof -
  obtain s rest where st: "hw_status w = s # rest" using assms(3) by (cases "hw_status w") (auto simp: status_inv_def)
  show ?thesis
    using assms st by (cases "hw_sent w")
      (auto simp: status_WriteHeader_def raw_WriteHeader_def status_inv_def sent_status_def split: if_splits)
qed

lemma raw_Write_inv:
  assumes "status_inv w" "hw_sent w \<noteq> None"
  shows "status_inv (raw_Write p w)"
  using assms by (auto simp: raw_Write_def status_inv_def sent_status_def Let_def split: option.splits)

lemma status_Write_inv:
  assumes "status_inv w"
  shows "status_inv (status_Write p w)"
proof (cases "hw_sent w")
  case None
  then have "0 \<in> set (hw_status w)" using assms by (cases "hw_status w") (auto simp: status_inv_def sent_status_def)
  moreover obtain w' where w': "status_WriteHeader 200 w = (w', False)" "hw_sent w' \<noteq> None"
    using None by (simp add: status_WriteHeader_def raw_WriteHeader_def informational_def)
  moreover have "status_inv w'" using status_WriteHeader_inv [OF w'(1)] assms by (simp add: informational_def)
  ultimately show ?thesis by (simp add: status_Write_def raw_Write_inv)
next
  case (Some x)
  then obtain w' where w': "status_WriteHeader 200 w = (w', False)" "hw_sent w' = Some x"
    by (simp add: status_WriteHeader_def raw_WriteHeader_def)
  moreover have "status_inv w'" using status_WriteHeader_inv [OF w'(1)] assms by (simp add: informational_def)
  ultimately show ?thesis using Some assms by (simp add: status_Write_def raw_Write_inv)
qed

lemma plain_write_inv: "plain_write w w' \<Longrightarrow> status_inv w \<Longrightarrow> status_inv w'"
proof (induction rule: plain_write.induct)
  case (status c w w')
  then show ?case by (blast intro: status_WriteHeader_inv)
qed (simp_all add: status_Write_inv, simp_all add: status_inv_def sent_status_def header_Set_def)

lemma plain_writes_inv: "plain_write\<^sup>*\<^sup>* w w' \<Longrightarrow> status_inv w \<Longrightarrow> status_inv w'"
  by (induction rule: rtranclp_induct) (auto intro: plain_write_inv)

lemma with_status_sent:
  assumes "plain_handler next" "hw_sent w = None"
  shows "snd (with_status next r w) = sent_status (hs_world (fst (with_status next r w)))"
proof -
  let ?w0 = "w\<lparr>hw_status := 0 # hw_status w\<rparr>"
  have "status_inv ?w0" using assms(2) by (simp add: status_inv_def sent_status_def)
  then have "status_inv (hs_world (next r ?w0))"
    using plain_writes_inv assms(1) unfolding plain_handler_def by blast
  then show ?thesis by (simp add: with_status_def Let_def status_inv_def sent_status_def)
qed

subsection \<open>Properties\<close>

text \<open>A panic never escapes \<open>Recover\<close>. Whatever the handler does, the chain returns normally. If the
  handler panicked before a status was sent, the client gets 500 with the problem headers
  and a problem body that carries the request identifier and nothing of the panic; if a
  status was already sent it stands, and the problem is appended to the body that was
  begun. With a logger the panic is logged once.
\<close>

theorem recover_contains_panics:
  fixes next_h :: handler
  shows "let res = next_h r w; out = Recover logger enc next_h r w in
     hs_panic out = None \<and>
     (hs_panic res = None \<longrightarrow> out = res) \<and>
     (\<forall>v. hs_panic res = Some v \<longrightarrow>
        (hw_sent (hs_world res) = None \<longrightarrow>
           hw_sent (hs_world out) = Some (500, problem_headers (hw_header (hs_world res))) \<and>
           hw_body (hs_world out) = hw_body (hs_world res) @ enc (panic_problem r)) \<and>
        (hw_sent (hs_world res) \<noteq> None \<longrightarrow>
           hw_sent (hs_world out) = hw_sent (hs_world res) \<and> prefix (hw_body (hs_world res)) (hw_body (hs_world out))) \<and>
        hw_logs (hs_world out) = hw_logs (hs_world res) @
          (if logger then [PanicLog v (requestid_FromContext r)] else []))"
proof (cases "hs_panic (next_h r w)")
  case None
  then show ?thesis by (simp add: Let_def Recover_def)
next
  case (Some v)
  from recover_effect [of next_h r w v logger enc, OF Some] Some show ?thesis by (simp add: Let_def)
qed

text \<open>The status that is logged is the status that is sent: for a handler that does not send
  informational responses and returns, behind \<open>Logging\<close>, the request is logged once, with the
  status the client receives (200 when the handler wrote nothing) and the request identifier;
  a handler that panics is not logged.
\<close>

theorem logging_status_sent:
  assumes "plain_handler next_h" "hw_sent w = None"
  shows "let res = fst (with_status next_h r w); out = Logging True next_h r w in
     (hs_panic res = None \<longrightarrow> hw_logs (hs_world out) = hw_logs (hs_world res) @
        [RequestLog (rq_Method r) (rq_Path r)
           (case hw_sent (hs_world out) of None \<Rightarrow> 200 | Some (c, _) \<Rightarrow> c) (requestid_FromContext r)]) \<and>
     (hs_panic res \<noteq> None \<longrightarrow> out = res)"
proof -
  obtain res st where ws: "with_status next_h r w = (res, st)" by (cases "with_status next_h r w")
  have st: "st = sent_status (hs_world res)" using with_status_sent [OF assms, of r] ws by simp
  have pos: "sent_status (hs_world res) \<noteq> 0" if "hw_sent (hs_world res) \<noteq> None"
  proof -
    let ?w0 = "w\<lparr>hw_status := 0 # hw_status w\<rparr>"
    have "status_inv ?w0" using assms(2) by (simp add: status_inv_def sent_status_def)
    then have "status_inv (hs_world (next_h r ?w0))"
      using plain_writes_inv assms(1) unfolding plain_handler_def by blast
    then show ?thesis using that ws by (auto simp: with_status_def Let_def status_inv_def sent_status_def)
  qed
  show ?thesis
    using st pos by (auto simp: Let_def Logging_def ws sent_status_def split: option.splits)
qed

definition early_hints :: handler where
  "early_hints r w =
     (let (w1, p1) = status_WriteHeader 103 w; (w2, p2) = status_WriteHeader 200 w1
      in \<lparr>hs_world = w2, hs_panic = None, hs_pattern = rq_Pattern r\<rparr>)"

text \<open>An informational response hides the final status: a handler that sends 103 and then 200 is
  logged with 103 although the client receives 200.
\<close>

theorem logging_informational_status:
  assumes "hw_sent w = None"
  shows "let out = Logging True early_hints r w in
     map_option fst (hw_sent (hs_world out)) = Some 200 \<and> lg_status (last (hw_logs (hs_world out))) = 103"
  using assms
  by (simp add: Let_def Logging_def with_status_def early_hints_def status_WriteHeader_def raw_WriteHeader_def
      informational_def)

text \<open>The identifier a request runs under.\<close>

definition chosen_id :: "string option \<Rightarrow> http_request \<Rightarrow> string option" where
  "chosen_id uuid r =
     (let given = TrimSpace (case rq_header r ''X-Request-Id'' of Some v \<Rightarrow> v | None \<Rightarrow> [])
      in if given = [] \<or> length given > 128 then uuid else Some given)"

lemma RequestID_chosen:
  "chosen_id uuid r = Some i \<Longrightarrow> RequestID uuid next_h r w =
     (next_h (requestid_WithContext i r) (header_Set ''X-Request-Id'' i w))\<lparr>hs_pattern := rq_Pattern r\<rparr>"
  by (simp add: RequestID_def chosen_id_def Let_def)

lemma uuid_some:
  assumes "length random = 16" "0 \<le> t" "t < 2 ^ 48"
  shows "\<exists>u. MustUUIDv7 (Inr random) t = Some u \<and> length u = 36"
  unfolding MustUUIDv7_def
  by (rule uuid_text_shape [OF assms(1), of "of_int t"])
     (simp add: UUIDv7_def hex_encode_facts)

text \<open>Every request has an identifier of 1 to 128 bytes: the client's, trimmed, when it is of that
  length, a new UUID otherwise. The same identifier is in the response header and in the context
  the handler sees.
\<close>

theorem request_id_assigned:
  assumes "length random = 16" "0 \<le> t" "t < 2 ^ 48"
  shows "\<exists>i. RequestID (MustUUIDv7 (Inr random) t) next_h r w =
       (next_h (r\<lparr>rq_request_id := Some i\<rparr>) (header_Set ''X-Request-Id'' i w))\<lparr>hs_pattern := rq_Pattern r\<rparr> \<and>
     1 \<le> length i \<and> length i \<le> 128 \<and>
     (\<forall>v. rq_header r ''X-Request-Id'' = Some v \<and> TrimSpace v \<noteq> [] \<and> length (TrimSpace v) \<le> 128 \<longrightarrow> i = TrimSpace v)"
proof -
  obtain u where u: "MustUUIDv7 (Inr random) t = Some u" "length u = 36" using uuid_some [OF assms] by blast
  let ?given = "TrimSpace (case rq_header r ''X-Request-Id'' of Some v \<Rightarrow> v | None \<Rightarrow> [])"
  let ?i = "if ?given = [] \<or> length ?given > 128 then u else ?given"
  have "chosen_id (MustUUIDv7 (Inr random) t) r = Some ?i" by (simp add: chosen_id_def u)
  from RequestID_chosen [OF this] show ?thesis
    using u(2) by (intro exI [of _ ?i]) (auto simp: requestid_WithContext_def Suc_le_eq)
qed

text \<open>What telemetry sees of the route. Directly around the router, the metric of a request has
  the route of the matched pattern. With a middleware that copies the request (\<open>RequestID\<close> or
  \<open>ClientIP\<close>) in between, the pattern is written to the copy and the metric has no route.
\<close>

theorem telemetry_route_visibility:
  assumes "rq_Pattern r = []" "\<And>q v. hs_panic (h q v) = None" "routePattern (r\<lparr>rq_Pattern := pattern\<rparr>) \<noteq> []"
  shows "(''http.route'', routePattern (r\<lparr>rq_Pattern := pattern\<rparr>)) \<in>
       set (last (hw_metrics (hs_world (Telemetry named (routed pattern h) r w)))) \<and>
     ''http.route'' \<notin> fst ` set (last (hw_metrics (hs_world (Telemetry named (RequestID (Some u) (routed pattern h)) r w)))) \<and>
     ''http.route'' \<notin> fst ` set (last (hw_metrics (hs_world (Telemetry named (ClientIP from_request (routed pattern h)) r w))))"
proof (intro conjI)
  have blank: "routePattern (r\<lparr>rq_Pattern := []\<rparr>) = []" by (simp add: routePattern_def)
  show "(''http.route'', routePattern (r\<lparr>rq_Pattern := pattern\<rparr>)) \<in>
       set (last (hw_metrics (hs_world (Telemetry named (routed pattern h) r w))))"
    using assms(2,3) by (simp add: Telemetry_def with_status_def routed_def Let_def)
  have "\<exists>i. chosen_id (Some u) r = Some i" by (auto simp: chosen_id_def Let_def)
  then obtain i where "chosen_id (Some u) r = Some i" ..
  then have "\<forall>w. RequestID (Some u) (routed pattern h) r w =
      (routed pattern h (requestid_WithContext i r) (header_Set ''X-Request-Id'' i w))\<lparr>hs_pattern := rq_Pattern r\<rparr>"
    by (simp add: RequestID_chosen)
  then show "''http.route'' \<notin> fst ` set (last (hw_metrics (hs_world (Telemetry named (RequestID (Some u) (routed pattern h)) r w))))"
    using assms(1,2) blank by (auto simp: Telemetry_def with_status_def routed_def Let_def)
  show "''http.route'' \<notin> fst ` set (last (hw_metrics (hs_world (Telemetry named (ClientIP from_request (routed pattern h)) r w))))"
    using assms(1,2) blank by (auto simp: Telemetry_def with_status_def routed_def ClientIP_def Let_def)
qed

definition default_chain :: "string option \<Rightarrow> (Problem \<Rightarrow> string) \<Rightarrow> middleware option list" where
  "default_chain uuid enc = [Some (RequestID uuid), Some (Recover True enc), Some (Logging True), Some SecurityHeaders]"

text \<open>What the handler inside the chain is given: the response with the identifier and the security
  headers set, behind the status writer of the request log.\<close>

definition guarded_world :: "string \<Rightarrow> http_world \<Rightarrow> http_world" where
  "guarded_world i w = w\<lparr>hw_status := 0 # hw_status w, hw_header := (hw_header w)(''X-Request-Id'' \<mapsto> i,
     ''X-Content-Type-Options'' \<mapsto> ''nosniff'', ''X-Frame-Options'' \<mapsto> ''DENY'', ''Referrer-Policy'' \<mapsto> ''no-referrer'',
     ''Permissions-Policy'' \<mapsto> ''camera=(), microphone=(), geolocation=()'')\<rparr>"

lemma default_chain_runs:
  assumes "chosen_id uuid r = Some i"
  shows "Chain h (default_chain uuid enc) r w =
     (Recover True enc (Logging True (SecurityHeaders h)) (r\<lparr>rq_request_id := Some i\<rparr>)
        (header_Set ''X-Request-Id'' i w))\<lparr>hs_pattern := rq_Pattern r\<rparr>"
  by (simp add: default_chain_def RequestID_chosen [OF assms] requestid_WithContext_def)

lemma guarded_run:
  fixes h :: handler
  assumes "hs_panic (h q (guarded_world i w)) \<noteq> None"
  shows "Logging True (SecurityHeaders h) q (header_Set ''X-Request-Id'' i w) =
     (let res = h q (guarded_world i w); w1 = hs_world res in res\<lparr>hs_world := w1\<lparr>hw_status := tl (hw_status w1)\<rparr>\<rparr>)"
  using assms by (simp add: Logging_def with_status_def SecurityHeaders_def header_Set_def guarded_world_def Let_def)

text \<open>C20: The chain a generated service installs (request identifier, recovery, logging, security
  headers, in this order) around any handler that panics, whatever it did before. The panic
  does not leave the chain, and of the chain only the panic is logged, with the identifier of
  the request. If the handler had sent no status, the client receives 500 with a problem body
  that names the request and nothing of the panic, as \<open>application/problem+json\<close> with
  \<open>nosniff\<close>, the other headers as the handler left them: where it did not change them, the
  identifier, \<open>X-Frame-Options\<close>, \<open>Referrer-Policy\<close> and \<open>Permissions-Policy\<close> are those of the
  chain. If it had already sent a status, that status and its headers stand and what was
  written stays the beginning of the body.
\<close>

theorem default_chain_panic:
  fixes h :: handler
  assumes "chosen_id uuid r = Some i"
    and "h (r\<lparr>rq_request_id := Some i\<rparr>) (guarded_world i w) = \<lparr>hs_world = w', hs_panic = Some msg, hs_pattern = pattern\<rparr>"
  shows "let out = Chain h (default_chain uuid enc) r w in
     hs_panic out = None \<and> hw_logs (hs_world out) = hw_logs w' @ [PanicLog msg i] \<and>
     (hw_sent w' = None \<longrightarrow>
        hw_body (hs_world out) = hw_body w' @ enc \<lparr>pb_Type = [], pb_Title = [], pb_Status = 500,
          pb_Detail = ''An unexpected error occurred.'', pb_Code = ''INTERNAL_ERROR'', pb_RequestID = i\<rparr> \<and>
        (\<exists>headers. hw_sent (hs_world out) = Some (500, headers) \<and>
           headers ''Content-Type'' = Some ''application/problem+json; charset=utf-8'' \<and>
           headers ''X-Content-Type-Options'' = Some ''nosniff'' \<and>
           (\<forall>k. k \<noteq> ''Content-Type'' \<and> k \<noteq> ''X-Content-Type-Options'' \<longrightarrow> headers k = hw_header w' k) \<and>
           (hw_header w' = hw_header (guarded_world i w) \<longrightarrow>
              headers ''X-Request-Id'' = Some i \<and> headers ''X-Frame-Options'' = Some ''DENY'' \<and>
              headers ''Referrer-Policy'' = Some ''no-referrer'' \<and>
              headers ''Permissions-Policy'' = Some ''camera=(), microphone=(), geolocation=()''))) \<and>
     (hw_sent w' \<noteq> None \<longrightarrow>
        hw_sent (hs_world out) = hw_sent w' \<and> prefix (hw_body w') (hw_body (hs_world out)))"
proof -
  let ?r = "r\<lparr>rq_request_id := Some i\<rparr>" and ?w = "header_Set ''X-Request-Id'' i w"
  let ?inner = "Logging True (SecurityHeaders h)"
  have inner: "?inner ?r ?w = \<lparr>hs_world = w'\<lparr>hw_status := tl (hw_status w')\<rparr>, hs_panic = Some msg, hs_pattern = pattern\<rparr>"
    using guarded_run [of h ?r i w] assms(2) by simp
  have "hs_panic (?inner ?r ?w) = Some msg" by (simp add: inner)
  from recover_effect [of ?inner ?r ?w msg True enc, OF this] show ?thesis
    unfolding default_chain_runs [OF assms(1)] inner Let_def
    by (auto simp: panic_problem_def requestid_FromContext_def problem_headers_def guarded_world_def)
qed

subsection \<open>Witnesses\<close>

definition demo_request :: http_request where
  "demo_request = \<lparr>rq_Method = ''GET'', rq_Path = ''/u/1'', rq_Host = ''h'', rq_Pattern = [], rq_header = (\<lambda>_. None),
     rq_request_id = None, rq_client_ip = None\<rparr>"

definition fresh_world :: http_world where
  "fresh_world = \<lparr>hw_header = (\<lambda>_. None), hw_sent = None, hw_info = [], hw_body = [], hw_status = [], hw_logs = [],
     hw_spans = [], hw_metrics = []\<rparr>"

definition panicking :: handler where
  "panicking q v = \<lparr>hs_world = v, hs_panic = Some ''boom'', hs_pattern = rq_Pattern q\<rparr>"

definition replying :: handler where
  "replying q v = \<lparr>hs_world = status_Write ''ok'' v, hs_panic = None, hs_pattern = rq_Pattern q\<rparr>"

lemma replying_plain: "plain_handler replying"
  by (auto simp: plain_handler_def replying_def intro: plain_write.body)

theorem recover_contains_panics_witness:
  "hs_panic (Recover True (\<lambda>_. ''P'') panicking demo_request fresh_world) = None \<and>
   map_option fst (hw_sent (hs_world (Recover True (\<lambda>_. ''P'') panicking demo_request fresh_world))) = Some 500"
  using recover_contains_panics [of panicking demo_request fresh_world True "\<lambda>_. ''P''"]
  by (simp add: Let_def panicking_def fresh_world_def)

theorem logging_status_sent_witness:
  "hw_logs (hs_world (Logging True replying demo_request fresh_world)) = [RequestLog ''GET'' ''/u/1'' 200 []]"
proof -
  have "hw_sent fresh_world = None" by (simp add: fresh_world_def)
  from logging_status_sent [OF replying_plain this, of demo_request] show ?thesis
    by (simp add: Let_def with_status_def replying_def fresh_world_def demo_request_def requestid_FromContext_def
        Logging_def status_Write_fields)
qed

theorem logging_informational_status_witness:
  "lg_status (last (hw_logs (hs_world (Logging True early_hints demo_request fresh_world)))) = 103"
  using logging_informational_status [of fresh_world demo_request] by (simp add: Let_def fresh_world_def)

theorem request_id_assigned_witness:
  "\<exists>i. RequestID (MustUUIDv7 (Inr (replicate 16 7)) 1) replying demo_request fresh_world =
       (replying (demo_request\<lparr>rq_request_id := Some i\<rparr>) (header_Set ''X-Request-Id'' i fresh_world))\<lparr>hs_pattern := []\<rparr> \<and>
     1 \<le> length i \<and> length i \<le> 128"
  using request_id_assigned [of "replicate 16 7" 1 replying demo_request fresh_world]
  by (auto simp: demo_request_def)

lemma demo_route: "routePattern (demo_request\<lparr>rq_Pattern := ''GET /u/{id}''\<rparr>) = ''/u/{id}''"
proof -
  have t: "trimmed ''GET /u/{id}''" "trimmed ''/u/{id}''"
    by (simp_all add: trimmed_def space_encodings_def suffix_to_prefix)
  show ?thesis by (simp add: routePattern_def demo_request_def TrimSpace_id [OF t(1)] TrimSpace_id [OF t(2)])
qed

theorem telemetry_route_visibility_witness:
  "(''http.route'', ''/u/{id}'') \<in>
     set (last (hw_metrics (hs_world (Telemetry True (routed ''GET /u/{id}'' replying) demo_request fresh_world))))"
  using telemetry_route_visibility [of demo_request replying "''GET /u/{id}''" True fresh_world] demo_route
  by (simp add: replying_def) (simp add: demo_request_def)

lemma panicking_guarded:
  "panicking (demo_request\<lparr>rq_request_id := Some ''u''\<rparr>) (guarded_world ''u'' fresh_world) =
     \<lparr>hs_world = guarded_world ''u'' fresh_world, hs_panic = Some ''boom'', hs_pattern = []\<rparr>"
  by (simp add: panicking_def demo_request_def)

theorem default_chain_panic_witness:
  "let out = Chain panicking (default_chain (Some ''u'') (\<lambda>_. ''P'')) demo_request fresh_world in
     hw_logs (hs_world out) = [PanicLog ''boom'' ''u''] \<and>
     (\<exists>headers. hw_sent (hs_world out) = Some (500, headers) \<and> headers ''X-Frame-Options'' = Some ''DENY'')"
proof -
  have "chosen_id (Some ''u'') demo_request = Some ''u''" by (simp add: chosen_id_def demo_request_def)
  from default_chain_panic [of "Some ''u''" demo_request "''u''" panicking, OF this panicking_guarded, of "\<lambda>_. ''P''"]
  show ?thesis by (auto simp: Let_def guarded_world_def fresh_world_def)
qed

end
