(* ===== verification/Config.thy ===== *)
theory Config
  imports GoStrings
begin

text \<open>
  Configuration from the environment (\<open>config/env.go\<close>): lookups of strings, secrets, booleans,
  integers, durations and lists with their defaults and errors, the redaction of secrets,
  and the collection of errors at start-up. The environment is a map; \<open>time.ParseDuration\<close>,
  which computes fractions in floating point, is an argument.
\<close>

type_synonym environ = "string \<rightharpoonup> string"

subsection \<open>Numbers and booleans as \<open>strconv\<close> reads them\<close>

definition parse_error :: "string \<Rightarrow> string \<Rightarrow> string \<Rightarrow> goerr" where
  "parse_error fn num cause = ErrWrap ''strconv.%s: parsing %q: %w'' [fn, num] (ErrSentinel cause)"

definition ParseBool :: "string \<Rightarrow> goerr + bool" where
  "ParseBool s =
     (if s \<in> {''1'', ''t'', ''T'', ''true'', ''TRUE'', ''True''} then Inr True
      else if s \<in> {''0'', ''f'', ''F'', ''false'', ''FALSE'', ''False''} then Inr False
      else Inl (parse_error ''ParseBool'' s ''invalid syntax''))"

text \<open>
  \<open>strconv.Atoi\<close>: an optional sign, at least one decimal digit, and a value that fits an int. Digits are
  read one by one, so a leading part that does not fit a uint64 is out of range whatever follows.
\<close>

definition Atoi :: "string \<Rightarrow> goerr + int" where
  "Atoi s =
     (let digits = (case s of c # cs \<Rightarrow> if c = CHR ''-'' \<or> c = CHR ''+'' then cs else s | [] \<Rightarrow> []);
          value = (if prefix ''-'' s then - int (dec_val digits) else int (dec_val digits))
      in if dec_val (takeWhile is_digit digits) \<ge> 2 ^ 64 then Inl (parse_error ''Atoi'' s ''value out of range'')
         else if digits = [] \<or> \<not> list_all is_digit digits then Inl (parse_error ''Atoi'' s ''invalid syntax'')
         else if int64_ok value then Inr value
         else Inl (parse_error ''Atoi'' s ''value out of range''))"

subsection \<open>Lookups\<close>

definition config_String :: "environ \<Rightarrow> string \<Rightarrow> string \<Rightarrow> string" where
  "config_String env key fallback =
     (case env key of
        None \<Rightarrow> fallback
      | Some value \<Rightarrow> if TrimSpace value = [] then fallback else TrimSpace value)"

datatype SecretValue = SecretValue (Reveal: string)

definition secret_String :: "SecretValue \<Rightarrow> string" where
  "secret_String s = ''***REDACTED***''"

definition secret_LogValue :: "SecretValue \<Rightarrow> string" where
  "secret_LogValue s = secret_String s"

text \<open>The redacted text needs no escaping, so its JSON is the text in quotes.\<close>

definition secret_MarshalJSON :: "SecretValue \<Rightarrow> string" where
  "secret_MarshalJSON s = [CHR 0x22] @ secret_String s @ [CHR 0x22]"

definition secret_MarshalText :: "SecretValue \<Rightarrow> string" where
  "secret_MarshalText s = secret_String s"

definition config_Secret :: "environ \<Rightarrow> string \<Rightarrow> string \<Rightarrow> SecretValue" where
  "config_Secret env key fallback = SecretValue (config_String env key fallback)"

text \<open>An unset variable reads as the empty string with the flag false.\<close>

definition RequiredString :: "environ \<Rightarrow> string \<Rightarrow> goerr + string" where
  "RequiredString env key =
     (let trimmed = TrimSpace (case env key of Some v \<Rightarrow> v | None \<Rightarrow> [])
      in if env key = None \<or> trimmed = [] then Inl (ErrMsg ''configuration: %s is required'' [key])
         else Inr trimmed)"

definition RequiredSecret :: "environ \<Rightarrow> string \<Rightarrow> goerr + SecretValue" where
  "RequiredSecret env key =
     (let trimmed = TrimSpace (case env key of Some v \<Rightarrow> v | None \<Rightarrow> [])
      in if env key = None \<or> trimmed = [] then Inl (ErrMsg ''configuration: required secret %s is not set'' [key])
         else Inr (SecretValue trimmed))"

text \<open>The shape \<open>Bool\<close>, \<open>Int\<close> and \<open>Duration\<close> share.\<close>

definition parsed_lookup :: "(string \<Rightarrow> goerr + 'a) \<Rightarrow> environ \<Rightarrow> string \<Rightarrow> 'a \<Rightarrow> goerr + 'a" where
  "parsed_lookup parse env key fallback =
     (case env key of
        None \<Rightarrow> Inr fallback
      | Some value \<Rightarrow>
          if TrimSpace value = [] then Inr fallback
          else (case parse (TrimSpace value) of
                  Inl err \<Rightarrow> Inl (ErrWrap ''configuration: %s: %w'' [key] err)
                | Inr parsed \<Rightarrow> Inr parsed))"

definition config_Bool :: "environ \<Rightarrow> string \<Rightarrow> bool \<Rightarrow> goerr + bool" where
  "config_Bool = parsed_lookup ParseBool"

definition config_Int :: "environ \<Rightarrow> string \<Rightarrow> int \<Rightarrow> goerr + int" where
  "config_Int = parsed_lookup Atoi"

definition config_Duration :: "(string \<Rightarrow> goerr + duration) \<Rightarrow> environ \<Rightarrow> string \<Rightarrow> duration \<Rightarrow> goerr + duration" where
  "config_Duration ParseDuration = parsed_lookup ParseDuration"

definition config_CSV :: "environ \<Rightarrow> string \<Rightarrow> string list" where
  "config_CSV env key =
     (case env key of
        None \<Rightarrow> []
      | Some raw \<Rightarrow>
          if TrimSpace raw = [] then []
          else filter (\<lambda>value. value \<noteq> []) (map TrimSpace (split_on (CHR '','') (TrimSpace raw))))"

text \<open>\<open>MustLoad\<close> runs every loader; a loader changes the variables it assigns.\<close>

fun run_loaders :: "('s \<Rightarrow> 's \<times> goerr option) list \<Rightarrow> 's \<Rightarrow> 's \<times> goerr list" where
  "run_loaders [] s = (s, [])"
| "run_loaders (fn # fns) s =
     (let (s1, err) = fn s; (s2, errs) = run_loaders fns s1
      in (s2, (case err of Some e \<Rightarrow> e # errs | None \<Rightarrow> errs)))"

definition MustLoad :: "('s \<Rightarrow> 's \<times> goerr option) list \<Rightarrow> 's \<Rightarrow> 's \<times> goerr option" where
  "MustLoad loaders s = (let (s', errs) = run_loaders loaders s in (s', errors_join (map Some errs)))"

definition Environ_Lookup :: "environ \<Rightarrow> string \<Rightarrow> string option" where
  "Environ_Lookup e key = e key"

subsection \<open>Surrounding white space\<close>

definition ascii_space :: "char \<Rightarrow> bool" where
  "ascii_space c \<longleftrightarrow> c \<in> {CHR 0x20, CHR 0x09, CHR 0x0A, CHR 0x0B, CHR 0x0C, CHR 0x0D}"

lemma strip_left_one:
  assumes "[c] \<in> set encs" "\<forall>e \<in> set encs. e \<noteq> [] \<longrightarrow> hd e = c \<longrightarrow> e = [c]"
  shows "strip_left encs (c # s) = strip_left encs s"
proof -
  have "find (\<lambda>e. e \<noteq> [] \<and> prefix e (c # s)) encs \<noteq> None"
    using assms(1) by (auto simp: find_None_iff)
  then obtain e where e: "find (\<lambda>e. e \<noteq> [] \<and> prefix e (c # s)) encs = Some e" by blast
  then have in_encs: "e \<in> set encs" and ne: "e \<noteq> []" and "prefix e (c # s)" by (auto simp: find_Some_iff)
  then have "hd e = c" by (auto simp: prefix_Cons)
  then have "e = [c]" using assms(2) in_encs ne by blast
  with e show ?thesis by (simp add: strip_left.simps [of encs "c # s"])
qed

lemma ascii_encodings:
  assumes "ascii_space c"
  shows "[c] \<in> set space_encodings" "[c] \<in> set (map rev space_encodings)"
    "\<forall>e \<in> set space_encodings. e \<noteq> [] \<longrightarrow> hd e = c \<longrightarrow> e = [c]"
    "\<forall>e \<in> set (map rev space_encodings). e \<noteq> [] \<longrightarrow> hd e = c \<longrightarrow> e = [c]"
  using assms unfolding ascii_space_def by (elim insertE; simp add: space_encodings_def)+

lemma strip_spaces:
  assumes "\<forall>c \<in> set ws. ascii_space c"
  shows "strip_left space_encodings (ws @ s) = strip_left space_encodings s"
    "strip_left (map rev space_encodings) (ws @ s) = strip_left (map rev space_encodings) s"
  using assms by (induction ws) (simp_all add: strip_left_one ascii_encodings)

lemma long_encodings: "\<forall>e \<in> set space_encodings. length e \<le> 1 \<or> (\<forall>c \<in> set e. \<not> ascii_space c)"
  by (simp add: space_encodings_def ascii_space_def)

lemma TrimSpace_around:
  assumes "\<forall>c \<in> set (pre @ post). ascii_space c" "trimmed s" "s \<noteq> []"
  shows "TrimSpace (pre @ s @ post) = s"
proof -
  have no: "\<not> prefix e (s @ post)" if e: "e \<in> set space_encodings" for e
  proof
    assume "prefix e (s @ post)"
    moreover have "\<not> prefix e s" using assms(2) e by (simp add: trimmed_def)
    ultimately obtain u where u: "e = s @ u" "prefix u post" "u \<noteq> []"
      by (auto simp: prefix_append)
    then have "\<exists>c \<in> set e. ascii_space c"
      using assms(1) by (cases u) (auto dest: set_mono_prefix)
    moreover have "1 < length e" using u assms(3) by (cases s; cases u) auto
    ultimately show False using long_encodings e by fastforce
  qed
  have "strip_left space_encodings (pre @ s @ post) = strip_left space_encodings (s @ post)"
    using assms(1) by (intro strip_spaces) simp
  also have "\<dots> = s @ post" using no by (intro strip_left_id) blast
  finally have left: "strip_left space_encodings (pre @ s @ post) = s @ post" .
  have "strip_left (map rev space_encodings) (rev post @ rev s) = strip_left (map rev space_encodings) (rev s)"
    using assms(1) by (intro strip_spaces) simp
  also have "\<dots> = rev s"
    using assms(2) by (intro strip_left_id) (auto simp: trimmed_def suffix_to_prefix)
  finally show ?thesis by (simp add: TrimSpace_def left)
qed

text \<open>Text of plain characters has no white space at either end.\<close>

lemma trimmed_plain:
  assumes "\<forall>c \<in> set s. is_digit c \<or> c = CHR ''-''" shows "trimmed s"
proof -
  have "\<forall>e \<in> set space_encodings. \<exists>c \<in> set e. \<not> (is_digit c \<or> c = CHR ''-'')"
    by (simp add: space_encodings_def is_digit_def)
  then show ?thesis
    using assms unfolding trimmed_def by (meson in_mono set_mono_prefix set_mono_suffix)
qed

text \<open>Lists joined by commas keep their ends.\<close>

lemma comma_encodings: "\<forall>e \<in> set space_encodings. CHR '','' \<notin> set e"
  by (simp add: space_encodings_def)

lemma prefix_before: "prefix e (x @ c # y) \<Longrightarrow> c \<notin> set e \<Longrightarrow> prefix e x"
  by (auto simp: prefix_append prefix_Cons)

lemma suffix_after: "suffix e (x @ c # y) \<Longrightarrow> c \<notin> set e \<Longrightarrow> suffix e y"
  using prefix_before [of "rev e" "rev y" c "rev x"] by (simp add: suffix_to_prefix)

lemma trimmed_join:
  assumes "ps \<noteq> []" "\<forall>p \<in> set ps. trimmed p"
  shows "trimmed (join_with (CHR '','') ps)"
proof -
  have "\<not> prefix e (join_with (CHR '','') ps) \<and> \<not> suffix e (join_with (CHR '','') ps)"
    if e: "e \<in> set space_encodings" for e
    using assms
  proof (induction "CHR '',''" ps rule: join_with.induct)
    case (2 s)
    then show ?case using e by (simp add: trimmed_def)
  next
    case (3 s t ts)
    have "CHR '','' \<notin> set e" using comma_encodings e by blast
    then show ?case
      using 3 e prefix_before [of e s "CHR '',''"] suffix_after [of e s "CHR '',''"] by (auto simp: trimmed_def)
  qed simp
  then show ?thesis by (simp add: trimmed_def)
qed

subsection \<open>Properties\<close>

lemma Atoi_int_dec:
  "Atoi (int_dec n) = (if int64_ok n then Inr n else Inl (parse_error ''Atoi'' (int_dec n) ''value out of range''))"
proof -
  have digits: "\<forall>c \<in> set (nat_dec k). is_digit c" "nat_dec k \<noteq> []" "dec_val (nat_dec k) = k" for k
    using nat_dec_val by blast+
  have whole: "dec_val (takeWhile is_digit (nat_dec k)) = k" for k
    using digits [of k] by (metis takeWhile_eq_all_conv)
  have sign: "\<not> is_digit (CHR ''-'')" "\<not> is_digit (CHR ''+'')" by (simp_all add: is_digit_def)
  show ?thesis
  proof (cases "n < 0")
    case True
    then show ?thesis using digits [of "nat (- n)"] whole [of "nat (- n)"] by (auto simp: Atoi_def int_dec_def list_all_iff Let_def int64_ok_def)
  next
    case False
    obtain c cs where c: "nat_dec (nat n) = c # cs" using digits(2) [of "nat n"] by (cases "nat_dec (nat n)") auto
    then have "is_digit c" using digits(1) [of "nat n"] by simp
    then have "c \<noteq> CHR ''-''" "c \<noteq> CHR ''+''" using sign by auto
    then show ?thesis
      using False digits [of "nat n"] whole [of "nat n"] by (auto simp: Atoi_def int_dec_def c list_all_iff Let_def int64_ok_def)
  qed
qed

text \<open>Integers read back. A variable holding the decimal text of an integer, with any ASCII
  white space around it, is read as that integer exactly when it fits 64 bits; otherwise
  the lookup fails with an error that names the variable, never with a wrapped value.
\<close>

theorem config_int_roundtrip:
  assumes "env key = Some (pre @ int_dec n @ post)" "\<forall>c \<in> set (pre @ post). ascii_space c"
  shows "config_Int env key fallback =
     (if int64_ok n then Inr n
      else Inl (ErrWrap ''configuration: %s: %w'' [key] (parse_error ''Atoi'' (int_dec n) ''value out of range'')))"
proof -
  have "trimmed (int_dec n)" "int_dec n \<noteq> []"
    using nat_dec_val by (auto simp: int_dec_def intro!: trimmed_plain)
  then have "TrimSpace (pre @ int_dec n @ post) = int_dec n" "int_dec n \<noteq> []"
    using TrimSpace_around [OF assms(2)] by simp_all
  then show ?thesis by (simp add: config_Int_def parsed_lookup_def assms(1) Atoi_int_dec)
qed

text \<open>Lists read back. A variable holding non-empty, trimmed values without commas, joined by
  commas, with any ASCII white space around the whole, is read as exactly these values; and
  whatever a variable holds, every value read is non-empty, trimmed and has no comma.
\<close>

theorem config_csv_roundtrip:
  assumes "values \<noteq> []" "\<forall>v \<in> set values. v \<noteq> [] \<and> trimmed v \<and> CHR '','' \<notin> set v"
    and "\<forall>c \<in> set (pre @ post). ascii_space c" "env key = Some (pre @ join_with (CHR '','') values @ post)"
  shows "config_CSV env key = values \<and>
     (\<forall>env' key'. \<forall>v \<in> set (config_CSV env' key'). v \<noteq> [] \<and> trimmed v \<and> CHR '','' \<notin> set v)"
proof
  let ?j = "join_with (CHR '','') values"
  have t: "trimmed ?j" using assms(1,2) by (intro trimmed_join) auto
  have "?j \<noteq> []" using assms(1,2) by (cases "(CHR '','', values)" rule: join_with.cases) auto
  then have "TrimSpace (pre @ ?j @ post) = ?j" "?j \<noteq> []" using TrimSpace_around [OF assms(3) t] by simp_all
  moreover have "split_on (CHR '','') ?j = values" using assms(1,2) by (intro split_join) auto
  moreover have "map TrimSpace values = values" using assms(2) by (intro map_idI TrimSpace_id) auto
  moreover have "filter (\<lambda>v. v \<noteq> []) values = values" using assms(2) by (intro filter_True) auto
  ultimately show "config_CSV env key = values" by (simp add: config_CSV_def assms(4))
  show "\<forall>env' key'. \<forall>v \<in> set (config_CSV env' key'). v \<noteq> [] \<and> trimmed v \<and> CHR '','' \<notin> set v"
    by (auto simp: config_CSV_def TrimSpace_trimmed split: option.splits if_splits
        dest!: split_on_pieces set_mono_sublist [OF TrimSpace_sublist, THEN subsetD])
qed

text \<open>Blank variables count as unset, for every kind of lookup.\<close>

lemma blank_is_unset:
  assumes "env key = None \<or> (\<exists>v. env key = Some v \<and> TrimSpace v = [])"
  shows "config_String env key d = d" "config_Bool env key b = Inr b" "config_Int env key i = Inr i"
    "config_Duration pd env key t = Inr t" "config_CSV env key = []"
    "RequiredString env key = Inl (ErrMsg ''configuration: %s is required'' [key])"
  using assms by (auto simp: config_String_def config_Bool_def config_Int_def config_Duration_def parsed_lookup_def
      config_CSV_def RequiredString_def)

lemma run_loaders_errors:
  "snd (run_loaders fns s) = [] \<longleftrightarrow> snd (MustLoad fns s) = None"
  by (auto simp: MustLoad_def split: prod.splits)

theorem config_int_roundtrip_witness:
  "config_Int (\<lambda>k. if k = ''PORT'' then Some ('' '' @ int_dec 8080 @ [CHR 0x0A]) else None) ''PORT'' 1 = Inr 8080"
  by (subst config_int_roundtrip [where n = 8080 and pre = "'' ''" and post = "[CHR 0x0A]"])
     (simp_all add: ascii_space_def int64_ok_def)

theorem config_csv_roundtrip_witness:
  "config_CSV (\<lambda>k. Some ('' '' @ join_with (CHR '','') [''1'', ''23''] @ [])) ''HOSTS'' = [''1'', ''23'']"
proof -
  have t: "trimmed ''1''" "trimmed ''23''" by (rule trimmed_plain, simp add: is_digit_def)+
  show ?thesis
    by (rule config_csv_roundtrip [where pre = "'' ''" and post = "[]", THEN conjunct1])
       (simp_all add: ascii_space_def t)
qed

end
