(* ===== verification/Crypto.thy ===== *)
theory Crypto
  imports Uuid
begin

text \<open>
  What \<open>secrets\<close> uses of the standard library, on bytes: SHA-256 (FIPS 180-4), AES-256 (FIPS 197),
  Galois/counter mode with 12-byte nonces and 16-byte tags (NIST SP 800-38D), and the
  unpadded URL-safe Base64 alphabet (RFC 4648). The locale \<open>aead\<close> states what authenticated
  encryption promises; counter mode over any block function provides it.
\<close>

unbundle bit_operations_syntax

type_synonym bytes = "8 word list"

definition bytes_of :: "string \<Rightarrow> bytes" where
  "bytes_of s = map of_char s"

definition xor_bytes :: "bytes \<Rightarrow> bytes \<Rightarrow> bytes" where
  "xor_bytes a b = map2 (XOR) a b"

fun chunks :: "nat \<Rightarrow> nat \<Rightarrow> 'a list \<Rightarrow> 'a list list" where
  "chunks 0 n xs = []"
| "chunks (Suc k) n xs = (if xs = [] then [] else take n xs # chunks k n (drop n xs))"

text \<open>The blocks of \<open>n\<close> elements of a list, the last one shorter.\<close>

definition blocks :: "nat \<Rightarrow> 'a list \<Rightarrow> 'a list list" where
  "blocks n xs = chunks (length xs) n xs"

definition be_word :: "bytes \<Rightarrow> 'w::len word" where
  "be_word bs = foldl (\<lambda>acc b. push_bit 8 acc OR ucast b) 0 bs"

definition be_bytes :: "nat \<Rightarrow> 'w::len word \<Rightarrow> bytes" where
  "be_bytes n w = map (\<lambda>i. ucast (drop_bit (8 * (n - 1 - i)) w)) [0..<n]"

subsection \<open>SHA-256\<close>

text \<open>
  The constants are the first 32 bits of the fractional parts of the cube roots of the first 64
  primes, and of the square roots of the first eight: a root of \<open>p\<close> with 32 more bits, modulo \<open>2 ^ 32\<close>.
\<close>

definition sha_primes :: "nat list" where
  "sha_primes = filter (\<lambda>n. list_all (\<lambda>d. n mod d \<noteq> 0) [2..<n]) [2..<312]"

text \<open>The integer root, bit by bit from the highest.\<close>

fun root_bits :: "nat \<Rightarrow> nat \<Rightarrow> nat \<Rightarrow> nat \<Rightarrow> nat" where
  "root_bits k n 0 acc = acc"
| "root_bits k n (Suc b) acc = root_bits k n b (if (acc + 2 ^ b) ^ k \<le> n then acc + 2 ^ b else acc)"

definition sha_K :: "32 word list" where
  "sha_K = map (\<lambda>p. of_nat (root_bits 3 (p * 2 ^ 96) 36 0)) sha_primes"

definition sha_init :: "32 word list" where
  "sha_init = map (\<lambda>p. of_nat (root_bits 2 (p * 2 ^ 64) 36 0)) (take 8 sha_primes)"

definition sha_pad :: "bytes \<Rightarrow> bytes" where
  "sha_pad msg = msg @ [0x80] @ replicate ((119 - length msg mod 64) mod 64) 0 @
     be_bytes 8 (of_nat (8 * length msg) :: 64 word)"

text \<open>The message schedule, newest word first.\<close>

fun sha_extend :: "nat \<Rightarrow> 32 word list \<Rightarrow> 32 word list" where
  "sha_extend 0 r = r"
| "sha_extend (Suc n) r =
     (let x = r ! 14; y = r ! 1;
          s0 = word_rotr 7 x XOR word_rotr 18 x XOR drop_bit 3 x;
          s1 = word_rotr 17 y XOR word_rotr 19 y XOR drop_bit 10 y
      in sha_extend n ((s1 + r ! 6 + s0 + r ! 15) # r))"

fun sha_round :: "32 word \<times> 32 word \<Rightarrow> 32 word list \<Rightarrow> 32 word list" where
  "sha_round (k, m) [a, b, c, d, e, f, g, h] =
     (let S1 = word_rotr 6 e XOR word_rotr 11 e XOR word_rotr 25 e;
          ch = (e AND f) XOR (NOT e AND g);
          t1 = h + S1 + ch + k + m;
          S0 = word_rotr 2 a XOR word_rotr 13 a XOR word_rotr 22 a;
          maj = (a AND b) XOR (a AND c) XOR (b AND c)
      in [t1 + S0 + maj, a, b, c, d + t1, e, f, g])"
| "sha_round km s = s"

definition sha_block :: "32 word list \<Rightarrow> bytes \<Rightarrow> 32 word list" where
  "sha_block s blk =
     (let ws = rev (sha_extend 48 (rev (map be_word (blocks 4 blk))))
      in map2 (+) s (fold sha_round (zip sha_K ws) s))"

definition Sum256 :: "bytes \<Rightarrow> bytes" where
  "Sum256 msg = concat (map (be_bytes 4) (foldl sha_block sha_init (blocks 64 (sha_pad msg))))"

subsection \<open>AES-256\<close>

definition xtime :: "8 word \<Rightarrow> 8 word" where
  "xtime b = (if bit b 7 then push_bit 1 b XOR 0x1b else push_bit 1 b)"

fun gf_mul :: "nat \<Rightarrow> 8 word \<Rightarrow> 8 word \<Rightarrow> 8 word" where
  "gf_mul 0 a b = 0"
| "gf_mul (Suc n) a b = (if bit b 0 then a else 0) XOR gf_mul n (xtime a) (drop_bit 1 b)"

text \<open>The inverse is the 254th power; zero is mapped to itself.\<close>

definition gf_inv :: "8 word \<Rightarrow> 8 word" where
  "gf_inv x =
     (let m = gf_mul 8; x2 = m x x; x4 = m x2 x2; x8 = m x4 x4; x16 = m x8 x8; x32 = m x16 x16;
          x64 = m x32 x32; x128 = m x64 x64
      in m x2 (m x4 (m x8 (m x16 (m x32 (m x64 x128))))))"

definition sub_byte :: "8 word \<Rightarrow> 8 word" where
  "sub_byte x =
     (let i = gf_inv x
      in i XOR word_rotl 1 i XOR word_rotl 2 i XOR word_rotl 3 i XOR word_rotl 4 i XOR 0x63)"

definition rcon :: "nat \<Rightarrow> 8 word" where
  "rcon i = (xtime ^^ (i - 1)) 1"

text \<open>The key schedule: words of four bytes, newest first, from the key's eight to sixty.\<close>

fun key_extend :: "nat \<Rightarrow> bytes list \<Rightarrow> bytes list" where
  "key_extend 0 r = r"
| "key_extend (Suc n) r =
     (let i = length r; t = hd r;
          t' = (if i mod 8 = 0 then xor_bytes (map sub_byte (rotate1 t)) [rcon (i div 8), 0, 0, 0]
                else if i mod 8 = 4 then map sub_byte t else t)
      in key_extend n (xor_bytes (r ! 7) t' # r))"

definition round_keys :: "bytes \<Rightarrow> bytes list" where
  "round_keys key = blocks 16 (concat (rev (key_extend 52 (rev (blocks 4 key)))))"

definition shift_rows :: "bytes \<Rightarrow> bytes" where
  "shift_rows s = map (\<lambda>i. s ! ((i + 4 * (i mod 4)) mod 16)) [0..<16]"

fun mix_column :: "bytes \<Rightarrow> bytes" where
  "mix_column [a, b, c, d] =
     [xtime a XOR xtime b XOR b XOR c XOR d, a XOR xtime b XOR xtime c XOR c XOR d,
      a XOR b XOR xtime c XOR xtime d XOR d, xtime a XOR a XOR b XOR c XOR xtime d]"
| "mix_column s = s"

definition aes_round :: "bytes \<Rightarrow> bytes \<Rightarrow> bytes" where
  "aes_round k s = xor_bytes (concat (map mix_column (blocks 4 (shift_rows (map sub_byte s))))) k"

definition aes_Encrypt :: "bytes list \<Rightarrow> bytes \<Rightarrow> bytes" where
  "aes_Encrypt ks blk =
     xor_bytes (shift_rows (map sub_byte (fold aes_round (butlast (tl ks)) (xor_bytes blk (hd ks))))) (last ks)"

subsection \<open>Galois/counter mode\<close>

fun ghash_mul :: "nat \<Rightarrow> 128 word \<Rightarrow> 128 word \<Rightarrow> 128 word" where
  "ghash_mul 0 x v = 0"
| "ghash_mul (Suc n) x v =
     (if bit x n then v else 0) XOR
     ghash_mul n x (if bit v 0 then drop_bit 1 v XOR push_bit 120 0xe1 else drop_bit 1 v)"

definition ghash :: "128 word \<Rightarrow> bytes \<Rightarrow> 128 word" where
  "ghash h c =
     (let pad = c @ replicate ((16 - length c mod 16) mod 16) 0;
          final = of_nat (8 * length c)
      in foldl (\<lambda>y b. ghash_mul 128 (y XOR b) h) 0 (map be_word (blocks 16 pad) @ [final]))"

text \<open>Counter blocks: the nonce and a 32-bit counter that wraps.\<close>

definition counter_block :: "bytes \<Rightarrow> nat \<Rightarrow> bytes" where
  "counter_block nonce i = nonce @ be_bytes 4 (of_nat i :: 32 word)"

definition key_stream :: "(bytes \<Rightarrow> bytes) \<Rightarrow> bytes \<Rightarrow> nat \<Rightarrow> bytes" where
  "key_stream E nonce n = take n (concat (map (\<lambda>i. E (counter_block nonce (i + 2))) [0..<(n + 15) div 16]))"

definition gcm_tag :: "(bytes \<Rightarrow> bytes) \<Rightarrow> bytes \<Rightarrow> bytes \<Rightarrow> bytes" where
  "gcm_tag E nonce c =
     xor_bytes (be_bytes 16 (ghash (be_word (E (replicate 16 0))) c)) (E (counter_block nonce 1))"

definition gcm_limit :: nat where
  "gcm_limit = (2 ^ 32 - 2) * 16"

text \<open>\<open>Seal\<close> panics (\<open>None\<close>) on a nonce of the wrong size and on a message that is too large.\<close>

definition gcm_Seal :: "(bytes \<Rightarrow> bytes) \<Rightarrow> bytes \<Rightarrow> bytes \<Rightarrow> bytes option" where
  "gcm_Seal E nonce plaintext =
     (if length nonce \<noteq> 12 \<or> length plaintext > gcm_limit then None
      else (let c = xor_bytes plaintext (key_stream E nonce (length plaintext)) in Some (c @ gcm_tag E nonce c)))"

abbreviation ErrOpen :: goerr where
  "ErrOpen \<equiv> ErrSentinel ''cipher: message authentication failed''"

definition gcm_Open :: "(bytes \<Rightarrow> bytes) \<Rightarrow> bytes \<Rightarrow> bytes \<Rightarrow> (goerr + bytes) option" where
  "gcm_Open E nonce sealed =
     (if length nonce \<noteq> 12 then None
      else if length sealed < 16 \<or> length sealed > gcm_limit + 16 then Some (Inl ErrOpen)
      else
        (let c = take (length sealed - 16) sealed; tag = drop (length sealed - 16) sealed
         in if tag \<noteq> gcm_tag E nonce c then Some (Inl ErrOpen)
            else Some (Inr (xor_bytes c (key_stream E nonce (length c))))))"

subsection \<open>Base64 for URLs, without padding\<close>

definition b64_alphabet :: string where
  "b64_alphabet = ''ABCDEFGHIJKLMNOPQRSTUVWXYZabcdefghijklmnopqrstuvwxyz0123456789-_''"

definition b64_char :: "nat \<Rightarrow> char" where
  "b64_char n = b64_alphabet ! n"

fun RawURLEncoding :: "bytes \<Rightarrow> string" where
  "RawURLEncoding [] = []"
| "RawURLEncoding [a] = [b64_char (unat a div 4), b64_char (unat a mod 4 * 16)]"
| "RawURLEncoding [a, b] =
     [b64_char (unat a div 4), b64_char (unat a mod 4 * 16 + unat b div 16), b64_char (unat b mod 16 * 4)]"
| "RawURLEncoding (a # b # c # rest) =
     [b64_char (unat a div 4), b64_char (unat a mod 4 * 16 + unat b div 16),
      b64_char (unat b mod 16 * 4 + unat c div 64), b64_char (unat c mod 64)] @ RawURLEncoding rest"

subsection \<open>Laws of the parts\<close>

lemma length_be_bytes [simp]: "length (be_bytes n w) = n"
  by (simp add: be_bytes_def)

lemma length_xor_bytes [simp]: "length (xor_bytes a b) = min (length a) (length b)"
  by (simp add: xor_bytes_def)

lemma xor_bytes_cancel:
  assumes "length a \<le> length k"
  shows "xor_bytes (xor_bytes a k) k = a"
  using assms by (induction a k rule: list_induct2') (simp_all add: xor_bytes_def xor.assoc)

lemma chunks_length:
  assumes "length xs = k * n" "0 < n" "k \<le> fuel"
  shows "length (chunks fuel n xs) = k \<and> (\<forall>c \<in> set (chunks fuel n xs). length c = n)"
  using assms
proof (induction fuel n xs arbitrary: k rule: chunks.induct)
  case (2 fuel n xs)
  show ?case
  proof (cases "xs = []")
    case True
    then show ?thesis using 2 by simp
  next
    case False
    then obtain j where j: "k = Suc j" using 2 by (cases k) auto
    then have "length (drop n xs) = j * n" "j \<le> fuel" using 2 by simp_all
    from 2(1) [OF False this(1) 2(3) this(2)] show ?thesis using False j 2(2,3) by simp
  qed
qed simp

lemma blocks_length:
  assumes "length xs = k * n" "0 < n"
  shows "length (blocks n xs) = k" "\<forall>c \<in> set (blocks n xs). length c = n"
  using chunks_length [OF assms, of "length xs"] assms by (auto simp: blocks_def)

lemma length_concat_const:
  assumes "\<forall>c \<in> set cs. length c = n" shows "length (concat cs) = length cs * n"
  using assms by (induction cs) simp_all

subsection \<open>The block cipher\<close>

lemma key_extend_words:
  assumes "\<forall>w \<in> set r. length w = 4" "8 \<le> length r"
  shows "length (key_extend n r) = n + length r \<and> (\<forall>w \<in> set (key_extend n r). length w = 4)"
  using assms
proof (induction n arbitrary: r)
  case (Suc n)
  have "hd r \<in> set r" "r ! 7 \<in> set r" using Suc.prems(2) by (auto intro: hd_in_set)
  then have "length (hd r) = 4" "length (r ! 7) = 4" using Suc.prems(1) by auto
  then obtain w where w: "key_extend (Suc n) r = key_extend n (w # r)" "length w = 4"
    by (simp only: key_extend.simps Let_def) (simp split: if_splits)
  show ?case using Suc.IH [of "w # r"] Suc.prems w by simp
qed simp

lemma round_keys_shape:
  assumes "length key = 32"
  shows "length (round_keys key) = 15" "\<forall>k \<in> set (round_keys key). length k = 16"
proof -
  let ?ws = "key_extend 52 (rev (blocks 4 key))"
  have key: "length (rev (blocks 4 key)) = 8" "\<forall>w \<in> set (rev (blocks 4 key)). length w = 4"
    using blocks_length [of key 8 4] assms by simp_all
  have "8 \<le> length (rev (blocks 4 key))" unfolding key(1) by simp
  from key_extend_words [OF key(2) this, of 52, unfolded key(1)]
  have ws: "length ?ws = 60" "\<forall>w \<in> set ?ws. length w = 4" by auto
  have "length (concat (rev ?ws)) = 15 * 16" using length_concat_const [of "rev ?ws" 4] ws by simp
  from blocks_length [OF this] show "length (round_keys key) = 15" "\<forall>k \<in> set (round_keys key). length k = 16"
    by (simp_all add: round_keys_def)
qed

lemma aes_Encrypt_length:
  assumes "length key = 32"
  shows "length (aes_Encrypt (round_keys key) blk) = 16"
proof -
  have "round_keys key \<noteq> []" using round_keys_shape(1) [OF assms] by auto
  then have "length (last (round_keys key)) = 16" using round_keys_shape(2) [OF assms] last_in_set by blast
  then show ?thesis by (simp add: aes_Encrypt_def shift_rows_def)
qed

subsection \<open>Authenticated encryption\<close>

text \<open>
  What a caller of \<open>cipher.AEAD\<close> relies on: the size of a sealed message, that opening gives back
  what was sealed, and that nothing else opens. \<open>sendable\<close> says which messages can be sealed.
\<close>

locale aead =
  fixes valid_key :: "'k \<Rightarrow> bool" and nonce_size overhead limit :: nat
    and seal :: "'k \<Rightarrow> bytes \<Rightarrow> bytes \<Rightarrow> bytes option"
    and unseal :: "'k \<Rightarrow> bytes \<Rightarrow> bytes \<Rightarrow> (goerr + bytes) option"
  assumes seal_total: "\<lbrakk>valid_key k; length n = nonce_size; length p \<le> limit\<rbrakk> \<Longrightarrow> \<exists>c. seal k n p = Some c"
    and seal_limit: "\<lbrakk>valid_key k; seal k n p = Some c\<rbrakk> \<Longrightarrow> length p \<le> limit \<and> length c = length p + overhead"
    and unseal_total: "\<lbrakk>valid_key k; length n = nonce_size\<rbrakk> \<Longrightarrow> \<exists>r. unseal k n c = Some r"
    and unseal_iff: "\<lbrakk>valid_key k; length n = nonce_size\<rbrakk> \<Longrightarrow> unseal k n c = Some (Inr p) \<longleftrightarrow> seal k n p = Some c"
begin

lemma seal_injective:
  assumes "valid_key k" "length n = nonce_size" "seal k n p = Some c" "seal k n p' = Some c"
  shows "p = p'"
  using assms unseal_iff by (metis Inr_inject option.inject)

lemma unseal_length:
  assumes "valid_key k" "length n = nonce_size" "unseal k n c = Some (Inr p)"
  shows "length c = length p + overhead"
  using assms unseal_iff seal_limit by blast

end

text \<open>A block function of sixteen bytes.\<close>

locale block_cipher =
  fixes E :: "'k \<Rightarrow> bytes \<Rightarrow> bytes" and valid_key :: "'k \<Rightarrow> bool"
  assumes block_length: "valid_key k \<Longrightarrow> length (E k b) = 16"
begin

lemma key_stream_length:
  assumes "valid_key k" shows "length (key_stream (E k) n m) = m"
proof -
  let ?bs = "map (\<lambda>i. E k (counter_block n (i + 2))) [0..<(m + 15) div 16]"
  have "length (concat ?bs) = (m + 15) div 16 * 16"
    using length_concat_const [of ?bs 16] block_length [OF assms] by simp
  then show ?thesis by (simp add: key_stream_def)
qed

lemma gcm_tag_length: "valid_key k \<Longrightarrow> length (gcm_tag (E k) n c) = 16"
  by (simp add: gcm_tag_def block_length)

lemma open_iff_seal:
  assumes "valid_key k" "length n = 12"
  shows "gcm_Open (E k) n s = Some (Inr p) \<longleftrightarrow> gcm_Seal (E k) n p = Some s"
proof
  note ks = key_stream_length [OF assms(1)] and tag = gcm_tag_length [OF assms(1)]
  assume "gcm_Open (E k) n s = Some (Inr p)"
  then have len: "16 \<le> length s" "length s \<le> gcm_limit + 16"
    and t: "drop (length s - 16) s = gcm_tag (E k) n (take (length s - 16) s)"
    and p: "p = xor_bytes (take (length s - 16) s) (key_stream (E k) n (length s - 16))"
    using assms(2) by (auto simp: gcm_Open_def Let_def split: if_splits)
  have "length p = length s - 16" "xor_bytes p (key_stream (E k) n (length p)) = take (length s - 16) s"
    using p ks by (simp_all add: xor_bytes_cancel)
  then show "gcm_Seal (E k) n p = Some s"
    using assms(2) len append_take_drop_id [of "length s - 16" s] by (simp add: gcm_Seal_def Let_def t)
next
  note ks = key_stream_length [OF assms(1)] and tag = gcm_tag_length [OF assms(1)]
  assume "gcm_Seal (E k) n p = Some s"
  then show "gcm_Open (E k) n s = Some (Inr p)"
    using assms(2) by (auto simp: gcm_Seal_def gcm_Open_def Let_def ks tag xor_bytes_cancel split: if_splits)
qed

end

sublocale block_cipher \<subseteq> gcm: aead valid_key 12 16 gcm_limit "\<lambda>k. gcm_Seal (E k)" "\<lambda>k. gcm_Open (E k)"
proof
  fix k n p c
  assume k: "valid_key k"
  show "\<exists>c. gcm_Seal (E k) n p = Some c" if "length n = 12" "length p \<le> gcm_limit"
    using that by (simp add: gcm_Seal_def Let_def)
  show "length p \<le> gcm_limit \<and> length c = length p + 16" if "gcm_Seal (E k) n p = Some c"
    using that gcm_tag_length [OF k] key_stream_length [OF k] by (auto simp: gcm_Seal_def Let_def split: if_splits)
  show "\<exists>r. gcm_Open (E k) n c = Some r" if "length n = 12"
    using that by (simp add: gcm_Open_def Let_def)
  show "gcm_Open (E k) n c = Some (Inr p) \<longleftrightarrow> gcm_Seal (E k) n p = Some c" if "length n = 12"
    using open_iff_seal [OF k that] .
qed

text \<open>AES-256, with its key schedule, provides the block function and so authenticated encryption.\<close>

interpretation aes: block_cipher "\<lambda>key. aes_Encrypt (round_keys key)" "\<lambda>key. length key = 32"
  by unfold_locales (rule aes_Encrypt_length)

subsection \<open>Base64 reads back\<close>

definition b64_val :: "char \<Rightarrow> nat" where
  "b64_val c = length (takeWhile (\<lambda>d. d \<noteq> c) b64_alphabet)"

text \<open>The reference decoder.\<close>

fun b64_decode :: "string \<Rightarrow> bytes" where
  "b64_decode (w # x # y # z # rest) =
     [of_nat (b64_val w * 4 + b64_val x div 16), of_nat (b64_val x mod 16 * 16 + b64_val y div 4),
      of_nat (b64_val y mod 4 * 64 + b64_val z)] @ b64_decode rest"
| "b64_decode [w, x, y] =
     [of_nat (b64_val w * 4 + b64_val x div 16), of_nat (b64_val x mod 16 * 16 + b64_val y div 4)]"
| "b64_decode [w, x] = [of_nat (b64_val w * 4 + b64_val x div 16)]"
| "b64_decode _ = []"

lemma b64_table: "list_all (\<lambda>n. b64_val (b64_char n) = n \<and> b64_char n \<in> set b64_alphabet) [0..<64]"
  by code_simp

lemma b64_val_char [simp]: "n < 64 \<Longrightarrow> b64_val (b64_char n) = n"
  using b64_table by (simp add: list_all_iff)

lemma b64_char_safe: "n < 64 \<Longrightarrow> b64_char n \<in> set b64_alphabet"
  using b64_table by (simp add: list_all_iff)

lemma byte_less: "unat (a :: 8 word) < 256"
  using unsigned_less [of a, where ?'a = nat] by simp

lemma byte_bounds:
  fixes a b :: "8 word"
  shows "unat a div 4 < 64" "unat a mod 4 * 16 < 64" "unat a mod 4 * 16 + unat b div 16 < 64"
    "unat a mod 16 * 4 < 64" "unat a mod 16 * 4 + unat b div 64 < 64" "unat a mod 64 < 64"
  using byte_less [of a] byte_less [of b] by linarith+

lemma byte_split:
  fixes a :: "8 word"
  shows "unat a div 16 div 16 = 0" "unat a div 64 div 4 = 0"
    "unat a div 16 mod 16 * 16 + unat a mod 16 = unat a" "unat a div 64 mod 4 * 64 + unat a mod 64 = unat a"
  using byte_less [of a] div_mult_mod_eq [of "unat a" 16] div_mult_mod_eq [of "unat a" 64]
  by (simp_all add: mod_less less_mult_imp_div_less)

lemma b64_roundtrip: "b64_decode (RawURLEncoding bs) = bs"
  by (induction bs rule: RawURLEncoding.induct) (simp_all add: byte_bounds byte_split del: of_nat_add of_nat_mult)

lemma b64_length: "length (RawURLEncoding bs) = (8 * length bs + 5) div 6"
  by (induction bs rule: RawURLEncoding.induct) simp_all

lemma b64_url_safe: "set (RawURLEncoding bs) \<subseteq> set b64_alphabet"
  by (induction bs rule: RawURLEncoding.induct) (simp_all add: b64_char_safe byte_bounds)

end
