(* ===== verification/Secrets.thy ===== *)
theory Secrets
  imports Crypto
begin

text \<open>
  Opaque values, digests and encryption at rest (\<open>secrets/secrets.go\<close>). A reader is the list of
  what its calls of \<open>Read\<close> deliver; \<open>crypto/rand\<close> is an argument of the same type. The
  properties are what a caller stores and reads back: an opaque value holds exactly the random
  bytes drawn, and \<open>Decrypt\<close> accepts exactly what \<open>Encrypt\<close> produces under the key.
\<close>

subsection \<open>Readers\<close>

type_synonym reader = "(bytes \<times> goerr option) list"

abbreviation ErrUnexpectedEOF :: goerr where
  "ErrUnexpectedEOF \<equiv> ErrSentinel ''unexpected EOF''"

text \<open>
  \<open>io.ReadFull\<close>: it reads until the buffer is full, and then drops an error that came with the
  last bytes. A read delivers at most the room left; what it did not deliver stays.
\<close>

fun read_loop :: "nat \<Rightarrow> bytes \<Rightarrow> reader \<Rightarrow> (goerr + bytes) \<times> reader" where
  "read_loop room buf [] =
     (if room = 0 then (Inr buf, []) else (Inl (if buf = [] then ErrEOF else ErrUnexpectedEOF), []))"
| "read_loop room buf ((chunk, err) # rs) =
     (if room = 0 then (Inr buf, (chunk, err) # rs)
      else if length chunk > room then (Inr (buf @ take room chunk), (drop room chunk, err) # rs)
      else if length chunk = room then (Inr (buf @ chunk), rs)
      else (case err of
              None \<Rightarrow> read_loop (room - length chunk) (buf @ chunk) rs
            | Some e \<Rightarrow> (Inl (if e = ErrEOF \<and> buf @ chunk \<noteq> [] then ErrUnexpectedEOF else e), rs)))"

definition ReadFull :: "nat \<Rightarrow> reader \<Rightarrow> (goerr + bytes) \<times> reader" where
  "ReadFull n r = read_loop n [] r"

subsection \<open>Opaque values and digests\<close>

definition DefaultOpaqueSize :: int where
  "DefaultOpaqueSize = 32"

definition KeySize :: nat where
  "KeySize = 32"

abbreviation ErrInvalidSize :: goerr where
  "ErrInvalidSize \<equiv> ErrSentinel ''secrets: opaque size must be greater than zero''"

abbreviation ErrInvalidKey :: goerr where
  "ErrInvalidKey \<equiv> ErrSentinel ''secrets: key must contain exactly 32 bytes''"

abbreviation ErrNotConfigured :: goerr where
  "ErrNotConfigured \<equiv> ErrSentinel ''secrets: cipher is not configured''"

abbreviation ErrInvalidCiphertext :: goerr where
  "ErrInvalidCiphertext \<equiv> ErrSentinel ''secrets: invalid ciphertext''"

record Generator =
  gn_reader :: "reader option"

definition NewGenerator :: "reader option \<Rightarrow> Generator" where
  "NewGenerator r = \<lparr>gn_reader = r\<rparr>"

text \<open>The value or the error, and what is left of the reader it drew from.\<close>

definition generator_NewOpaque :: "reader \<Rightarrow> Generator \<Rightarrow> int \<Rightarrow> (goerr + string) \<times> reader" where
  "generator_NewOpaque rand g n =
     (let reader = (case gn_reader g of None \<Rightarrow> rand | Some r \<Rightarrow> r)
      in if n \<le> 0 then (Inl ErrInvalidSize, reader)
         else (case ReadFull (nat n) reader of
                 (Inl err, r) \<Rightarrow> (Inl (ErrWrap ''secrets: generate opaque value: %w'' [] err), r)
               | (Inr raw, r) \<Rightarrow> (Inr (RawURLEncoding raw), r)))"

definition NewOpaque :: "reader \<Rightarrow> int \<Rightarrow> (goerr + string) \<times> reader" where
  "NewOpaque rand n = generator_NewOpaque rand \<lparr>gn_reader = None\<rparr> n"

record Codec =
  cd_Reader :: "reader option"

definition codec_NewSecret :: "reader \<Rightarrow> Codec \<Rightarrow> (goerr + string) \<times> reader" where
  "codec_NewSecret rand c = generator_NewOpaque rand (NewGenerator (cd_Reader c)) DefaultOpaqueSize"

definition secrets_SHA256 :: "string \<Rightarrow> string" where
  "secrets_SHA256 value = hex_encode (Sum256 (bytes_of value))"

definition codec_Hash :: "Codec \<Rightarrow> string \<Rightarrow> string" where
  "codec_Hash c value = secrets_SHA256 value"

subsection \<open>Encryption at rest\<close>

text \<open>\<open>ci_aead\<close> is the AES-GCM instance, given by its block function.\<close>

record Cipher =
  ci_aead :: "(bytes \<Rightarrow> bytes) option"
  ci_random :: reader

text \<open>
  \<open>aes.NewCipher\<close> fails only on a key of another size and \<open>cipher.NewGCM\<close> only on another block size,
  so neither fails after the check of the length.
\<close>

definition NewCipher :: "reader \<Rightarrow> bytes \<Rightarrow> goerr + Cipher" where
  "NewCipher rand key =
     (if length key \<noteq> KeySize then Inl ErrInvalidKey
      else Inr \<lparr>ci_aead = Some (aes_Encrypt (round_keys key)), ci_random = rand\<rparr>)"

text \<open>A nil pointer is \<open>None\<close>. The result \<open>None\<close> is a panic of \<open>Seal\<close>.\<close>

definition secrets_Encrypt :: "Cipher option \<Rightarrow> bytes \<Rightarrow> (goerr + bytes) option \<times> Cipher option" where
  "secrets_Encrypt cp plaintext =
     (case cp of
        None \<Rightarrow> (Some (Inl ErrNotConfigured), cp)
      | Some c \<Rightarrow>
          (case ci_aead c of
             None \<Rightarrow> (Some (Inl ErrNotConfigured), cp)
           | Some E \<Rightarrow>
               (case ReadFull 12 (ci_random c) of
                  (Inl err, r) \<Rightarrow>
                    (Some (Inl (ErrWrap ''secrets: generate nonce: %w'' [] err)), Some (c\<lparr>ci_random := r\<rparr>))
                | (Inr nonce, r) \<Rightarrow>
                    (map_option (\<lambda>sealed. Inr (nonce @ sealed)) (gcm_Seal E nonce plaintext),
                     Some (c\<lparr>ci_random := r\<rparr>)))))"

definition secrets_Decrypt :: "Cipher option \<Rightarrow> bytes \<Rightarrow> (goerr + bytes) option" where
  "secrets_Decrypt cp ciphertext =
     (case cp of
        None \<Rightarrow> Some (Inl ErrNotConfigured)
      | Some c \<Rightarrow>
          (case ci_aead c of
             None \<Rightarrow> Some (Inl ErrNotConfigured)
           | Some E \<Rightarrow>
               if length ciphertext < 12 + 16 then Some (Inl ErrInvalidCiphertext)
               else (case gcm_Open E (take 12 ciphertext) (drop 12 ciphertext) of
                       None \<Rightarrow> None
                     | Some (Inl err) \<Rightarrow> Some (Inl ErrInvalidCiphertext)
                     | Some (Inr plaintext) \<Rightarrow> Some (Inr plaintext))))"

definition cipher_String :: "Cipher option \<Rightarrow> string" where
  "cipher_String c = ''secrets.Cipher{aes-256-gcm}''"

definition cipher_GoString :: "Cipher option \<Rightarrow> string" where
  "cipher_GoString c = cipher_String c"

subsection \<open>What a reader supplies\<close>

text \<open>The bytes delivered up to and with the first error.\<close>

fun supplied :: "reader \<Rightarrow> bytes" where
  "supplied [] = []"
| "supplied ((chunk, err) # rs) = chunk @ (if err = None then supplied rs else [])"

lemma read_loop_supply:
  "(room \<le> length (supplied r) \<longrightarrow> fst (read_loop room buf r) = Inr (buf @ take room (supplied r))) \<and>
   (length (supplied r) < room \<longrightarrow> (\<exists>e. fst (read_loop room buf r) = Inl e))"
  by (induction room buf r rule: read_loop.induct) (auto split: option.splits)

lemma ReadFull_ok: "n \<le> length (supplied r) \<Longrightarrow> fst (ReadFull n r) = Inr (take n (supplied r))"
  using read_loop_supply [of n r "[]"] by (simp add: ReadFull_def)

lemma ReadFull_short: "length (supplied r) < n \<Longrightarrow> \<exists>e. fst (ReadFull n r) = Inl e"
  using read_loop_supply [of n r "[]"] by (simp add: ReadFull_def)

lemma ReadFull_Inr: "ReadFull n r = (Inr bs, r') \<Longrightarrow> n \<le> length (supplied r) \<and> bs = take n (supplied r)"
  using ReadFull_ok [of n r] ReadFull_short [of r n] by (cases "n \<le> length (supplied r)") auto

subsection \<open>Properties\<close>

lemma Encrypt_unfold:
  assumes "ci_aead c = Some E"
  shows "fst (secrets_Encrypt (Some c) p) =
     (if 12 \<le> length (supplied (ci_random c))
      then map_option (\<lambda>s. Inr (take 12 (supplied (ci_random c)) @ s)) (gcm_Seal E (take 12 (supplied (ci_random c))) p)
      else Some (Inl (ErrWrap ''secrets: generate nonce: %w'' [] (projl (fst (ReadFull 12 (ci_random c)))))))"
proof (cases "12 \<le> length (supplied (ci_random c))")
  case True
  then show ?thesis using ReadFull_ok [OF True] assms
    by (auto simp: secrets_Encrypt_def split: prod.splits)
next
  case False
  then obtain e where "fst (ReadFull 12 (ci_random c)) = Inl e" using ReadFull_short [of "ci_random c" 12] by auto
  then show ?thesis using False assms by (auto simp: secrets_Encrypt_def split: prod.splits)
qed

lemma NewCipher_Inr: "NewCipher rand key = Inr c \<Longrightarrow>
    length key = 32 \<and> c = \<lparr>ci_aead = Some (aes_Encrypt (round_keys key)), ci_random = rand\<rparr>"
  by (auto simp: NewCipher_def KeySize_def split: if_splits)

text \<open>C22: Encrypted values read back. For a key of 32 bytes and a random source with a nonce to give,
  \<open>Encrypt\<close> of a message within the limit of GCM returns a value 28 bytes longer than the
  message, and a cipher made from the same key, with any random source, decrypts it to the
  message. With too little randomness nothing is encrypted: the reader's error is returned.
\<close>

theorem secrets_encrypt_roundtrip:
  assumes "NewCipher rand key = Inr c" "NewCipher rand' key = Inr c'" "length p \<le> gcm_limit"
  shows "if length (supplied rand) < 12
     then \<exists>e. fst (secrets_Encrypt (Some c) p) = Some (Inl (ErrWrap ''secrets: generate nonce: %w'' [] e))
     else \<exists>ct. fst (secrets_Encrypt (Some c) p) = Some (Inr ct) \<and> length ct = length p + 28 \<and>
            take 12 ct = take 12 (supplied rand) \<and> secrets_Decrypt (Some c') ct = Some (Inr p)"
proof (cases "length (supplied rand) < 12")
  case True
  then show ?thesis using Encrypt_unfold [of c "aes_Encrypt (round_keys key)" p] NewCipher_Inr [OF assms(1)] by simp
next
  case False
  let ?E = "aes_Encrypt (round_keys key)" and ?n = "take 12 (supplied rand)"
  have key: "length key = 32" and c: "ci_aead c = Some ?E" "ci_random c = rand" "ci_aead c' = Some ?E"
    using NewCipher_Inr [OF assms(1)] NewCipher_Inr [OF assms(2)] by simp_all
  have n: "length ?n = 12" using False by simp
  obtain s where s: "gcm_Seal ?E ?n p = Some s" using aes.gcm.seal_total [OF key n assms(3)] by blast
  have len: "length s = length p + 16" using aes.gcm.seal_limit [OF key s] by simp
  have "gcm_Open ?E ?n s = Some (Inr p)" using aes.gcm.unseal_iff [OF key n] s by simp
  then have "secrets_Decrypt (Some c') (?n @ s) = Some (Inr p)" using c(3) n len by (simp add: secrets_Decrypt_def)
  moreover have "fst (secrets_Encrypt (Some c) p) = Some (Inr (?n @ s))"
    using Encrypt_unfold [OF c(1), of p] c(2) s False by simp
  ultimately show ?thesis using False len n by simp
qed

text \<open>C23: Nothing else decrypts. On a configured cipher \<open>Decrypt\<close> never panics; it returns a message
  exactly when the value is what \<open>Encrypt\<close> returns for that message when its nonce is drawn as
  the first twelve bytes of the value, and the one error \<open>ErrInvalidCiphertext\<close> otherwise.
\<close>

theorem secrets_decrypt_authentic:
  assumes "NewCipher rand key = Inr c"
  shows "(secrets_Decrypt (Some c) ct = Some (Inr p) \<longleftrightarrow>
        fst (secrets_Encrypt (Some (c\<lparr>ci_random := [(take 12 ct, None)]\<rparr>)) p) = Some (Inr ct)) \<and>
     (secrets_Decrypt (Some c) ct = Some (Inl ErrInvalidCiphertext) \<or> (\<exists>p. secrets_Decrypt (Some c) ct = Some (Inr p)))"
proof -
  let ?E = "aes_Encrypt (round_keys key)" and ?n = "take 12 ct"
  have key: "length key = 32" and c: "ci_aead c = Some ?E" using NewCipher_Inr [OF assms] by simp_all
  show ?thesis
  proof (cases "12 \<le> length ct")
    case False
    then show ?thesis using Encrypt_unfold [of "c\<lparr>ci_random := [(?n, None)]\<rparr>" ?E p] c by (simp add: secrets_Decrypt_def)
  next
    case True
    then have n: "length ?n = 12" by simp
    have enc: "fst (secrets_Encrypt (Some (c\<lparr>ci_random := [(?n, None)]\<rparr>)) p) = Some (Inr ct) \<longleftrightarrow>
        gcm_Seal ?E ?n p = Some (drop 12 ct)"
      using Encrypt_unfold [of "c\<lparr>ci_random := [(?n, None)]\<rparr>" ?E p] c True n
      by (auto simp: append_eq_conv_conj)
    obtain r where r: "gcm_Open ?E ?n (drop 12 ct) = Some r" using aes.gcm.unseal_total [OF key n] by blast
    have iff: "gcm_Open ?E ?n (drop 12 ct) = Some (Inr q) \<longleftrightarrow> gcm_Seal ?E ?n q = Some (drop 12 ct)" for q
      using aes.gcm.unseal_iff [OF key n] .
    have long: "12 + 16 \<le> length ct" if "gcm_Seal ?E ?n q = Some (drop 12 ct)" for q
      using aes.gcm.seal_limit [OF key that] True by auto
    show ?thesis
    proof (cases "length ct < 28")
      case True
      then have "gcm_Seal ?E ?n p \<noteq> Some (drop 12 ct)" using long [of p] by auto
      then show ?thesis using True enc c by (simp add: secrets_Decrypt_def)
    next
      case False
      then have dec: "secrets_Decrypt (Some c) ct = Some (case r of Inl _ \<Rightarrow> Inl ErrInvalidCiphertext | Inr q \<Rightarrow> Inr q)"
        using r c by (simp add: secrets_Decrypt_def split: sum.split)
      have "r = Inr p \<longleftrightarrow> gcm_Seal ?E ?n p = Some (drop 12 ct)" using iff [of p] unfolding r by simp
      then show ?thesis unfolding dec enc by (cases r) auto
    qed
  qed
qed

text \<open>An opaque value is the random bytes drawn. For a positive size \<open>NewOpaque\<close> returns exactly when the
  reader supplies that many bytes; the value then has \<open>\<lceil>4n/3\<rceil>\<close> characters, all of the URL-safe
  alphabet, and decodes to the bytes drawn, so different draws give different values. A size
  that is not positive is refused before anything is read.
\<close>

theorem secrets_opaque_roundtrip:
  assumes "reader = (case gn_reader g of None \<Rightarrow> rand | Some r \<Rightarrow> r)"
  shows "if n \<le> 0 then generator_NewOpaque rand g n = (Inl ErrInvalidSize, reader)
     else if int (length (supplied reader)) < n
     then \<exists>e. fst (generator_NewOpaque rand g n) = Inl (ErrWrap ''secrets: generate opaque value: %w'' [] e)
     else \<exists>v. fst (generator_NewOpaque rand g n) = Inr v \<and> b64_decode v = take (nat n) (supplied reader) \<and>
            length v = (4 * nat n + 2) div 3 \<and> set v \<subseteq> set b64_alphabet"
proof -
  have short: "\<exists>e. fst (ReadFull (nat n) reader) = Inl e" if "int (length (supplied reader)) < n"
    using that ReadFull_short [of reader "nat n"] by simp
  have full: "fst (ReadFull (nat n) reader) = Inr (take (nat n) (supplied reader))" if "\<not> int (length (supplied reader)) < n"
    using that ReadFull_ok [of "nat n" reader] by simp
  have size: "(8 * m + 5) div 6 = (4 * m + 2) div (3 :: nat)" for m by linarith
  show ?thesis
    using short full assms
    by (auto simp: generator_NewOpaque_def Let_def b64_roundtrip b64_length size b64_url_safe
        dest!: subsetD [OF b64_url_safe] split: prod.splits sum.splits)
qed

subsection \<open>Witnesses\<close>

definition demo_cipher :: "reader \<Rightarrow> Cipher" where
  "demo_cipher rand = \<lparr>ci_aead = Some (aes_Encrypt (round_keys (replicate 32 7))), ci_random = rand\<rparr>"

lemma demo_cipher_new: "NewCipher rand (replicate 32 7) = Inr (demo_cipher rand)"
  by (simp add: NewCipher_def KeySize_def demo_cipher_def)

theorem secrets_encrypt_roundtrip_witness:
  "\<exists>ct. fst (secrets_Encrypt (Some (demo_cipher [(replicate 12 9, None)])) [1, 2, 3]) = Some (Inr ct) \<and>
     length ct = 31 \<and> secrets_Decrypt (Some (demo_cipher [])) ct = Some (Inr [1, 2, 3])"
  using secrets_encrypt_roundtrip [OF demo_cipher_new [of "[(replicate 12 9, None)]"] demo_cipher_new [of "[]"], of "[1, 2, 3]"]
  by (auto simp: gcm_limit_def)

theorem secrets_decrypt_authentic_witness:
  "secrets_Decrypt (Some (demo_cipher [])) (replicate 5 0) = Some (Inl ErrInvalidCiphertext) \<and>
   fst (secrets_Encrypt (Some ((demo_cipher [])\<lparr>ci_random := [(take 12 (replicate 5 0), None)]\<rparr>)) [1]) \<noteq> Some (Inr (replicate 5 0))"
proof -
  have short: "secrets_Decrypt (Some (demo_cipher [])) (replicate 5 0) = Some (Inl ErrInvalidCiphertext)"
    by (simp add: secrets_Decrypt_def demo_cipher_def)
  then show ?thesis using secrets_decrypt_authentic [OF demo_cipher_new [of "[]"], of "replicate 5 0" "[1]"] by auto
qed

theorem secrets_opaque_roundtrip_witness:
  "\<exists>v. fst (generator_NewOpaque [] \<lparr>gn_reader = Some [([1, 2], None), ([3, 4, 5], Some ErrEOF)]\<rparr> 4) = Inr v \<and>
     b64_decode v = [1, 2, 3, 4] \<and> length v = 6"
  using secrets_opaque_roundtrip [of "[([1, 2], None), ([3, 4, 5], Some ErrEOF)]" "[]"
      "\<lparr>gn_reader = Some [([1, 2], None), ([3, 4, 5], Some ErrEOF)]\<rparr>" 4]
  by auto

end
