(* ===== verification/Mail.thy ===== *)
theory Mail
  imports Crypto
begin

text \<open>
  The SMTP transport (\<open>mail/smtp.go\<close>): validation of the configuration and of addresses, the
  text of a message as \<open>net/mail\<close> and \<open>mime\<close> write it, and the dialogue of \<open>Send\<close> as the list of
  what it does on the network. What each action returns, the state of the context and the
  parser \<open>mail.ParseAddress\<close> are arguments; the network may answer by everything it has seen.
\<close>

subsection \<open>Runes\<close>

text \<open>The pieces a \<open>range\<close> over a string visits: a rune's bytes, or one byte that begins no rune.\<close>

definition rune_width :: "string \<Rightarrow> nat" where
  "rune_width s = (case rune_len s of None \<Rightarrow> 1 | Some n \<Rightarrow> n)"

lemma rune_width_pos: "s \<noteq> [] \<Longrightarrow> 0 < rune_width s"
  using rune_len_bounds by (fastforce simp: rune_width_def split: option.splits)

function runes :: "string \<Rightarrow> string list" where
  "runes s = (if s = [] then [] else take (rune_width s) s # runes (drop (rune_width s) s))"
  by pat_completeness auto
termination
  by (relation "measure length") (auto simp: rune_width_pos)

declare runes.simps [simp del]

text \<open>What \<open>WriteRune\<close> writes: an invalid byte was read as U+FFFD.\<close>

definition rune_text :: "string \<Rightarrow> string" where
  "rune_text r = (case r of [c] \<Rightarrow> if byte_in 0x80 0xFF c then [CHR 0xEF, CHR 0xBF, CHR 0xBD] else r | _ \<Rightarrow> r)"

definition isMultibyte :: "string \<Rightarrow> bool" where
  "isMultibyte r = (case r of [c] \<Rightarrow> byte_in 0x80 0xFF c | _ \<Rightarrow> True)"

definition isVchar :: "string \<Rightarrow> bool" where
  "isVchar r \<longleftrightarrow> isMultibyte r \<or> (case r of [c] \<Rightarrow> byte_in 0x21 0x7E c | _ \<Rightarrow> True)"

definition isWSP :: "string \<Rightarrow> bool" where
  "isWSP r \<longleftrightarrow> r = '' '' \<or> r = [CHR 0x09]"

definition isQtext :: "string \<Rightarrow> bool" where
  "isQtext r \<longleftrightarrow> r \<noteq> [CHR 0x5C] \<and> r \<noteq> [CHR 0x22] \<and> isVchar r"

definition isAtext :: "string \<Rightarrow> bool" where
  "isAtext r \<longleftrightarrow> r \<notin> set (map (\<lambda>c. [c]) (''.()<>[]:;@,'' @ [CHR 0x5C, CHR 0x22])) \<and> isVchar r"

subsection \<open>Encoded words of \<open>mime\<close>\<close>

definition needsEncoding :: "string \<Rightarrow> bool" where
  "needsEncoding s \<longleftrightarrow> list_ex (\<lambda>b. \<not> byte_in 0x20 0x7E b \<and> b \<noteq> CHR 0x09) s"

definition upperhex :: "nat \<Rightarrow> char" where
  "upperhex n = ''0123456789ABCDEF'' ! n"

definition q_byte :: "char \<Rightarrow> string" where
  "q_byte b =
     (if b = CHR '' '' then ''_''
      else if byte_in 0x21 0x7E b \<and> b \<noteq> CHR ''='' \<and> b \<noteq> CHR ''?'' \<and> b \<noteq> CHR ''_'' then [b]
      else [CHR ''='', upperhex (of_char b div 16), upperhex (of_char b mod 16)])"

definition writeQString :: "string \<Rightarrow> string" where
  "writeQString s = concat (map q_byte s)"

definition q_len :: "string \<Rightarrow> nat" where
  "q_len r =
     (case r of [b] \<Rightarrow> if byte_in 0x20 0x7E b \<and> b \<noteq> CHR ''='' \<and> b \<noteq> CHR ''?'' \<and> b \<noteq> CHR ''_'' then 1 else 3
      | _ \<Rightarrow> 3 * length r)"

definition maxContentLen :: nat where
  "maxContentLen = 63"

definition maxBase64Len :: nat where
  "maxBase64Len = 45"

text \<open>Runes go into words of a limited length.\<close>

fun pack :: "nat \<Rightarrow> (string \<Rightarrow> nat) \<Rightarrow> nat \<Rightarrow> string \<Rightarrow> string list \<Rightarrow> string list" where
  "pack limit len currentLen word [] = [word]"
| "pack limit len currentLen word (r # rs) =
     (if currentLen + len r > limit then word # pack limit len (len r) r rs
      else pack limit len (currentLen + len r) (word @ r) rs)"

definition StdEncoding :: "bytes \<Rightarrow> string" where
  "StdEncoding bs =
     map (\<lambda>c. if c = CHR ''-'' then CHR ''+'' else if c = CHR ''_'' then CHR ''/'' else c) (RawURLEncoding bs) @
     replicate ((3 - length bs mod 3) mod 3) (CHR ''='')"

definition encoded_word :: "string \<Rightarrow> char \<Rightarrow> string \<Rightarrow> string" where
  "encoded_word charset e content = ''=?'' @ charset @ ''?'' @ [e] @ ''?'' @ content @ ''?=''"

definition QEncode :: "string \<Rightarrow> string \<Rightarrow> string" where
  "QEncode charset s =
     (if \<not> needsEncoding s then s
      else join_with (CHR '' '') (map (\<lambda>w. encoded_word charset (CHR ''q'') (writeQString w))
             (pack maxContentLen q_len 0 [] (runes s))))"

definition BEncode :: "string \<Rightarrow> string \<Rightarrow> string" where
  "BEncode charset s =
     (if \<not> needsEncoding s then s
      else
        (let ws = (if (length s + 2) div 3 * 4 \<le> maxContentLen then [s] else pack maxBase64Len length 0 [] (runes s))
         in join_with (CHR '' '') (map (\<lambda>w. encoded_word charset (CHR ''b'') (StdEncoding (bytes_of w))) ws)))"

subsection \<open>Addresses\<close>

record mail_Address =
  ma_Name :: string
  ma_Address :: string

definition quoteString :: "string \<Rightarrow> string" where
  "quoteString s =
     [CHR 0x22] @
     concat (map (\<lambda>r. if isQtext r \<or> isWSP r then rune_text r
                      else if isVchar r then CHR 0x5C # rune_text r else []) (runes s)) @
     [CHR 0x22]"

fun quote_local :: "char option \<Rightarrow> string list \<Rightarrow> bool" where
  "quote_local before [] = False"
| "quote_local before (r # rs) =
     (if isAtext r \<or> (r = ''.'' \<and> before \<noteq> None \<and> before \<noteq> Some (CHR ''.'') \<and> rs \<noteq> [])
      then quote_local (Some (last r)) rs else True)"

text \<open>\<open>(*mail.Address).String\<close>.\<close>

definition address_String :: "mail_Address \<Rightarrow> string" where
  "address_String a =
     (let (local0, domain) = (case cut_last (CHR ''@'') (ma_Address a) of None \<Rightarrow> (ma_Address a, []) | Some p \<Rightarrow> p);
          local = (if quote_local None (runes local0) then quoteString local0 else local0);
          s = ''<'' @ local @ ''@'' @ domain @ ''>''
      in if ma_Name a = [] then s
         else if list_all (\<lambda>r. (isVchar r \<or> isWSP r) \<and> \<not> isMultibyte r) (runes (ma_Name a))
         then quoteString (ma_Name a) @ '' '' @ s
         else if contains_any (ma_Name a) (CHR 0x22 # CHR 0x27 # ''#$%&(),.:;<>@[]^`{|}~'')
         then BEncode ''utf-8'' (ma_Name a) @ '' '' @ s
         else QEncode ''utf-8'' (ma_Name a) @ '' '' @ s)"

definition CRLF :: string where
  "CRLF = [CHR 0x0D, CHR 0x0A]"

definition validateAddress :: "(string \<Rightarrow> goerr + mail_Address) \<Rightarrow> mail_Address \<Rightarrow> goerr + mail_Address" where
  "validateAddress ParseAddress value =
     (if TrimSpace (ma_Name value) \<noteq> ma_Name value \<or> TrimSpace (ma_Address value) \<noteq> ma_Address value \<or>
         contains_any (ma_Name value @ ma_Address value) CRLF
      then Inl (ErrMsg ''invalid email address'' [])
      else (case ParseAddress (ma_Address value) of
              Inl err \<Rightarrow> Inl (ErrMsg ''invalid email address'' [])
            | Inr parsed \<Rightarrow>
                if ma_Address parsed \<noteq> ma_Address value then Inl (ErrMsg ''invalid email address'' [])
                else Inr \<lparr>ma_Name = ma_Name value, ma_Address = ma_Address value\<rparr>))"

definition ValidateAddress :: "(string \<Rightarrow> goerr + mail_Address) \<Rightarrow> mail_Address \<Rightarrow> goerr option" where
  "ValidateAddress ParseAddress value =
     (case validateAddress ParseAddress value of Inl err \<Rightarrow> Some err | Inr _ \<Rightarrow> None)"

definition mail_render :: "mail_Address \<Rightarrow> mail_Address \<Rightarrow> string \<Rightarrow> string \<Rightarrow> string" where
  "mail_render from to subject body =
     ''From: '' @ address_String from @ CRLF @ ''To: '' @ address_String to @ CRLF @
     ''Subject: '' @ QEncode ''UTF-8'' subject @ CRLF @ ''MIME-Version: 1.0'' @ CRLF @
     ''Content-Type: text/plain; charset=UTF-8'' @ CRLF @ CRLF @ body"

subsection \<open>Configuration\<close>

record tls_Config =
  tc_ServerName :: string
  tc_MinVersion :: int
  tc_InsecureSkipVerify :: bool

definition VersionTLS12 :: int where
  "VersionTLS12 = 0x0303"

record SMTPConfig =
  sm_Host :: string
  sm_Port :: int
  sm_Username :: string
  sm_Password :: string
  sm_StartTLS :: bool
  sm_ImplicitTLS :: bool
  sm_TLSConfig :: "tls_Config option"
  sm_Timeout :: duration

definition contains_text :: "string \<Rightarrow> string \<Rightarrow> bool" where
  "contains_text s t \<longleftrightarrow> list_ex (prefix t) (suffixes s)"

definition NewSMTP :: "SMTPConfig \<Rightarrow> goerr + SMTPConfig" where
  "NewSMTP config0 =
     (let config = config0\<lparr>sm_Host := TrimSpace (sm_Host config0)\<rparr>
      in if sm_Host config = [] \<or> contains_any (sm_Host config) CRLF \<or> contains_text (sm_Host config) ''://'' \<or>
            sm_Port config < 1 \<or> 65535 < sm_Port config
         then Inl (ErrMsg ''mail: invalid SMTP host or port'' [])
         else if sm_StartTLS config \<and> sm_ImplicitTLS config
         then Inl (ErrMsg ''mail: StartTLS and implicit TLS are mutually exclusive'' [])
         else if (sm_Username config = []) \<noteq> (sm_Password config = [])
         then Inl (ErrMsg ''mail: SMTP username and password must be configured together'' [])
         else if sm_Timeout config < 0 then Inl (ErrMsg ''mail: invalid SMTP timeout'' [])
         else
           (let config = (if sm_Timeout config = 0 then config\<lparr>sm_Timeout := 10 * 1000000000\<rparr> else config)
            in case sm_TLSConfig config of
                 None \<Rightarrow> Inr config
               | Some tls \<Rightarrow>
                   if tc_InsecureSkipVerify tls
                   then Inl (ErrMsg ''mail: TLS certificate verification cannot be disabled'' [])
                   else if tc_MinVersion tls \<noteq> 0 \<and> tc_MinVersion tls < VersionTLS12
                   then Inl (ErrMsg ''mail: TLS versions below 1.2 are unsupported'' [])
                   else Inr config))"

definition smtp_tlsConfig :: "SMTPConfig \<Rightarrow> tls_Config" where
  "smtp_tlsConfig c =
     (let config = (case sm_TLSConfig c of
                      None \<Rightarrow> \<lparr>tc_ServerName = [], tc_MinVersion = 0, tc_InsecureSkipVerify = False\<rparr>
                    | Some tls \<Rightarrow> tls);
          config = (if tc_ServerName config = [] then config\<lparr>tc_ServerName := sm_Host c\<rparr> else config)
      in if tc_MinVersion config = 0 then config\<lparr>tc_MinVersion := VersionTLS12\<rparr> else config)"

subsection \<open>The dialogue\<close>

datatype mail_action =
    Dial string
  | SetDeadline
  | Handshake tls_Config
  | NewClient string
  | ClientStartTLS tls_Config
  | AuthPlain string string
  | MailFrom string
  | RcptTo string
  | DataCmd
  | WriteData string
  | CloseData
  | Quit
  | CloseClient
  | CloseConn

text \<open>
  The world of a call: what an action returns after what was done before, what the context and
  its deadline say then, whether the server advertises STARTTLS, and whether the goroutine that
  watches the context has been scheduled by then.
\<close>

record mail_net =
  mn_result :: "mail_action list \<Rightarrow> mail_action \<Rightarrow> goerr option"
  mn_ctx :: "mail_action list \<Rightarrow> goerr option"
  mn_late :: "mail_action list \<Rightarrow> bool"
  mn_starttls :: "mail_action list \<Rightarrow> bool"
  mn_watch :: "mail_action list \<Rightarrow> bool"

type_synonym mail_step = "mail_action list \<Rightarrow> goerr option \<times> mail_action list"

definition transportError :: "mail_net \<Rightarrow> mail_action list \<Rightarrow> string \<Rightarrow> goerr \<Rightarrow> goerr" where
  "transportError net past operation err =
     (case mn_ctx net past of
        Some ctxErr \<Rightarrow> ErrWrap ''mail: SMTP %s: %w'' [operation] ctxErr
      | None \<Rightarrow>
          if mn_late net past then ErrWrap ''mail: SMTP %s: %w'' [operation] ErrDeadline
          else ErrWrap ''mail: SMTP %s failed: %w'' [operation] err)"

text \<open>
  The goroutine of \<open>closeWhenDone\<close> runs beside the dialogue, from the connection on: once it is
  scheduled after the end of the context it closes the connection, and every later action fails.
\<close>

definition conn_closed :: "mail_net \<Rightarrow> mail_action list \<Rightarrow> bool" where
  "conn_closed net past \<longleftrightarrow>
     list_ex (\<lambda>q. q \<noteq> [] \<and> mn_ctx net q \<noteq> None \<and> mn_watch net q) (prefixes past)"

definition closeWhenDone :: "mail_net \<Rightarrow> mail_net" where
  "closeWhenDone net =
     net\<lparr>mn_result := (\<lambda>past act.
       if conn_closed net past then Some (ErrMsg ''use of closed network connection'' [])
       else mn_result net past act)\<rparr>"

text \<open>One action whose error is reported under a name.\<close>

definition perform :: "mail_net \<Rightarrow> string \<Rightarrow> mail_action \<Rightarrow> mail_step" where
  "perform net operation act past =
     (case mn_result net past act of
        None \<Rightarrow> (None, past @ [act])
      | Some err \<Rightarrow> (Some (transportError net (past @ [act]) operation err), past @ [act]))"

fun run_steps :: "mail_step list \<Rightarrow> mail_step" where
  "run_steps [] past = (None, past)"
| "run_steps (s # ss) past = (case s past of (Some err, past') \<Rightarrow> (Some err, past') | (None, past') \<Rightarrow> run_steps ss past')"

definition JoinHostPort :: "string \<Rightarrow> string \<Rightarrow> string" where
  "JoinHostPort host port =
     (if CHR '':'' \<in> set host \<or> CHR ''%'' \<in> set host then ''['' @ host @ '']:'' @ port else host @ '':'' @ port)"

definition isLocalhost :: "string \<Rightarrow> bool" where
  "isLocalhost name \<longleftrightarrow> name = ''localhost'' \<or> name = ''127.0.0.1'' \<or> name = ''::1''"

definition set_deadline_step :: "mail_net \<Rightarrow> mail_step" where
  "set_deadline_step net past =
     (case mn_result net past SetDeadline of
        None \<Rightarrow> (None, past @ [SetDeadline])
      | Some err \<Rightarrow> (Some (ErrWrap ''mail: set SMTP deadline: %w'' [] err), past @ [SetDeadline]))"

definition starttls_steps :: "mail_net \<Rightarrow> SMTPConfig \<Rightarrow> mail_step list" where
  "starttls_steps net c =
     (if sm_StartTLS c
      then [\<lambda>past. (if mn_starttls net past then None
                    else Some (ErrMsg ''mail: SMTP server does not advertise STARTTLS'' []), past),
            perform net ''start TLS'' (ClientStartTLS (smtp_tlsConfig c))]
      else [])"

text \<open>
  \<open>smtp.PlainAuth\<close> refuses a connection without TLS unless the host is the local one; the client
  then quits. The credentials are sent otherwise.
\<close>

definition auth_step :: "mail_net \<Rightarrow> SMTPConfig \<Rightarrow> mail_step" where
  "auth_step net c past =
     (if sm_ImplicitTLS c \<or> sm_StartTLS c \<or> isLocalhost (sm_Host c)
      then perform net ''authenticate'' (AuthPlain (sm_Username c) (sm_Password c)) past
      else (Some (transportError net (past @ [Quit]) ''authenticate'' (ErrMsg ''unencrypted connection'' [])), past @ [Quit]))"

definition write_step :: "mail_net \<Rightarrow> string \<Rightarrow> mail_step" where
  "write_step net raw past =
     (case mn_result net past (WriteData raw) of
        None \<Rightarrow> (None, past @ [WriteData raw])
      | Some err \<Rightarrow>
          (Some (transportError net (past @ [WriteData raw, CloseData]) ''write message data'' err),
           past @ [WriteData raw, CloseData]))"

text \<open>The deferred calls of \<open>Send\<close>.\<close>

definition closing :: "mail_action \<Rightarrow> goerr option \<times> mail_action list \<Rightarrow> goerr option \<times> mail_action list" where
  "closing act r = (fst r, snd r @ [act])"

definition client_steps :: "mail_net \<Rightarrow> SMTPConfig \<Rightarrow> string \<Rightarrow> string \<Rightarrow> string \<Rightarrow> mail_step list" where
  "client_steps net c from to raw =
     starttls_steps net c @
     (if sm_Username c \<noteq> [] then [auth_step net c] else []) @
     [perform net ''set sender'' (MailFrom from), perform net ''set recipient'' (RcptTo to),
      perform net ''start message data'' DataCmd, write_step net raw,
      perform net ''finish message data'' CloseData, perform net ''quit'' Quit]"

definition client_session :: "mail_net \<Rightarrow> SMTPConfig \<Rightarrow> string \<Rightarrow> string \<Rightarrow> string \<Rightarrow> mail_step" where
  "client_session net c from to raw past =
     (case perform net ''initialize SMTP client'' (NewClient (sm_Host c)) past of
        (Some err, past') \<Rightarrow> (Some err, past')
      | (None, past') \<Rightarrow> closing CloseClient (run_steps (client_steps net c from to raw) past'))"

definition connected :: "mail_net \<Rightarrow> SMTPConfig \<Rightarrow> string \<Rightarrow> string \<Rightarrow> string \<Rightarrow> mail_step" where
  "connected net c from to raw past =
     closing CloseConn
       (run_steps
         ([set_deadline_step net] @
          (if sm_ImplicitTLS c then [perform net ''TLS handshake'' (Handshake (smtp_tlsConfig c))] else []) @
          [client_session net c from to raw]) past)"

record mail_Message =
  mm_From :: mail_Address
  mm_To :: mail_Address
  mm_Subject :: string
  mm_Body :: string

definition mail_Send ::
  "(string \<Rightarrow> goerr + mail_Address) \<Rightarrow> mail_net \<Rightarrow> SMTPConfig option \<Rightarrow> mail_Message \<Rightarrow> goerr option \<times> mail_action list" where
  "mail_Send ParseAddress net transport message =
     (case transport of
        None \<Rightarrow> (Some (ErrMsg ''mail: SMTP transport is not configured'' []), [])
      | Some c \<Rightarrow>
          (case validateAddress ParseAddress (mm_From message) of
             Inl err \<Rightarrow> (Some (ErrWrap ''mail: invalid sender: %w'' [] err), [])
           | Inr from \<Rightarrow>
               (case validateAddress ParseAddress (mm_To message) of
                  Inl err \<Rightarrow> (Some (ErrWrap ''mail: invalid recipient: %w'' [] err), [])
                | Inr to \<Rightarrow>
                    if TrimSpace (mm_Subject message) = [] \<or> contains_any (mm_Subject message) CRLF
                    then (Some (ErrMsg ''mail: invalid subject'' []), [])
                    else (case mn_ctx net [] of
                            Some err \<Rightarrow> (Some (ErrWrap ''mail: %w'' [] err), [])
                          | None \<Rightarrow>
                              (case perform net ''connect'' (Dial (JoinHostPort (sm_Host c) (int_dec (sm_Port c)))) [] of
                                 (Some err, past) \<Rightarrow> (Some err, past)
                               | (None, past) \<Rightarrow>
                                   connected (closeWhenDone net) c (ma_Address from) (ma_Address to)
                                     (mail_render from to (mm_Subject message) (mm_Body message)) past)))))"

subsection \<open>Text of one line\<close>

definition one_line :: "string \<Rightarrow> bool" where
  "one_line s \<longleftrightarrow> \<not> contains_any s CRLF"

lemma one_line_iff: "one_line s \<longleftrightarrow> CHR 0x0D \<notin> set s \<and> CHR 0x0A \<notin> set s"
  by (auto simp: one_line_def contains_any_def CRLF_def)

lemma one_line_append [simp]: "one_line (s @ t) \<longleftrightarrow> one_line s \<and> one_line t"
  by (auto simp: one_line_iff)

lemma one_line_Cons: "one_line (c # s) \<longleftrightarrow> c \<noteq> CHR 0x0D \<and> c \<noteq> CHR 0x0A \<and> one_line s"
  by (auto simp: one_line_iff)

lemma one_line_Nil [simp]: "one_line []"
  by (simp add: one_line_iff)

lemma one_line_concat: "one_line (concat ss) \<longleftrightarrow> (\<forall>s \<in> set ss. one_line s)"
  by (auto simp: one_line_iff)

lemma one_line_subset: "one_line s \<Longrightarrow> set t \<subseteq> set s \<Longrightarrow> one_line t"
  by (auto simp: one_line_iff)

lemma one_line_join: "\<forall>s \<in> set ss. one_line s \<Longrightarrow> c \<noteq> CHR 0x0D \<Longrightarrow> c \<noteq> CHR 0x0A \<Longrightarrow> one_line (join_with c ss)"
  by (induction c ss rule: join_with.induct) (simp_all add: one_line_Cons)

lemma upperhex_line: "list_all (\<lambda>n. one_line [upperhex n]) [0..<16]"
  by code_simp

lemma q_byte_line: "one_line (q_byte b)"
proof -
  have "(of_char b :: nat) < 16 * 16" by simp
  from less_mult_imp_div_less [OF this]
  have "of_char b div 16 \<in> set [0..<16]" "of_char b mod 16 \<in> set [0..<(16 :: nat)]" by simp_all
  then have "one_line [upperhex (of_char b div 16)]" "one_line [upperhex (of_char b mod 16)]"
    using upperhex_line unfolding list_all_iff by blast+
  then show ?thesis by (auto simp: q_byte_def byte_in_def one_line_Cons)
qed

lemma writeQString_line: "one_line (writeQString s)"
  by (simp add: writeQString_def one_line_concat q_byte_line)

lemma alphabet_line: "one_line b64_alphabet"
  by code_simp

lemma StdEncoding_line: "one_line (StdEncoding bs)"
proof -
  have "one_line (RawURLEncoding bs)" using one_line_subset [OF alphabet_line b64_url_safe] .
  then show ?thesis by (auto simp: StdEncoding_def one_line_iff)
qed

lemma encoded_word_line: "one_line charset \<Longrightarrow> one_line [e] \<Longrightarrow> one_line content \<Longrightarrow> one_line (encoded_word charset e content)"
  by (simp add: encoded_word_def one_line_Cons)

lemma plain_line: "\<not> needsEncoding s \<Longrightarrow> one_line s"
  by (auto simp: needsEncoding_def list_ex_iff one_line_iff byte_in_def)

lemma QEncode_line: "one_line charset \<Longrightarrow> one_line (QEncode charset s)"
  by (auto simp: QEncode_def plain_line intro!: one_line_join encoded_word_line writeQString_line)
    (simp_all add: one_line_Cons)

lemma BEncode_line: "one_line charset \<Longrightarrow> one_line (BEncode charset s)"
  by (auto simp: BEncode_def Let_def plain_line intro!: one_line_join encoded_word_line StdEncoding_line)
    (simp_all add: one_line_Cons)

lemma concat_runes: "concat (runes s) = s"
  by (induction s rule: runes.induct) (subst runes.simps, simp)

lemma rune_text_line: "one_line r \<Longrightarrow> one_line (rune_text r)"
  by (auto simp: rune_text_def one_line_Cons split: list.splits)

lemma quoteString_line:
  assumes "one_line s" shows "one_line (quoteString s)"
proof -
  have "\<forall>r \<in> set (runes s). one_line r" using assms concat_runes [of s] one_line_concat [of "runes s"] by simp
  then show ?thesis
    by (auto simp: quoteString_def one_line_Cons one_line_concat intro!: rune_text_line)
qed

lemma cut_last_Some: "cut_last c s = Some (a, b) \<Longrightarrow> s = a @ c # b \<and> c \<notin> set b"
  by (auto simp: cut_last_def split: option.splits dest!: cut_at_Some)
    (metis append_Cons append_Nil append_assoc rev.simps(2) rev_append rev_rev_ident)

lemma address_String_line:
  assumes "one_line (ma_Name a)" "one_line (ma_Address a)"
  shows "one_line (address_String a)"
proof -
  obtain l d where ld: "(case cut_last (CHR ''@'') (ma_Address a) of None \<Rightarrow> (ma_Address a, []) | Some p \<Rightarrow> p) = (l, d)"
    by (meson surj_pair)
  then have "set l \<subseteq> set (ma_Address a)" "set d \<subseteq> set (ma_Address a)"
    by (auto split: option.splits dest!: cut_last_Some)
  then have "one_line l" "one_line d" using assms(2) one_line_subset by blast+
  then have s: "one_line (''<'' @ (if quote_local None (runes l) then quoteString l else l) @ ''@'' @ d @ ''>'')"
    by (simp add: one_line_Cons quoteString_line)
  have utf8: "one_line ''utf-8''" by (simp add: one_line_Cons)
  show ?thesis
    using s quoteString_line [OF assms(1)] QEncode_line [OF utf8] BEncode_line [OF utf8]
    unfolding address_String_def ld Let_def prod.case by (simp add: one_line_Cons)
qed

end
