(* ===== verification/MailTheorems.thy ===== *)
theory MailTheorems
  imports Mail
begin

text \<open>
  The dialogue of \<open>Send\<close> against its script, the list of actions of a delivery that goes well,
  and the properties of the transport: no header injection, TLS before anything that matters,
  and delivery exactly when the whole script was performed.
\<close>

subsection \<open>Scripts\<close>

text \<open>Every action of a list succeeds, one after the other.\<close>

fun went_well :: "mail_net \<Rightarrow> mail_action list \<Rightarrow> mail_action list \<Rightarrow> bool" where
  "went_well net past [] = True"
| "went_well net past (a # as) = (mn_result net past a = None \<and> went_well net (past @ [a]) as)"

lemma went_well_append: "went_well net past (as @ bs) \<longleftrightarrow> went_well net past as \<and> went_well net (past @ as) bs"
  by (induction as arbitrary: past) simp_all

definition cleanup :: "mail_action set" where
  "cleanup = {Quit, CloseData, CloseClient, CloseConn}"

text \<open>
  A step follows a script: on success it performed all of it, each action successfully, and then
  the closing actions \<open>cs\<close>; on failure it performed a beginning of it, of which only the last
  action can have failed, and actions that clean up.
\<close>

definition follows :: "mail_net \<Rightarrow> mail_step \<Rightarrow> mail_action list \<Rightarrow> mail_action list \<Rightarrow> bool" where
  "follows net s as cs \<longleftrightarrow> (\<forall>past.
     (s past = (None, past @ as @ cs) \<and> went_well net past as) \<or>
     (\<exists>e k cl. s past = (Some e, past @ take k as @ cl) \<and> set cl \<subseteq> cleanup \<and> went_well net past (take (k - 1) as)))"

lemma follows_cases:
  assumes "follows net s as cs"
  obtains (well) "s past = (None, past @ as @ cs)" "went_well net past as"
    | (failed) e k cl where "s past = (Some e, past @ take k as @ cl)" "set cl \<subseteq> cleanup" "went_well net past (take (k - 1) as)"
  using assms unfolding follows_def by metis

lemma went_well_take: "went_well net past as \<Longrightarrow> went_well net past (take n as)"
  using went_well_append [of net past "take n as" "drop n as"] by simp

lemma follows_Nil: "follows net (run_steps []) [] []"
  by (simp add: follows_def)

lemma run_steps_snoc:
  "run_steps (ss @ [s]) past =
     (case run_steps ss past of (Some e, past') \<Rightarrow> (Some e, past') | (None, past') \<Rightarrow> s past')"
  by (induction ss past rule: run_steps.induct) (auto split: prod.splits option.splits)

lemma follows_snoc:
  assumes "follows net (run_steps ss) as []" "follows net s bs cs"
  shows "follows net (run_steps (ss @ [s])) (as @ bs) cs"
  unfolding follows_def
proof
  fix past
  show "(run_steps (ss @ [s]) past = (None, past @ (as @ bs) @ cs) \<and> went_well net past (as @ bs)) \<or>
     (\<exists>e k cl. run_steps (ss @ [s]) past = (Some e, past @ take k (as @ bs) @ cl) \<and> set cl \<subseteq> cleanup \<and>
        went_well net past (take (k - 1) (as @ bs)))"
  proof (cases rule: follows_cases [OF assms(1), of past])
    case (2 e k cl)
    note failed = 2
    have "take (min k (length as)) (as @ bs) = take k as" by (simp add: min_def)
    moreover have "take (min k (length as) - 1) (as @ bs) = take (min k (length as) - 1) (take (k - 1) as)"
      by (auto simp: min_def)
    ultimately show ?thesis
      using failed went_well_take [OF failed(3), of "min k (length as) - 1"]
      by (intro disjI2 exI [of _ e] exI [of _ "min k (length as)"] exI [of _ cl]) (simp add: run_steps_snoc)
  next
    case 1
    note well = 1
    from well have run: "run_steps (ss @ [s]) past = s (past @ as)" by (simp add: run_steps_snoc)
    show ?thesis
    proof (cases rule: follows_cases [OF assms(2), of "past @ as"])
      case 1
      then show ?thesis using run well by (simp add: went_well_append)
    next
      case (2 e k cl)
      have "went_well net past (take (length as + k - 1) (as @ bs))"
        using well 2(3) went_well_take [of net past as "length as - 1"]
        by (cases k) (simp_all add: went_well_append)
      then show ?thesis
        using run 2 by (intro disjI2 exI [of _ e] exI [of _ "length as + k"] exI [of _ cl]) simp
    qed
  qed
qed

lemma follows_empty:
  assumes "\<And>past. s past = (None, past) \<or> (\<exists>e. s past = (Some e, past))" shows "follows net s [] []"
  unfolding follows_def using assms by (metis append_Nil2 empty_subsetI list.set(1) take_Nil went_well.simps(1))

lemma follows_failing:
  assumes "\<And>past. \<exists>e. s past = (Some e, past @ [Quit])" shows "follows net s [] []"
  unfolding follows_def
proof
  fix past
  obtain e where "s past = (Some e, past @ [Quit])" using assms by blast
  then show "(s past = (None, past @ [] @ []) \<and> went_well net past []) \<or>
     (\<exists>e k cl. s past = (Some e, past @ take k [] @ cl) \<and> set cl \<subseteq> cleanup \<and> went_well net past (take (k - 1) []))"
    by (intro disjI2 exI [of _ e] exI [of _ 0] exI [of _ "[Quit]"]) (simp add: cleanup_def)
qed

lemma follows_single:
  assumes "\<And>past. mn_result net past a = None \<Longrightarrow> s past = (None, past @ [a])"
    "\<And>past. mn_result net past a \<noteq> None \<Longrightarrow> \<exists>e cl. s past = (Some e, past @ [a] @ cl) \<and> set cl \<subseteq> cleanup"
  shows "follows net s [a] []"
  unfolding follows_def
proof
  fix past
  show "(s past = (None, past @ [a] @ []) \<and> went_well net past [a]) \<or>
     (\<exists>e k cl. s past = (Some e, past @ take k [a] @ cl) \<and> set cl \<subseteq> cleanup \<and> went_well net past (take (k - 1) [a]))"
  proof (cases "mn_result net past a = None")
    case False
    then obtain e cl where "s past = (Some e, past @ [a] @ cl)" "set cl \<subseteq> cleanup" using assms(2) by blast
    then show ?thesis by (intro disjI2 exI [of _ e] exI [of _ 1] exI [of _ cl]) simp
  qed (simp add: assms(1))
qed

lemma follows_perform: "follows net (perform net op a) [a] []"
  by (rule follows_single) (auto simp: perform_def split: option.splits)

lemma follows_deadline: "follows net (set_deadline_step net) [SetDeadline] []"
  by (rule follows_single) (auto simp: set_deadline_step_def split: option.splits)

lemma follows_write: "follows net (write_step net raw) [WriteData raw] []"
  by (rule follows_single) (auto simp: write_step_def cleanup_def split: option.splits)

lemma follows_closing:
  assumes "follows net s as cs" "a \<in> cleanup"
  shows "follows net (\<lambda>past. closing a (s past)) as (cs @ [a])"
  unfolding follows_def
proof
  fix past
  show "(closing a (s past) = (None, past @ as @ cs @ [a]) \<and> went_well net past as) \<or>
     (\<exists>e k cl. closing a (s past) = (Some e, past @ take k as @ cl) \<and> set cl \<subseteq> cleanup \<and> went_well net past (take (k - 1) as))"
  proof (cases rule: follows_cases [OF assms(1), of past])
    case (2 e k cl)
    note failed = 2
    show ?thesis using failed assms(2)
      by (intro disjI2 exI [of _ e] exI [of _ k] exI [of _ "cl @ [a]"]) (simp add: closing_def)
  qed (simp add: closing_def)
qed

subsection \<open>The script of a delivery\<close>

definition tls_actions :: "SMTPConfig \<Rightarrow> mail_action list" where
  "tls_actions c = [Handshake (smtp_tlsConfig c), ClientStartTLS (smtp_tlsConfig c)]"

definition may_authenticate :: "SMTPConfig \<Rightarrow> bool" where
  "may_authenticate c \<longleftrightarrow> sm_ImplicitTLS c \<or> sm_StartTLS c \<or> isLocalhost (sm_Host c)"

definition client_script :: "SMTPConfig \<Rightarrow> string \<Rightarrow> string \<Rightarrow> string \<Rightarrow> mail_action list" where
  "client_script c from to raw =
     (if sm_StartTLS c then [ClientStartTLS (smtp_tlsConfig c)] else []) @
     (if sm_Username c \<noteq> [] \<and> may_authenticate c then [AuthPlain (sm_Username c) (sm_Password c)] else []) @
     [MailFrom from, RcptTo to, DataCmd, WriteData raw, CloseData, Quit]"

definition mail_script :: "SMTPConfig \<Rightarrow> string \<Rightarrow> string \<Rightarrow> string \<Rightarrow> mail_action list" where
  "mail_script c from to raw =
     [Dial (JoinHostPort (sm_Host c) (int_dec (sm_Port c))), SetDeadline] @
     (if sm_ImplicitTLS c then [Handshake (smtp_tlsConfig c)] else []) @
     [NewClient (sm_Host c)] @ client_script c from to raw"

lemma follows_list:
  assumes "list_all2 (\<lambda>s as. follows net s as []) ss ass"
  shows "follows net (run_steps ss) (concat ass) []"
  using assms
proof (induction ss arbitrary: ass rule: rev_induct)
  case Nil
  then show ?case using follows_Nil by (simp only: list_all2_Nil concat.simps)
next
  case (snoc s ss)
  then obtain bss bs where "ass = bss @ [bs]" "list_all2 (\<lambda>s as. follows net s as []) ss bss" "follows net s bs []"
    by (auto simp: list_all2_append1 list_all2_Cons1)
  then show ?case using follows_snoc [OF snoc.IH, of bss s bs "[]"] by simp
qed

lemma follows_auth:
  "follows net (auth_step net c) (if may_authenticate c then [AuthPlain (sm_Username c) (sm_Password c)] else []) []"
proof (cases "may_authenticate c")
  case True
  then have "auth_step net c = perform net ''authenticate'' (AuthPlain (sm_Username c) (sm_Password c))"
    by (intro ext) (simp add: auth_step_def may_authenticate_def)
  then show ?thesis using True follows_perform by simp
next
  case False
  then show ?thesis by (auto simp: auth_step_def may_authenticate_def intro: follows_failing)
qed

lemma follows_client: "follows net (run_steps (client_steps net c from to raw)) (client_script c from to raw) []"
proof -
  let ?tls = "if sm_StartTLS c then [[], [ClientStartTLS (smtp_tlsConfig c)]] else []"
  let ?auth = "if sm_Username c \<noteq> [] then [if may_authenticate c then [AuthPlain (sm_Username c) (sm_Password c)] else []] else []"
  let ?rest = "[[MailFrom from], [RcptTo to], [DataCmd], [WriteData raw], [CloseData], [Quit]]"
  have tls: "list_all2 (\<lambda>s as. follows net s as []) (starttls_steps net c) ?tls"
    by (simp add: starttls_steps_def follows_perform follows_empty)
  have auth: "list_all2 (\<lambda>s as. follows net s as []) (if sm_Username c \<noteq> [] then [auth_step net c] else []) ?auth"
    using follows_auth by simp
  have "list_all2 (\<lambda>s as. follows net s as []) (client_steps net c from to raw) (?tls @ ?auth @ ?rest)"
    unfolding client_steps_def
    by (intro list_all2_appendI tls auth) (simp add: follows_perform follows_write)
  moreover have "concat (?tls @ ?auth @ ?rest) = client_script c from to raw" by (simp add: client_script_def)
  ultimately show ?thesis using follows_list by metis
qed

lemma follows_session:
  "follows net (client_session net c from to raw) (NewClient (sm_Host c) # client_script c from to raw) [CloseClient]"
proof -
  let ?body = "\<lambda>past. closing CloseClient (run_steps (client_steps net c from to raw) past)"
  have "client_session net c from to raw = run_steps ([perform net ''initialize SMTP client'' (NewClient (sm_Host c))] @ [?body])"
    by (intro ext) (auto simp: client_session_def split: prod.splits option.splits)
  moreover have "follows net ?body (client_script c from to raw) [CloseClient]"
    using follows_closing [OF follows_client, of CloseClient] by (simp add: cleanup_def)
  moreover have "follows net (run_steps [perform net ''initialize SMTP client'' (NewClient (sm_Host c))]) [NewClient (sm_Host c)] []"
    using follows_list [of net "[perform net ''initialize SMTP client'' (NewClient (sm_Host c))]" "[[NewClient (sm_Host c)]]"]
    by (simp add: follows_perform)
  ultimately show ?thesis using follows_snoc by fastforce
qed

lemma follows_send:
  "follows net (run_steps ([perform net ''connect'' (Dial (JoinHostPort (sm_Host c) (int_dec (sm_Port c))))] @
       [connected net c from to raw])) (mail_script c from to raw) [CloseClient, CloseConn]"
proof -
  let ?hs = "if sm_ImplicitTLS c then [perform net ''TLS handshake'' (Handshake (smtp_tlsConfig c))] else []"
  let ?h = "if sm_ImplicitTLS c then [Handshake (smtp_tlsConfig c)] else []"
  let ?tail = "NewClient (sm_Host c) # client_script c from to raw"
  have "follows net (run_steps (set_deadline_step net # ?hs)) (SetDeadline # ?h) []"
    using follows_list [of net "set_deadline_step net # ?hs" "[SetDeadline] # (if sm_ImplicitTLS c then [?h] else [])"]
    by (cases "sm_ImplicitTLS c") (simp_all add: follows_perform follows_deadline)
  from follows_closing [OF follows_snoc [OF this follows_session], of CloseConn]
  have conn: "follows net (connected net c from to raw) ((SetDeadline # ?h) @ ?tail) [CloseClient, CloseConn]"
    unfolding connected_def by (simp add: cleanup_def eta_contract_eq)
  have "follows net (run_steps [perform net ''connect'' (Dial (JoinHostPort (sm_Host c) (int_dec (sm_Port c))))])
      [Dial (JoinHostPort (sm_Host c) (int_dec (sm_Port c)))] []"
    using follows_list [of net "[perform net ''connect'' (Dial (JoinHostPort (sm_Host c) (int_dec (sm_Port c))))]"
        "[[Dial (JoinHostPort (sm_Host c) (int_dec (sm_Port c)))]]"]
    by (simp add: follows_perform)
  from follows_snoc [OF this conn] show ?thesis by (simp add: mail_script_def)
qed

text \<open>The watching goroutine only adds failures, and none to the dialing.\<close>

lemma closeWhenDone_sel [simp]:
  "mn_ctx (closeWhenDone net) = mn_ctx net" "mn_late (closeWhenDone net) = mn_late net"
  "mn_starttls (closeWhenDone net) = mn_starttls net" "mn_result (closeWhenDone net) [] = mn_result net []"
  by (simp_all add: closeWhenDone_def conn_closed_def fun_eq_iff)

lemma closeWhenDone_result: "mn_result (closeWhenDone net) past a = None \<Longrightarrow> mn_result net past a = None"
  by (simp add: closeWhenDone_def split: if_splits)

lemma closeWhenDone_dial: "perform (closeWhenDone net) op a [] = perform net op a []"
  by (simp add: perform_def transportError_def split: option.split)

lemma went_well_closed: "went_well (closeWhenDone net) past as \<Longrightarrow> went_well net past as"
  by (induction as arbitrary: past) (auto dest: closeWhenDone_result)

lemma send_accepted:
  assumes "validateAddress ParseAddress (mm_From m) = Inr from" "validateAddress ParseAddress (mm_To m) = Inr to"
    "TrimSpace (mm_Subject m) \<noteq> []" "\<not> contains_any (mm_Subject m) CRLF" "mn_ctx net [] = None"
  shows "mail_Send ParseAddress net (Some c) m =
     run_steps ([perform (closeWhenDone net) ''connect'' (Dial (JoinHostPort (sm_Host c) (int_dec (sm_Port c))))] @
       [connected (closeWhenDone net) c (ma_Address from) (ma_Address to)
          (mail_render from to (mm_Subject m) (mm_Body m))]) []"
  using assms by (auto simp: mail_Send_def closeWhenDone_dial split: prod.splits option.splits)

lemma send_refused:
  "snd (mail_Send ParseAddress net (Some c) m) \<noteq> [] \<or> fst (mail_Send ParseAddress net (Some c) m) = None \<Longrightarrow>
   \<exists>from to. validateAddress ParseAddress (mm_From m) = Inr from \<and> validateAddress ParseAddress (mm_To m) = Inr to \<and>
     TrimSpace (mm_Subject m) \<noteq> [] \<and> \<not> contains_any (mm_Subject m) CRLF \<and> mn_ctx net [] = None"
  by (auto simp: mail_Send_def split: sum.splits if_splits option.splits prod.splits)

lemma validated:
  assumes "validateAddress ParseAddress a = Inr b" shows "b = a" "one_line (ma_Name a)" "one_line (ma_Address a)"
  using assms by (auto simp: validateAddress_def one_line_def contains_any_def split: if_splits sum.splits)

text \<open>The trace of a call that did anything: a beginning of the script and the clean-up.\<close>

lemma send_trace:
  assumes "mail_Send ParseAddress net (Some c) m = (res, trace)" "trace \<noteq> []"
  obtains k cl where "trace = take k (mail_script c (ma_Address (mm_From m)) (ma_Address (mm_To m))
        (mail_render (mm_From m) (mm_To m) (mm_Subject m) (mm_Body m))) @ cl"
    "set cl \<subseteq> cleanup"
    "went_well (closeWhenDone net) [] (take (k - 1) (mail_script c (ma_Address (mm_From m)) (ma_Address (mm_To m))
        (mail_render (mm_From m) (mm_To m) (mm_Subject m) (mm_Body m))))"
proof -
  let ?raw = "mail_render (mm_From m) (mm_To m) (mm_Subject m) (mm_Body m)"
  let ?script = "mail_script c (ma_Address (mm_From m)) (ma_Address (mm_To m)) ?raw"
  obtain sender receiver where v: "validateAddress ParseAddress (mm_From m) = Inr sender" "validateAddress ParseAddress (mm_To m) = Inr receiver"
    "TrimSpace (mm_Subject m) \<noteq> []" "\<not> contains_any (mm_Subject m) CRLF" "mn_ctx net [] = None"
    using send_refused [of ParseAddress net c m] assms by auto
  note run = send_accepted [OF v, of c, unfolded validated(1) [OF v(1)] validated(1) [OF v(2)] assms(1)]
  show ?thesis
  proof (cases rule: follows_cases [OF follows_send, of "closeWhenDone net" c "ma_Address (mm_From m)" "ma_Address (mm_To m)" ?raw "[]"])
    case 1
    then show ?thesis
      using run went_well_take that [of "length ?script" "[CloseClient, CloseConn]"] by (simp add: cleanup_def)
  next
    case (2 e k cl)
    then show ?thesis using run that [of k cl] by simp
  qed
qed

lemma send_delivered:
  assumes "mail_Send ParseAddress net (Some c) m = (res, trace)" and "res = None"
  shows "trace = mail_script c (ma_Address (mm_From m)) (ma_Address (mm_To m))
       (mail_render (mm_From m) (mm_To m) (mm_Subject m) (mm_Body m)) @ [CloseClient, CloseConn] \<and>
     went_well (closeWhenDone net) [] (mail_script c (ma_Address (mm_From m)) (ma_Address (mm_To m))
       (mail_render (mm_From m) (mm_To m) (mm_Subject m) (mm_Body m)))"
proof -
  obtain sender receiver where v: "validateAddress ParseAddress (mm_From m) = Inr sender" "validateAddress ParseAddress (mm_To m) = Inr receiver"
    "TrimSpace (mm_Subject m) \<noteq> []" "\<not> contains_any (mm_Subject m) CRLF" "mn_ctx net [] = None"
    using send_refused [of ParseAddress net c m] assms by auto
  note run = send_accepted [OF v, of c, unfolded validated(1) [OF v(1)] validated(1) [OF v(2)] assms(1)]
  show ?thesis
    using follows_cases [OF follows_send, of "closeWhenDone net" c "ma_Address (mm_From m)" "ma_Address (mm_To m)"
        "mail_render (mm_From m) (mm_To m) (mm_Subject m) (mm_Body m)" "[]"] run assms(2)
    by (metis append_Nil prod.inject option.simps(3))
qed

subsection \<open>Properties\<close>

text \<open>C25: Headers cannot be injected. Whatever a message contains and whatever the server answers, what
  \<open>Send\<close> writes as message data is five header lines, an empty line and the body, and neither a
  header line nor the address of a MAIL or RCPT command contains a carriage return or a line
  feed; so the headers end where the code ends them.
\<close>

theorem mail_no_injection:
  assumes "mail_Send ParseAddress net (Some c) m = (res, trace)"
  shows "(\<forall>raw. WriteData raw \<in> set trace \<longrightarrow>
        (\<exists>headers. length headers = 5 \<and> (\<forall>h \<in> set headers. one_line h) \<and>
           raw = concat (map (\<lambda>h. h @ CRLF) headers) @ CRLF @ mm_Body m)) \<and>
     (\<forall>a. MailFrom a \<in> set trace \<or> RcptTo a \<in> set trace \<longrightarrow> one_line a)"
proof (cases "trace = []")
  case False
  let ?raw = "mail_render (mm_From m) (mm_To m) (mm_Subject m) (mm_Body m)"
  let ?script = "mail_script c (ma_Address (mm_From m)) (ma_Address (mm_To m)) ?raw"
  obtain k cl where t: "trace = take k ?script @ cl" "set cl \<subseteq> cleanup" using send_trace [OF assms False] by metis
  then have acts: "a \<in> set trace \<Longrightarrow> a \<in> set ?script \<or> a \<in> cleanup" for a using set_take_subset by fastforce
  obtain sender receiver where v: "validateAddress ParseAddress (mm_From m) = Inr sender" "validateAddress ParseAddress (mm_To m) = Inr receiver"
    using send_refused [of ParseAddress net c m] assms False by auto
  note lines = validated(2,3) [OF v(1)] validated(2,3) [OF v(2)]
  have raw: "raw = ?raw" if "WriteData raw \<in> set trace" for raw
    using acts [OF that] by (auto simp: mail_script_def client_script_def cleanup_def split: if_splits)
  have addr: "one_line a" if "MailFrom a \<in> set trace \<or> RcptTo a \<in> set trace" for a
    using that acts lines by (fastforce simp: mail_script_def client_script_def cleanup_def split: if_splits)
  let ?hs = "[''From: '' @ address_String (mm_From m), ''To: '' @ address_String (mm_To m),
      ''Subject: '' @ QEncode ''UTF-8'' (mm_Subject m), ''MIME-Version: 1.0'', ''Content-Type: text/plain; charset=UTF-8'']"
  have "one_line ''UTF-8''" by (simp add: one_line_Cons)
  then have "\<forall>h \<in> set ?hs. one_line h"
    using address_String_line lines QEncode_line by (simp add: one_line_Cons)
  moreover have "?raw = concat (map (\<lambda>h. h @ CRLF) ?hs) @ CRLF @ mm_Body m" by (simp add: mail_render_def)
  moreover have "length ?hs = 5" by simp
  ultimately have "\<exists>headers. length headers = 5 \<and> (\<forall>h \<in> set headers. one_line h) \<and>
      ?raw = concat (map (\<lambda>h. h @ CRLF) headers) @ CRLF @ mm_Body m" by (intro exI [of _ ?hs] conjI)
  then show ?thesis using raw addr by blast
qed simp

lemma NewSMTP_tls:
  assumes "NewSMTP config = Inr c"
  shows "\<not> tc_InsecureSkipVerify (smtp_tlsConfig c)" "VersionTLS12 \<le> tc_MinVersion (smtp_tlsConfig c)"
    "tc_ServerName (smtp_tlsConfig c) \<noteq> []" "\<not> (sm_StartTLS c \<and> sm_ImplicitTLS c)"
  using assms by (auto simp: NewSMTP_def smtp_tlsConfig_def Let_def VersionTLS12_def split: if_splits option.splits)

lemma in_script_after:
  assumes "pre @ act # post = take k (as @ t # bs) @ cl" "act \<notin> set cl" "act \<notin> set as" "act \<noteq> t"
    "went_well net [] (take (k - 1) (as @ t # bs))"
  obtains pre2 where "pre = as @ t # pre2" "mn_result net as t = None"
proof -
  let ?s = "take k (as @ t # bs)"
  have "length pre < length ?s"
  proof (rule ccontr)
    assume "\<not> length pre < length ?s"
    then have "pre = ?s @ drop (length ?s) pre" using assms(1) by (metis append_eq_append_conv_if append_take_drop_id not_less)
    then have "drop (length ?s) pre @ act # post = cl" using assms(1) by (metis append.assoc same_append_eq)
    then show False using assms(2) by auto
  qed
  then have nth: "?s ! length pre = act" and pre: "pre = take (length pre) ?s"
    using assms(1) by (metis nth_append nth_append_length, metis append_eq_conv_conj less_imp_le_nat take_all_iff take_append diff_is_0_eq take_eq_Nil append_Nil2)
  have k: "length pre < k" using \<open>length pre < length ?s\<close> by simp
  then have at: "(as @ t # bs) ! length pre = act" using nth nth_take [OF k, of "as @ t # bs"] by (simp only:)
  have "length as < length pre"
    using at assms(3,4) by (metis nth_append nth_append_length nth_mem linorder_neqE_nat)
  then obtain d where d: "length pre = length as + Suc d" using less_imp_Suc_add by (metis add_Suc_right)
  have "pre = as @ t # take d bs" using pre k d by (simp add: min_def)
  moreover have "went_well net [] (as @ [t])"
  proof -
    have "length as + 1 \<le> k - 1" using k d by simp
    then have "take (length as + 1) (take (k - 1) (as @ t # bs)) = as @ [t]" by (simp add: min_def)
    then show ?thesis using went_well_take [OF assms(5), of "length as + 1"] by simp
  qed
  ultimately show ?thesis using that by (simp add: went_well_append)
qed

text \<open>C24: TLS comes first. On a transport \<open>NewSMTP\<close> accepted, with StartTLS or implicit TLS, every action
  that sends credentials, an address or the message comes after a TLS handshake that
  succeeded, so a server that drops STARTTLS from its greeting gets nothing; without TLS the
  credentials are sent to the local host only. Each handshake uses a configuration that
  verifies certificates for a named server and accepts no version below TLS 1.2.
\<close>

theorem mail_tls_enforced:
  assumes "NewSMTP config = Inr c" "mail_Send ParseAddress net (Some c) m = (res, pre @ act # post)"
    "(\<exists>u p. act = AuthPlain u p) \<or>
     (sm_StartTLS c \<or> sm_ImplicitTLS c) \<and> ((\<exists>a. act = MailFrom a \<or> act = RcptTo a) \<or> (\<exists>raw. act = WriteData raw))"
  shows "(\<not> sm_StartTLS c \<and> \<not> sm_ImplicitTLS c \<and> isLocalhost (sm_Host c)) \<or>
     (\<exists>pre1 cfg tls pre2. pre = pre1 @ tls # pre2 \<and> (tls = Handshake cfg \<or> tls = ClientStartTLS cfg) \<and>
        mn_result net pre1 tls = None \<and>
        \<not> tc_InsecureSkipVerify cfg \<and> VersionTLS12 \<le> tc_MinVersion cfg \<and> tc_ServerName cfg \<noteq> [])"
proof -
  let ?raw = "mail_render (mm_From m) (mm_To m) (mm_Subject m) (mm_Body m)"
  let ?f = "ma_Address (mm_From m)" and ?t = "ma_Address (mm_To m)"
  obtain k cl where t: "pre @ act # post = take k (mail_script c ?f ?t ?raw) @ cl" "set cl \<subseteq> cleanup"
    "went_well (closeWhenDone net) [] (take (k - 1) (mail_script c ?f ?t ?raw))"
    using send_trace [OF assms(2)] by blast
  have cl: "act \<notin> set cl" using t(2) assms(3) by (auto simp: cleanup_def)
  have in_script: "act \<in> set (mail_script c ?f ?t ?raw)"
    using arg_cong [OF t(1), of set] cl set_take_subset by fastforce
  let ?dial = "[Dial (JoinHostPort (sm_Host c) (int_dec (sm_Port c))), SetDeadline]"
  have before: "act \<notin> set ?dial" "act \<noteq> NewClient (sm_Host c)" "act \<noteq> Handshake (smtp_tlsConfig c)"
    "act \<noteq> ClientStartTLS (smtp_tlsConfig c)" using assms(3) by auto
  note cfg = NewSMTP_tls(1-3) [OF assms(1)]
  show ?thesis
  proof (cases "sm_ImplicitTLS c \<or> sm_StartTLS c")
    case False
    then have "isLocalhost (sm_Host c)"
      using in_script assms(3) by (auto simp: mail_script_def client_script_def may_authenticate_def split: if_splits)
    then show ?thesis using False by simp
  next
    case True
    obtain as tls bs where script: "mail_script c ?f ?t ?raw = as @ tls # bs" "act \<notin> set as" "act \<noteq> tls"
      "tls = Handshake (smtp_tlsConfig c) \<or> tls = ClientStartTLS (smtp_tlsConfig c)"
    proof (cases "sm_ImplicitTLS c")
      case True
      then show thesis using that [of ?dial "Handshake (smtp_tlsConfig c)"] before by (simp add: mail_script_def)
    next
      case False
      then show thesis
        using True that [of "?dial @ [NewClient (sm_Host c)]" "ClientStartTLS (smtp_tlsConfig c)"] before
        by (simp add: mail_script_def client_script_def)
    qed
    obtain pre2 where "pre = as @ tls # pre2" "mn_result net as tls = None"
      using in_script_after [OF t(1) [unfolded script(1)] cl script(2,3) t(3) [unfolded script(1)]]
        closeWhenDone_result by metis
    then show ?thesis using script(4) cfg by blast
  qed
qed

text \<open>
  Cancellation takes effect. An action attempted after the watching goroutine has closed the
  connection is the last one of the dialogue: what follows is clean-up, and unless the dialogue was
  already over \<open>Send\<close> returns an error.
\<close>

theorem mail_cancellation:
  assumes "mail_Send ParseAddress net (Some c) m = (res, pre @ act # post)" and "conn_closed net pre"
  shows "set post \<subseteq> cleanup \<and> (act \<notin> {CloseClient, CloseConn} \<longrightarrow> res \<noteq> None)"
proof -
  let ?script = "mail_script c (ma_Address (mm_From m)) (ma_Address (mm_To m))
    (mail_render (mm_From m) (mm_To m) (mm_Subject m) (mm_Body m))"
  have fails: "mn_result (closeWhenDone net) pre act \<noteq> None" using assms(2) by (simp add: closeWhenDone_def)
  have stops: "\<not> went_well (closeWhenDone net) [] (pre @ act # rest)" for rest
    using fails by (simp add: went_well_append)
  obtain k cl where t: "pre @ act # post = take k ?script @ cl" "set cl \<subseteq> cleanup"
      "went_well (closeWhenDone net) [] (take (k - 1) ?script)"
    using send_trace [OF assms(1)] by blast
  have "set post \<subseteq> set cl"
  proof (rule ccontr)
    assume "\<not> set post \<subseteq> set cl"
    then obtain ys where ys: "take k ?script = pre @ act # ys" "ys \<noteq> []"
      using t(1) by (auto simp: append_eq_append_conv2 append_eq_Cons_conv Cons_eq_append_conv) (metis empty_iff list.set(1))
    then obtain a as where split: "take k ?script = pre @ act # a # as" by (cases ys) simp_all
    have "take (length pre + 1) (take (k - 1) ?script) = take (length pre + 1) (take k ?script)"
    proof -
      have "length pre + 2 \<le> k" using arg_cong [OF split, of length] by simp
      then have "min (length pre + 1) (k - 1) = length pre + 1" "min (length pre + 1) k = length pre + 1" by linarith+
      then show ?thesis by (simp only: take_take)
    qed
    then have "take (length pre + 1) (take (k - 1) ?script) = pre @ [act]" by (simp add: split)
    then show False using went_well_take [OF t(3), of "length pre + 1"] stops [of "[]"] by simp
  qed
  moreover have "act \<in> {CloseClient, CloseConn}" if "res = None"
  proof -
    have full: "pre @ act # post = ?script @ [CloseClient, CloseConn]" "went_well (closeWhenDone net) [] ?script"
      using send_delivered [OF assms(1) that] by blast+
    then show ?thesis using stops
      by (auto simp: append_eq_append_conv2 append_eq_Cons_conv Cons_eq_append_conv) (metis stops)
  qed
  ultimately show ?thesis using t(2) by blast
qed

text \<open>A step that always goes well, and the calls in which every step does.\<close>

definition succeeds :: "mail_step \<Rightarrow> bool" where
  "succeeds s \<longleftrightarrow> (\<forall>past. fst (s past) = None)"

lemma succeeds_steps: "\<forall>s \<in> set ss. succeeds s \<Longrightarrow> succeeds (run_steps ss)"
  unfolding succeeds_def
proof (intro allI)
  fix past
  assume "\<forall>s \<in> set ss. \<forall>past. fst (s past) = None"
  then show "fst (run_steps ss past) = None"
    by (induction ss past rule: run_steps.induct) (auto split: prod.splits option.splits, metis fst_conv option.distinct(1))
qed

definition cooperative :: "mail_net \<Rightarrow> SMTPConfig \<Rightarrow> bool" where
  "cooperative net c \<longleftrightarrow> (\<forall>past act. mn_result net past act = None) \<and> (sm_StartTLS c \<longrightarrow> (\<forall>past. mn_starttls net past)) \<and>
     (sm_Username c = [] \<or> may_authenticate c)"

lemma cooperative_closeWhenDone:
  "cooperative net c \<Longrightarrow> \<forall>past. mn_ctx net past = None \<Longrightarrow> cooperative (closeWhenDone net) c"
  by (simp add: cooperative_def closeWhenDone_def conn_closed_def list_ex_iff)

lemma cooperative_client:
  assumes "cooperative net c" shows "succeeds (run_steps (client_steps net c a b raw))"
  using assms
  by (intro succeeds_steps)
    (auto simp: client_steps_def starttls_steps_def auth_step_def perform_def write_step_def succeeds_def cooperative_def
      may_authenticate_def split: if_splits)

lemma cooperative_connected:
  assumes "cooperative net c" shows "succeeds (connected net c a b raw)"
proof -
  have "succeeds (client_session net c a b raw)"
    using cooperative_client [OF assms] assms
    by (simp add: succeeds_def client_session_def perform_def cooperative_def closing_def)
  then have "succeeds (run_steps ([set_deadline_step net] @
      (if sm_ImplicitTLS c then [perform net ''TLS handshake'' (Handshake (smtp_tlsConfig c))] else []) @
      [client_session net c a b raw]))"
    using assms by (intro succeeds_steps) (auto simp: succeeds_def set_deadline_step_def perform_def cooperative_def split: if_splits)
  then show ?thesis by (simp add: succeeds_def connected_def closing_def)
qed

text \<open>\<open>Send\<close> reports a delivery exactly when it made one. When it returns no error, it performed the
  whole script of the delivery, each action with success, and closed client and connection;
  a call that connected closes its connection in any case. A valid message is delivered when
  the context does not end, the network does its part and the credentials, if any, may be used.
\<close>

theorem mail_delivery:
  assumes "mail_Send ParseAddress net (Some c) m = (res, trace)"
  shows "let script = mail_script c (ma_Address (mm_From m)) (ma_Address (mm_To m))
       (mail_render (mm_From m) (mm_To m) (mm_Subject m) (mm_Body m)) in
     (res = None \<longrightarrow> trace = script @ [CloseClient, CloseConn] \<and> went_well net [] script) \<and>
     (trace \<noteq> [] \<and> mn_result net [] (hd trace) = None \<longrightarrow> last trace = CloseConn) \<and>
     (ValidateAddress ParseAddress (mm_From m) = None \<and> ValidateAddress ParseAddress (mm_To m) = None \<and>
      TrimSpace (mm_Subject m) \<noteq> [] \<and> one_line (mm_Subject m) \<and> (\<forall>past. mn_ctx net past = None) \<and> cooperative net c \<longrightarrow> res = None)"
proof -
  let ?net = "closeWhenDone net"
  let ?f = "ma_Address (mm_From m)" and ?t = "ma_Address (mm_To m)"
  let ?raw = "mail_render (mm_From m) (mm_To m) (mm_Subject m) (mm_Body m)"
  let ?script = "mail_script c ?f ?t ?raw"
  let ?dial = "perform ?net ''connect'' (Dial (JoinHostPort (sm_Host c) (int_dec (sm_Port c))))"
  have run: "(res, trace) = run_steps ([?dial] @ [connected ?net c ?f ?t ?raw]) []"
    if "validateAddress ParseAddress (mm_From m) = Inr x" "validateAddress ParseAddress (mm_To m) = Inr y"
      "TrimSpace (mm_Subject m) \<noteq> []" "\<not> contains_any (mm_Subject m) CRLF" "mn_ctx net [] = None" for x y
    using send_accepted [OF that, of c] assms(1) validated(1) [OF that(1)] validated(1) [OF that(2)] by simp
  have full: "trace = ?script @ [CloseClient, CloseConn] \<and> went_well ?net [] ?script" if "res = None"
    using send_delivered [OF assms(1) that] .
  have closed: "last trace = CloseConn" if t: "trace \<noteq> []" "mn_result net [] (hd trace) = None"
  proof -
    have r: "(res, trace) = run_steps ([?dial] @ [connected ?net c ?f ?t ?raw]) []"
      using send_refused [of ParseAddress net c m] assms(1) t(1) run by auto
    show ?thesis
    proof (cases "mn_result net [] (Dial (JoinHostPort (sm_Host c) (int_dec (sm_Port c))))")
      case None
      with r show ?thesis by (simp add: perform_def connected_def closing_def split: prod.splits option.splits)
    next
      case (Some e)
      with r t show ?thesis by (simp add: perform_def)
    qed
  qed
  have succ: "res = None"
    if v: "ValidateAddress ParseAddress (mm_From m) = None" "ValidateAddress ParseAddress (mm_To m) = None"
      "TrimSpace (mm_Subject m) \<noteq> []" "one_line (mm_Subject m)" "\<forall>past. mn_ctx net past = None" "cooperative net c"
  proof -
    obtain x y where "validateAddress ParseAddress (mm_From m) = Inr x" "validateAddress ParseAddress (mm_To m) = Inr y"
      using v(1,2) by (auto simp: ValidateAddress_def split: sum.splits)
    then have r: "(res, trace) = run_steps ([?dial] @ [connected ?net c ?f ?t ?raw]) []"
      using run v(3,4,5) by (simp add: one_line_def)
    have "succeeds ?dial" using cooperative_closeWhenDone [OF v(6,5)] by (simp add: succeeds_def perform_def cooperative_def)
    then have "succeeds (run_steps ([?dial] @ [connected ?net c ?f ?t ?raw]))"
      using cooperative_connected [OF cooperative_closeWhenDone [OF v(6,5)]] by (intro succeeds_steps) simp
    then show ?thesis using r unfolding succeeds_def by (metis fst_conv)
  qed
  show ?thesis unfolding Let_def using full closed succ went_well_closed by blast
qed

subsection \<open>Witnesses\<close>

definition demo_message :: mail_Message where
  "demo_message = \<lparr>mm_From = \<lparr>ma_Name = [], ma_Address = ''a@x''\<rparr>, mm_To = \<lparr>ma_Name = [], ma_Address = ''b@y''\<rparr>,
     mm_Subject = ''hi'', mm_Body = ''text''\<rparr>"

definition demo_smtp :: SMTPConfig where
  "demo_smtp = \<lparr>sm_Host = ''h'', sm_Port = 587, sm_Username = ''u'', sm_Password = ''p'', sm_StartTLS = True,
     sm_ImplicitTLS = False, sm_TLSConfig = None, sm_Timeout = 5\<rparr>"

definition demo_net :: mail_net where
  "demo_net = \<lparr>mn_result = (\<lambda>_ _. None), mn_ctx = (\<lambda>_. None), mn_late = (\<lambda>_. False), mn_starttls = (\<lambda>_. True), mn_watch = (\<lambda>_. True)\<rparr>"

definition demo_parse :: "string \<Rightarrow> goerr + mail_Address" where
  "demo_parse s = Inr \<lparr>ma_Name = [], ma_Address = s\<rparr>"

lemma demo_trim:
  "TrimSpace ''a@x'' = ''a@x''" "TrimSpace ''b@y'' = ''b@y''" "TrimSpace ''hi'' = ''hi''" "TrimSpace ''h'' = ''h''"
  by (rule TrimSpace_id, simp add: trimmed_def space_encodings_def suffix_to_prefix)+

lemma demo_NewSMTP: "NewSMTP demo_smtp = Inr demo_smtp"
  by (simp add: NewSMTP_def demo_smtp_def demo_trim contains_any_def CRLF_def contains_text_def Let_def)

lemma demo_valid:
  "validateAddress demo_parse (mm_From demo_message) = Inr (mm_From demo_message)"
  "validateAddress demo_parse (mm_To demo_message) = Inr (mm_To demo_message)"
  by (simp_all add: validateAddress_def demo_parse_def demo_message_def demo_trim contains_any_def CRLF_def)

definition demo_raw :: string where
  "demo_raw = mail_render (mm_From demo_message) (mm_To demo_message) (mm_Subject demo_message) (mm_Body demo_message)"

lemma demo_send:
  "mail_Send demo_parse demo_net (Some demo_smtp) demo_message =
     (None, [Dial (JoinHostPort ''h'' (int_dec 587)), SetDeadline, NewClient ''h'', ClientStartTLS (smtp_tlsConfig demo_smtp)] @
        AuthPlain ''u'' ''p'' # [MailFrom ''a@x'', RcptTo ''b@y'', DataCmd, WriteData demo_raw, CloseData, Quit, CloseClient, CloseConn])"
proof -
  have s: "TrimSpace (mm_Subject demo_message) \<noteq> []" "\<not> contains_any (mm_Subject demo_message) CRLF" "mn_ctx demo_net [] = None"
    by (simp_all add: demo_message_def demo_trim contains_any_def CRLF_def demo_net_def)
  have c: "sm_Host demo_smtp = ''h''" "sm_Port demo_smtp = 587" "sm_Username demo_smtp = ''u''" "sm_Password demo_smtp = ''p''"
    "sm_StartTLS demo_smtp" "\<not> sm_ImplicitTLS demo_smtp" "ma_Address (mm_From demo_message) = ''a@x''"
    "ma_Address (mm_To demo_message) = ''b@y''" by (simp_all add: demo_smtp_def demo_message_def)
  have n: "mn_result demo_net past act = None" "mn_starttls demo_net past"
      "mn_result (closeWhenDone demo_net) past act = None" for past act
    by (simp_all add: demo_net_def closeWhenDone_def conn_closed_def list_ex_iff)
  show ?thesis
    unfolding send_accepted [OF demo_valid s, of demo_smtp] c demo_raw_def [symmetric]
    by (simp add: n c perform_def connected_def closing_def client_session_def set_deadline_step_def client_steps_def
        starttls_steps_def auth_step_def write_step_def)
qed

theorem mail_no_injection_witness:
  "\<exists>headers. length headers = 5 \<and> (\<forall>h \<in> set headers. one_line h) \<and>
     demo_raw = concat (map (\<lambda>h. h @ CRLF) headers) @ CRLF @ ''text''"
  using mail_no_injection [OF demo_send] by (simp add: demo_message_def)

theorem mail_tls_enforced_witness:
  "\<exists>pre1 cfg tls pre2.
     [Dial (JoinHostPort ''h'' (int_dec 587)), SetDeadline, NewClient ''h'', ClientStartTLS (smtp_tlsConfig demo_smtp)] =
       pre1 @ tls # pre2 \<and> (tls = Handshake cfg \<or> tls = ClientStartTLS cfg) \<and> VersionTLS12 \<le> tc_MinVersion cfg"
proof -
  have "isLocalhost (sm_Host demo_smtp) = False" by (simp add: demo_smtp_def isLocalhost_def)
  then show ?thesis using mail_tls_enforced [OF demo_NewSMTP demo_send] by blast
qed

text \<open>The context ends after the greeting; the next action fails and nothing is sent.\<close>

definition ending_net :: mail_net where
  "ending_net = demo_net\<lparr>mn_ctx := (\<lambda>past. if length past < 3 then None else Some ErrCanceled)\<rparr>"

lemma ending_send:
  "\<exists>e. mail_Send demo_parse ending_net (Some demo_smtp) demo_message =
    (Some e, [Dial (JoinHostPort ''h'' (int_dec 587)), SetDeadline, NewClient ''h''] @
       ClientStartTLS (smtp_tlsConfig demo_smtp) # [CloseClient, CloseConn])"
proof -
  have s: "TrimSpace (mm_Subject demo_message) \<noteq> []" "\<not> contains_any (mm_Subject demo_message) CRLF" "mn_ctx ending_net [] = None"
    by (simp_all add: demo_message_def demo_trim contains_any_def CRLF_def ending_net_def)
  have c: "sm_Host demo_smtp = ''h''" "sm_Port demo_smtp = 587" "sm_StartTLS demo_smtp" "\<not> sm_ImplicitTLS demo_smtp"
    by (simp_all add: demo_smtp_def)
  have n: "mn_result (closeWhenDone ending_net) past act =
      (if length past < 3 then None else Some (ErrMsg ''use of closed network connection'' []))" "mn_starttls ending_net past"
    for past act
  proof -
    have "conn_closed ending_net past \<longleftrightarrow> 3 \<le> length past"
      by (auto simp: conn_closed_def list_ex_iff ending_net_def demo_net_def dest: prefix_length_le
          intro!: bexI [of _ past] split: if_splits) (metis le_trans not_le prefix_length_le)
    then show "mn_result (closeWhenDone ending_net) past act =
      (if length past < 3 then None else Some (ErrMsg ''use of closed network connection'' []))"
      by (simp add: closeWhenDone_def) (simp add: ending_net_def demo_net_def)
    show "mn_starttls ending_net past" by (simp add: ending_net_def demo_net_def)
  qed
  have dial: "mn_result ending_net [] act = None" for act by (simp add: ending_net_def demo_net_def)
  show ?thesis
    unfolding send_accepted [OF demo_valid s, of demo_smtp] c
    by (simp add: n c dial perform_def connected_def closing_def client_session_def set_deadline_step_def client_steps_def
        starttls_steps_def)
qed

theorem mail_cancellation_witness:
  "\<exists>e. mail_Send demo_parse ending_net (Some demo_smtp) demo_message =
      (Some e, [Dial (JoinHostPort ''h'' (int_dec 587)), SetDeadline, NewClient ''h''] @
         ClientStartTLS (smtp_tlsConfig demo_smtp) # [CloseClient, CloseConn]) \<and>
    set [CloseClient, CloseConn] \<subseteq> cleanup"
proof -
  have "conn_closed ending_net [Dial (JoinHostPort ''h'' (int_dec 587)), SetDeadline, NewClient ''h'']"
    by (simp add: conn_closed_def ending_net_def demo_net_def)
  then show ?thesis using ending_send mail_cancellation by blast
qed

theorem mail_delivery_witness:
  "last (snd (mail_Send demo_parse demo_net (Some demo_smtp) demo_message)) = CloseConn \<and>
   went_well demo_net [] (mail_script demo_smtp ''a@x'' ''b@y'' demo_raw)"
proof -
  have "last (snd (mail_Send demo_parse demo_net (Some demo_smtp) demo_message)) = CloseConn" by (simp add: demo_send)
  then show ?thesis using mail_delivery [OF demo_send] by (simp add: Let_def demo_raw_def) (simp add: demo_message_def)
qed

end
