(* ===== verification/Scaffold.thy ===== *)
theory Scaffold
  imports GoStrings
begin

text \<open>
  The command \<open>devengine new\<close> (\<open>cmd/devengine/main.go\<close>): the command line as the \<open>flag\<close> package reads
  it, the templates of a new service, and the writing of the files. The file system is a map
  of paths with the errors its calls return; the build information is an argument.
\<close>

subsection \<open>Templates\<close>

text \<open>A template is a text with places for the module path and the application's name.\<close>

datatype tok = Ch char | MODULE | APP

type_synonym template = "tok list"

abbreviation DQ :: char where "DQ \<equiv> CHR 0x22"
abbreviation TAB :: char where "TAB \<equiv> CHR 0x09"
abbreviation NL :: char where "NL \<equiv> CHR 0x0A"

definition Lit :: "string \<Rightarrow> template" where
  "Lit s = map Ch s"

definition line :: "template list \<Rightarrow> template" where
  "line ts = concat ts @ [Ch NL]"

fun tok_text :: "tok \<Rightarrow> string" where
  "tok_text (Ch c) = [c]"
| "tok_text MODULE = ''{{MODULE}}''"
| "tok_text APP = ''{{APP}}''"

definition template_text :: "template \<Rightarrow> string" where
  "template_text t = concat (map tok_text t)"

definition appFile :: template where
  "appFile = concat [
     line [Lit (''package app'')],
     line [],
     line [Lit (''import ('')],
     line [Lit (''    '' @ [DQ] @ ''log/slog'' @ [DQ])],
     line [],
     line [Lit (''    '' @ [DQ] @ ''github.com/andreunix/devengine/engine'' @ [DQ])],
     line [Lit (''    httpmiddleware '' @ [DQ] @ ''github.com/andreunix/devengine/httpx/middleware'' @ [DQ])],
     line [Lit (''    '' @ [DQ]), [MODULE], Lit (''/internal/modules/example'' @ [DQ])],
     line [Lit ('')'')],
     line [],
     line [Lit (''// New constructs and returns a configured engine for the application.'')],
     line [Lit (''// Wire your modules, workers and infrastructure here.'')],
     line [Lit (''func New(logger *slog.Logger, opts ...engine.Option) (*engine.Engine, error) {'')],
     line [Lit (''    base := []engine.Option{'')],
     line [Lit (''        engine.WithName('' @ [DQ]), [APP], Lit ([DQ] @ ''),'')],
     line [Lit (''        engine.WithAddress('' @ [DQ] @ '':8080'' @ [DQ] @ ''),'')],
     line [Lit (''        engine.WithLogger(logger),'')],
     line [Lit (''        engine.WithMiddleware('')],
     line [Lit (''            httpmiddleware.RequestID,'')],
     line [Lit (''            httpmiddleware.Recover(logger),'')],
     line [Lit (''            httpmiddleware.Logging(logger),'')],
     line [Lit (''            httpmiddleware.SecurityHeaders,'')],
     line [Lit (''        ),'')],
     line [Lit (''    }'')],
     line [Lit (''    app := engine.New(append(base, opts...)...)'')],
     line [Lit (''    if err := app.Register(example.New()); err != nil {'')],
     line [Lit (''        return nil, err'')],
     line [Lit (''    }'')],
     line [Lit (''    return app, nil'')],
     line [Lit (''}'')]]"

definition exampleWorkerFile :: template where
  "exampleWorkerFile = concat [
     line [Lit (''package example'')],
     line [],
     line [Lit (''import ('')],
     line [Lit (''    '' @ [DQ] @ ''context'' @ [DQ])],
     line [Lit (''    '' @ [DQ] @ ''log/slog'' @ [DQ])],
     line [Lit (''    '' @ [DQ] @ ''time'' @ [DQ])],
     line [Lit ('')'')],
     line [],
     line [Lit (''type ExampleWorker struct{}'')],
     line [],
     line [Lit (''func NewExampleWorker() *ExampleWorker { return &ExampleWorker{} }'')],
     line [],
     line [Lit (''func (*ExampleWorker) Name() string { return '' @ [DQ] @ ''example-worker'' @ [DQ] @ '' }'')],
     line [],
     line [Lit (''func (*ExampleWorker) Run(ctx context.Context) error {'')],
     line [Lit (''    ticker := time.NewTicker(30 * time.Second)'')],
     line [Lit (''    defer ticker.Stop()'')],
     line [Lit (''    for {'')],
     line [Lit (''        select {'')],
     line [Lit (''        case <-ctx.Done():'')],
     line [Lit (''            return nil'')],
     line [Lit (''        case <-ticker.C:'')],
     line [Lit (''            slog.Info('' @ [DQ] @ ''example worker tick'' @ [DQ] @ '')'')],
     line [Lit (''        }'')],
     line [Lit (''    }'')],
     line [Lit (''}'')]]"

definition serverMainFile :: template where
  "serverMainFile = concat [
     line [Lit (''package main'')],
     line [],
     line [Lit (''import ('')],
     line [Lit (''    '' @ [DQ] @ ''context'' @ [DQ])],
     line [Lit (''    '' @ [DQ] @ ''log/slog'' @ [DQ])],
     line [Lit (''    '' @ [DQ] @ ''os'' @ [DQ])],
     line [],
     line [Lit (''    '' @ [DQ] @ ''github.com/andreunix/devengine/engine'' @ [DQ])],
     line [Lit (''    '' @ [DQ]), [MODULE], Lit (''/internal/app'' @ [DQ])],
     line [Lit ('')'')],
     line [],
     line [Lit (''func main() {'')],
     line [Lit (''    logger := slog.New(slog.NewJSONHandler(os.Stdout, nil))'')],
     line [Lit (''    srv, err := app.New(logger, engine.WithProfile(engine.ProfileHTTP))'')],
     line [Lit (''    if err != nil {'')],
     line [Lit (''        logger.Error('' @ [DQ] @ ''init'' @ [DQ] @ '', '' @ [DQ] @ ''error'' @ [DQ] @ '', err)'')],
     line [Lit (''        os.Exit(1)'')],
     line [Lit (''    }'')],
     line [Lit (''    if err := srv.Run(context.Background()); err != nil {'')],
     line [Lit (''        logger.Error('' @ [DQ] @ ''run'' @ [DQ] @ '', '' @ [DQ] @ ''error'' @ [DQ] @ '', err)'')],
     line [Lit (''        os.Exit(1)'')],
     line [Lit (''    }'')],
     line [Lit (''}'')]]"

definition workerMainFile :: template where
  "workerMainFile = concat [
     line [Lit (''package main'')],
     line [],
     line [Lit (''import ('')],
     line [Lit (''    '' @ [DQ] @ ''context'' @ [DQ])],
     line [Lit (''    '' @ [DQ] @ ''log/slog'' @ [DQ])],
     line [Lit (''    '' @ [DQ] @ ''os'' @ [DQ])],
     line [],
     line [Lit (''    '' @ [DQ] @ ''github.com/andreunix/devengine/engine'' @ [DQ])],
     line [Lit (''    '' @ [DQ]), [MODULE], Lit (''/internal/app'' @ [DQ])],
     line [Lit ('')'')],
     line [],
     line [Lit (''func main() {'')],
     line [Lit (''    logger := slog.New(slog.NewJSONHandler(os.Stdout, nil))'')],
     line [Lit (''    w, err := app.New(logger, engine.WithProfile(engine.ProfileWorker))'')],
     line [Lit (''    if err != nil {'')],
     line [Lit (''        logger.Error('' @ [DQ] @ ''init'' @ [DQ] @ '', '' @ [DQ] @ ''error'' @ [DQ] @ '', err)'')],
     line [Lit (''        os.Exit(1)'')],
     line [Lit (''    }'')],
     line [Lit (''    if err := w.Run(context.Background()); err != nil {'')],
     line [Lit (''        logger.Error('' @ [DQ] @ ''run'' @ [DQ] @ '', '' @ [DQ] @ ''error'' @ [DQ] @ '', err)'')],
     line [Lit (''        os.Exit(1)'')],
     line [Lit (''    }'')],
     line [Lit (''}'')]]"

definition appMainFile :: template where
  "appMainFile = concat [
     line [Lit (''package main'')],
     line [],
     line [Lit (''import ('')],
     line [Lit (''    '' @ [DQ] @ ''context'' @ [DQ])],
     line [Lit (''    '' @ [DQ] @ ''log/slog'' @ [DQ])],
     line [Lit (''    '' @ [DQ] @ ''os'' @ [DQ])],
     line [],
     line [Lit (''    '' @ [DQ] @ ''github.com/andreunix/devengine/engine'' @ [DQ])],
     line [Lit (''    '' @ [DQ]), [MODULE], Lit (''/internal/app'' @ [DQ])],
     line [Lit ('')'')],
     line [],
     line [Lit (''func main() {'')],
     line [Lit (''    logger := slog.New(slog.NewJSONHandler(os.Stdout, nil))'')],
     line [Lit (''    appEngine, err := app.New(logger, engine.WithProfile(engine.ProfileHTTPAndWorker))'')],
     line [Lit (''    if err != nil {'')],
     line [Lit (''        logger.Error('' @ [DQ] @ ''init'' @ [DQ] @ '', '' @ [DQ] @ ''error'' @ [DQ] @ '', err)'')],
     line [Lit (''        os.Exit(1)'')],
     line [Lit (''    }'')],
     line [Lit (''    if err := appEngine.Run(context.Background()); err != nil {'')],
     line [Lit (''        logger.Error('' @ [DQ] @ ''run'' @ [DQ] @ '', '' @ [DQ] @ ''error'' @ [DQ] @ '', err)'')],
     line [Lit (''        os.Exit(1)'')],
     line [Lit (''    }'')],
     line [Lit (''}'')]]"

definition ciWorkflow :: template where
  "ciWorkflow = concat [
     line [Lit (''name: CI'')],
     line [Lit (''on:'')],
     line [Lit (''  push:'')],
     line [Lit (''    branches: [main]'')],
     line [Lit (''  pull_request:'')],
     line [Lit (''jobs:'')],
     line [Lit (''  test:'')],
     line [Lit (''    runs-on: ubuntu-latest'')],
     line [Lit (''    steps:'')],
     line [Lit (''      - uses: actions/checkout@v4'')],
     line [Lit (''      - uses: actions/setup-go@v5'')],
     line [Lit (''        with:'')],
     line [Lit (''          go-version: '' @ [CHR 0x27] @ ''1.27'' @ [CHR 0x27])],
     line [Lit (''          cache: true'')],
     line [Lit (''      - name: gofmt'')],
     line [Lit (''        run: |'')],
     line [Lit (''          out=$(gofmt -l .)'')],
     line [Lit (''          if [ -n '' @ [DQ] @ ''$out'' @ [DQ] @ '' ]; then echo '' @ [DQ] @ ''$out'' @ [DQ] @ ''; exit 1; fi'')],
     line [Lit (''      - name: vet'')],
     line [Lit (''        run: go vet ./...'')],
     line [Lit (''      - name: test'')],
     line [Lit (''        run: go test -race ./...'')]]"

definition exampleModule_head :: template where
  "exampleModule_head = concat [
     line [Lit (''package example'')],
     line [],
     line [Lit (''import ('')],
     line [Lit (''    '' @ [DQ] @ ''net/http'' @ [DQ])],
     line [],
     line [Lit (''    '' @ [DQ] @ ''github.com/andreunix/devengine/engine'' @ [DQ])],
     line [Lit (''    '' @ [DQ] @ ''github.com/andreunix/devengine/httpx'' @ [DQ])],
     line [Lit ('')'')],
     line [],
     line [Lit (''type Module struct{}'')],
     line [],
     line [Lit (''func New() *Module { return &Module{} }'')],
     line [],
     line [Lit (''func (*Module) Name() string { return '' @ [DQ] @ ''example'' @ [DQ] @ '' }'')],
     line [],
     line [Lit (''func (*Module) Register(app *engine.Engine) error {'')],
     line [Lit (''    app.HandleFunc('' @ [DQ] @ ''GET /api/example'' @ [DQ] @ '', func(w http.ResponseWriter, r *http.Request) {'')],
     line [Lit (''        _ = httpx.Encode(w, http.StatusOK, map[string]string{'' @ [DQ] @ ''status'' @ [DQ] @ '': '' @ [DQ] @ ''ok'' @ [DQ] @ ''})'')],
     Lit (''    })'')]"

definition exampleModule_tail :: template where
  "exampleModule_tail = concat [
     line [],
     line [Lit (''    return nil'')],
     line [Lit (''}'')]]"

definition makefile_targets :: template where
  "makefile_targets = concat [
     line [Lit (''.PHONY: test vet fmt run migrate'')],
     line [],
     line [Lit (''test:'')],
     line [Lit ([TAB] @ ''go test -race ./...'')],
     line [],
     line [Lit (''vet:'')],
     line [Lit ([TAB] @ ''go vet ./...'')],
     line [],
     line [Lit (''fmt:'')],
     line [Lit ([TAB] @ ''gofmt -w .'')],
     line [],
     line [Lit (''migrate:'')],
     line [Lit ([TAB] @ [TAB] @ ''@echo '' @ [DQ] @ ''Apply only the capability migrations used by this service, then db/migrations (1000+).'' @ [DQ])]]"


definition exampleModuleFile :: "string \<Rightarrow> template" where
  "exampleModuleFile profile =
     exampleModule_head @
     (if profile = ''worker'' \<or> profile = ''combined''
      then Lit ([NL] @ ''    _ = app.AddWorker(NewExampleWorker())'') else []) @
     exampleModule_tail"

definition makefileContent :: "string \<Rightarrow> template" where
  "makefileContent profile =
     makefile_targets @
     (if profile = ''worker'' then Lit ([NL] @ ''run:'' @ [NL] @ [TAB] @ ''go run ./cmd/worker'' @ [NL])
      else if profile = ''http'' then Lit ([NL] @ ''run:'' @ [NL] @ [TAB] @ ''go run ./cmd/server'' @ [NL])
      else Lit ([NL] @ ''run:'' @ [NL] @ [TAB] @ ''go run ./cmd/app'' @ [NL]))"

subsection \<open>The files of a service\<close>

text \<open>The build information: \<open>None\<close> when there is none, else the dependencies and the main version.\<close>

definition engineVersion :: "((string \<times> string) list \<times> string) option \<Rightarrow> string" where
  "engineVersion info =
     (case info of
        None \<Rightarrow> ''v0.0.0''
      | Some (deps, main_version) \<Rightarrow>
          (case find (\<lambda>(path, version). path = ''github.com/andreunix/devengine'' \<and> version \<noteq> [] \<and> version \<noteq> ''(devel)'') deps of
             Some (_, version) \<Rightarrow> version
           | None \<Rightarrow> if main_version \<noteq> [] \<and> main_version \<noteq> ''(devel)'' then main_version else ''v0.0.0''))"

record scaffoldFile =
  sf_path :: string
  sf_content :: template

definition sfile :: "string \<Rightarrow> template \<Rightarrow> scaffoldFile" where
  "sfile p c = \<lparr>sf_path = p, sf_content = c\<rparr>"

definition goModFile :: "string \<Rightarrow> template" where
  "goModFile version =
     concat [line [Lit ''module '', [MODULE]], line [], line [Lit ''go 1.27.0''], line [],
       line [Lit ''require github.com/andreunix/devengine '', Lit version]]"

definition gitignoreFile :: template where
  "gitignoreFile = concat [line [Lit ''.env''], line [Lit ''.DS_Store''], line [Lit ''bin/''], line [Lit ''*.test'']]"

definition initialMigrationFile :: template where
  "initialMigrationFile =
     concat [line [Lit ''-- Opt-in capability migrations (1-999), such as jobs.Migrations() or''],
       line [Lit ''-- outbox.Migrations(), run first. Application migrations start at version 1000.''],
       line [Lit ''-- Add your schema changes here.'']]"

definition readmeFile :: "string \<Rightarrow> template" where
  "readmeFile profile =
     concat [line [Lit ''# '', [APP]], line [],
       line [Lit ''Generated with [devengine](https://github.com/andreunix/devengine).''], line [],
       line [Lit ''Profile: `'', Lit profile, Lit ''`'']]"

definition baseFiles :: "string \<Rightarrow> string \<Rightarrow> scaffoldFile list" where
  "baseFiles version profile =
     [sfile ''go.mod'' (goModFile version),
      sfile ''.gitignore'' gitignoreFile,
      sfile ''db/migrations/1000_initial.up.sql'' initialMigrationFile,
      sfile ''internal/app/app.go'' appFile,
      sfile ''internal/modules/example/module.go'' (exampleModuleFile profile),
      sfile ''Makefile'' (makefileContent profile),
      sfile ''.github/workflows/ci.yml'' ciWorkflow,
      sfile ''README.md'' (readmeFile profile)]"

definition httpFiles :: "scaffoldFile list" where
  "httpFiles = [sfile ''cmd/server/main.go'' serverMainFile]"

definition workerFiles :: "scaffoldFile list" where
  "workerFiles = [sfile ''cmd/worker/main.go'' workerMainFile]"

definition combinedMainFile :: "scaffoldFile list" where
  "combinedMainFile = [sfile ''cmd/app/main.go'' appMainFile]"

definition workerComponentFile :: "scaffoldFile list" where
  "workerComponentFile = [sfile ''internal/modules/example/worker.go'' exampleWorkerFile]"

definition scaffold_files :: "string \<Rightarrow> string \<Rightarrow> scaffoldFile list" where
  "scaffold_files version profile =
     baseFiles version profile @
     (if profile = ''http'' then httpFiles
      else if profile = ''worker'' then workerFiles @ workerComponentFile
      else if profile = ''combined'' then combinedMainFile @ workerComponentFile
      else [])"

subsection \<open>Paths\<close>

text \<open>\<open>filepath.Clean\<close>: the stack of components, newest first; \<open>rooted\<close> paths cannot leave the root.\<close>

fun clean_stack :: "bool \<Rightarrow> string list \<Rightarrow> string list \<Rightarrow> string list" where
  "clean_stack rooted stack [] = stack"
| "clean_stack rooted stack (p # ps) =
     (if p = [] \<or> p = ''.'' then clean_stack rooted stack ps
      else if p = ''..'' then
        (case stack of
           [] \<Rightarrow> clean_stack rooted (if rooted then [] else [''..'']) ps
         | q # qs \<Rightarrow> clean_stack rooted (if q = ''..'' then ''..'' # stack else qs) ps)
      else clean_stack rooted (p # stack) ps)"

definition path_Clean :: "string \<Rightarrow> string" where
  "path_Clean p =
     (let rooted = prefix ''/'' p; out = join_with (CHR ''/'') (rev (clean_stack rooted [] (split_on (CHR ''/'') p)))
      in if rooted then CHR ''/'' # out else if out = [] then ''.'' else out)"

definition path_Join :: "string \<Rightarrow> string \<Rightarrow> string" where
  "path_Join dir p =
     (if dir = [] then (if p = [] then [] else path_Clean p)
      else if p = [] then path_Clean dir
      else path_Clean (dir @ ''/'' @ p))"

definition path_Dir :: "string \<Rightarrow> string" where
  "path_Dir p = (case cut_last (CHR ''/'') p of None \<Rightarrow> ''.'' | Some (d, _) \<Rightarrow> path_Clean (d @ ''/''))"

subsection \<open>Writing the files\<close>

function ReplaceAll :: "string \<Rightarrow> string \<Rightarrow> string \<Rightarrow> string" where
  "ReplaceAll old new s =
     (if s = [] then []
      else if old \<noteq> [] \<and> prefix old s then new @ ReplaceAll old new (drop (length old) s)
      else hd s # ReplaceAll old new (tl s))"
  by pat_completeness auto
termination
  by (relation "measure (\<lambda>(old, new, s). length s)") auto

declare ReplaceAll.simps [simp del]

text \<open>
  What the calls of \<open>os\<close> return: the error of \<open>Stat\<close> other than that the file does not exist, of
  \<open>MkdirAll\<close>, and of \<open>WriteFile\<close> with what it left of the file.
\<close>

record fs_calls =
  fc_stat :: "string \<Rightarrow> goerr option"
  fc_mkdir :: "string \<Rightarrow> goerr option"
  fc_write :: "string \<Rightarrow> (goerr \<times> string option) option"

record fs =
  fs_files :: "string \<rightharpoonup> string"
  fs_dirs :: "string set"

definition file_content :: "string \<Rightarrow> string \<Rightarrow> template \<Rightarrow> string" where
  "file_content module appName t =
     ReplaceAll ''{{APP}}'' appName (ReplaceAll ''{{MODULE}}'' module (template_text t))"

text \<open>The directories above a path, which \<open>MkdirAll\<close> makes.\<close>

definition parents :: "string \<Rightarrow> string set" where
  "parents p =
     (let cs = split_on (CHR ''/'') p in set (map (\<lambda>i. join_with (CHR ''/'') (take i cs)) [1..<length cs]))"

definition write_file :: "fs_calls \<Rightarrow> string \<Rightarrow> string \<Rightarrow> string \<Rightarrow> scaffoldFile \<Rightarrow> fs \<Rightarrow> fs \<times> goerr option" where
  "write_file os module appName dir f s =
     (let fullPath = path_Join dir (sf_path f)
      in case fc_stat os fullPath of
           Some err \<Rightarrow> (s, Some err)
         | None \<Rightarrow>
             if fs_files s fullPath \<noteq> None \<or> fullPath \<in> fs_dirs s
             then (s, Some (ErrMsg ''refusing to overwrite %s'' [fullPath]))
             else (case fc_mkdir os (path_Dir fullPath) of
                     Some err \<Rightarrow> (s, Some err)
                   | None \<Rightarrow>
                       (let s1 = s\<lparr>fs_dirs := fs_dirs s \<union> parents fullPath\<rparr>;
                            content = file_content module appName (sf_content f)
                        in case fc_write os fullPath of
                             Some (err, left) \<Rightarrow>
                               (s1\<lparr>fs_files := (fs_files s1)(fullPath := left)\<rparr>, Some err)
                           | None \<Rightarrow> (s1\<lparr>fs_files := (fs_files s1)(fullPath \<mapsto> content)\<rparr>, None))))"

fun write_files :: "fs_calls \<Rightarrow> string \<Rightarrow> string \<Rightarrow> string \<Rightarrow> scaffoldFile list \<Rightarrow> fs \<Rightarrow> fs \<times> goerr option" where
  "write_files os module appName dir [] s = (s, None)"
| "write_files os module appName dir (f # fs) s =
     (case write_file os module appName dir f s of
        (s', Some err) \<Rightarrow> (s', Some err)
      | (s', None) \<Rightarrow> write_files os module appName dir fs s')"

definition scaffold :: "fs_calls \<Rightarrow> string \<Rightarrow> string \<Rightarrow> string \<Rightarrow> string \<Rightarrow> string \<Rightarrow> fs \<Rightarrow> fs \<times> goerr option" where
  "scaffold os version module appName dir profile s =
     write_files os module appName dir (scaffold_files version profile) s"

subsection \<open>The command line\<close>

record new_flags =
  nf_module :: string
  nf_name :: string
  nf_profile :: string
  nf_dir :: string

definition default_flags :: new_flags where
  "default_flags = \<lparr>nf_module = [], nf_name = [], nf_profile = ''combined'', nf_dir = []\<rparr>"

definition set_flag :: "string \<Rightarrow> string \<Rightarrow> new_flags \<Rightarrow> new_flags option" where
  "set_flag name v fl =
     (if name = ''module'' then Some (fl\<lparr>nf_module := v\<rparr>)
      else if name = ''name'' then Some (fl\<lparr>nf_name := v\<rparr>)
      else if name = ''profile'' then Some (fl\<lparr>nf_profile := v\<rparr>)
      else if name = ''dir'' then Some (fl\<lparr>nf_dir := v\<rparr>)
      else None)"

abbreviation ErrHelp :: goerr where
  "ErrHelp \<equiv> ErrSentinel ''flag: help requested''"

text \<open>A flag and its value: \<open>=\<close> separates them unless it is the first character.\<close>

definition flag_parts :: "string \<Rightarrow> string \<times> string option" where
  "flag_parts name =
     (case name of
        [] \<Rightarrow> ([], None)
      | c # rest \<Rightarrow> (case cut_at (CHR ''='') rest of None \<Rightarrow> (name, None) | Some (a, v) \<Rightarrow> (c # a, Some v)))"

fun flag_Parse :: "string list \<Rightarrow> new_flags \<Rightarrow> goerr + new_flags" where
  "flag_Parse [] fl = Inr fl"
| "flag_Parse (s # args) fl =
     (if length s < 2 \<or> hd s \<noteq> CHR ''-'' \<or> s = ''--'' then Inr fl
      else
        (let name0 = (if s ! 1 = CHR ''-'' then drop 2 s else drop 1 s)
         in if prefix ''-'' name0 \<or> prefix ''='' name0 then Inl (ErrMsg ''bad flag syntax: %s'' [s])
            else
              (case flag_parts name0 of
                 (name, given) \<Rightarrow>
                   if set_flag name [] fl = None
                   then (if name = ''help'' \<or> name = ''h'' then Inl ErrHelp
                         else Inl (ErrMsg ''flag provided but not defined: -%s'' [name]))
                   else (case given of
                           Some v \<Rightarrow> flag_Parse args (the (set_flag name v fl))
                         | None \<Rightarrow>
                             (case args of
                                [] \<Rightarrow> Inl (ErrMsg ''flag needs an argument: -%s'' [name])
                              | v # args' \<Rightarrow> flag_Parse args' (the (set_flag name v fl)))))))"

text \<open>What is to be generated, once the flags are read: module, application, directory, profile.\<close>

definition new_request :: "new_flags \<Rightarrow> goerr + (string \<times> string \<times> string \<times> string)" where
  "new_request fl =
     (let module = TrimSpace (nf_module fl)
      in if module = [] then Inl (ErrMsg ''-module is required'' [])
         else
           (let appName = (if TrimSpace (nf_name fl) = [] then last (split_on (CHR ''/'') module) else TrimSpace (nf_name fl));
                targetDir = (if TrimSpace (nf_dir fl) = [] then appName else TrimSpace (nf_dir fl));
                p = TrimSpace (nf_profile fl)
            in if p \<noteq> ''http'' \<and> p \<noteq> ''worker'' \<and> p \<noteq> ''combined''
               then Inl (ErrMsg ''unknown profile %q: must be http, worker, or combined'' [p])
               else Inr (module, appName, targetDir, p)))"

definition runNew :: "fs_calls \<Rightarrow> string \<Rightarrow> string list \<Rightarrow> fs \<Rightarrow> fs \<times> goerr option" where
  "runNew os version args s =
     (case flag_Parse args default_flags of
        Inl err \<Rightarrow> (s, Some err)
      | Inr fl \<Rightarrow>
          (case new_request fl of
             Inl err \<Rightarrow> (s, Some err)
           | Inr (module, appName, targetDir, p) \<Rightarrow> scaffold os version module appName targetDir p s))"

text \<open>The exit status of the command.\<close>

definition devengine_main :: "fs_calls \<Rightarrow> string \<Rightarrow> string list \<Rightarrow> fs \<Rightarrow> fs \<times> nat" where
  "devengine_main os version args s =
     (case args of
        [] \<Rightarrow> (s, 2)
      | cmd # rest \<Rightarrow>
          if cmd = ''new'' then (case runNew os version rest s of (s', None) \<Rightarrow> (s', 0) | (s', Some err) \<Rightarrow> (s', 1))
          else if cmd = ''help'' \<or> cmd = ''-h'' \<or> cmd = ''--help'' then (s, 0)
          else (s, 1))"

subsection \<open>Substitution\<close>

text \<open>No brace stands before another brace or before a place.\<close>

fun safe :: "template \<Rightarrow> bool" where
  "safe (Ch c # t # ts) = (\<not> (c = CHR ''{'' \<and> (t = Ch (CHR ''{'') \<or> t = MODULE \<or> t = APP)) \<and> safe (t # ts))"
| "safe (t # ts) = safe ts"
| "safe [] = True"

definition replace_tok :: "tok \<Rightarrow> string \<Rightarrow> template \<Rightarrow> template" where
  "replace_tok p new ts = concat (map (\<lambda>t. if t = p then map Ch new else [t]) ts)"

lemma template_text_simps [simp]:
  "template_text [] = []" "template_text (t # ts) = tok_text t @ template_text ts"
  "template_text (ts @ us) = template_text ts @ template_text us" "template_text (map Ch s) = s"
  by (simp_all add: template_text_def) (induction s, simp_all)

lemma ReplaceAll_simps:
  "ReplaceAll old new [] = []"
  "old \<noteq> [] \<Longrightarrow> ReplaceAll old new (old @ s) = new @ ReplaceAll old new s"
  "\<not> prefix old (c # s) \<Longrightarrow> ReplaceAll old new (c # s) = c # ReplaceAll old new s"
  by (subst ReplaceAll.simps, simp)+

lemma safe_head:
  assumes "safe (Ch c # ts)" "p \<in> {MODULE, APP}"
  shows "\<not> prefix (tok_text p) (c # template_text ts)"
proof (cases ts)
  case (Cons t us)
  then show ?thesis using assms by (cases t) auto
qed (use assms in auto)

lemma safe_tl: "safe (t # ts) \<Longrightarrow> safe ts"
  by (cases t; cases ts) auto

lemma ReplaceAll_template:
  assumes "safe ts" "p \<in> {MODULE, APP}"
  shows "ReplaceAll (tok_text p) new (template_text ts) = template_text (replace_tok p new ts)"
  using assms(1)
proof (induction ts)
  case Nil
  then show ?case by (simp add: replace_tok_def ReplaceAll_simps)
next
  case (Cons t ts)
  note IH = Cons.IH [OF safe_tl [OF Cons.prems]]
  show ?case
  proof (cases "t = p")
    case True
    have "tok_text p \<noteq> []" using assms(2) by auto
    then show ?thesis using True IH by (simp add: replace_tok_def ReplaceAll_simps)
  next
    case False
    have "ReplaceAll (tok_text p) new (tok_text t @ template_text ts) = tok_text t @ ReplaceAll (tok_text p) new (template_text ts)"
    proof (cases t)
      case (Ch c)
      then show ?thesis using ReplaceAll_simps(3) [OF safe_head [OF _ assms(2)]] Cons.prems by simp
    qed (use False assms(2) in \<open>auto simp: ReplaceAll_simps\<close>)
    then show ?thesis using False IH by (simp add: replace_tok_def)
  qed
qed

lemma safe_append_plain: "CHR ''{'' \<notin> set s \<Longrightarrow> safe (map Ch s @ ts) = safe ts"
proof (induction s)
  case (Cons c s)
  then show ?case by (cases "map Ch s @ ts") auto
qed simp

lemma safe_plain: "CHR ''{'' \<notin> set s \<Longrightarrow> safe (map Ch s)"
  using safe_append_plain [of s "[]"] by simp

lemma safe_replace:
  assumes "safe ts" "CHR ''{'' \<notin> set new" "p \<in> {MODULE, APP}"
  shows "safe (replace_tok p new ts)"
  using assms(1)
proof (induction ts rule: safe.induct)
  case (1 c t ts)
  have p: "Ch c \<noteq> p" using assms(3) by auto
  have rest: "safe (replace_tok p new (t # ts))" using 1 by simp
  show ?case
  proof (cases "c = CHR ''{''")
    case True
    then have "t \<noteq> p" "t \<noteq> Ch (CHR ''{'')" "t \<noteq> MODULE" "t \<noteq> APP" using 1(2) assms(3) by auto
    then show ?thesis using rest p by (simp add: replace_tok_def)
  next
    case False
    then have "safe (Ch c # us) = safe us" for us by (cases us) auto
    then show ?thesis using rest p by (simp add: replace_tok_def)
  qed
qed (use assms(2,3) in \<open>auto simp: replace_tok_def safe_append_plain safe_plain\<close>)

text \<open>The text with both places filled.\<close>

fun fill :: "string \<Rightarrow> string \<Rightarrow> tok \<Rightarrow> string" where
  "fill module appName (Ch c) = [c]"
| "fill module appName MODULE = module"
| "fill module appName APP = appName"

lemma file_content_filled:
  assumes "safe t" "CHR ''{'' \<notin> set module"
  shows "file_content module appName t = concat (map (fill module appName) t)"
proof -
  have "file_content module appName t = template_text (replace_tok APP appName (replace_tok MODULE module t))"
    using ReplaceAll_template [of t MODULE module] ReplaceAll_template [of "replace_tok MODULE module t" APP appName]
      safe_replace [OF assms, of MODULE] assms(1)
    by (simp add: file_content_def)
  also have "\<dots> = concat (map (fill module appName) t)"
  proof (induction t)
    case (Cons x t)
    have m: "replace_tok APP appName (map Ch module @ us) = map Ch module @ replace_tok APP appName us" for us
      by (induction module) (simp_all add: replace_tok_def)
    show ?case using Cons m by (cases x) (simp_all add: replace_tok_def)
  qed (simp add: replace_tok_def)
  finally show ?thesis .
qed

subsection \<open>Paths of the files\<close>

definition normal :: "string \<Rightarrow> bool" where
  "normal p \<longleftrightarrow> p \<noteq> [] \<and> p \<noteq> ''.'' \<and> p \<noteq> ''..'' \<and> CHR ''/'' \<notin> set p"

definition base_stack :: "string \<Rightarrow> string list" where
  "base_stack dir =
     (if prefix ''/'' dir then [[]] else []) @ rev (clean_stack (prefix ''/'' dir) [] (if dir = [] then [] else split_on (CHR ''/'') dir))"

lemma clean_stack_append: "clean_stack r st (ps @ qs) = clean_stack r (clean_stack r st ps) qs"
proof (induction ps arbitrary: st)
  case (Cons p ps)
  then show ?case by (cases st) simp_all
qed simp

lemma clean_stack_normal: "\<forall>p \<in> set ps. normal p \<Longrightarrow> clean_stack r st ps = rev ps @ st"
  by (induction ps arbitrary: st) (simp_all add: normal_def)

lemma clean_stack_parts:
  "\<lbrakk>\<forall>p \<in> set st. CHR ''/'' \<notin> set p; \<forall>p \<in> set ps. CHR ''/'' \<notin> set p\<rbrakk> \<Longrightarrow>
   \<forall>p \<in> set (clean_stack r st ps). CHR ''/'' \<notin> set p"
proof (induction ps arbitrary: st)
  case (Cons p ps)
  have "\<exists>st'. clean_stack r st (p # ps) = clean_stack r st' ps \<and> set st' \<subseteq> insert p (set st)"
  proof (cases st)
    case Nil
    show ?thesis
      by (rule exI [of _ "if p = [] \<or> p = ''.'' then [] else if p = ''..'' \<and> r then [] else [p]"]) (simp add: Nil)
  next
    case (Cons q qs)
    show ?thesis
      by (rule exI [of _ "if p = [] \<or> p = ''.'' then st else if p = ''..'' \<and> q \<noteq> ''..'' then qs else p # st"])
        (auto simp: Cons)
  qed
  then obtain st' where st': "clean_stack r st (p # ps) = clean_stack r st' ps" "set st' \<subseteq> insert p (set st)" by blast
  have "\<forall>p \<in> set st'. CHR ''/'' \<notin> set p" using Cons.prems st'(2) by auto
  then show ?case using Cons.IH Cons.prems(2) st'(1) by simp
qed simp

lemma split_on_append_sep: "split_on c (a @ c # b) = split_on c a @ split_on c b"
  by (induction a) (auto split: list.split)

lemma base_stack_parts: "\<forall>p \<in> set (base_stack dir). CHR ''/'' \<notin> set p"
proof -
  have "\<forall>p \<in> set (clean_stack r [] (split_on (CHR ''/'') dir)). CHR ''/'' \<notin> set p" for r
    using split_on_pieces by (intro clean_stack_parts) auto
  then show ?thesis by (auto simp: base_stack_def)
qed

lemma join_with_empty: "join_with c xs = [] \<longleftrightarrow> xs = [] \<or> xs = [[]]"
  by (induction c xs rule: join_with.induct) auto

lemma join_with_root: "xs \<noteq> [] \<Longrightarrow> join_with c ([] # xs) = c # join_with c xs"
  by (cases xs) auto

lemma Clean_parts:
  assumes "\<forall>q \<in> set ps. normal q" "ps \<noteq> []" "split_on (CHR ''/'') s = ds @ ps"
  shows "path_Clean s = join_with (CHR ''/'')
     ((if prefix ''/'' s then [[]] else []) @ rev (clean_stack (prefix ''/'' s) [] ds) @ ps)"
proof -
  let ?X = "rev (clean_stack (prefix ''/'' s) [] ds)"
  have stack: "rev (clean_stack (prefix ''/'' s) [] (split_on (CHR ''/'') s)) = ?X @ ps"
    unfolding assms(3) clean_stack_append clean_stack_normal [OF assms(1)] by simp
  have "last ps \<noteq> []" using assms(1) last_in_set [OF assms(2)] by (simp add: normal_def)
  then have "?X @ ps \<noteq> [[]]" using assms(2) by (metis last_ConsL last_appendR)
  then have "join_with (CHR ''/'') (?X @ ps) \<noteq> []" using assms(2) by (simp add: join_with_empty)
  then show ?thesis using assms(2) unfolding path_Clean_def Let_def stack
    by (cases "prefix ''/'' s") (simp_all add: join_with_root)
qed

lemma path_Join_parts:
  assumes "\<forall>q \<in> set ps. normal q" "ps \<noteq> []" "p = join_with (CHR ''/'') ps"
  shows "path_Join dir p = join_with (CHR ''/'') (base_stack dir @ ps)"
proof -
  have split: "split_on (CHR ''/'') p = ps"
    unfolding assms(3) by (rule split_join) (use assms(1,2) in \<open>auto simp: normal_def\<close>)
  obtain q qs where q: "ps = q # qs" "normal q" using assms(1,2) by (cases ps) auto
  obtain c cs where c: "q = c # cs" "c \<noteq> CHR ''/''" using q(2) by (cases q) (auto simp: normal_def)
  have p: "p \<noteq> []" "\<not> prefix ''/'' p"
    unfolding assms(3) q(1) c(1) using c(2) by (cases qs, simp_all)+
  show ?thesis
  proof (cases "dir = []")
    case True
    then show ?thesis using Clean_parts [OF assms(1,2), of p "[]"] split p by (simp add: path_Join_def base_stack_def)
  next
    case False
    have "split_on (CHR ''/'') (dir @ ''/'' @ p) = split_on (CHR ''/'') dir @ ps"
      by (simp add: split_on_append_sep split)
    from Clean_parts [OF assms(1,2) this] show ?thesis
      using False p by (cases dir) (simp_all add: path_Join_def base_stack_def)
  qed
qed

subsection \<open>The list of files\<close>

definition profiles :: "string list" where
  "profiles = [''http'', ''worker'', ''combined'']"

definition file_paths :: "string \<Rightarrow> string list" where
  "file_paths profile = map sf_path (scaffold_files [] profile)"

lemma paths_of_version: "map sf_path (scaffold_files version profile) = file_paths profile"
  by (simp add: file_paths_def scaffold_files_def baseFiles_def sfile_def)

lemma file_paths_table:
  "list_all (\<lambda>p. distinct (map (split_on (CHR ''/'')) (file_paths p)) \<and>
     list_all (\<lambda>f. list_all normal (split_on (CHR ''/'') f)) (file_paths p) \<and>
     list_all (\<lambda>f. list_all (\<lambda>g. f = g \<or> \<not> prefix (split_on (CHR ''/'') f) (split_on (CHR ''/'') g)) (file_paths p)) (file_paths p)) profiles"
  by code_simp

lemma templates_safe:
  "safe appFile" "safe exampleWorkerFile" "safe serverMainFile" "safe workerMainFile" "safe appMainFile" "safe ciWorkflow"
  "safe gitignoreFile" "safe initialMigrationFile"
  by code_simp+

lemma profile_templates_safe:
  "list_all (\<lambda>p. safe (exampleModuleFile p) \<and> safe (makefileContent p) \<and> safe (readmeFile p)) profiles"
  by code_simp

lemma goModFile_safe:
  assumes "CHR ''{'' \<notin> set version" shows "safe (goModFile version)"
proof -
  have "safe (map Ch version @ [Ch NL])" using safe_append_plain [OF assms] by simp
  then have "safe (Ch (CHR '' '') # map Ch version @ [Ch NL])" by (cases version) simp_all
  then show ?thesis by (simp add: goModFile_def line_def Lit_def)
qed

lemma contents_safe:
  assumes "profile \<in> set profiles" "CHR ''{'' \<notin> set version" "f \<in> set (scaffold_files version profile)"
  shows "safe (sf_content f)"
proof -
  have "safe (exampleModuleFile profile)" "safe (makefileContent profile)" "safe (readmeFile profile)"
    using profile_templates_safe assms(1) by (auto simp: list_all_iff)
  then show ?thesis
    using assms(3) templates_safe goModFile_safe [OF assms(2)]
    by (auto simp: scaffold_files_def baseFiles_def httpFiles_def workerFiles_def combinedMainFile_def workerComponentFile_def
        sfile_def split: if_splits)
qed

end
