(* ===== verification/ScaffoldTheorems.thy ===== *)
theory ScaffoldTheorems
  imports Scaffold
begin

text \<open>
  Properties of \<open>devengine new\<close>: no file that exists is touched, a run without errors writes every
  file of the profile with both places filled, and the files fit together.
\<close>

subsection \<open>The loop over the files\<close>

lemma full_path:
  assumes "profile \<in> set profiles" "p \<in> set (file_paths profile)"
  shows "path_Join dir p = join_with (CHR ''/'') (base_stack dir @ split_on (CHR ''/'') p)"
proof (rule path_Join_parts)
  show "\<forall>q \<in> set (split_on (CHR ''/'') p). normal q"
    using file_paths_table assms by (auto simp: list_all_iff)
qed (simp_all add: join_split)

lemma full_parts:
  assumes "profile \<in> set profiles" "p \<in> set (file_paths profile)"
  shows "split_on (CHR ''/'') (path_Join dir p) = base_stack dir @ split_on (CHR ''/'') p"
  unfolding full_path [OF assms]
  by (rule split_join) (use base_stack_parts split_on_pieces in auto)

lemma full_path_inj:
  assumes "profile \<in> set profiles" "p \<in> set (file_paths profile)" "q \<in> set (file_paths profile)"
    "path_Join dir p = path_Join dir q"
  shows "p = q"
proof -
  have "split_on (CHR ''/'') p = split_on (CHR ''/'') q"
    using full_parts [OF assms(1,2), of dir] full_parts [OF assms(1,3), of dir] assms(4) by simp
  then show ?thesis by (metis join_split)
qed

text \<open>No file is a directory another one needs.\<close>

lemma full_path_not_parent:
  assumes "profile \<in> set profiles" "p \<in> set (file_paths profile)" "q \<in> set (file_paths profile)" "p \<noteq> q"
  shows "path_Join dir p \<notin> parents (path_Join dir q)"
proof
  let ?b = "base_stack dir" and ?p = "split_on (CHR ''/'') p" and ?q = "split_on (CHR ''/'') q"
  assume "path_Join dir p \<in> parents (path_Join dir q)"
  then obtain i where i: "path_Join dir p = join_with (CHR ''/'') (take i (?b @ ?q))" "1 \<le> i"
    by (auto simp: parents_def full_parts [OF assms(1,3)] Let_def)
  have "split_on (CHR ''/'') (join_with (CHR ''/'') (take i (?b @ ?q))) = take i (?b @ ?q)"
    using i(2) base_stack_parts split_on_pieces by (intro split_join) (auto dest!: in_set_takeD)
  then have "?b @ ?p = take i (?b @ ?q)" using i(1) full_parts [OF assms(1,2), of dir] by simp
  then have "prefix (?b @ ?p) (?b @ ?q)" by (metis take_is_prefix)
  then have "prefix ?p ?q" by simp
  moreover have "\<not> prefix ?p ?q" using file_paths_table assms unfolding list_all_iff by blast
  ultimately show False by simp
qed

definition quiet :: "fs_calls \<Rightarrow> bool" where
  "quiet os \<longleftrightarrow> (\<forall>p. fc_stat os p = None \<and> fc_mkdir os p = None \<and> fc_write os p = None)"

definition free :: "fs \<Rightarrow> string \<Rightarrow> bool" where
  "free s p \<longleftrightarrow> fs_files s p = None \<and> p \<notin> fs_dirs s"

lemma write_file_effect:
  assumes "quiet os" "free s (path_Join dir (sf_path f))"
  shows "write_file os module appName dir f s =
     (s\<lparr>fs_dirs := fs_dirs s \<union> parents (path_Join dir (sf_path f)),
        fs_files := (fs_files s)(path_Join dir (sf_path f) \<mapsto> file_content module appName (sf_content f))\<rparr>, None)"
  using assms by (simp add: write_file_def quiet_def free_def Let_def)

lemma write_files_effect:
  assumes "quiet os" "\<forall>f \<in> set fs. free s (path_Join dir (sf_path f))" "distinct (map sf_path fs)"
    "\<forall>f \<in> set fs. \<forall>g \<in> set fs. f \<noteq> g \<longrightarrow> path_Join dir (sf_path f) \<noteq> path_Join dir (sf_path g) \<and>
       path_Join dir (sf_path f) \<notin> parents (path_Join dir (sf_path g))"
  shows "\<exists>s'. write_files os module appName dir fs s = (s', None) \<and>
     (\<forall>f \<in> set fs. fs_files s' (path_Join dir (sf_path f)) = Some (file_content module appName (sf_content f))) \<and>
     (\<forall>p. p \<notin> (\<lambda>f. path_Join dir (sf_path f)) ` set fs \<longrightarrow> fs_files s' p = fs_files s p)"
  using assms(2-4)
proof (induction fs arbitrary: s)
  case (Cons f fs)
  let ?p = "path_Join dir (sf_path f)"
  let ?s = "s\<lparr>fs_dirs := fs_dirs s \<union> parents ?p,
        fs_files := (fs_files s)(?p \<mapsto> file_content module appName (sf_content f))\<rparr>"
  have "f \<notin> set fs" using Cons.prems(2) by auto
  then have other: "path_Join dir (sf_path g) \<noteq> ?p" "path_Join dir (sf_path g) \<notin> parents ?p" if "g \<in> set fs" for g
    using Cons.prems(3) that by (metis list.set_intros(1,2))+
  have "\<forall>g \<in> set fs. free ?s (path_Join dir (sf_path g))"
    using Cons.prems(1) other by (simp add: free_def)
  then obtain s' where s': "write_files os module appName dir fs ?s = (s', None)"
    "\<forall>g \<in> set fs. fs_files s' (path_Join dir (sf_path g)) = Some (file_content module appName (sf_content g))"
    "\<forall>p. p \<notin> (\<lambda>g. path_Join dir (sf_path g)) ` set fs \<longrightarrow> fs_files s' p = fs_files ?s p"
    using Cons.IH [of ?s] Cons.prems(2,3) by auto
  have "write_files os module appName dir (f # fs) s = (s', None)"
    using write_file_effect [OF assms(1), of s dir f] Cons.prems(1) s'(1) by simp
  moreover have "fs_files s' ?p = Some (file_content module appName (sf_content f))"
  proof -
    have "?p \<notin> (\<lambda>g. path_Join dir (sf_path g)) ` set fs" using other(1) by (metis imageE)
    then have "fs_files s' ?p = fs_files ?s ?p" using s'(3) by blast
    then show ?thesis by simp
  qed
  ultimately show ?case using s'(2,3) by auto
qed simp

lemma write_files_keep:
  assumes "write_files os module appName dir fs s = (s', res)" "fs_files s p = Some c"
  shows "fs_files s' p = Some c"
  using assms
proof (induction fs arbitrary: s)
  case (Cons f fs)
  obtain s1 r where w: "write_file os module appName dir f s = (s1, r)" by fastforce
  then have "fs_files s1 p = Some c"
    using Cons.prems(2) by (auto simp: write_file_def Let_def split: option.splits if_splits)
  then show ?case using Cons w by (auto split: option.splits)
qed simp

lemma write_files_only:
  assumes "write_files os module appName dir fs s = (s', res)" "p \<notin> (\<lambda>f. path_Join dir (sf_path f)) ` set fs"
  shows "fs_files s' p = fs_files s p"
  using assms
proof (induction fs arbitrary: s)
  case (Cons f fs)
  obtain s1 r where w: "write_file os module appName dir f s = (s1, r)" by fastforce
  then have "fs_files s1 p = fs_files s p"
    using Cons.prems(2) by (auto simp: write_file_def Let_def split: option.splits if_splits)
  then show ?case using Cons w by (auto split: option.splits)
qed simp

subsection \<open>Properties\<close>

text \<open>C31: Existing files are safe. Whatever the arguments and whatever calls of the operating system
  fail, a run of \<open>devengine\<close> changes no file that exists, and when it leaves a new file behind,
  that file is one of the profile's files in the target directory.
\<close>

theorem scaffold_never_overwrites:
  assumes "devengine_main os version args s = (s', status)"
  shows "(\<forall>p c. fs_files s p = Some c \<longrightarrow> fs_files s' p = Some c) \<and>
     (\<forall>p. fs_files s' p \<noteq> fs_files s p \<longrightarrow>
        (\<exists>fl module appName dir profile f. flag_Parse (tl args) default_flags = Inr fl \<and>
           new_request fl = Inr (module, appName, dir, profile) \<and>
           f \<in> set (scaffold_files version profile) \<and> p = path_Join dir (sf_path f)))"
proof (cases "s' = s")
  case False
  then obtain res where run: "runNew os version (tl args) s = (s', res)"
    using assms by (auto simp: devengine_main_def split: list.splits if_splits prod.splits option.splits)
  obtain fl where fl: "flag_Parse (tl args) default_flags = Inr fl"
    using run False by (auto simp: runNew_def split: sum.splits)
  obtain module appName dir profile where req: "new_request fl = Inr (module, appName, dir, profile)"
    using run fl False by (auto simp: runNew_def split: sum.splits)
  have w: "write_files os module appName dir (scaffold_files version profile) s = (s', res)"
    using run fl req by (simp add: runNew_def scaffold_def)
  show ?thesis
    using write_files_keep [OF w] write_files_only [OF w] fl req by blast
qed simp

text \<open>A new service is complete. When the calls of the operating system succeed and the target is
  free, generating a service returns no error, and each file of the profile exists with its
  template's text in which the module path and the application's name stand in their places;
  all other files are as before.
\<close>

theorem scaffold_complete:
  assumes "quiet os" "profile \<in> set profiles" "CHR ''{'' \<notin> set module" "CHR ''{'' \<notin> set version"
    "\<forall>p \<in> set (file_paths profile). free s (path_Join dir p)"
  shows "\<exists>s'. scaffold os version module appName dir profile s = (s', None) \<and>
     (\<forall>f \<in> set (scaffold_files version profile).
        fs_files s' (path_Join dir (sf_path f)) = Some (concat (map (fill module appName) (sf_content f)))) \<and>
     (\<forall>p. p \<notin> path_Join dir ` set (file_paths profile) \<longrightarrow> fs_files s' p = fs_files s p)"
proof -
  let ?fs = "scaffold_files version profile"
  have paths: "f \<in> set ?fs \<Longrightarrow> sf_path f \<in> set (file_paths profile)" for f
    using paths_of_version [of version profile] by (metis image_eqI image_set)
  have "distinct (map (split_on (CHR ''/'')) (file_paths profile))"
    using file_paths_table assms(2) unfolding list_all_iff by blast
  then have dist: "distinct (map sf_path ?fs)" unfolding paths_of_version by (simp add: distinct_map)
  have inj: "sf_path f \<noteq> sf_path g" if "f \<in> set ?fs" "g \<in> set ?fs" "f \<noteq> g" for f g
    using dist that by (metis distinct_map inj_onD)
  have apart: "\<forall>f \<in> set ?fs. \<forall>g \<in> set ?fs. f \<noteq> g \<longrightarrow> path_Join dir (sf_path f) \<noteq> path_Join dir (sf_path g) \<and>
       path_Join dir (sf_path f) \<notin> parents (path_Join dir (sf_path g))"
    using inj paths full_path_inj [OF assms(2)] full_path_not_parent [OF assms(2)] by metis
  have fr: "\<forall>f \<in> set ?fs. free s (path_Join dir (sf_path f))" using assms(5) paths by blast
  obtain s' where s': "write_files os module appName dir ?fs s = (s', None)"
    "\<forall>f \<in> set ?fs. fs_files s' (path_Join dir (sf_path f)) = Some (file_content module appName (sf_content f))"
    "\<forall>p. p \<notin> (\<lambda>f. path_Join dir (sf_path f)) ` set ?fs \<longrightarrow> fs_files s' p = fs_files s p"
    using write_files_effect [OF assms(1) fr dist apart] by blast
  have "(\<lambda>f. path_Join dir (sf_path f)) ` set ?fs = path_Join dir ` set (file_paths profile)"
    unfolding paths_of_version [of version profile, symmetric] by auto
  moreover have "file_content module appName (sf_content f) = concat (map (fill module appName) (sf_content f))"
    if "f \<in> set ?fs" for f
    using file_content_filled [OF contents_safe [OF assms(2,4) that] assms(3)] .
  ultimately show ?thesis using s' by (auto simp: scaffold_def)
qed

text \<open>
  The generated files fit together. For each profile the \<open>run\<close> target of the Makefile names a
  directory whose \<open>main.go\<close> is generated; the example module adds the example worker exactly
  when the file that defines it is generated; and \<open>cmd/app\<close> exists for the combined profile only.
\<close>

definition run_target :: "string \<Rightarrow> string" where
  "run_target profile =
     (if profile = ''worker'' then ''cmd/worker'' else if profile = ''http'' then ''cmd/server'' else ''cmd/app'')"

fun mentions :: "string \<Rightarrow> string \<Rightarrow> bool" where
  "mentions [] t = (t = [])"
| "mentions (c # s) t = (prefix t (c # s) \<or> mentions s t)"

lemma generated_tables:
  "list_all (\<lambda>p. (run_target p @ ''/main.go'') \<in> set (file_paths p) \<and>
     (mentions (template_text (exampleModuleFile p)) ''NewExampleWorker'' \<longleftrightarrow>
       ''internal/modules/example/worker.go'' \<in> set (file_paths p)) \<and>
     (''cmd/app/main.go'' \<in> set (file_paths p) \<longleftrightarrow> p = ''combined'')) profiles"
  by code_simp

theorem scaffold_consistent:
  assumes "profile \<in> set profiles"
  shows "suffix ([NL] @ ''run:'' @ [NL] @ [TAB] @ ''go run ./'' @ run_target profile @ [NL]) (template_text (makefileContent profile)) \<and>
     (run_target profile @ ''/main.go'') \<in> set (file_paths profile) \<and>
     (mentions (template_text (exampleModuleFile profile)) ''NewExampleWorker'' \<longleftrightarrow>
       ''internal/modules/example/worker.go'' \<in> set (file_paths profile)) \<and>
     (''cmd/app/main.go'' \<in> set (file_paths profile) \<longleftrightarrow> profile = ''combined'')"
proof -
  have "suffix ([NL] @ ''run:'' @ [NL] @ [TAB] @ ''go run ./'' @ run_target profile @ [NL]) (template_text (makefileContent profile))"
    by (auto simp: makefileContent_def run_target_def Lit_def suffix_def simp del: list.map)
  then show ?thesis using generated_tables assms unfolding list_all_iff by blast
qed

subsection \<open>Witnesses\<close>

definition quiet_os :: fs_calls where
  "quiet_os = \<lparr>fc_stat = (\<lambda>_. None), fc_mkdir = (\<lambda>_. None), fc_write = (\<lambda>_. None)\<rparr>"

definition occupied :: fs where
  "occupied = \<lparr>fs_files = [''m/go.mod'' \<mapsto> ''old''], fs_dirs = {''m''}\<rparr>"

lemma demo_path: "path_Join ''m'' ''go.mod'' = ''m/go.mod''"
  by code_simp

lemma demo_trimmed: "TrimSpace ''m'' = ''m''" "TrimSpace ''a/'' = ''a/''" "TrimSpace ''combined'' = ''combined''"
  by (rule TrimSpace_id, simp add: trimmed_def space_encodings_def suffix_to_prefix)+

lemma demo_refused:
  "devengine_main quiet_os ''v1'' [''new'', ''-module'', ''m''] occupied = (occupied, 1)"
proof -
  have flags: "flag_Parse [''-module'', ''m''] default_flags = Inr (default_flags\<lparr>nf_module := ''m''\<rparr>)"
    by (simp add: default_flags_def flag_parts_def set_flag_def)
  have req: "new_request (default_flags\<lparr>nf_module := ''m''\<rparr>) = Inr (''m'', ''m'', ''m'', ''combined'')"
    by (simp add: new_request_def default_flags_def demo_trimmed Let_def)
  have "scaffold quiet_os ''v1'' ''m'' ''m'' ''m'' ''combined'' occupied =
      (occupied, Some (ErrMsg ''refusing to overwrite %s'' [''m/go.mod'']))"
    by (simp add: scaffold_def scaffold_files_def baseFiles_def sfile_def write_file_def demo_path Let_def quiet_os_def occupied_def)
  then show ?thesis by (simp add: devengine_main_def runNew_def flags req del: flag_Parse.simps)
qed

theorem scaffold_never_overwrites_witness:
  "fs_files (fst (devengine_main quiet_os ''v1'' [''new'', ''-module'', ''m''] occupied)) ''m/go.mod'' = Some ''old''"
  unfolding demo_refused fst_conv using scaffold_never_overwrites [OF demo_refused] by (simp add: occupied_def)

theorem scaffold_complete_witness:
  "\<exists>s'. scaffold quiet_os ''v1'' ''m'' ''m'' ''m'' ''worker'' \<lparr>fs_files = Map.empty, fs_dirs = {}\<rparr> = (s', None)"
  using scaffold_complete [of quiet_os "''worker''" "''m''" "''v1''" "\<lparr>fs_files = Map.empty, fs_dirs = {}\<rparr>" "''m''" "''m''"]
  by (auto simp: quiet_def quiet_os_def profiles_def free_def)

theorem scaffold_consistent_witness:
  "''cmd/worker/main.go'' \<in> set (file_paths ''worker'') \<and> ''cmd/app/main.go'' \<notin> set (file_paths ''worker'')"
  using scaffold_consistent [of "''worker''"] by (simp add: profiles_def run_target_def)

text \<open>A module path that ends in a slash gives an empty name and an empty directory.\<close>

lemma trailing_slash:
  "new_request (default_flags\<lparr>nf_module := ''a/''\<rparr>) = Inr (''a/'', [], [], ''combined'')"
  by (simp add: new_request_def default_flags_def demo_trimmed Let_def)

end
