(* ===== verification/ClientIPLegacy.thy ===== *)
theory ClientIPLegacy
  imports ClientIP Middleware
begin

text \<open>
  The deprecated part of \<open>httpx/clientip/clientip.go\<close>, which the \<open>ClientIP\<close> middleware uses:
  trusted proxies as \<open>net.IPNet\<close> values, \<open>FromRequest\<close>, and the client address in the context.
  A \<open>net.IP\<close> is its sixteen bytes; an IPv4 address is the mapped one.
\<close>

subsection \<open>What is used of \<open>net\<close>\<close>

definition as16 :: "addr \<Rightarrow> 128 word" where
  "as16 a = (case a of V4 w \<Rightarrow> push_bit 32 0xFFFF OR ucast w | V6 w _ \<Rightarrow> w)"

definition To4 :: "128 word \<Rightarrow> 32 word option" where
  "To4 x = (if drop_bit 32 x = 0xFFFF then Some (ucast x) else None)"

definition net_ParseIP :: "string \<Rightarrow> 128 word option" where
  "net_ParseIP s = (case ParseAddr s of None \<Rightarrow> None | Some a \<Rightarrow> if addr_Zone a \<noteq> [] then None else Some (as16 a))"

text \<open>A network with an address and a mask of four, or of sixteen, bytes.\<close>

datatype IPNet = Net4 "32 word" nat | Net6 "128 word" nat

definition net_ParseCIDR :: "string \<Rightarrow> IPNet option" where
  "net_ParseCIDR s =
     (case cut_at (CHR ''/'') s of
        None \<Rightarrow> None
      | Some (ip, bits) \<Rightarrow>
          (case ParseAddr ip of
             None \<Rightarrow> None
           | Some a \<Rightarrow>
               if addr_Zone a \<noteq> [] \<or> bits = [] \<or> \<not> list_all is_digit bits \<or> dec_val bits > (if addr_Is6 a then 128 else 32)
               then None
               else (case a of
                       V4 w \<Rightarrow> Some (Net4 (push_bit (32 - dec_val bits) (drop_bit (32 - dec_val bits) w)) (dec_val bits))
                     | V6 w _ \<Rightarrow> Some (Net6 (push_bit (128 - dec_val bits) (drop_bit (128 - dec_val bits) w)) (dec_val bits)))))"

text \<open>
  \<open>IPNet.Contains\<close>: an address with an IPv4 form is compared in it, and so is a network whose
  address has one, with the last four bytes of its mask.
\<close>

definition ipnet_Contains :: "IPNet \<Rightarrow> 128 word \<Rightarrow> bool" where
  "ipnet_Contains n ip =
     (let four = (case n of Net4 w k \<Rightarrow> Some (w, k) | Net6 x k \<Rightarrow> map_option (\<lambda>w. (w, k - 96)) (To4 x))
      in case (four, To4 ip) of
           (Some (w, k), Some y) \<Rightarrow> drop_bit (32 - k) (w XOR y) = 0
         | (None, None) \<Rightarrow> (case n of Net6 x k \<Rightarrow> drop_bit (128 - k) (x XOR ip) = 0 | Net4 _ _ \<Rightarrow> False)
         | _ \<Rightarrow> False)"

subsection \<open>Trusted proxies\<close>

type_synonym TrustedProxies = "IPNet list"

fun ParseTrustedProxies :: "string list \<Rightarrow> goerr + TrustedProxies" where
  "ParseTrustedProxies [] = Inr []"
| "ParseTrustedProxies (cidr # cidrs) =
     (if TrimSpace cidr = [] then ParseTrustedProxies cidrs
      else (case net_ParseCIDR (TrimSpace cidr) of
              None \<Rightarrow> Inl (ErrMsg ''invalid CIDR address: %s'' [TrimSpace cidr])
            | Some network \<Rightarrow>
                (case ParseTrustedProxies cidrs of Inl err \<Rightarrow> Inl err | Inr nets \<Rightarrow> Inr (network # nets))))"

text \<open>\<open>None\<close> is the panic.\<close>

definition MustParseTrustedProxies :: "string list \<Rightarrow> TrustedProxies option" where
  "MustParseTrustedProxies cidrs = (case ParseTrustedProxies cidrs of Inl err \<Rightarrow> None | Inr tp \<Rightarrow> Some tp)"

definition tp_Contains :: "TrustedProxies \<Rightarrow> 128 word \<Rightarrow> bool" where
  "tp_Contains tp ip = list_ex (\<lambda>network. ipnet_Contains network ip) tp"

subsection \<open>Resolution\<close>

text \<open>\<open>headers.Get\<close>: the value of a header, empty when there is none.\<close>

definition header_Get :: "(string \<rightharpoonup> string) \<Rightarrow> string \<Rightarrow> string" where
  "header_Get h key = (case h key of None \<Rightarrow> [] | Some v \<Rightarrow> v)"

definition untrusted_ip :: "TrustedProxies \<Rightarrow> string \<Rightarrow> bool" where
  "untrusted_ip trusted candidate =
     (case net_ParseIP candidate of None \<Rightarrow> False | Some ip \<Rightarrow> \<not> tp_Contains trusted ip)"

text \<open>The loop over the parts of X-Forwarded-For from the right.\<close>

definition last_untrusted :: "TrustedProxies \<Rightarrow> string \<Rightarrow> string option" where
  "last_untrusted trusted xff =
     find (untrusted_ip trusted) (map TrimSpace (rev (split_on (CHR '','') xff)))"

definition clientip_FromRequest :: "TrustedProxies \<Rightarrow> string \<Rightarrow> (string \<rightharpoonup> string) \<Rightarrow> string" where
  "clientip_FromRequest trusted remoteAddr headers =
     (let directIP = (case SplitHost remoteAddr of Some host \<Rightarrow> host | None \<Rightarrow> remoteAddr)
      in case net_ParseIP directIP of
           None \<Rightarrow> directIP
         | Some direct \<Rightarrow>
             if \<not> tp_Contains trusted direct then directIP
             else
               (let xff = header_Get headers ''X-Forwarded-For'';
                    xri = TrimSpace (header_Get headers ''X-Real-Ip'')
                in case (if xff = [] then None else last_untrusted trusted xff) of
                     Some candidate \<Rightarrow> candidate
                   | None \<Rightarrow> if xri \<noteq> [] \<and> untrusted_ip trusted xri then xri else directIP))"

definition clientip_WithContext :: "string \<Rightarrow> Httpx.http_request \<Rightarrow> Httpx.http_request" where
  "clientip_WithContext ip r = r\<lparr>rq_client_ip := Some ip\<rparr>"

definition clientip_FromContext :: "Httpx.http_request \<Rightarrow> string" where
  "clientip_FromContext r = (case rq_client_ip r of None \<Rightarrow> [] | Some value \<Rightarrow> value)"

subsection \<open>Properties\<close>

lemma find_append: "find P (xs @ ys) = (case find P xs of Some x \<Rightarrow> Some x | None \<Rightarrow> find P ys)"
  by (induction xs) auto

lemma last_untrusted_append:
  "last_untrusted trusted (w @ CHR '','' # v) =
     (case last_untrusted trusted v of Some c \<Rightarrow> Some c | None \<Rightarrow> last_untrusted trusted w)"
  unfolding last_untrusted_def split_on_append rev_append map_append find_append ..

lemma FromRequest_untrusted:
  assumes "direct = (case SplitHost remoteAddr of Some host \<Rightarrow> host | None \<Rightarrow> remoteAddr)"
    "net_ParseIP direct = None \<or> untrusted_ip trusted direct"
  shows "clientip_FromRequest trusted remoteAddr headers = direct"
  using assms(2) unfolding clientip_FromRequest_def assms(1) [symmetric] Let_def
  by (cases "net_ParseIP direct") (simp_all add: untrusted_ip_def)

lemma FromRequest_spoofed:
  assumes "last_untrusted trusted v = Some c" "v \<noteq> []"
  shows "clientip_FromRequest trusted remoteAddr (headers(''X-Forwarded-For'' \<mapsto> x @ CHR '','' # v)) =
     clientip_FromRequest trusted remoteAddr (headers(''X-Forwarded-For'' \<mapsto> v))"
proof -
  let ?spoofed = "headers(''X-Forwarded-For'' \<mapsto> x @ CHR '','' # v)" and ?honest = "headers(''X-Forwarded-For'' \<mapsto> v)"
  have g: "header_Get ?spoofed ''X-Real-Ip'' = header_Get headers ''X-Real-Ip''"
    "header_Get ?honest ''X-Real-Ip'' = header_Get headers ''X-Real-Ip''"
    "header_Get ?spoofed ''X-Forwarded-For'' = x @ CHR '','' # v" "header_Get ?honest ''X-Forwarded-For'' = v"
    by (simp_all add: header_Get_def)
  have l: "last_untrusted trusted (x @ CHR '','' # v) = Some c" using assms(1) by (simp add: last_untrusted_append)
  show ?thesis unfolding clientip_FromRequest_def Let_def g l assms(1) by (simp add: assms(2))
qed

text \<open>
  The middleware's client address. Behind a peer that is not trusted the forwarding headers
  have no influence on the address a handler finds in its context. Behind a trusted one, text
  a client puts in front of the proxies' part of X-Forwarded-For has none either, as long as
  that part holds an address that is not a trusted proxy.
\<close>

theorem legacy_client_ip:
  assumes "\<And>q. from_request q = clientip_FromRequest trusted remoteAddr (rq_header q)"
    "\<And>q v. h q v = \<lparr>hs_world = f (clientip_FromContext q) v, hs_panic = None, hs_pattern = rq_Pattern q\<rparr>"
  shows "let direct = (case SplitHost remoteAddr of Some host \<Rightarrow> host | None \<Rightarrow> remoteAddr) in
     (net_ParseIP direct = None \<or> untrusted_ip trusted direct \<longrightarrow>
      hs_world (Middleware.ClientIP from_request h r w) = f direct w) \<and>
     (last_untrusted trusted v \<noteq> None \<and> v \<noteq> [] \<longrightarrow>
      hs_world (Middleware.ClientIP from_request h (r\<lparr>rq_header := (rq_header r)(''X-Forwarded-For'' \<mapsto> x @ CHR '','' # v)\<rparr>) w) =
      hs_world (Middleware.ClientIP from_request h (r\<lparr>rq_header := (rq_header r)(''X-Forwarded-For'' \<mapsto> v)\<rparr>) w))"
proof -
  have world: "hs_world (Middleware.ClientIP from_request h q w) = f (from_request q) w" for q w
    by (simp add: Middleware.ClientIP_def assms(2) clientip_FromContext_def)
  have honest: "clientip_FromRequest trusted remoteAddr ((rq_header r)(''X-Forwarded-For'' \<mapsto> x @ CHR '','' # v)) =
      clientip_FromRequest trusted remoteAddr ((rq_header r)(''X-Forwarded-For'' \<mapsto> v))"
    if v: "last_untrusted trusted v \<noteq> None" "v \<noteq> []"
  proof -
    obtain c where "last_untrusted trusted v = Some c" using v(1) by blast
    then show ?thesis using FromRequest_spoofed v(2) by blast
  qed
  have upd: "rq_header (r\<lparr>rq_header := hd\<rparr>) = hd" for hd by simp
  show ?thesis
    unfolding Let_def world assms(1) upd using FromRequest_untrusted [OF refl] honest by presburger
qed

end
