(* ===== verification/Composition.thy ===== *)
theory Composition
  imports OutboxTheorems PostgresTx
begin

text \<open>
  Components together: an application changes its own data and enqueues an event in one
  transaction of \<open>postgres\<close>, the way \<open>examples/outbox\<close> does. The database is the pair of the
  application's data and the outbox table.
\<close>

subsection \<open>Enqueueing in a transaction\<close>

text \<open>\<open>examples/outbox\<close>: the event of a new user, due a minute later, with ten attempts.\<close>

definition user_created :: "string \<Rightarrow> int \<Rightarrow> Event" where
  "user_created i now =
     \<lparr>ev_ID = i, ev_Type = ''user.created'', ev_AggregateID = i, ev_AggregateType = [],
      ev_Payload = ''{'' @ [CHR 0x22] @ ''name'' @ [CHR 0x22] @ '':'' @ [CHR 0x22] @ ''Ada'' @ [CHR 0x22] @ ''}'',
      ev_OccurredAt = now, ev_SchemaVersion = 0\<rparr>"

definition enqueueUserCreated ::
  "(string \<Rightarrow> goerr + string) \<Rightarrow> int \<Rightarrow> int \<Rightarrow> exec_outcome \<Rightarrow> string \<Rightarrow> outbox_row list \<Rightarrow> outbox_row list \<times> goerr option" where
  "enqueueUserCreated marshal now db_now out i rows =
     outbox_Enqueue marshal now db_now out (user_created i now)
       [Some (WithMaxAttempts 10), Some (WithProcessAfter (Some (now + 60 * 1000000)))] rows"

text \<open>A callback that makes a change and then enqueues, returning the first error.\<close>

definition publishing ::
  "('a \<Rightarrow> 'a \<times> goerr option) \<Rightarrow> (outbox_row list \<Rightarrow> outbox_row list \<times> goerr option)
     \<Rightarrow> 'a \<times> outbox_row list \<Rightarrow> ('a \<times> outbox_row list) \<times> fn_outcome" where
  "publishing change enqueue d =
     (case change (fst d) of
        (a, Some err) \<Rightarrow> ((a, snd d), FnReturned (Some err))
      | (a, None) \<Rightarrow> (case enqueue (snd d) of (rows, err) \<Rightarrow> ((a, rows), FnReturned err)))"

lemma Enqueue_success:
  assumes "outbox_Enqueue marshal now db_now out event options rows = (rows', None)"
  shows "\<exists>r cfg. rows' = rows @ [r] \<and> ev_ID event \<notin> or_id ` set rows \<and> or_id r = ev_ID event \<and>
     apply_enqueue_options options \<lparr>ec_maxAttempts = 5, ec_processAfter = now\<rparr> = Inr cfg \<and>
     or_process_after r = ec_processAfter cfg \<and> (\<forall>t. message_due t r \<longleftrightarrow> ec_processAfter cfg \<le> t)"
  using assms
  by (auto simp: outbox_Enqueue_def outbox_insert_def message_due_def split: sum.splits if_splits exec_outcome.splits)

text \<open>C4: The change and its event are one. When no commit reply is lost, a transaction whose callback
  changes the application's data and enqueues an event either returns nil, and then the change
  is installed together with exactly one new message, under an identifier that was free and due
  from the time its options say; or it installs neither, whatever failed or was retried.
\<close>

theorem transactional_outbox:
  assumes "no_lost_reply env" "withTransaction cfgs False opts env (a, rows) = (db', n, ws, res)"
    "\<And>k. te_fn (ae_tx (env k)) = publishing (change k) (outbox_Enqueue marshal (now k) (db_now k) (out k) event options)"
    "others_until env 1 (int n) (a, rows) = (a0, rows0)"
  shows "if res = TxReturned None
     then \<exists>a' r cfg. change (int n) a0 = (a', None) \<and> db' = (a', rows0 @ [r]) \<and>
        or_id r = ev_ID event \<and> ev_ID event \<notin> or_id ` set rows0 \<and>
        apply_enqueue_options options \<lparr>ec_maxAttempts = 5, ec_processAfter = now (int n)\<rparr> = Inr cfg \<and>
        (\<forall>t. message_due t r \<longleftrightarrow> ec_processAfter cfg \<le> t)
     else db' = (a0, rows0)"
proof -
  have "tx_loop (effective_config cfgs) env 1 (rt_InitialBackoff (effective_config cfgs)) None (a, rows) = (db', n, ws, res)"
    using assms(2) by (simp add: withTransaction_def Let_def)
  note run = tx_loop_run [OF assms(1) this]
  show ?thesis
  proof (cases "res = TxReturned None")
    case True
    then have fn: "publishing (change (int n)) (outbox_Enqueue marshal (now (int n)) (db_now (int n)) (out (int n)) event options) (a0, rows0) =
        (db', FnReturned None)"
      using run assms(3,4) by (simp add: add.commute)
    then obtain a' rows' where "change (int n) a0 = (a', None)" "db' = (a', rows')"
      "outbox_Enqueue marshal (now (int n)) (db_now (int n)) (out (int n)) event options rows0 = (rows', None)"
      by (auto simp: publishing_def split: prod.splits option.splits)
    then show ?thesis using Enqueue_success [of marshal "now (int n)"] True by fastforce
  next
    case False
    then show ?thesis using run assms(4) by (simp add: add.commute)
  qed
qed

definition signup_env :: "int \<Rightarrow> (nat \<times> outbox_row list) attempt_env" where
  "signup_env k = \<lparr>ae_ctx = None,
     ae_tx = \<lparr>te_before = id, te_begin = None,
       te_fn = publishing (\<lambda>users. (Suc users, None)) (enqueueUserCreated Inr 5 5 ExecOk ''u1''), te_commit = CommitOk\<rparr>,
     ae_draw = 0, ae_done = None\<rparr>"

theorem transactional_outbox_witness:
  "\<exists>r. withTransaction [] False False signup_env (0, []) = ((1, [r]), 1, [], TxReturned None) \<and>
     or_id r = ''u1'' \<and> (\<forall>t. message_due t r \<longleftrightarrow> 60000005 \<le> t)"
proof -
  have "\<exists>r. enqueueUserCreated Inr 5 5 ExecOk ''u1'' [] = ([r], None)"
    by (simp add: enqueueUserCreated_def outbox_Enqueue_def WithMaxAttempts_def WithProcessAfter_def outbox_insert_def)
  then obtain r where r: "enqueueUserCreated Inr 5 5 ExecOk ''u1'' [] = ([r], None)" by blast
  have "tx_loop (effective_config []) signup_env 1 (rt_InitialBackoff (effective_config [])) None (0, []) =
      ((1, [r]), 1, [], TxReturned None)"
    by (subst tx_loop.simps)
      (simp add: signup_env_def runInTx_def effective_config_def defaultRetryConfig_def publishing_def r)
  then have run: "withTransaction [] False False signup_env (0, []) = ((1, [r]), 1, [], TxReturned None)"
    by (simp add: withTransaction_def Let_def)
  have "others_until signup_env 1 (int 1) (0, []) = (0, [])" by (simp add: signup_env_def)
  note start = this
  let ?opts = "[Some (WithMaxAttempts 10), Some (WithProcessAfter (Some (5 + 60 * 1000000)))]"
  have fn: "te_fn (ae_tx (signup_env k)) =
      publishing (\<lambda>users. (Suc users, None)) (outbox_Enqueue Inr 5 5 ExecOk (user_created ''u1'' 5) ?opts)" for k
  proof -
    have "enqueueUserCreated Inr 5 5 ExecOk ''u1'' = outbox_Enqueue Inr 5 5 ExecOk (user_created ''u1'' 5) ?opts"
      by (rule ext) (simp add: enqueueUserCreated_def)
    then show ?thesis by (simp add: signup_env_def)
  qed
  have lost: "no_lost_reply signup_env" by (simp add: no_lost_reply_def signup_env_def)
  have "or_id r = ''u1'' \<and> (\<forall>t. message_due t r \<longleftrightarrow> 60000005 \<le> t)"
    using transactional_outbox [OF lost run fn start] by (auto simp: user_created_def WithMaxAttempts_def WithProcessAfter_def)
  then show ?thesis using run by blast
qed

end
