(* ===== verification/Capabilities.thy ===== *)
theory Capabilities
  imports Migrate "HOL-Library.Multiset"
begin

text \<open>
  The migrations the library ships: those of the jobs queue (\<open>jobs/migrations.go\<close>), of the outbox
  (\<open>outbox/migrations.go\<close>) and the deprecated aggregate of both (\<open>migrate.EngineSources\<close>), with the
  embedded files, and how they load together with an application's own migrations.
\<close>

subsection \<open>The embedded files\<close>

definition sql_lines :: "string list \<Rightarrow> string" where
  "sql_lines ls = concat (map (\<lambda>l. l @ [CHR 0x0A]) ls)"

definition sql_file :: "string \<Rightarrow> string list \<Rightarrow> fs_entry" where
  "sql_file name ls = \<lparr>fe_Name = name, fe_IsDir = False, fe_body = Inr (sql_lines ls)\<rparr>"

definition outbox_initial :: fs_entry where
  "outbox_initial = sql_file ''0001_outbox_initial.up.sql''
     [''CREATE TABLE IF NOT EXISTS outbox_messages ('',
      '' id TEXT PRIMARY KEY, event_type TEXT NOT NULL, aggregate_id TEXT, aggregate_type TEXT,'',
      '' payload JSONB, schema_version INT NOT NULL DEFAULT 0, occurred_at TIMESTAMPTZ NOT NULL,'',
      '' created_at TIMESTAMPTZ NOT NULL DEFAULT CURRENT_TIMESTAMP, attempt INT NOT NULL DEFAULT 0,'',
      '' max_attempts INT NOT NULL DEFAULT 5, process_after TIMESTAMPTZ NOT NULL DEFAULT CURRENT_TIMESTAMP,'',
      '' processed_at TIMESTAMPTZ, failed_at TIMESTAMPTZ, last_error TEXT'',
      '');'']"

definition jobs_initial :: fs_entry where
  "jobs_initial = sql_file ''0002_jobs_initial.up.sql''
     [''CREATE TABLE IF NOT EXISTS devengine_jobs ('',
      '' id TEXT PRIMARY KEY, name TEXT NOT NULL, payload JSONB, run_at TIMESTAMPTZ NOT NULL DEFAULT NOW(),'',
      '' attempt INT NOT NULL DEFAULT 0, max_attempts INT NOT NULL DEFAULT 5, last_error TEXT,'',
      '' locked_until TIMESTAMPTZ, created_at TIMESTAMPTZ NOT NULL DEFAULT NOW()'',
      '');'',
      ''CREATE INDEX IF NOT EXISTS idx_devengine_jobs_schedule ON devengine_jobs(run_at, locked_until);'']"

definition outbox_claim_ownership :: fs_entry where
  "outbox_claim_ownership = sql_file ''0003_outbox_claim_ownership.up.sql''
     [''ALTER TABLE outbox_messages ADD COLUMN IF NOT EXISTS locked_until TIMESTAMPTZ;'',
      ''ALTER TABLE outbox_messages ADD COLUMN IF NOT EXISTS claim_token TEXT;'']"

definition jobs_claim_ownership :: fs_entry where
  "jobs_claim_ownership = sql_file ''0004_jobs_claim_ownership.up.sql''
     [''ALTER TABLE devengine_jobs ADD COLUMN IF NOT EXISTS claim_token TEXT;'']"

text \<open>An embedded file system with one directory.\<close>

definition embed_FS :: "fs_entry list \<Rightarrow> string \<Rightarrow> goerr + fs_entry list" where
  "embed_FS entries dir = (if dir = ''migrations'' then Inr entries else Inl (ErrSentinel ''file does not exist''))"

definition engine_source :: "fs_entry list \<Rightarrow> Source" where
  "engine_source entries = \<lparr>src_Kind = EngineSource, src_FS = Some (embed_FS entries), src_Dir = ''migrations''\<rparr>"

definition jobs_Migrations :: "Source list" where
  "jobs_Migrations = [engine_source [jobs_initial, jobs_claim_ownership]]"

definition outbox_Migrations :: "Source list" where
  "outbox_Migrations = [engine_source [outbox_initial, outbox_claim_ownership]]"

definition EngineSources :: "Source list" where
  "EngineSources = [engine_source [outbox_initial, jobs_initial, outbox_claim_ownership, jobs_claim_ownership]]"

subsection \<open>Loading them\<close>

definition shipped :: "(string \<Rightarrow> string) \<Rightarrow> int \<Rightarrow> string \<Rightarrow> fs_entry \<Rightarrow> migration" where
  "shipped sha v name e = \<lparr>mg_Version = v, mg_Name = name, mg_SQL = projr (fe_body e),
     mg_Checksum = sha (projr (fe_body e)), mg_Source = EngineSource\<rparr>"

lemma shipped_patterns:
  "migrationPattern ''0001_outbox_initial.up.sql'' = Some (''0001'', ''outbox_initial'')"
  "migrationPattern ''0002_jobs_initial.up.sql'' = Some (''0002'', ''jobs_initial'')"
  "migrationPattern ''0003_outbox_claim_ownership.up.sql'' = Some (''0003'', ''outbox_claim_ownership'')"
  "migrationPattern ''0004_jobs_claim_ownership.up.sql'' = Some (''0004'', ''jobs_claim_ownership'')"
  by code_simp+

lemma shipped_versions:
  "ParseInt32 ''0001'' = Inr 1" "ParseInt32 ''0002'' = Inr 2" "ParseInt32 ''0003'' = Inr 3" "ParseInt32 ''0004'' = Inr 4"
  by (simp_all add: ParseInt32_def dec_val_def digit_val_def)

lemma load_shipped:
  assumes "migrationPattern (fe_Name e) = Some (ds, name)" "ParseInt32 ds = Inr v" "1 \<le> v" "v \<le> 999"
    "\<not> fe_IsDir e" "fe_body e = Inr body" "seen v = None"
  shows "load_entry sha EngineSource e (ms, seen) = Inr (ms @ [shipped sha v name e], seen(v \<mapsto> fe_Name e))"
  using assms by (simp add: load_entry_def validateVersion_def shipped_def)

lemma load_shipped_each:
  "seen 1 = None \<Longrightarrow> load_entry sha EngineSource outbox_initial (ms, seen) =
     Inr (ms @ [shipped sha 1 ''outbox_initial'' outbox_initial], seen(1 \<mapsto> ''0001_outbox_initial.up.sql''))"
  "seen 2 = None \<Longrightarrow> load_entry sha EngineSource jobs_initial (ms, seen) =
     Inr (ms @ [shipped sha 2 ''jobs_initial'' jobs_initial], seen(2 \<mapsto> ''0002_jobs_initial.up.sql''))"
  "seen 3 = None \<Longrightarrow> load_entry sha EngineSource outbox_claim_ownership (ms, seen) =
     Inr (ms @ [shipped sha 3 ''outbox_claim_ownership'' outbox_claim_ownership], seen(3 \<mapsto> ''0003_outbox_claim_ownership.up.sql''))"
  "seen 4 = None \<Longrightarrow> load_entry sha EngineSource jobs_claim_ownership (ms, seen) =
     Inr (ms @ [shipped sha 4 ''jobs_claim_ownership'' jobs_claim_ownership], seen(4 \<mapsto> ''0004_jobs_claim_ownership.up.sql''))"
  by (simp_all add: load_shipped [OF _ shipped_versions(1)] load_shipped [OF _ shipped_versions(2)]
      load_shipped [OF _ shipped_versions(3)] load_shipped [OF _ shipped_versions(4)] shipped_patterns
      outbox_initial_def jobs_initial_def outbox_claim_ownership_def jobs_claim_ownership_def sql_file_def)

lemma engine_source_entries:
  "load_each sha (engine_source es # ss) st =
     (case load_entries sha EngineSource es st of Inl e \<Rightarrow> Inl e | Inr st' \<Rightarrow> load_each sha ss st')"
proof -
  have "TrimSpace ''migrations'' = ''migrations''"
    by (rule TrimSpace_id) (simp add: trimmed_def space_encodings_def suffix_to_prefix)
  then show ?thesis by (simp add: engine_source_def source_dir_def embed_FS_def)
qed

subsection \<open>An application's migrations after them\<close>

definition with_engine :: "migration list \<Rightarrow> (int \<rightharpoonup> string) \<Rightarrow> load_state \<Rightarrow> load_state" where
  "with_engine pre seen0 st = (pre @ fst st, seen0 ++ snd st)"

lemma load_entry_app:
  assumes "\<forall>v \<ge> 1000. seen0 v = None"
  shows "load_entry sha AppSource e (with_engine pre seen0 st) =
     map_sum id (with_engine pre seen0) (load_entry sha AppSource e st)"
proof -
  have "(seen0 ++ snd st) v = snd st v" if "validateVersion AppSource v = None" for v
  proof -
    have "seen0 v = None" using assms that by (simp add: validateVersion_def split: if_splits)
    then show ?thesis by (simp add: map_add_def split: option.split)
  qed
  then show ?thesis
    by (cases st) (auto simp: load_entry_def with_engine_def split: option.splits sum.splits)
qed

lemma load_entries_app:
  assumes "\<forall>v \<ge> 1000. seen0 v = None"
  shows "load_entries sha AppSource es (with_engine pre seen0 st) =
     map_sum id (with_engine pre seen0) (load_entries sha AppSource es st)"
proof (induction es arbitrary: st)
  case (Cons e es)
  show ?case by (cases "load_entry sha AppSource e st") (simp_all add: load_entry_app [OF assms] Cons.IH)
qed simp

lemma load_each_app:
  assumes "\<forall>v \<ge> 1000. seen0 v = None" "\<forall>s \<in> set ss. src_Kind s = AppSource"
  shows "load_each sha ss (with_engine pre seen0 st) = map_sum id (with_engine pre seen0) (load_each sha ss st)"
  using assms(2)
proof (induction ss arbitrary: st)
  case (Cons s ss)
  have IH: "load_each sha ss (with_engine pre seen0 st') = map_sum id (with_engine pre seen0) (load_each sha ss st')" for st'
    by (rule Cons.IH) (use Cons.prems in simp)
  have kind: "src_Kind s = AppSource" using Cons.prems by simp
  show ?case
  proof (cases "src_FS s")
    case None
    then have "load_each sha (s # ss) st' = load_each sha ss st'" for st' by simp
    then show ?thesis by (simp only: IH)
  next
    case fs: (Some readDir)
    show ?thesis
    proof (cases "readDir (source_dir s)")
      case (Inl e)
      then show ?thesis by (simp add: fs)
    next
      case (Inr es)
      then show ?thesis
        by (cases "load_entries sha AppSource es st") (simp_all add: fs kind load_entries_app [OF assms(1)] IH id_def)
    qed
  qed
qed simp

lemma load_each_append:
  "load_each sha (ss @ ts) st = (case load_each sha ss st of Inl e \<Rightarrow> Inl e | Inr st' \<Rightarrow> load_each sha ts st')"
  by (induction sha ss st rule: load_each.induct) (auto split: option.splits sum.splits)

lemma sort_key_append:
  assumes "\<forall>x \<in> set xs. \<forall>y \<in> set ys. f x < f y"
  shows "sort_key f (xs @ ys) = sort_key f xs @ sort_key f ys"
proof (rule properties_for_sort_key)
  show "sorted (map f (sort_key f xs @ sort_key f ys))" using assms by (auto simp: sorted_append less_imp_le)
  show "filter (\<lambda>x. f k = f x) (sort_key f xs @ sort_key f ys) = filter (\<lambda>x. f k = f x) (xs @ ys)" for k
    using sort_key_stable [of f "f k"] by (simp add: eq_commute)
qed simp

subsection \<open>Properties\<close>

definition shipped_all :: "(string \<Rightarrow> string) \<Rightarrow> migration list" where
  "shipped_all sha =
     [shipped sha 1 ''outbox_initial'' outbox_initial, shipped sha 2 ''jobs_initial'' jobs_initial,
      shipped sha 3 ''outbox_claim_ownership'' outbox_claim_ownership,
      shipped sha 4 ''jobs_claim_ownership'' jobs_claim_ownership]"

definition shipped_names :: "int \<rightharpoonup> string" where
  "shipped_names = [1 \<mapsto> ''0001_outbox_initial.up.sql'', 2 \<mapsto> ''0002_jobs_initial.up.sql'',
     3 \<mapsto> ''0003_outbox_claim_ownership.up.sql'', 4 \<mapsto> ''0004_jobs_claim_ownership.up.sql'']"

lemma shipped_version [simp]: "mg_Version (shipped sha v name e) = v"
  by (simp add: shipped_def)

text \<open>The sources of the library, in whichever way and order they are given.\<close>

definition engine_choices :: "Source list list" where
  "engine_choices = [EngineSources, jobs_Migrations @ outbox_Migrations, outbox_Migrations @ jobs_Migrations]"

lemma load_choices:
  "load_each sha EngineSources ([], Map.empty) = Inr (shipped_all sha, shipped_names)"
  "load_each sha (jobs_Migrations @ outbox_Migrations) ([], Map.empty) =
     Inr (map ((!) (shipped_all sha)) [1, 3, 0, 2], shipped_names)"
  "load_each sha (outbox_Migrations @ jobs_Migrations) ([], Map.empty) =
     Inr (map ((!) (shipped_all sha)) [0, 2, 1, 3], shipped_names)"
  unfolding EngineSources_def jobs_Migrations_def outbox_Migrations_def append_Cons append_Nil engine_source_entries
  by (simp_all add: load_shipped_each shipped_all_def shipped_names_def fun_eq_iff)

lemma load_engine:
  assumes "srcs \<in> set engine_choices"
  obtains ms where "load_each sha srcs ([], Map.empty) = Inr (ms, shipped_names)" "sort_key mg_Version ms = shipped_all sha"
proof -
  have "sort_key mg_Version (shipped_all sha) = shipped_all sha"
    "sort_key mg_Version (map ((!) (shipped_all sha)) [1, 3, 0, 2]) = shipped_all sha"
    "sort_key mg_Version (map ((!) (shipped_all sha)) [0, 2, 1, 3]) = shipped_all sha"
    by (simp_all add: shipped_all_def)
  with assms load_choices [of sha] that show thesis by (auto simp: engine_choices_def)
qed

lemma source_migrations_kind: "m \<in> set (source_migrations sha s) \<Longrightarrow> mg_Source m = src_Kind s"
  by (auto simp: source_migrations_def entry_migrations_def file_migration_def List.map_filter_def
      split: option.splits sum.splits if_splits)

lemma app_versions:
  assumes "load_each sha apps ([], Map.empty) = Inr st" "\<forall>s \<in> set apps. src_Kind s = AppSource" "m \<in> set (fst st)"
  shows "1000 \<le> mg_Version m"
proof -
  have inv: "load_inv ([], Map.empty)" by (simp add: load_inv_def)
  from load_each_Inr [OF assms(1) inv] have st: "load_inv st" "fst st = concat (map (source_migrations sha) apps)" by simp_all
  have "mg_Source m = AppSource" using assms(2,3) source_migrations_kind unfolding st(2) by fastforce
  then show ?thesis
    using st(1) assms(3) unfolding load_inv_def by (fastforce simp: validateVersion_def split: if_splits)
qed

text \<open>The shipped migrations fit together. Installing the capabilities one by one, in either order,
  loads exactly the migrations of the deprecated aggregate, versions 1 to 4 with the same names
  and checksums, so a database migrated by the one is up to date for the other; an application's
  own migrations load behind them exactly when they load alone; and the aggregate next to a
  capability is refused as a duplicate.
\<close>

theorem capability_migrations_compose:
  assumes "srcs \<in> set engine_choices" "\<forall>s \<in> set apps. src_Kind s = AppSource"
  shows "loadSources sha srcs = Inr (shipped_all sha) \<and> map mg_Version (shipped_all sha) = [1, 2, 3, 4] \<and>
     loadSources sha (srcs @ apps) = map_sum id (\<lambda>ms. shipped_all sha @ ms) (loadSources sha apps) \<and>
     (\<exists>e. loadSources sha (EngineSources @ jobs_Migrations) = Inl e) \<and>
     (\<exists>e. loadSources sha (EngineSources @ outbox_Migrations) = Inl e)"
proof (intro conjI)
  obtain ms where ms: "load_each sha srcs ([], Map.empty) = Inr (ms, shipped_names)" "sort_key mg_Version ms = shipped_all sha"
    using load_engine [OF assms(1)] .
  show "loadSources sha srcs = Inr (shipped_all sha)" using ms by (simp add: loadSources_def)
  have eng: "set ms = set (shipped_all sha)" using ms(2) by (metis set_sort)
  have none: "\<forall>v \<ge> 1000. shipped_names v = None" by (simp add: shipped_names_def)
  have start: "(ms, shipped_names) = with_engine ms shipped_names ([], Map.empty)" by (simp add: with_engine_def)
  have load: "load_each sha (srcs @ apps) ([], Map.empty) =
      map_sum id (with_engine ms shipped_names) (load_each sha apps ([], Map.empty))"
    by (simp add: load_each_append ms(1)) (simp add: start load_each_app [OF none assms(2)])
  show "loadSources sha (srcs @ apps) = map_sum id (\<lambda>ms. shipped_all sha @ ms) (loadSources sha apps)"
  proof (cases "load_each sha apps ([], Map.empty)")
    case (Inl e)
    then show ?thesis by (simp add: loadSources_def load)
  next
    case (Inr st)
    have "1000 \<le> mg_Version m" if "m \<in> set (fst st)" for m using app_versions [OF Inr assms(2) that] .
    moreover have "mg_Version m \<le> 4" if "m \<in> set ms" for m
      using that unfolding eng shipped_all_def by auto
    ultimately have "\<forall>m \<in> set ms. \<forall>m' \<in> set (fst st). mg_Version m < mg_Version m'"
      by fastforce
    then have "sort_key mg_Version (ms @ fst st) = shipped_all sha @ sort_key mg_Version (fst st)"
      using sort_key_append [of ms "fst st" mg_Version] ms(2) by simp
    then show ?thesis using Inr by (cases st) (simp add: loadSources_def load with_engine_def)
  qed
  show "map mg_Version (shipped_all sha) = [1, 2, 3, 4]" by (simp add: shipped_all_def)
  have dup: "\<exists>e. load_entry sha EngineSource jobs_initial (m, shipped_names) = Inl e"
    "\<exists>e. load_entry sha EngineSource outbox_initial (m, shipped_names) = Inl e" for m
    by (simp_all add: load_entry_def jobs_initial_def outbox_initial_def sql_file_def shipped_patterns shipped_versions
        validateVersion_def shipped_names_def)
  obtain ms where ms: "load_each sha EngineSources ([], Map.empty) = Inr (ms, shipped_names)"
    using load_choices(1) by blast
  show "\<exists>e. loadSources sha (EngineSources @ jobs_Migrations) = Inl e"
    using dup(1) [of ms] by (auto simp: loadSources_def load_each_append ms jobs_Migrations_def engine_source_entries simp del: load_each.simps(2))
  show "\<exists>e. loadSources sha (EngineSources @ outbox_Migrations) = Inl e"
    using dup(2) [of ms] by (auto simp: loadSources_def load_each_append ms outbox_Migrations_def engine_source_entries simp del: load_each.simps(2))
qed

definition app_source :: Source where
  "app_source = \<lparr>src_Kind = AppSource,
     src_FS = Some (\<lambda>dir. if dir = ''.'' then Inr [sql_file ''1000_users.up.sql'' [''SELECT 1;'']] else Inl (ErrSentinel dir)),
      src_Dir = []\<rparr>"

lemma load_app_source:
  "loadSources rev [app_source] = Inr [\<lparr>mg_Version = 1000, mg_Name = ''users'', mg_SQL = sql_lines [''SELECT 1;''],
     mg_Checksum = rev (sql_lines [''SELECT 1;'']), mg_Source = AppSource\<rparr>]"
proof -
  have "migrationPattern ''1000_users.up.sql'' = Some (''1000'', ''users'')" by code_simp
  moreover have "ParseInt32 ''1000'' = Inr 1000" by (simp add: ParseInt32_def dec_val_def digit_val_def)
  moreover have "TrimSpace [] = []" by code_simp
  ultimately show ?thesis
    by (simp add: loadSources_def app_source_def source_dir_def load_entry_def validateVersion_def sql_file_def)
qed

theorem capability_migrations_compose_witness:
  "map_sum id (map mg_Version) (loadSources rev ((jobs_Migrations @ outbox_Migrations) @ [app_source])) =
     Inr [1, 2, 3, 4, 1000]"
proof -
  have "jobs_Migrations @ outbox_Migrations \<in> set engine_choices" by (simp add: engine_choices_def)
  from capability_migrations_compose [OF this, of "[app_source]" rev] show ?thesis
    unfolding load_app_source by (simp add: app_source_def)
qed

end
