(* ===== verification/TestDb.thy ===== *)
theory TestDb
  imports PostgresTx Capabilities "HOL-Library.Word"
begin

text \<open>
  The pool type of \<open>postgres/postgres.go\<close> and the helpers integration tests use to get a database of
  their own (\<open>testutil/postgres/postgres.go\<close>): the name of the database, its creation, the
  migrations, and what the cleanup of a test leaves behind. The server and the driver are the
  record \<open>pgx\<close> of functions; \<open>server_laws\<close> states what the documentation of PostgreSQL says of
  \<open>CREATE DATABASE\<close> and \<open>DROP DATABASE\<close>.
\<close>

subsection \<open>Pools\<close>

text \<open>What the driver does: parse a connection string into the database it names and the pool
  options, create a pool, ping it, and execute a statement with its arguments.\<close>

type_synonym conn_config = "string \<times> pool_config"

record 'srv pgx =
  px_ParseConfig :: "string \<Rightarrow> goerr + conn_config"
  px_New :: "conn_config \<Rightarrow> 'srv \<Rightarrow> goerr option"
  px_Ping :: "string \<Rightarrow> 'srv \<Rightarrow> goerr option"
  px_Exec :: "string \<Rightarrow> string list \<Rightarrow> 'srv \<Rightarrow> goerr option \<times> 'srv"

text \<open>A test process: the server, the pools it holds open with the databases they are connected
  to, the number of pools so far, the registered cleanups, and the log.\<close>

datatype cleanup = CloseDB nat | DropIsolated nat string nat

record 'srv tstate =
  ts_srv :: 'srv
  ts_open :: "(nat \<times> string) list"
  ts_next :: nat
  ts_cleanups :: "cleanup list"
  ts_log :: "string list"

definition new_pool :: "string \<Rightarrow> 'srv tstate \<Rightarrow> nat \<times> 'srv tstate" where
  "new_pool db st = (ts_next st, st\<lparr>ts_open := (ts_next st, db) # ts_open st, ts_next := Suc (ts_next st)\<rparr>)"

definition pool_Close :: "nat \<Rightarrow> 'srv tstate \<Rightarrow> 'srv tstate" where
  "pool_Close p st = st\<lparr>ts_open := filter (\<lambda>(q, _). q \<noteq> p) (ts_open st)\<rparr>"

text \<open>\<open>OpenConfig\<close> on a state: a pool that does not answer is closed before the error is returned.\<close>

definition db_OpenConfig ::
  "'srv pgx \<Rightarrow> conn_config option \<Rightarrow> pool_config \<Rightarrow> 'srv tstate \<Rightarrow> (goerr + nat) \<times> 'srv tstate" where
  "db_OpenConfig px cfg opts st =
     (case cfg of
        None \<Rightarrow> (Inl (ErrMsg ''postgres: config is nil'' []), st)
      | Some (db, c) \<Rightarrow>
         (case OpenConfig (Some c) opts (px_New px (db, applyOptions c opts) (ts_srv st)) (px_Ping px db (ts_srv st)) of
            Opened _ \<Rightarrow> (let (p, st') = new_pool db st in (Inr p, st'))
          | OpenFailed e False \<Rightarrow> (Inl e, st)
          | OpenFailed e True \<Rightarrow> (let (p, st') = new_pool db st in (Inl e, pool_Close p st'))))"

definition db_Open :: "'srv pgx \<Rightarrow> string \<Rightarrow> pool_config \<Rightarrow> 'srv tstate \<Rightarrow> (goerr + nat) \<times> 'srv tstate" where
  "db_Open px connString opts st =
     (case px_ParseConfig px connString of
        Inl e \<Rightarrow> (Inl (ErrWrap ''postgres: parse config: %w'' [] e), st)
      | Inr cfg \<Rightarrow> db_OpenConfig px (Some cfg) opts st)"

definition db_Close :: "nat option \<Rightarrow> 'srv tstate \<Rightarrow> 'srv tstate" where
  "db_Close pool st = (case pool of Some p \<Rightarrow> pool_Close p st | None \<Rightarrow> st)"

definition db_ReadyCheck :: "'srv pgx \<Rightarrow> nat option \<Rightarrow> 'srv tstate \<Rightarrow> goerr option" where
  "db_ReadyCheck px pool st =
     db_Ping (pool \<noteq> None)
       (case pool of None \<Rightarrow> None
        | Some p \<Rightarrow> (case map_of (ts_open st) p of
             None \<Rightarrow> Some (ErrSentinel ''closed pool'')
           | Some db \<Rightarrow> px_Ping px db (ts_srv st)))"

text \<open>Statements run through a pool: on a closed pool the driver returns an error.\<close>

definition db_Exec :: "'srv pgx \<Rightarrow> nat \<Rightarrow> string \<Rightarrow> string list \<Rightarrow> 'srv tstate \<Rightarrow> goerr option \<times> 'srv tstate" where
  "db_Exec px p sql args st =
     (case map_of (ts_open st) p of
        None \<Rightarrow> (Some (ErrSentinel ''closed pool''), st)
      | Some _ \<Rightarrow> (let (e, srv) = px_Exec px sql args (ts_srv st) in (e, st\<lparr>ts_srv := srv\<rparr>)))"

text \<open>\<open>query\<close> is what the driver reads: the rows, or an error, and what the statement did to the
  server. The row of \<open>QueryRow\<close> holds an error back until it is scanned, and is the first one.\<close>

definition db_Query ::
  "(string \<Rightarrow> string list \<Rightarrow> 'srv \<Rightarrow> (goerr + 'row list) \<times> 'srv) \<Rightarrow> nat \<Rightarrow> string \<Rightarrow> string list \<Rightarrow> 'srv tstate
     \<Rightarrow> (goerr + 'row list) \<times> 'srv tstate" where
  "db_Query query p sql args st =
     (case map_of (ts_open st) p of
        None \<Rightarrow> (Inl (ErrSentinel ''closed pool''), st)
      | Some _ \<Rightarrow> (let (rows, srv) = query sql args (ts_srv st) in (rows, st\<lparr>ts_srv := srv\<rparr>)))"

definition db_QueryRow ::
  "(string \<Rightarrow> string list \<Rightarrow> 'srv \<Rightarrow> (goerr + 'row list) \<times> 'srv) \<Rightarrow> nat \<Rightarrow> string \<Rightarrow> string list \<Rightarrow> 'srv tstate
     \<Rightarrow> (goerr + 'row) \<times> 'srv tstate" where
  "db_QueryRow query p sql args st =
     (let (res, st') = db_Query query p sql args st
      in (case res of
            Inl e \<Rightarrow> Inl e
          | Inr [] \<Rightarrow> Inl (ErrSentinel ''no rows in result set'')
          | Inr (r # _) \<Rightarrow> Inr r, st'))"

text \<open>After \<open>Close\<close> nothing reaches the server through the pool: every operation fails, and leaves
  the process as it is.\<close>

lemma closed_pool_inert:
  defines "closed \<equiv> ErrSentinel ''closed pool''"
  shows "db_Exec px p sql args (db_Close (Some p) st) = (Some closed, db_Close (Some p) st)"
    and "db_Query query p sql args (db_Close (Some p) st) = (Inl closed, db_Close (Some p) st)"
    and "db_QueryRow query p sql args (db_Close (Some p) st) = (Inl closed, db_Close (Some p) st)"
    and "db_ReadyCheck px (Some p) (db_Close (Some p) st) \<noteq> None"
    and "db_Close (Some p) (db_Close (Some p) st) = db_Close (Some p) st"
proof -
  have "map_of (ts_open (db_Close (Some p) st)) p = None"
    by (auto simp: db_Close_def pool_Close_def map_of_eq_None_iff)
  then show "db_Exec px p sql args (db_Close (Some p) st) = (Some closed, db_Close (Some p) st)"
    "db_Query query p sql args (db_Close (Some p) st) = (Inl closed, db_Close (Some p) st)"
    "db_QueryRow query p sql args (db_Close (Some p) st) = (Inl closed, db_Close (Some p) st)"
    "db_ReadyCheck px (Some p) (db_Close (Some p) st) \<noteq> None"
    by (simp_all add: db_Exec_def db_Query_def db_QueryRow_def db_ReadyCheck_def db_Ping_def closed_def)
  show "db_Close (Some p) (db_Close (Some p) st) = db_Close (Some p) st"
    by (simp add: db_Close_def pool_Close_def)
qed

subsection \<open>The name of an isolated database\<close>

definition EnvDatabaseURL :: string where
  "EnvDatabaseURL = ''TEST_DATABASE_URL''"

text \<open>\<open>None\<close> skips the test.\<close>

definition databaseURL :: "(string \<rightharpoonup> string) \<Rightarrow> string option" where
  "databaseURL env =
     (let url = TrimSpace (case env EnvDatabaseURL of Some v \<Rightarrow> v | None \<Rightarrow> [])
      in if url = [] then None else Some url)"

definition safe_char :: "char \<Rightarrow> bool" where
  "safe_char c \<longleftrightarrow> byte_in 97 122 c \<or> byte_in 48 57 c"

text \<open>The loop over the runes: one character is written for each, an invalid byte being a rune of
  its own.\<close>

function sanitize_runes :: "string \<Rightarrow> string" where
  "sanitize_runes s =
     (if s = [] then []
      else (if safe_char (hd s) then hd s else CHR ''_'') #
           sanitize_runes (drop (case rune_len s of Some n \<Rightarrow> n | None \<Rightarrow> 1) s))"
  by pat_completeness auto
termination
  by (relation "measure length") (auto split: option.split dest: rune_len_bounds)

declare sanitize_runes.simps [simp del]

definition sanitize :: "string \<Rightarrow> string" where
  "sanitize s = (let result = sanitize_runes (ToLower s) in if length result > 32 then take 32 result else result)"

definition isolated_name :: "string \<Rightarrow> 64 word \<Rightarrow> string" where
  "isolated_name test rnd = ''test_'' @ sanitize test @ ''_'' @ nat_dec (unat rnd)"

text \<open>The verb \<open>%q\<close>: a string of printable ASCII without quotes and backslashes is put in quotes;
  \<open>quote\<close> is what \<open>strconv.Quote\<close> gives for any other.\<close>

definition plain_char :: "char \<Rightarrow> bool" where
  "plain_char c \<longleftrightarrow> byte_in 0x20 0x7E c \<and> c \<noteq> CHR 0x22 \<and> c \<noteq> CHR 0x5C"

definition verb_q :: "(string \<Rightarrow> string) \<Rightarrow> string \<Rightarrow> string" where
  "verb_q quote s = (if list_all plain_char s then [CHR 0x22] @ s @ [CHR 0x22] else quote s)"

definition create_sql :: "(string \<Rightarrow> string) \<Rightarrow> string \<Rightarrow> string" where
  "create_sql quote db = ''CREATE DATABASE '' @ verb_q quote db"

definition drop_sql :: "(string \<Rightarrow> string) \<Rightarrow> string \<Rightarrow> string" where
  "drop_sql quote db = ''DROP DATABASE IF EXISTS '' @ verb_q quote db"

definition terminate_sql :: string where
  "terminate_sql = ''SELECT pg_terminate_backend(pid) FROM pg_stat_activity WHERE datname = $1''"

subsection \<open>The helpers\<close>

text \<open>What becomes of a test at a call of a helper: it goes on with a value, it is skipped, or it
  fails at once. Registered cleanups run in every case.\<close>

datatype 'a tresult = TValue 'a | TSkip string | TFatal string goerr

definition test_options :: "int \<Rightarrow> int \<Rightarrow> pool_config" where
  "test_options maxConns minConns = \<lparr>pc_MaxConns = maxConns, pc_MinConns = minConns, pc_MaxConnLifetime = 0,
     pc_MaxConnIdleTime = 0, pc_HealthCheckPeriod = 0\<rparr>"

definition test_Open :: "'srv pgx \<Rightarrow> (string \<rightharpoonup> string) \<Rightarrow> 'srv tstate \<Rightarrow> nat tresult \<times> 'srv tstate" where
  "test_Open px env st =
     (case databaseURL env of
        None \<Rightarrow> (TSkip EnvDatabaseURL, st)
      | Some connStr \<Rightarrow>
         (case db_Open px connStr (test_options 5 1) st of
            (Inl e, st') \<Rightarrow> (TFatal ''testpostgres: open: %v'' e, st')
          | (Inr p, st') \<Rightarrow> (TValue p, st'\<lparr>ts_cleanups := CloseDB p # ts_cleanups st'\<rparr>)))"

definition test_logf :: "string \<Rightarrow> string \<Rightarrow> goerr option \<Rightarrow> 'srv tstate \<Rightarrow> 'srv tstate" where
  "test_logf format db err st = (case err of None \<Rightarrow> st | Some _ \<Rightarrow> st\<lparr>ts_log := ts_log st @ [format @ db]\<rparr>)"

text \<open>Both statements are executed whatever the first returns; errors are only logged.\<close>

definition dropIsolatedDatabase ::
  "'srv pgx \<Rightarrow> (string \<Rightarrow> string) \<Rightarrow> nat \<Rightarrow> string \<Rightarrow> 'srv tstate \<Rightarrow> 'srv tstate" where
  "dropIsolatedDatabase px quote adminPool dbName st =
     (let (e1, st1) = db_Exec px adminPool terminate_sql [dbName] st;
          st2 = test_logf ''testpostgres: terminate connections for database '' dbName e1 st1;
          (e2, st3) = db_Exec px adminPool (drop_sql quote dbName) [] st2
      in test_logf ''testpostgres: drop database '' dbName e2 st3)"

text \<open>\<open>rnd\<close> is the value of \<open>rand.Uint64\<close>. The cleanup closes the test's pool, drops the database and
  closes the pool of the administrator, in this order.\<close>

definition NewIsolatedDatabase ::
  "'srv pgx \<Rightarrow> (string \<Rightarrow> string) \<Rightarrow> (string \<rightharpoonup> string) \<Rightarrow> string \<Rightarrow> 64 word \<Rightarrow> 'srv tstate
     \<Rightarrow> nat tresult \<times> 'srv tstate" where
  "NewIsolatedDatabase px quote env test rnd st =
     (case databaseURL env of
        None \<Rightarrow> (TSkip EnvDatabaseURL, st)
      | Some connStr \<Rightarrow>
     (case px_ParseConfig px connStr of
        Inl e \<Rightarrow> (TFatal ''testpostgres: parse database URL: %v'' e, st)
      | Inr baseConfig \<Rightarrow>
     (case px_New px baseConfig (ts_srv st) of
        Some e \<Rightarrow> (TFatal ''testpostgres: admin pool: %v'' e, st)
      | None \<Rightarrow>
         (let (adminPool, st1) = new_pool (fst baseConfig) st;
              dbName = isolated_name test rnd;
              (err, st2) = db_Exec px adminPool (create_sql quote dbName) [] st1
          in case err of
               Some e \<Rightarrow> (TFatal ''testpostgres: create database %q: %v'' e, pool_Close adminPool st2)
             | None \<Rightarrow>
                (let testConfig = (dbName, snd baseConfig)
                 in case db_OpenConfig px (Some testConfig) (test_options 5 0) st2 of
                      (Inl e, st3) \<Rightarrow>
                        (TFatal ''testpostgres: open isolated db: %v'' e,
                         pool_Close adminPool (dropIsolatedDatabase px quote adminPool dbName st3))
                    | (Inr db, st3) \<Rightarrow>
                        (TValue db, st3\<lparr>ts_cleanups := DropIsolated db dbName adminPool # ts_cleanups st3\<rparr>))))))"

definition run_cleanup :: "'srv pgx \<Rightarrow> (string \<Rightarrow> string) \<Rightarrow> cleanup \<Rightarrow> 'srv tstate \<Rightarrow> 'srv tstate" where
  "run_cleanup px quote c st =
     (case c of
        CloseDB p \<Rightarrow> db_Close (Some p) st
      | DropIsolated db dbName adminPool \<Rightarrow>
          pool_Close adminPool (dropIsolatedDatabase px quote adminPool dbName (db_Close (Some db) st)))"

text \<open>The end of a test: the cleanups, the last one registered first.\<close>

definition run_cleanups :: "'srv pgx \<Rightarrow> (string \<Rightarrow> string) \<Rightarrow> 'srv tstate \<Rightarrow> 'srv tstate" where
  "run_cleanups px quote st = fold (run_cleanup px quote) (ts_cleanups st) (st\<lparr>ts_cleanups := []\<rparr>)"

definition RunMigrations ::
  "(string \<Rightarrow> string) \<Rightarrow> (string \<Rightarrow> 's \<Rightarrow> goerr + 's) \<Rightarrow> mig_env \<Rightarrow> Source list \<Rightarrow> 's mig_db \<Rightarrow> unit tresult \<times> 's mig_db" where
  "RunMigrations sha run_sql env sources db =
     (case migrate_Apply sha run_sql env True sources db of
        (db', Some e) \<Rightarrow> (TFatal ''testpostgres: run migrations: %v'' e, db')
      | (db', None) \<Rightarrow> (TValue (), db'))"

subsection \<open>Names\<close>

lemma sanitize_chars: "c \<in> set (sanitize_runes s) \<Longrightarrow> safe_char c \<or> c = CHR ''_''"
proof (induction s rule: sanitize_runes.induct)
  case (1 s)
  show ?case
  proof (cases "s = []")
    case True
    with "1.prems" show ?thesis by (simp add: sanitize_runes.simps)
  next
    case False
    with "1.prems" 1(1) [OF False] show ?thesis by (auto simp: sanitize_runes.simps [of s] split: if_splits)
  qed
qed

lemma sanitize_bounds:
  "length (sanitize s) \<le> 32" "c \<in> set (sanitize s) \<Longrightarrow> safe_char c \<or> c = CHR ''_''"
  by (auto simp: sanitize_def Let_def dest: in_set_takeD sanitize_chars split: if_splits)

lemma nat_dec_length: "n < 10 ^ Suc k \<Longrightarrow> length (nat_dec n) \<le> Suc k"
proof (induction k arbitrary: n)
  case (Suc k)
  show ?case
  proof (cases "n < 10")
    case False
    have "n div 10 < 10 ^ Suc k" using Suc.prems by (simp add: less_mult_imp_div_less)
    with Suc.IH False show ?thesis by (subst nat_dec.simps) simp
  qed (simp add: nat_dec.simps)
qed (simp add: nat_dec.simps)

lemma uint64_dec_length: "length (nat_dec (unat (w :: 64 word))) \<le> 20"
proof -
  have "unat w < 2 ^ 64" using unsigned_less [of w] by simp
  then have "unat w < 10 ^ Suc 19" by simp
  then show ?thesis using nat_dec_length by fastforce
qed

lemma digit_safe: "is_digit c \<Longrightarrow> safe_char c"
  by (simp add: is_digit_def safe_char_def byte_in_def)

lemma safe_char_plain: "safe_char c \<Longrightarrow> plain_char c"
  by (auto simp: safe_char_def plain_char_def byte_in_def)

lemma isolated_name_chars: "c \<in> set (isolated_name test rnd) \<Longrightarrow> safe_char c \<or> c = CHR ''_''"
  using nat_dec_val [of "unat rnd"] sanitize_bounds(2)
  by (auto simp: isolated_name_def safe_char_def byte_in_def is_digit_def)

lemma isolated_name_plain: "list_all plain_char (isolated_name test rnd)"
  unfolding list_all_iff
proof
  fix c assume "c \<in> set (isolated_name test rnd)"
  then have "safe_char c \<or> c = CHR ''_''" by (rule isolated_name_chars)
  then show "plain_char c" using safe_char_plain by (auto simp: plain_char_def byte_in_def)
qed

lemma isolated_name_length: "length (isolated_name test rnd) \<le> 58"
  using sanitize_bounds(1) [of test] uint64_dec_length [of rnd] by (simp add: isolated_name_def)

text \<open>What follows the last underscore is the random number.\<close>

lemma isolated_name_inj:
  assumes "isolated_name test rnd = isolated_name test' rnd'"
  shows "rnd = rnd'"
proof -
  have no: "CHR ''_'' \<notin> set (nat_dec n)" for n
    using nat_dec_val [of n] by (auto simp: is_digit_def)
  have "takeWhile (\<lambda>c. c \<noteq> CHR ''_'') (rev (isolated_name t w)) = rev (nat_dec (unat w))" for t and w :: "64 word"
    using no [of "unat w"] by (simp add: isolated_name_def) (subst takeWhile_append2, auto)
  with assms have "rev (nat_dec (unat rnd)) = rev (nat_dec (unat rnd'))" by metis
  then show ?thesis by (simp add: nat_dec_inj word_unat_eq_iff)
qed

subsection \<open>Pools and statements\<close>

definition pools_ok :: "'srv tstate \<Rightarrow> bool" where
  "pools_ok st \<longleftrightarrow> (\<forall>(p, _) \<in> set (ts_open st). p < ts_next st)"

lemma new_pool_state:
  "new_pool db st = (p, st') \<longleftrightarrow>
     p = ts_next st \<and> st' = st\<lparr>ts_open := (ts_next st, db) # ts_open st, ts_next := Suc (ts_next st)\<rparr>"
  by (auto simp: new_pool_def)

lemma pools_ok_fresh: "pools_ok st \<Longrightarrow> ts_next st \<le> p \<Longrightarrow> filter (\<lambda>(q, _). q \<noteq> p) (ts_open st) = ts_open st"
  by (rule filter_True) (auto simp: pools_ok_def)

text \<open>\<open>OpenConfig\<close> leaves a pool open exactly when it returns one.\<close>

lemma db_OpenConfig_cases:
  assumes "pools_ok st"
  obtains (failed) e k where "db_OpenConfig px (Some (db, c)) opts st = (Inl e, st\<lparr>ts_next := k\<rparr>)" "ts_next st \<le> k"
  | (opened) "db_OpenConfig px (Some (db, c)) opts st =
       (Inr (ts_next st), st\<lparr>ts_open := (ts_next st, db) # ts_open st, ts_next := Suc (ts_next st)\<rparr>)"
proof (cases "OpenConfig (Some c) opts (px_New px (db, applyOptions c opts) (ts_srv st)) (px_Ping px db (ts_srv st))")
  case (Opened pc)
  then have "db_OpenConfig px (Some (db, c)) opts st =
       (Inr (ts_next st), st\<lparr>ts_open := (ts_next st, db) # ts_open st, ts_next := Suc (ts_next st)\<rparr>)"
    by (simp add: db_OpenConfig_def new_pool_def)
  then show thesis by (rule opened)
next
  case (OpenFailed e closed)
  show thesis
  proof (cases closed)
    case True
    with OpenFailed have "db_OpenConfig px (Some (db, c)) opts st = (Inl e, st\<lparr>ts_next := Suc (ts_next st)\<rparr>)"
      using pools_ok_fresh [OF assms order_refl] by (simp add: db_OpenConfig_def new_pool_def pool_Close_def)
    then show thesis by (rule failed) simp
  next
    case False
    with OpenFailed have "db_OpenConfig px (Some (db, c)) opts st = (Inl e, st\<lparr>ts_next := ts_next st\<rparr>)"
      by (simp add: db_OpenConfig_def)
    then show thesis by (rule failed) simp
  qed
qed

text \<open>What PostgreSQL documents: \<open>CREATE DATABASE\<close> fails on a name that exists and adds the name when
  it succeeds; \<open>DROP DATABASE IF EXISTS\<close> removes it; a statement whose error reached the client
  may or may not have taken effect. Identifiers of more than 63 bytes are truncated, so nothing
  is said of them here. Terminating sessions changes no database.\<close>

definition server_laws :: "'srv pgx \<Rightarrow> ('srv \<Rightarrow> string set) \<Rightarrow> bool" where
  "server_laws px dbs \<longleftrightarrow>
     (\<forall>n s. length n \<le> 63 \<and> list_all plain_char n \<longrightarrow>
        (case px_Exec px (''CREATE DATABASE '' @ [CHR 0x22] @ n @ [CHR 0x22]) [] s of
           (None, s') \<Rightarrow> n \<notin> dbs s \<and> dbs s' = insert n (dbs s)
         | (Some _, s') \<Rightarrow> dbs s \<subseteq> dbs s' \<and> dbs s' \<subseteq> insert n (dbs s)) \<and>
        (case px_Exec px (''DROP DATABASE IF EXISTS '' @ [CHR 0x22] @ n @ [CHR 0x22]) [] s of
           (None, s') \<Rightarrow> dbs s' = dbs s - {n}
         | (Some _, s') \<Rightarrow> dbs s - {n} \<subseteq> dbs s' \<and> dbs s' \<subseteq> dbs s)) \<and>
     (\<forall>args s. dbs (snd (px_Exec px terminate_sql args s)) = dbs s)"

lemma create_isolated:
  assumes "server_laws px dbs"
  shows "case px_Exec px (create_sql quote (isolated_name test rnd)) [] s of
      (None, s') \<Rightarrow> isolated_name test rnd \<notin> dbs s \<and> dbs s' = insert (isolated_name test rnd) (dbs s)
    | (Some _, s') \<Rightarrow> dbs s \<subseteq> dbs s' \<and> dbs s' \<subseteq> insert (isolated_name test rnd) (dbs s)"
  using assms isolated_name_plain [of test rnd] isolated_name_length [of test rnd]
  unfolding server_laws_def create_sql_def verb_q_def by auto

lemma drop_isolated:
  assumes "server_laws px dbs"
  shows "case px_Exec px (drop_sql quote (isolated_name test rnd)) [] s of
      (None, s') \<Rightarrow> dbs s' = dbs s - {isolated_name test rnd}
    | (Some _, s') \<Rightarrow> dbs s - {isolated_name test rnd} \<subseteq> dbs s' \<and> dbs s' \<subseteq> dbs s"
  using assms isolated_name_plain [of test rnd] isolated_name_length [of test rnd]
  unfolding server_laws_def drop_sql_def verb_q_def by auto

lemma test_logf_same [simp]:
  "ts_srv (test_logf f db e st) = ts_srv st" "ts_open (test_logf f db e st) = ts_open st"
  "ts_next (test_logf f db e st) = ts_next st" "ts_cleanups (test_logf f db e st) = ts_cleanups st"
  by (simp_all add: test_logf_def split: option.split)

definition drop_works :: "'srv pgx \<Rightarrow> (string \<Rightarrow> string) \<Rightarrow> string \<Rightarrow> bool" where
  "drop_works px quote n \<longleftrightarrow> (\<forall>s. fst (px_Exec px (drop_sql quote n) [] s) = None)"

lemma dropIsolatedDatabase_effect:
  fixes quote :: "string \<Rightarrow> string"
  assumes laws: "server_laws px dbs" and pool: "map_of (ts_open st) admin = Some b"
    and n: "n = isolated_name test rnd"
  defines "st' \<equiv> dropIsolatedDatabase px quote admin n st"
  shows "ts_open st' = ts_open st" "ts_cleanups st' = ts_cleanups st" "ts_next st' = ts_next st"
    "dbs (ts_srv st) - {n} \<subseteq> dbs (ts_srv st')" "dbs (ts_srv st') \<subseteq> dbs (ts_srv st)"
    "drop_works px quote n \<Longrightarrow> n \<notin> dbs (ts_srv st')"
proof -
  obtain e1 s1 where t: "px_Exec px terminate_sql [n] (ts_srv st) = (e1, s1)" by fastforce
  obtain e2 s2 where d: "px_Exec px (drop_sql quote n) [] s1 = (e2, s2)" by fastforce
  have st': "ts_srv st' = s2" "ts_open st' = ts_open st" "ts_cleanups st' = ts_cleanups st" "ts_next st' = ts_next st"
    using t d pool by (simp_all add: st'_def dropIsolatedDatabase_def db_Exec_def)
  have "dbs s1 = dbs (ts_srv st)"
    using laws t unfolding server_laws_def by (metis snd_conv)
  moreover have "dbs s1 - {n} \<subseteq> dbs s2 \<and> dbs s2 \<subseteq> dbs s1 \<and> (e2 = None \<longrightarrow> dbs s2 = dbs s1 - {n})"
    using drop_isolated [OF laws, where s = s1 and quote = quote and test = test and rnd = rnd] d unfolding n
    by (auto split: option.splits)
  moreover have "drop_works px quote n \<Longrightarrow> e2 = None" using d unfolding drop_works_def by (metis fst_conv)
  ultimately show "ts_open st' = ts_open st" "ts_cleanups st' = ts_cleanups st" "ts_next st' = ts_next st"
    "dbs (ts_srv st) - {n} \<subseteq> dbs (ts_srv st')" "dbs (ts_srv st') \<subseteq> dbs (ts_srv st)"
    "drop_works px quote n \<Longrightarrow> n \<notin> dbs (ts_srv st')"
    using st' by auto
qed

definition create_clean :: "'srv pgx \<Rightarrow> (string \<Rightarrow> string) \<Rightarrow> ('srv \<Rightarrow> string set) \<Rightarrow> string \<Rightarrow> bool" where
  "create_clean px quote dbs n \<longleftrightarrow>
     (\<forall>s e s'. px_Exec px (create_sql quote n) [] s = (Some e, s') \<longrightarrow> dbs s' = dbs s)"

text \<open>How \<open>NewIsolatedDatabase\<close> ends: it has stopped the test and holds nothing, or it returns the pool of a
  database that is new, with the cleanup registered.\<close>

lemma NewIsolatedDatabase_cases:
  assumes laws: "server_laws px dbs" and ok: "pools_ok st" and n: "n = isolated_name test rnd"
    and run: "NewIsolatedDatabase px quote env test rnd st = (res, st1)"
  obtains (stopped) "\<forall>db. res \<noteq> TValue db" "ts_open st1 = ts_open st" "ts_cleanups st1 = ts_cleanups st"
      "dbs (ts_srv st) \<subseteq> dbs (ts_srv st1)" "dbs (ts_srv st1) \<subseteq> insert n (dbs (ts_srv st))"
      "drop_works px quote n \<and> create_clean px quote dbs n \<longrightarrow> dbs (ts_srv st1) = dbs (ts_srv st)"
  | (ready) admin base db where "res = TValue db" "db \<noteq> admin" "admin = ts_next st" "db = Suc (ts_next st)"
      "ts_open st1 = (db, n) # (admin, base) # ts_open st"
      "ts_cleanups st1 = DropIsolated db n admin # ts_cleanups st"
      "n \<notin> dbs (ts_srv st)" "dbs (ts_srv st1) = insert n (dbs (ts_srv st))"
proof (cases "databaseURL env")
  case None
  with run stopped show thesis by (auto simp: NewIsolatedDatabase_def)
next
  case url: (Some connStr)
  show thesis
  proof (cases "px_ParseConfig px connStr")
    case (Inl e)
    with run url stopped show thesis by (auto simp: NewIsolatedDatabase_def)
  next
    case cfg: (Inr baseConfig)
    obtain base c where bc: "baseConfig = (base, c)" by fastforce
    show thesis
    proof (cases "px_New px baseConfig (ts_srv st)")
      case (Some e)
      with run url cfg stopped show thesis by (auto simp: NewIsolatedDatabase_def)
    next
      case admin: None
      define a where "a = ts_next st"
      define st0 where "st0 = st\<lparr>ts_open := (a, base) # ts_open st, ts_next := Suc a\<rparr>"
      obtain err s' where ex: "px_Exec px (create_sql quote n) [] (ts_srv st) = (err, s')" by fastforce
      have created: "db_Exec px a (create_sql quote n) [] st0 = (err, st0\<lparr>ts_srv := s'\<rparr>)"
        using ex by (simp add: db_Exec_def st0_def)
      note start = NewIsolatedDatabase_def url cfg admin [unfolded bc] bc new_pool_def a_def [symmetric] st0_def [symmetric] n [symmetric]
      have law: "case (err, s') of (None, s') \<Rightarrow> n \<notin> dbs (ts_srv st) \<and> dbs s' = insert n (dbs (ts_srv st))
          | (Some _, s') \<Rightarrow> dbs (ts_srv st) \<subseteq> dbs s' \<and> dbs s' \<subseteq> insert n (dbs (ts_srv st))"
        using create_isolated [OF laws, where s = "ts_srv st" and quote = quote and test = test and rnd = rnd]
        unfolding n [symmetric] ex .
      have fresh: "filter (\<lambda>(q, _). q \<noteq> a) (ts_open st) = ts_open st"
        using pools_ok_fresh [OF ok] by (simp add: a_def)
      show thesis
      proof (cases err)
        case (Some e)
        with run have "res = TFatal ''testpostgres: create database %q: %v'' e" "st1 = pool_Close a (st0\<lparr>ts_srv := s'\<rparr>)"
          by (simp_all add: start created)
        with law Some fresh ex show thesis
          by (intro stopped) (auto simp: pool_Close_def st0_def create_clean_def)
      next
        case None
        define st2 where "st2 = st0\<lparr>ts_srv := s'\<rparr>"
        have ok2: "pools_ok st2" using ok by (auto simp: pools_ok_def st2_def st0_def a_def)
        have new: "n \<notin> dbs (ts_srv st)" "dbs s' = insert n (dbs (ts_srv st))" using law None by simp_all
        show thesis
        proof (cases rule: db_OpenConfig_cases [OF ok2, of px n c "test_options 5 0"])
          case (1 e k)
          define st3 where "st3 = st2\<lparr>ts_next := k\<rparr>"
          have "map_of (ts_open st3) a = Some base" by (simp add: st3_def st2_def st0_def)
          note drop = dropIsolatedDatabase_effect [OF laws this n, of quote]
          from run None 1 have "res = TFatal ''testpostgres: open isolated db: %v'' e"
            "st1 = pool_Close a (dropIsolatedDatabase px quote a n st3)"
            by (simp_all add: start created st2_def st3_def)
          with drop new fresh show thesis
            by (intro stopped) (auto simp: pool_Close_def st3_def st2_def st0_def)
        next
          case 2
          moreover have "ts_next st2 = Suc a" by (simp add: st2_def st0_def)
          ultimately have "db_OpenConfig px (Some (n, c)) (test_options 5 0) (st0\<lparr>ts_srv := s'\<rparr>) =
              (Inr (Suc a), st2\<lparr>ts_open := (Suc a, n) # ts_open st2, ts_next := Suc (Suc a)\<rparr>)"
            by (simp add: st2_def [symmetric])
          with run None have "res = TValue (Suc a)"
            "st1 = st2\<lparr>ts_open := (Suc a, n) # ts_open st2, ts_next := Suc (Suc a),
               ts_cleanups := DropIsolated (Suc a) n a # ts_cleanups st2\<rparr>"
            by (simp_all add: start created)
          with new show thesis by (intro ready [of "Suc a" a base]) (auto simp: st2_def st0_def a_def)
        qed
      qed
    qed
  qed
qed

subsection \<open>Properties\<close>

text \<open>
  A database name is safe for every test name and every random number: it is at most 63 bytes
  long and made of lower-case ASCII letters, digits and underscores, so that PostgreSQL reads the
  quoted name of \<open>CREATE\<close> and of \<open>DROP\<close> as the name the pool connects to; and different random
  numbers give different names, whatever the tests are called.
\<close>

theorem isolated_name_safe:
  "length (isolated_name test rnd) \<le> 63 \<and>
   (\<forall>c \<in> set (isolated_name test rnd). byte_in 97 122 c \<or> byte_in 48 57 c \<or> c = CHR ''_'') \<and>
   create_sql quote (isolated_name test rnd) = ''CREATE DATABASE '' @ [CHR 0x22] @ isolated_name test rnd @ [CHR 0x22] \<and>
   drop_sql quote (isolated_name test rnd) = ''DROP DATABASE IF EXISTS '' @ [CHR 0x22] @ isolated_name test rnd @ [CHR 0x22] \<and>
   (rnd \<noteq> rnd' \<longrightarrow> isolated_name test rnd \<noteq> isolated_name test' rnd')"
proof (intro conjI ballI impI)
  show "length (isolated_name test rnd) \<le> 63" using isolated_name_length [of test rnd] by simp
  fix c assume "c \<in> set (isolated_name test rnd)"
  then show "byte_in 97 122 c \<or> byte_in 48 57 c \<or> c = CHR ''_''"
    using isolated_name_chars unfolding safe_char_def by blast
qed (simp_all add: create_sql_def drop_sql_def verb_q_def isolated_name_plain, metis isolated_name_inj)

theorem isolated_name_safe_witness:
  "isolated_name ''TestJobs/retry'' 7 = ''test_testjobs_retry_7'' \<and> isolated_name ''A'' 1 \<noteq> isolated_name ''A_1'' 2"
proof
  show "isolated_name ''TestJobs/retry'' 7 = ''test_testjobs_retry_7''" by code_simp
  show "isolated_name ''A'' 1 \<noteq> isolated_name ''A_1'' 2"
    using isolated_name_safe [of "''A''" 1 id 2 "''A_1''"] by simp
qed

text \<open>
  A test that uses an isolated database leaves the server as it found it. Whatever fails, no pool
  stays open and no database that existed before is touched; while the test runs, its pool is
  connected to a database that did not exist before; and in the end the set of databases is the
  one from before, except that the isolated database can remain when the server reports an error
  for its creation after creating it, or for its drop. The test body may run any statements on
  its database, keeps the pools and cleanups, and creates and drops no database itself.
\<close>

theorem isolated_database_no_leak:
  assumes laws: "server_laws px dbs" and ok: "pools_ok st" and fresh: "ts_cleanups st = []"
    and run: "NewIsolatedDatabase px quote env test rnd st = (res, st1)"
    and body: "\<And>s. ts_open (body s) = ts_open s" "\<And>s. ts_cleanups (body s) = ts_cleanups s"
      "\<And>s. dbs (ts_srv (body s)) = dbs (ts_srv s)"
  defines "n \<equiv> isolated_name test rnd" and "final \<equiv> run_cleanups px quote (body st1)"
  shows "ts_open final = ts_open st \<and> ts_cleanups final = [] \<and>
    dbs (ts_srv st) \<subseteq> dbs (ts_srv final) \<and> dbs (ts_srv final) \<subseteq> insert n (dbs (ts_srv st)) \<and>
    (drop_works px quote n \<and> create_clean px quote dbs n \<longrightarrow> dbs (ts_srv final) = dbs (ts_srv st)) \<and>
    (\<forall>db. res = TValue db \<longrightarrow> n \<notin> dbs (ts_srv st) \<and> map_of (ts_open st1) db = Some n)"
proof (cases rule: NewIsolatedDatabase_cases [OF laws ok n_def [THEN meta_eq_to_obj_eq] run])
  case 1
  have "run_cleanups px quote (body st1) = (body st1)\<lparr>ts_cleanups := []\<rparr>"
    using 1(3) fresh body(2) by (simp add: run_cleanups_def)
  with 1 body show ?thesis by (simp add: final_def)
next
  case (2 admin base db)
  define st2 where "st2 = (body st1)\<lparr>ts_cleanups := [], ts_open := (admin, base) # ts_open st\<rparr>"
  have old: "filter (\<lambda>(q, _). q \<noteq> p) (ts_open st) = ts_open st" if "ts_next st \<le> p" for p
    using pools_ok_fresh [OF ok that] .
  have "db_Close (Some db) ((body st1)\<lparr>ts_cleanups := []\<rparr>) = st2"
    using 2(2,4,5) body(1) old [of db] by (simp add: db_Close_def pool_Close_def st2_def)
  then have final: "final = pool_Close admin (dropIsolatedDatabase px quote admin n st2)"
    using 2(6) fresh body(2) by (simp add: final_def run_cleanups_def run_cleanup_def)
  have "map_of (ts_open st2) admin = Some base" by (simp add: st2_def)
  note drop = dropIsolatedDatabase_effect [OF laws this n_def [THEN meta_eq_to_obj_eq], of quote]
  have "dbs (ts_srv st2) = insert n (dbs (ts_srv st))" using 2(8) body(3) by (simp add: st2_def)
  moreover have "ts_open final = ts_open st" "ts_cleanups final = []"
    "ts_srv final = ts_srv (dropIsolatedDatabase px quote admin n st2)"
    using drop(1,2) old [of admin] 2(3) by (simp_all add: final pool_Close_def st2_def)
  ultimately show ?thesis using drop(4-6) 2(1,5,7) by auto
qed

text \<open>A server with exactly this behaviour, for an instance.\<close>

definition demo_pgx :: "string list pgx" where
  "demo_pgx = \<lparr>px_ParseConfig = (\<lambda>s. Inr (''postgres'', test_options 4 0)), px_New = (\<lambda>c s. None), px_Ping = (\<lambda>db s. None),
     px_Exec = (\<lambda>sql args s.
       if prefix ''CREATE DATABASE '' sql
       then (let n = butlast (drop 17 sql) in if n \<in> set s then (Some (ErrPg ''42P04''), s) else (None, n # s))
       else if prefix ''DROP DATABASE IF EXISTS '' sql then (None, filter ((\<noteq>) (butlast (drop 25 sql))) s)
       else (None, s))\<rparr>"

lemma demo_laws: "server_laws demo_pgx set"
  unfolding server_laws_def demo_pgx_def terminate_sql_def by (auto simp: Let_def)

theorem isolated_database_no_leak_witness:
  "let st = \<lparr>ts_srv = [''postgres''], ts_open = [], ts_next = 0, ts_cleanups = [], ts_log = []\<rparr>;
       (res, st1) = NewIsolatedDatabase demo_pgx id [''TEST_DATABASE_URL'' \<mapsto> ''x''] ''TestA'' 5 st
   in res = TValue 1 \<and> set (ts_srv st1) = {''test_testa_5'', ''postgres''} \<and>
      ts_open (run_cleanups demo_pgx id st1) = [] \<and>
      set (ts_srv (run_cleanups demo_pgx id st1)) = {''postgres''}"
proof -
  define st where "st = \<lparr>ts_srv = [''postgres''], ts_open = [], ts_next = 0, ts_cleanups = [], ts_log = []\<rparr>"
  have run: "NewIsolatedDatabase demo_pgx id [''TEST_DATABASE_URL'' \<mapsto> ''x''] ''TestA'' 5 st =
      (TValue 1, \<lparr>ts_srv = [''test_testa_5'', ''postgres''], ts_open = [(1, ''test_testa_5''), (0, ''postgres'')], ts_next = 2,
         ts_cleanups = [DropIsolated 1 ''test_testa_5'' 0], ts_log = []\<rparr>)"
    unfolding st_def by code_simp
  have "pools_ok st" "ts_cleanups st = []" by (simp_all add: st_def pools_ok_def)
  note leak = isolated_database_no_leak [OF demo_laws this run, of "\<lambda>s. s"]
  have "drop_works demo_pgx id n" for n by (simp add: drop_works_def demo_pgx_def drop_sql_def)
  moreover have "create_clean demo_pgx id set n" for n
    by (auto simp: create_clean_def demo_pgx_def create_sql_def Let_def split: if_splits)
  ultimately show ?thesis
    unfolding Let_def st_def [symmetric] run split using leak by (auto simp: st_def)
qed

end
