(* ===== verification/OtelAdapter.thy ===== *)
theory OtelAdapter
  imports Middleware "HOL-Library.Word" "HOL-Library.Multiset"
begin

text \<open>
  The telemetry interfaces with their no-op implementations (\<open>telemetry/telemetry.go\<close>), the adapter to
  OpenTelemetry (\<open>telemetry/otel/otel.go\<close>), and the telemetry middleware call by call on top of them
  (\<open>httpx/middleware/telemetry.go\<close>). The OpenTelemetry SDK is the sequence of calls it receives,
  together with the numbers it hands out for spans and instruments and the errors it returns for
  instruments; \<open>Middleware\<close> has the same middleware as a function on spans and metrics, and the
  main theorem relates the two.
\<close>

subsection \<open>Attribute values\<close>

text \<open>The dynamic types \<open>attributeFor\<close> tells apart; a \<open>float32\<close> is a \<open>'g\<close>, a \<open>float64\<close> an \<open>'f\<close>, and every
  other type is in \<open>'x\<close>.\<close>

datatype ('g, 'f, 'x) any_value =
    AnyString string
  | AnyBool bool
  | AnyInt "64 word"
  | AnyInt32 "32 word"
  | AnyInt64 "64 word"
  | AnyFloat32 'g
  | AnyFloat64 'f
  | AnyStrings "string list"
  | AnyOther 'x

datatype 'f attr_value =
    AttrString string
  | AttrBool bool
  | AttrInt64 "64 word"
  | AttrFloat64 'f
  | AttrStringSlice "string list"

text \<open>\<open>widen\<close> is the conversion of a \<open>float32\<close> and \<open>sprint\<close> is \<open>fmt.Sprint\<close>.\<close>

fun attributeFor ::
  "('g \<Rightarrow> 'f) \<Rightarrow> ('x \<Rightarrow> string) \<Rightarrow> string \<Rightarrow> ('g, 'f, 'x) any_value \<Rightarrow> string \<times> 'f attr_value" where
  "attributeFor widen sprint key (AnyString v) = (key, AttrString v)"
| "attributeFor widen sprint key (AnyBool v) = (key, AttrBool v)"
| "attributeFor widen sprint key (AnyInt v) = (key, AttrInt64 v)"
| "attributeFor widen sprint key (AnyInt32 v) = (key, AttrInt64 (signed v))"
| "attributeFor widen sprint key (AnyInt64 v) = (key, AttrInt64 v)"
| "attributeFor widen sprint key (AnyFloat32 v) = (key, AttrFloat64 (widen v))"
| "attributeFor widen sprint key (AnyFloat64 v) = (key, AttrFloat64 v)"
| "attributeFor widen sprint key (AnyStrings v) = (key, AttrStringSlice v)"
| "attributeFor widen sprint key (AnyOther v) = (key, AttrString (sprint v))"

text \<open>A Go map is visited in an unspecified order; \<open>order\<close> is the one of this visit.\<close>

definition attrs :: "string list \<Rightarrow> (string \<rightharpoonup> string) \<Rightarrow> (string \<times> 'f attr_value) list" where
  "attrs order m = map (\<lambda>k. (k, AttrString (the (m k)))) order"

subsection \<open>The SDK and the adapter\<close>

datatype instrument = Int64Counter | Float64Histogram | Int64UpDownCounter

datatype ('c, 'f) otel_call =
    TracerStart 'c string nat
  | SpanEnd nat
  | SpanSetName nat string
  | SpanRecordError nat goerr
  | SpanSetAttributes nat "(string \<times> 'f attr_value) list"
  | NewInstrument instrument string "nat option"
  | CounterAdd nat "64 word" "(string \<times> 'f attr_value) list"
  | UpDownAdd nat "64 word" "(string \<times> 'f attr_value) list"
  | HistogramRecord nat 'f "(string \<times> 'f attr_value) list"

text \<open>The calls so far and the numbers given out; \<open>ot_fails\<close> says which instruments the SDK refuses.\<close>

record ('c, 'f) otel =
  ot_calls :: "('c, 'f) otel_call list"
  ot_next :: nat
  ot_fails :: "instrument \<Rightarrow> string \<Rightarrow> bool"

definition ot_call :: "('c, 'f) otel_call \<Rightarrow> ('c, 'f) otel \<Rightarrow> ('c, 'f) otel" where
  "ot_call call ot = ot\<lparr>ot_calls := ot_calls ot @ [call]\<rparr>"

text \<open>The interfaces of \<open>telemetry\<close>: every value is the no-op or an adapter's.\<close>

datatype tracer = NoopTracer | OtelTracer
datatype tspan = noopSpan | OtelSpan nat
datatype counter = noopCounter | OtelCounter nat | OtelUpDownCounter nat
datatype histogram = noopHistogram | OtelHistogram nat
datatype meter = NoopMeter | OtelMeter

text \<open>\<open>New\<close>: the providers are the application's; the adapter asks them for one tracer and one meter.\<close>

definition otel_New :: "tracer \<times> meter" where
  "otel_New = (OtelTracer, OtelMeter)"

text \<open>\<open>spanned\<close> is the context that carries a span.\<close>

fun tracer_Start ::
  "('c \<Rightarrow> nat \<Rightarrow> 'c) \<Rightarrow> tracer \<Rightarrow> 'c \<Rightarrow> string \<Rightarrow> ('c, 'f) otel \<Rightarrow> 'c \<times> tspan \<times> ('c, 'f) otel" where
  "tracer_Start spanned NoopTracer ctx name ot = (ctx, noopSpan, ot)"
| "tracer_Start spanned OtelTracer ctx name ot =
     (spanned ctx (ot_next ot), OtelSpan (ot_next ot), ot_call (TracerStart ctx name (ot_next ot)) (ot\<lparr>ot_next := Suc (ot_next ot)\<rparr>))"

fun span_End :: "tspan \<Rightarrow> ('c, 'f) otel \<Rightarrow> ('c, 'f) otel" where
  "span_End noopSpan ot = ot"
| "span_End (OtelSpan s) ot = ot_call (SpanEnd s) ot"

text \<open>\<open>SetName\<close> is not part of the interface: the middleware asks whether a span has it, and the
  no-op span has not.\<close>

fun span_SetName :: "tspan \<Rightarrow> string \<Rightarrow> ('c, 'f) otel \<Rightarrow> ('c, 'f) otel" where
  "span_SetName noopSpan name ot = ot"
| "span_SetName (OtelSpan s) name ot = ot_call (SpanSetName s name) ot"

fun span_RecordError :: "tspan \<Rightarrow> goerr option \<Rightarrow> ('c, 'f) otel \<Rightarrow> ('c, 'f) otel" where
  "span_RecordError (OtelSpan s) (Some e) ot = ot_call (SpanRecordError s e) ot"
| "span_RecordError _ _ ot = ot"

fun span_SetAttribute ::
  "('g \<Rightarrow> 'f) \<Rightarrow> ('x \<Rightarrow> string) \<Rightarrow> tspan \<Rightarrow> string \<Rightarrow> ('g, 'f, 'x) any_value \<Rightarrow> ('c, 'f) otel \<Rightarrow> ('c, 'f) otel" where
  "span_SetAttribute widen sprint noopSpan key v ot = ot"
| "span_SetAttribute widen sprint (OtelSpan s) key v ot =
     ot_call (SpanSetAttributes s [attributeFor widen sprint key v]) ot"

text \<open>Asking the SDK for an instrument.\<close>

definition sdk_instrument :: "instrument \<Rightarrow> string \<Rightarrow> ('c, 'f) otel \<Rightarrow> nat option \<times> ('c, 'f) otel" where
  "sdk_instrument kind name ot =
     (if ot_fails ot kind name then (None, ot_call (NewInstrument kind name None) ot)
      else (Some (ot_next ot), ot_call (NewInstrument kind name (Some (ot_next ot))) (ot\<lparr>ot_next := Suc (ot_next ot)\<rparr>)))"

fun meter_Int64Counter :: "meter \<Rightarrow> string \<Rightarrow> ('c, 'f) otel \<Rightarrow> counter \<times> ('c, 'f) otel" where
  "meter_Int64Counter NoopMeter n ot = (noopCounter, ot)"
| "meter_Int64Counter OtelMeter n ot =
     (case sdk_instrument Int64Counter n ot of
        (None, ot') \<Rightarrow> (noopCounter, ot')
      | (Some c, ot') \<Rightarrow> (OtelCounter c, ot'))"

fun meter_Float64Histogram :: "meter \<Rightarrow> string \<Rightarrow> ('c, 'f) otel \<Rightarrow> histogram \<times> ('c, 'f) otel" where
  "meter_Float64Histogram NoopMeter n ot = (noopHistogram, ot)"
| "meter_Float64Histogram OtelMeter n ot =
     (case sdk_instrument Float64Histogram n ot of
        (None, ot') \<Rightarrow> (noopHistogram, ot')
      | (Some h, ot') \<Rightarrow> (OtelHistogram h, ot'))"

text \<open>Only the adapter's meter has this method, which is not part of the interface.\<close>

definition meter_Int64UpDownCounter :: "string \<Rightarrow> ('c, 'f) otel \<Rightarrow> counter \<times> ('c, 'f) otel" where
  "meter_Int64UpDownCounter n ot =
     (case sdk_instrument Int64UpDownCounter n ot of
        (None, ot') \<Rightarrow> (noopCounter, ot')
      | (Some c, ot') \<Rightarrow> (OtelUpDownCounter c, ot'))"

fun counter_Add ::
  "string list \<Rightarrow> counter \<Rightarrow> 64 word \<Rightarrow> (string \<rightharpoonup> string) \<Rightarrow> ('c, 'f) otel \<Rightarrow> ('c, 'f) otel" where
  "counter_Add order noopCounter v a ot = ot"
| "counter_Add order (OtelCounter c) v a ot = ot_call (CounterAdd c v (attrs order a)) ot"
| "counter_Add order (OtelUpDownCounter c) v a ot = ot_call (UpDownAdd c v (attrs order a)) ot"

fun histogram_Record ::
  "string list \<Rightarrow> histogram \<Rightarrow> 'f \<Rightarrow> (string \<rightharpoonup> string) \<Rightarrow> ('c, 'f) otel \<Rightarrow> ('c, 'f) otel" where
  "histogram_Record order noopHistogram v a ot = ot"
| "histogram_Record order (OtelHistogram h) v a ot = ot_call (HistogramRecord h v (attrs order a)) ot"

subsection \<open>The middleware, call by call\<close>

text \<open>A propagator reads a trace context from the headers of a request and writes one to headers.\<close>

record 'c propagator =
  pr_Extract :: "'c \<Rightarrow> (string \<rightharpoonup> string) \<Rightarrow> 'c"
  pr_Inject :: "'c \<Rightarrow> (string \<rightharpoonup> string) \<Rightarrow> (string \<rightharpoonup> string)"

type_synonym 'c telemetryConfig = "'c propagator option"
type_synonym 'c TelemetryOption = "'c telemetryConfig \<Rightarrow> 'c telemetryConfig"

definition WithPropagator :: "'c propagator option \<Rightarrow> 'c TelemetryOption" where
  "WithPropagator p = (\<lambda>config. p)"

definition telemetry_config :: "'c TelemetryOption option list \<Rightarrow> 'c telemetryConfig" where
  "telemetry_config options = fold (\<lambda>option config. case option of Some f \<Rightarrow> f config | None \<Rightarrow> config) options None"

definition InjectTraceContext :: "'c \<Rightarrow> (string \<rightharpoonup> string) \<Rightarrow> 'c propagator option \<Rightarrow> (string \<rightharpoonup> string)" where
  "InjectTraceContext ctx header p = (case p of Some pr \<Rightarrow> pr_Inject pr ctx header | None \<Rightarrow> header)"

record 'c mw =
  mw_tracer :: tracer
  mw_config :: "'c telemetryConfig"
  mw_count :: counter
  mw_latency :: histogram

text \<open>Building the middleware: a missing tracer or meter is the no-op one, and the instruments are
  created once.\<close>

definition telemetry_build ::
  "tracer option \<Rightarrow> meter option \<Rightarrow> 'c TelemetryOption option list \<Rightarrow> ('c, 'f) otel \<Rightarrow> 'c mw \<times> ('c, 'f) otel" where
  "telemetry_build tr me options ot =
     (let tr = (case tr of Some t \<Rightarrow> t | None \<Rightarrow> NoopTracer);
          me = (case me of Some m \<Rightarrow> m | None \<Rightarrow> NoopMeter);
          config = telemetry_config options;
          (reqCounter, ot1) = meter_Int64Counter me ''http.server.request.count'' ot;
          (reqLatency, ot2) = meter_Float64Histogram me ''http.server.request.duration'' ot1
      in (\<lparr>mw_tracer = tr, mw_config = config, mw_count = reqCounter, mw_latency = reqLatency\<rparr>, ot2))"

text \<open>What the Go runtime and the process provide to one request: the conversions, the context that
  carries a span, the measured duration and the orders in which the attribute map is visited, once
  for the counter and once for the histogram.\<close>

record ('c, 'g, 'f, 'x) rt =
  rt_widen :: "'g \<Rightarrow> 'f"
  rt_sprint :: "'x \<Rightarrow> string"
  rt_spanned :: "'c \<Rightarrow> nat \<Rightarrow> 'c"
  rt_duration :: 'f
  rt_order :: "string set \<Rightarrow> string list"
  rt_order' :: "string set \<Rightarrow> string list"

definition metric_attrs :: "http_request \<Rightarrow> int \<Rightarrow> string \<Rightarrow> (string \<rightharpoonup> string)" where
  "metric_attrs r status route =
     (let a = [''http.request.method'' \<mapsto> rq_Method r, ''http.response.status_code'' \<mapsto> int_dec status]
      in if route \<noteq> [] then a(''http.route'' \<mapsto> route) else a)"

definition set_strings ::
  "('c, 'g, 'f, 'x) rt \<Rightarrow> tspan \<Rightarrow> (string \<times> string) list \<Rightarrow> ('c, 'f) otel \<Rightarrow> ('c, 'f) otel" where
  "set_strings rt sp kvs ot = fold (\<lambda>(k, v). span_SetAttribute (rt_widen rt) (rt_sprint rt) sp k (AnyString v)) kvs ot"

text \<open>The calls after the next handler has returned, except the deferred end of the span.\<close>

definition telemetry_after ::
  "('c, 'g, 'f, 'x) rt \<Rightarrow> 'c mw \<Rightarrow> tspan \<Rightarrow> http_request \<Rightarrow> string \<Rightarrow> int \<Rightarrow> ('c, 'f) otel \<Rightarrow> ('c, 'f) otel" where
  "telemetry_after rt m sp r route status ot =
     (let ot1 = (if route \<noteq> []
                 then span_SetName sp (httpSpanName (rq_Method r) route) (set_strings rt sp [(''http.route'', route)] ot)
                 else ot);
          ot2 = span_SetAttribute (rt_widen rt) (rt_sprint rt) sp ''http.response.status_code'' (AnyInt (word_of_int status)) ot1;
          a = metric_attrs r status route;
          ot3 = counter_Add (rt_order rt (dom a)) (mw_count m) 1 a ot2
      in histogram_Record (rt_order' rt (dom a)) (mw_latency m) (rt_duration rt) a ot3)"

definition telemetry_serve ::
  "('c, 'g, 'f, 'x) rt \<Rightarrow> 'c mw \<Rightarrow> 'c \<Rightarrow> handler \<Rightarrow> http_request \<Rightarrow> http_world \<Rightarrow> ('c, 'f) otel
     \<Rightarrow> http_result \<times> 'c \<times> ('c, 'f) otel" where
  "telemetry_serve rt m ctx0 next r w ot =
     (let ctx1 = (case mw_config m of Some p \<Rightarrow> pr_Extract p ctx0 (rq_header r) | None \<Rightarrow> ctx0);
          (ctx, sp, ot1) = tracer_Start (rt_spanned rt) (mw_tracer m) ctx1 (rq_Method r) ot;
          ot2 = set_strings rt sp (span_before r) ot1;
          (res0, recorded) = with_status next r w;
          res = res0\<lparr>hs_pattern := rq_Pattern r\<rparr>
      in if hs_panic res \<noteq> None then (res, ctx, span_End sp ot2)
         else
           (let route = routePattern (r\<lparr>rq_Pattern := hs_pattern res0\<rparr>);
                status = (if recorded = 0 then 200 else recorded)
            in (res, ctx, span_End sp (telemetry_after rt m sp r route status ot2))))"

subsection \<open>What the SDK has seen\<close>

fun attr_text :: "'f attr_value \<Rightarrow> string" where
  "attr_text (AttrString v) = v"
| "attr_text (AttrBool v) = (if v then ''true'' else ''false'')"
| "attr_text (AttrInt64 v) = int_dec (sint v)"
| "attr_text (AttrFloat64 v) = []"
| "attr_text (AttrStringSlice v) = concat v"

text \<open>The span with a number, as its calls built it.\<close>

fun view_step :: "nat \<Rightarrow> ('c, 'f) otel_call \<Rightarrow> span option \<Rightarrow> span option" where
  "view_step s (TracerStart ctx name k) sp = (if k = s then Some \<lparr>sp_name = name, sp_attributes = []\<rparr> else sp)"
| "view_step s (SpanSetName k name) sp = (if k = s then map_option (\<lambda>x. x\<lparr>sp_name := name\<rparr>) sp else sp)"
| "view_step s (SpanSetAttributes k kvs) sp =
     (if k = s then map_option (\<lambda>x. x\<lparr>sp_attributes := sp_attributes x @ map (\<lambda>(k, v). (k, attr_text v)) kvs\<rparr>) sp else sp)"
| "view_step s _ sp = sp"

definition span_of :: "nat \<Rightarrow> ('c, 'f) otel_call list \<Rightarrow> span option" where
  "span_of s calls = fold (view_step s) calls None"

text \<open>The increments of a counter and the records of a histogram, with the text of their attributes.\<close>

fun counted :: "nat \<Rightarrow> ('c, 'f) otel_call \<Rightarrow> (64 word \<times> (string \<times> string) list) list" where
  "counted c (CounterAdd k v kvs) = (if k = c then [(v, map (\<lambda>(k, v). (k, attr_text v)) kvs)] else [])"
| "counted c _ = []"

fun measured :: "nat \<Rightarrow> ('c, 'f) otel_call \<Rightarrow> ('f \<times> (string \<times> string) list) list" where
  "measured h (HistogramRecord k v kvs) = (if k = h then [(v, map (\<lambda>(k, v). (k, attr_text v)) kvs)] else [])"
| "measured h _ = []"

fun ended :: "('c, 'f) otel_call \<Rightarrow> nat list" where
  "ended (SpanEnd s) = [s]"
| "ended _ = []"

lemma ot_call_calls: "ot_call x (ot\<lparr>ot_calls := cs\<rparr>) = ot\<lparr>ot_calls := cs @ [x]\<rparr>"
  by (simp add: ot_call_def)

lemma set_strings_calls:
  "set_strings rt (OtelSpan s) kvs (ot\<lparr>ot_calls := cs\<rparr>) =
     ot\<lparr>ot_calls := cs @ map (\<lambda>(k, v). SpanSetAttributes s [(k, AttrString v)]) kvs\<rparr>"
  unfolding set_strings_def
  by (induction kvs arbitrary: cs) (auto simp: ot_call_calls)

lemma set_strings_noop: "set_strings rt noopSpan kvs ot = ot"
  unfolding set_strings_def by (induction kvs) auto

lemma string_attributes_view:
  fixes sp :: span
  shows "fold (view_step s) (map (\<lambda>(k, v). SpanSetAttributes s [(k, AttrString v)]) kvs) (Some sp) =
     Some (sp\<lparr>sp_attributes := sp_attributes sp @ kvs\<rparr>)"
  by (induction kvs arbitrary: sp) auto

definition order_ok :: "(string set \<Rightarrow> string list) \<Rightarrow> bool" where
  "order_ok order \<longleftrightarrow> (\<forall>S. finite S \<longrightarrow> distinct (order S) \<and> set (order S) = S)"

text \<open>The attributes of a metric, as the middleware of \<open>Middleware\<close> lists them.\<close>

definition metric_list :: "http_request \<Rightarrow> int \<Rightarrow> string \<Rightarrow> (string \<times> string) list" where
  "metric_list r status route =
     [(''http.request.method'', rq_Method r), (''http.response.status_code'', int_dec status)] @
     (if route \<noteq> [] then [(''http.route'', route)] else [])"

lemma metric_attrs_list: "metric_attrs r status route = map_of (metric_list r status route)"
  "distinct (map fst (metric_list r status route))"
  by (auto simp: metric_attrs_def metric_list_def Let_def fun_eq_iff)

lemma attrs_set:
  assumes "order_ok order" "distinct (map fst kvs)"
  shows "mset (map (\<lambda>(k, v). (k, attr_text v)) (attrs (order (dom (map_of kvs))) (map_of kvs) :: (string \<times> 'f attr_value) list)) = mset kvs"
proof -
  have fin: "finite (dom (map_of kvs))" by (rule finite_dom_map_of)
  have o: "distinct (order (dom (map_of kvs)))" "set (order (dom (map_of kvs))) = fst ` set kvs"
    using assms(1) fin by (auto simp: order_ok_def dom_map_of_conv_image_fst)
  let ?l = "map (\<lambda>(k, v). (k, attr_text v)) (attrs (order (dom (map_of kvs))) (map_of kvs) :: (string \<times> 'f attr_value) list)"
  have l: "?l = map (\<lambda>k. (k, the (map_of kvs k))) (order (dom (map_of kvs)))" by (simp add: attrs_def)
  have "distinct ?l" unfolding l using o(1) by (simp add: distinct_map inj_on_def)
  moreover have "distinct kvs" using assms(2) by (simp add: distinct_map)
  moreover have "set ?l = set kvs"
  proof (rule set_eqI)
    fix x :: "string \<times> string"
    obtain k v where x: "x = (k, v)" by (cases x)
    have d: "k \<in> fst ` set kvs \<longleftrightarrow> map_of kvs k \<noteq> None" by (simp add: map_of_eq_None_iff)
    have "x \<in> set ?l \<longleftrightarrow> k \<in> fst ` set kvs \<and> v = the (map_of kvs k)" unfolding l x using o(2) by auto
    also have "\<dots> \<longleftrightarrow> map_of kvs k = Some v"  unfolding d by (cases "map_of kvs k") auto
    also have "\<dots> \<longleftrightarrow> x \<in> set kvs" unfolding x using assms(2) by (rule map_of_eq_Some_iff)
    finally show "x \<in> set ?l \<longleftrightarrow> x \<in> set kvs" .
  qed
  ultimately show ?thesis using set_eq_iff_mset_eq_distinct by blast
qed

text \<open>The calls of one request to the SDK, in order, with an adapter for every instrument.\<close>

definition before_calls :: "'c \<Rightarrow> http_request \<Rightarrow> nat \<Rightarrow> ('c, 'f) otel_call list" where
  "before_calls ctx r s = TracerStart ctx (rq_Method r) s #
     map (\<lambda>(k, v). SpanSetAttributes s [(k, AttrString v)]) (span_before r)"

definition after_calls ::
  "('c, 'g, 'f, 'x) rt \<Rightarrow> http_request \<Rightarrow> nat \<Rightarrow> nat \<Rightarrow> nat \<Rightarrow> string \<Rightarrow> int \<Rightarrow> ('c, 'f) otel_call list" where
  "after_calls rt r s c h route status =
     (let a = metric_attrs r status route
      in (if route \<noteq> []
          then [SpanSetAttributes s [(''http.route'', AttrString route)], SpanSetName s (httpSpanName (rq_Method r) route)]
          else []) @
         [SpanSetAttributes s [(''http.response.status_code'', AttrInt64 (word_of_int status))],
          CounterAdd c 1 (attrs (rt_order rt (dom a)) a), HistogramRecord h (rt_duration rt) (attrs (rt_order' rt (dom a)) a)])"

lemma telemetry_after_calls:
  assumes "mw_count m = OtelCounter c" "mw_latency m = OtelHistogram h"
  shows "telemetry_after rt m (OtelSpan s) r route status (ot\<lparr>ot_calls := cs\<rparr>) =
     ot\<lparr>ot_calls := cs @ after_calls rt r s c h route status\<rparr>"
  using assms by (simp add: telemetry_after_def after_calls_def Let_def set_strings_calls ot_call_calls)

lemma before_view:
  "span_of s (before_calls ctx r s @ calls) =
     fold (view_step s) calls (Some \<lparr>sp_name = rq_Method r, sp_attributes = span_before r\<rparr>)"
  by (simp add: span_of_def before_calls_def string_attributes_view)

lemma before_no_metric:
  "concat (map (counted c) (before_calls ctx r s)) = []" "concat (map (measured h) (before_calls ctx r s)) = []"
  "concat (map ended (before_calls ctx r s)) = []"
  by (auto simp: before_calls_def case_prod_unfold)

lemma status_text: "- (2 ^ 63) \<le> status \<Longrightarrow> status < 2 ^ 63 \<Longrightarrow> sint (word_of_int status :: 64 word) = status"
  by (simp add: signed_of_int signed_take_bit_int_eq_self)

lemma after_view:
  fixes rt :: "('c, 'g, 'f, 'x) rt"
  assumes "- (2 ^ 63) \<le> status" "status < 2 ^ 63"
  shows "fold (view_step s) (after_calls rt r s c h route status) (Some sp) =
     Some \<lparr>sp_name = (if route \<noteq> [] then httpSpanName (rq_Method r) route else sp_name sp),
       sp_attributes = sp_attributes sp @ (if route \<noteq> [] then [(''http.route'', route)] else []) @
         [(''http.response.status_code'', int_dec status)]\<rparr>"
  using status_text [OF assms] by (simp add: after_calls_def Let_def)

lemma after_metric:
  fixes rt :: "('c, 'g, 'f, 'x) rt"
  assumes "order_ok (rt_order rt)" "order_ok (rt_order' rt)"
  shows "\<exists>kvs kvs'. mset kvs = mset (metric_list r status route) \<and> mset kvs' = mset (metric_list r status route) \<and>
    concat (map (counted c) (after_calls rt r s c h route status)) = [(1, kvs)] \<and>
    concat (map (measured h) (after_calls rt r s c h route status)) = [(rt_duration rt, kvs')] \<and>
    concat (map ended (after_calls rt r s c h route status)) = []"
proof -
  let ?a = "metric_attrs r status route"
  have visit: "mset (map (\<lambda>(k, v). (k, attr_text v)) (attrs (order (dom ?a)) ?a :: (string \<times> 'f attr_value) list)) =
      mset (metric_list r status route)" if "order_ok order" for order
    unfolding metric_attrs_list(1) by (rule attrs_set [OF that metric_attrs_list(2)])
  show ?thesis
    by (intro exI conjI, rule visit [OF assms(1)], rule visit [OF assms(2)]) (auto simp: after_calls_def Let_def)
qed

subsection \<open>Properties\<close>

definition request_ctx :: "'c mw \<Rightarrow> 'c \<Rightarrow> http_request \<Rightarrow> 'c" where
  "request_ctx m ctx0 r = (case mw_config m of Some p \<Rightarrow> pr_Extract p ctx0 (rq_header r) | None \<Rightarrow> ctx0)"

lemma serve_calls:
  assumes "mw_tracer m = OtelTracer" "mw_count m = OtelCounter c" "mw_latency m = OtelHistogram h"
  obtains (panicked) ctx where "hs_panic (fst (with_status next r w)) \<noteq> None"
      "telemetry_serve rt m ctx0 next r w ot = ((fst (with_status next r w))\<lparr>hs_pattern := rq_Pattern r\<rparr>, ctx,
         ot\<lparr>ot_next := Suc (ot_next ot), ot_calls := ot_calls ot @ before_calls (request_ctx m ctx0 r) r (ot_next ot) @ [SpanEnd (ot_next ot)]\<rparr>)"
  | (returned) ctx route status where "hs_panic (fst (with_status next r w)) = None"
      "route = routePattern (r\<lparr>rq_Pattern := hs_pattern (fst (with_status next r w))\<rparr>)"
      "status = (if snd (with_status next r w) = 0 then 200 else snd (with_status next r w))"
      "telemetry_serve rt m ctx0 next r w ot = ((fst (with_status next r w))\<lparr>hs_pattern := rq_Pattern r\<rparr>, ctx,
         ot\<lparr>ot_next := Suc (ot_next ot), ot_calls := ot_calls ot @ before_calls (request_ctx m ctx0 r) r (ot_next ot) @
           after_calls rt r (ot_next ot) c h route status @ [SpanEnd (ot_next ot)]\<rparr>)"
proof -
  define s where "s = ot_next ot"
  define ot1 where "ot1 = ot\<lparr>ot_next := Suc s\<rparr>"
  obtain res0 recorded where ws: "with_status next r w = (res0, recorded)" by fastforce
  have start: "tracer_Start (rt_spanned rt) (mw_tracer m) (request_ctx m ctx0 r) (rq_Method r) ot =
      (rt_spanned rt (request_ctx m ctx0 r) s, OtelSpan s, ot1\<lparr>ot_calls := ot_calls ot @ [TracerStart (request_ctx m ctx0 r) (rq_Method r) s]\<rparr>)"
    by (simp add: assms s_def ot1_def ot_call_def)
  have before: "set_strings rt (OtelSpan s) (span_before r)
        (ot1\<lparr>ot_calls := ot_calls ot @ [TracerStart (request_ctx m ctx0 r) (rq_Method r) s]\<rparr>) =
      ot1\<lparr>ot_calls := ot_calls ot @ before_calls (request_ctx m ctx0 r) r s\<rparr>"
    by (simp add: set_strings_calls before_calls_def)
  note serve = telemetry_serve_def [of rt m ctx0 "next" r w ot, folded request_ctx_def, unfolded start ws Let_def prod.case before]
  show thesis
  proof (cases "hs_panic res0")
    case (Some p)
    then show thesis using panicked serve by (simp add: ws ot_call_calls ot1_def s_def)
  next
    case None
    then show thesis
      using returned serve by (simp add: ws telemetry_after_calls [OF assms(2,3)] ot_call_calls ot1_def s_def)
  qed
qed

text \<open>C37: The middleware over the OpenTelemetry adapter does what the middleware over spans and metrics
  says. The response of the request is the handler's own; the SDK is given one new span, started
  with the extracted trace context before the handler runs and ended last and exactly once, also
  when the handler panics; its name and attributes, and the attributes of the one increment of
  the request counter and the one record of the latency, are those of \<open>Middleware.Telemetry\<close>,
  in whatever order the attribute map is visited for either.
\<close>

theorem telemetry_adapter_refines:
  fixes rt :: "('c, 'g, 'f, 'x) rt" and ot :: "('c, 'f) otel"
  assumes m: "mw_tracer m = OtelTracer" "mw_count m = OtelCounter c" "mw_latency m = OtelHistogram h"
    and order: "order_ok (rt_order rt)" "order_ok (rt_order' rt)"
    and int64: "- (2 ^ 63) \<le> snd (with_status next_h r w)" "snd (with_status next_h r w) < 2 ^ 63"
    and run: "telemetry_serve rt m ctx0 next_h r w ot = (res, ctx, ot')"
  shows "\<exists>calls sp adds records metrics.
    ot_calls ot' = ot_calls ot @ calls \<and>
    hd calls = TracerStart (request_ctx m ctx0 r) (rq_Method r) (ot_next ot) \<and>
    last calls = SpanEnd (ot_next ot) \<and> concat (map ended calls) = [ot_next ot] \<and>
    span_of (ot_next ot) calls = Some sp \<and>
    concat (map (counted c) calls) = map (Pair 1) adds \<and>
    concat (map (measured h) calls) = map (Pair (rt_duration rt)) records \<and>
    map mset adds = map mset metrics \<and> map mset records = map mset metrics \<and>
    length metrics = (if hs_panic res = None then 1 else 0) \<and>
    Middleware.Telemetry True next_h r w =
      res\<lparr>hs_world := (hs_world res)\<lparr>hw_spans := hw_spans (hs_world res) @ [sp],
            hw_metrics := hw_metrics (hs_world res) @ metrics\<rparr>\<rparr>"
proof (cases rule: serve_calls [OF m, of next_h r w rt ctx0 ot])
  case (1 ctx)
  let ?s = "ot_next ot" and ?b = "before_calls (request_ctx m ctx0 r) r (ot_next ot)"
  let ?sp = "\<lparr>sp_name = rq_Method r, sp_attributes = span_before r\<rparr>"
  have "span_of ?s (?b @ [SpanEnd ?s]) = Some ?sp" by (simp add: before_view)
  moreover have "hd (?b @ [SpanEnd ?s]) = TracerStart (request_ctx m ctx0 r) (rq_Method r) ?s"
    by (simp add: before_calls_def)
  ultimately show ?thesis
    using 1 run
    by (intro exI [of _ "?b @ [SpanEnd ?s]"] exI [of _ ?sp] exI [of _ "[]"] exI [of _ "[]"])
      (auto simp: before_no_metric Telemetry_def case_prod_unfold Let_def)
next
  case (2 ctx route status)
  let ?s = "ot_next ot" and ?b = "before_calls (request_ctx m ctx0 r) r (ot_next ot)"
  let ?a = "after_calls rt r (ot_next ot) c h route status"
  let ?sp = "\<lparr>sp_name = (if route \<noteq> [] then httpSpanName (rq_Method r) route else rq_Method r),
      sp_attributes = span_before r @ (if route \<noteq> [] then [(''http.route'', route)] else []) @
         [(''http.response.status_code'', int_dec status)]\<rparr>"
  have "- (2 ^ 63) \<le> status" "status < 2 ^ 63" using int64 2(3) by (auto split: if_splits)
  then have "span_of ?s (?b @ ?a @ [SpanEnd ?s]) = Some ?sp" by (simp add: before_view after_view)
  moreover obtain kvs kvs' where kvs: "mset kvs = mset (metric_list r status route)" "mset kvs' = mset (metric_list r status route)"
    "concat (map (counted c) ?a) = [(1, kvs)]" "concat (map (measured h) ?a) = [(rt_duration rt, kvs')]"
    "concat (map ended ?a) = []"
    using after_metric [OF order] by blast
  moreover have "hd (?b @ ?a @ [SpanEnd ?s]) = TracerStart (request_ctx m ctx0 r) (rq_Method r) ?s"
    by (simp add: before_calls_def)
  ultimately show ?thesis
    using 2 run
    by (intro exI [of _ "?b @ ?a @ [SpanEnd ?s]"] exI [of _ ?sp] exI [of _ "[kvs]"] exI [of _ "[kvs']"] exI [of _ "[metric_list r status route]"])
      (auto simp: before_no_metric Telemetry_def metric_list_def case_prod_unfold Let_def)
qed

text \<open>
  Telemetry never interferes with a request: whatever tracer, meter and propagator are given, and
  whichever instruments the SDK refuses, the result of a request is the handler's own behind a
  status writer. Without a tracer and a meter the SDK is not called at all, and a refused
  instrument becomes the no-op one.
\<close>

theorem telemetry_no_interference:
  "fst (telemetry_serve rt m ctx next_h r w ot) = (fst (with_status next_h r w))\<lparr>hs_pattern := rq_Pattern r\<rparr> \<and>
   (let (m0, ot0) = telemetry_build None None options ot in ot0 = ot \<and> snd (snd (telemetry_serve rt m0 ctx next_h r w ot)) = ot) \<and>
   ((\<forall>kind name. ot_fails ot kind name) \<longrightarrow>
     mw_count (fst (telemetry_build tr me options ot)) = noopCounter \<and>
     mw_latency (fst (telemetry_build tr me options ot)) = noopHistogram)"
proof (intro conjI impI)
  show "fst (telemetry_serve rt m ctx next_h r w ot) = (fst (with_status next_h r w))\<lparr>hs_pattern := rq_Pattern r\<rparr>"
    by (simp add: telemetry_serve_def Let_def case_prod_unfold)
  show "let (m0, ot0) = telemetry_build None None options ot in ot0 = ot \<and> snd (snd (telemetry_serve rt m0 ctx next_h r w ot)) = ot"
    by (simp add: telemetry_build_def telemetry_serve_def telemetry_after_def set_strings_noop case_prod_unfold Let_def)
  assume f: "\<forall>kind name. ot_fails ot kind name"
  have count: "fst (meter_Int64Counter x n ot) = noopCounter" "ot_fails (snd (meter_Int64Counter x n ot)) = ot_fails ot" for x n
    using f by (cases x; simp add: sdk_instrument_def ot_call_def)+
  have latency: "fst (meter_Float64Histogram x n ot') = noopHistogram" if "ot_fails ot' = ot_fails ot" for x n ot'
    using f that by (cases x) (simp_all add: sdk_instrument_def)
  show "mw_count (fst (telemetry_build tr me options ot)) = noopCounter"
    "mw_latency (fst (telemetry_build tr me options ot)) = noopHistogram"
    by (simp_all add: telemetry_build_def Let_def case_prod_unfold count latency)
qed

definition demo_rt :: "(string, unit, nat, unit) rt" where
  "demo_rt = \<lparr>rt_widen = (\<lambda>_. 0), rt_sprint = (\<lambda>_. []), rt_spanned = (\<lambda>c n. c), rt_duration = 3,
     rt_order = (\<lambda>S. sorted_list_of_set S), rt_order' = (\<lambda>S. rev (sorted_list_of_set S))\<rparr>"

lemma demo_order: "order_ok (rt_order demo_rt)" "order_ok (rt_order' demo_rt)"
  by (simp_all add: order_ok_def demo_rt_def)

definition demo_mw :: "string mw" where
  "demo_mw = \<lparr>mw_tracer = OtelTracer, mw_config = None, mw_count = OtelCounter 0, mw_latency = OtelHistogram 1\<rparr>"

theorem telemetry_adapter_refines_witness:
  "\<exists>calls sp. ot_calls (snd (snd (telemetry_serve demo_rt demo_mw ''root'' replying demo_request fresh_world
       \<lparr>ot_calls = [], ot_next = 2, ot_fails = (\<lambda>_ _. False)\<rparr>))) = calls \<and>
     hd calls = TracerStart ''root'' (rq_Method demo_request) 2 \<and> last calls = SpanEnd 2 \<and> span_of 2 calls = Some sp"
proof -
  let ?ot = "\<lparr>ot_calls = [], ot_next = 2, ot_fails = (\<lambda>_ _. False)\<rparr> :: (string, nat) otel"
  obtain res ctx ot' where run: "telemetry_serve demo_rt demo_mw ''root'' replying demo_request fresh_world ?ot = (res, ctx, ot')"
    by (cases "telemetry_serve demo_rt demo_mw ''root'' replying demo_request fresh_world ?ot") auto
  have m: "mw_tracer demo_mw = OtelTracer" "mw_count demo_mw = OtelCounter 0" "mw_latency demo_mw = OtelHistogram 1"
    by (simp_all add: demo_mw_def)
  have s: "snd (with_status replying demo_request fresh_world) = 200" by code_simp
  show ?thesis
    unfolding run using telemetry_adapter_refines [OF m demo_order _ _ run] s by (auto simp: request_ctx_def demo_mw_def)
qed

theorem telemetry_no_interference_witness:
  "mw_count (fst (telemetry_build (Some OtelTracer) (Some OtelMeter) []
       (\<lparr>ot_calls = [], ot_next = 0, ot_fails = (\<lambda>_ _. True)\<rparr> :: (string, nat) otel))) = noopCounter"
  using telemetry_no_interference [of demo_rt demo_mw "''root''" replying demo_request fresh_world
      "\<lparr>ot_calls = [], ot_next = 0, ot_fails = (\<lambda>_ _. True)\<rparr>" "[]" "Some OtelTracer" "Some OtelMeter"] by simp

end
