(* ===== verification/HealthTelemetry.thy ===== *)
theory HealthTelemetry
  imports Health OtelAdapter
begin

text \<open>
  The metrics of health checks (\<open>SetTelemetry\<close> and the instrument calls of the readiness handler in
  \<open>health/registry.go\<close>) over the adapter of \<open>telemetry/otel/otel.go\<close>, and the liveness handler. The
  number of checks in flight is a sum of increments and decrements that concurrent requests
  report; the theorem says that it is always right, also when the meter is replaced meanwhile.
\<close>

subsection \<open>Responses\<close>

text \<open>\<open>writeJSON\<close>: \<open>enc\<close> is the JSON encoder, whose error is dropped.\<close>

definition health_writeJSON :: "('p \<Rightarrow> goerr + string) \<Rightarrow> int \<Rightarrow> 'p \<Rightarrow> http_world \<Rightarrow> http_world \<times> bool" where
  "health_writeJSON enc status payload w =
     (case status_WriteHeader status
             (header_Set ''Cache-Control'' ''no-store''
               (header_Set ''Content-Type'' ''application/json; charset=utf-8'' w)) of
        (w', True) \<Rightarrow> (w', True)
      | (w', False) \<Rightarrow> (case enc payload of Inl _ \<Rightarrow> (w', False) | Inr bytes \<Rightarrow> (status_Write bytes w', False)))"

definition LiveHandler :: "((string \<times> string) list \<Rightarrow> goerr + string) \<Rightarrow> string \<Rightarrow> handler" where
  "LiveHandler enc service r w =
     (let (w', panicked) = health_writeJSON enc 200 [(''status'', ''ok''), (''service'', service)] w
      in \<lparr>hs_world = w', hs_panic = (if panicked then Some ''invalid WriteHeader code'' else None), hs_pattern = rq_Pattern r\<rparr>)"

subsection \<open>Instruments\<close>

record health_instruments =
  hi_duration :: "histogram option"
  hi_timeouts :: "counter option"
  hi_panics :: "counter option"
  hi_inflight :: "counter option"

text \<open>The counter of checks in flight is replaced only by a meter that has one.\<close>

definition health_SetTelemetry ::
  "meter option \<Rightarrow> health_instruments \<Rightarrow> ('c, 'f) otel \<Rightarrow> health_instruments \<times> ('c, 'f) otel" where
  "health_SetTelemetry me hi ot =
     (let me = (case me of Some m \<Rightarrow> m | None \<Rightarrow> NoopMeter);
          (duration, ot1) = meter_Float64Histogram me ''health_check_duration'' ot;
          (timeouts, ot2) = meter_Int64Counter me ''health_check_timeout_total'' ot1;
          (panics, ot3) = meter_Int64Counter me ''health_check_panics_total'' ot2;
          hi1 = hi\<lparr>hi_duration := Some duration, hi_timeouts := Some timeouts, hi_panics := Some panics\<rparr>
      in case me of
           OtelMeter \<Rightarrow> (let (inflight, ot4) = meter_Int64UpDownCounter ''health_check_inflight'' ot3
                        in (hi1\<lparr>hi_inflight := Some inflight\<rparr>, ot4))
         | NoopMeter \<Rightarrow> (hi1, ot3))"

text \<open>The calls of one execution of a check with the instruments it read at its start: before the
  check, after it (from its own goroutine), and for the error the request saw.\<close>

definition opt_add :: "counter option \<Rightarrow> 64 word \<Rightarrow> string \<Rightarrow> ('c, 'f) otel \<Rightarrow> ('c, 'f) otel" where
  "opt_add c v name ot = (case c of None \<Rightarrow> ot | Some k \<Rightarrow> counter_Add [''check''] k v [''check'' \<mapsto> name] ot)"

definition check_begin :: "health_instruments \<Rightarrow> string \<Rightarrow> ('c, 'f) otel \<Rightarrow> ('c, 'f) otel" where
  "check_begin hi name ot = opt_add (hi_inflight hi) 1 name ot"

definition check_end :: "health_instruments \<Rightarrow> string \<Rightarrow> 'f \<Rightarrow> ('c, 'f) otel \<Rightarrow> ('c, 'f) otel" where
  "check_end hi name elapsed ot =
     opt_add (hi_inflight hi) (- 1) name
       (case hi_duration hi of
          None \<Rightarrow> ot
        | Some h \<Rightarrow> histogram_Record [''check''] h elapsed [''check'' \<mapsto> name] ot)"

definition check_seen :: "health_instruments \<Rightarrow> string \<Rightarrow> check_outcome \<Rightarrow> bool \<Rightarrow> ('c, 'f) otel \<Rightarrow> ('c, 'f) otel" where
  "check_seen hi name out deadline ot =
     (case out of
        ChOk \<Rightarrow> ot
      | ChPanic \<Rightarrow> opt_add (hi_panics hi) 1 name ot
      | _ \<Rightarrow> if deadline then opt_add (hi_timeouts hi) 1 name ot else ot)"

subsection \<open>Executions of checks\<close>

text \<open>Any number of executions, each with the instruments it read at its start; the meter can be
  replaced at any time. An execution reports its end after it has left the running set, so the
  name may be running again by then.\<close>

record ('c, 'f) hm_state =
  hm_instr :: health_instruments
  hm_active :: "(health_instruments \<times> string) list"
  hm_past :: "(health_instruments \<times> string) list"
  hm_otel :: "('c, 'f) otel"

inductive hm_step :: "('c, 'f) hm_state \<Rightarrow> ('c, 'f) hm_state \<Rightarrow> bool" where
  hm_set: "health_SetTelemetry me (hm_instr s) (hm_otel s) = (hi, ot) \<Longrightarrow>
    hm_step s (s\<lparr>hm_instr := hi, hm_otel := ot\<rparr>)"
| hm_begin: "hm_step s (s\<lparr>hm_active := (hm_instr s, name) # hm_active s, hm_past := (hm_instr s, name) # hm_past s,
    hm_otel := check_begin (hm_instr s) name (hm_otel s)\<rparr>)"
| hm_end: "(hi, name) \<in> set (hm_active s) \<Longrightarrow>
    hm_step s (s\<lparr>hm_active := remove1 (hi, name) (hm_active s), hm_otel := check_end hi name elapsed (hm_otel s)\<rparr>)"
| hm_seen: "(hi, name) \<in> set (hm_past s) \<Longrightarrow>
    hm_step s (s\<lparr>hm_otel := check_seen hi name out deadline (hm_otel s)\<rparr>)"

definition no_instruments :: health_instruments where
  "no_instruments = \<lparr>hi_duration = None, hi_timeouts = None, hi_panics = None, hi_inflight = None\<rparr>"

inductive hm_reach :: "('c, 'f) hm_state \<Rightarrow> bool" where
  hm_init: "hm_reach \<lparr>hm_instr = no_instruments, hm_active = [], hm_past = [],
    hm_otel = \<lparr>ot_calls = [], ot_next = n, ot_fails = fails\<rparr>\<rparr>"
| hm_next: "hm_reach s \<Longrightarrow> hm_step s s' \<Longrightarrow> hm_reach s'"

subsection \<open>The gauge of checks in flight\<close>

text \<open>The value an up-down counter has after a sequence of calls.\<close>

fun up_down :: "nat \<Rightarrow> ('c, 'f) otel_call \<Rightarrow> int" where
  "up_down c (UpDownAdd k v kvs) = (if k = c then sint v else 0)"
| "up_down c _ = 0"

definition gauge :: "nat \<Rightarrow> ('c, 'f) otel \<Rightarrow> int" where
  "gauge c ot = sum_list (map (up_down c) (ot_calls ot))"

text \<open>Timeouts and panics are counted by monotonic counters; only the counter of checks in flight
  goes up and down.\<close>

definition monotonic :: "counter option \<Rightarrow> bool" where
  "monotonic c \<longleftrightarrow> (\<forall>k. c \<noteq> Some (OtelUpDownCounter k))"

definition instr_ok :: "health_instruments \<Rightarrow> bool" where
  "instr_ok hi \<longleftrightarrow> monotonic (hi_timeouts hi) \<and> monotonic (hi_panics hi)"

lemma gauge_call [simp]: "gauge c (ot_call x ot) = gauge c ot + up_down c x"
  by (simp add: gauge_def ot_call_def)

lemma gauge_next [simp]: "gauge c (ot\<lparr>ot_next := k\<rparr>) = gauge c ot"
  by (simp add: gauge_def)

lemma gauge_opt_add:
  "gauge c (opt_add k v name ot) = gauge c ot + (if k = Some (OtelUpDownCounter c) then sint v else 0)"
proof (cases k)
  case (Some k')
  then show ?thesis by (cases k') (simp_all add: opt_add_def)
qed (simp add: opt_add_def)

lemma gauge_histogram [simp]: "gauge c (histogram_Record o' h v a ot) = gauge c ot"
  by (cases h) simp_all

lemma gauge_check_begin:
  "gauge c (check_begin hi name ot) = gauge c ot + (if hi_inflight hi = Some (OtelUpDownCounter c) then 1 else 0)"
  by (simp add: check_begin_def gauge_opt_add)

lemma gauge_check_end:
  "gauge c (check_end hi name t ot) = gauge c ot - (if hi_inflight hi = Some (OtelUpDownCounter c) then 1 else 0)"
  by (simp add: check_end_def gauge_opt_add split: option.split)

lemma gauge_check_seen: "instr_ok hi \<Longrightarrow> gauge c (check_seen hi name out d ot) = gauge c ot"
  by (auto simp: check_seen_def instr_ok_def monotonic_def gauge_opt_add split: check_outcome.split)

lemma sdk_instrument_gauge: "gauge c (snd (sdk_instrument kind n ot)) = gauge c ot"
  by (simp add: sdk_instrument_def)

lemma meter_ops:
  "gauge c (snd (meter_Int64Counter me n ot)) = gauge c ot"
  "gauge c (snd (meter_Float64Histogram me n ot)) = gauge c ot"
  "gauge c (snd (meter_Int64UpDownCounter n ot)) = gauge c ot"
  "monotonic (Some (fst (meter_Int64Counter me n ot)))"
  by (cases me; auto simp: meter_Int64UpDownCounter_def monotonic_def case_prod_unfold sdk_instrument_gauge split: option.split)+

lemma SetTelemetry_effect:
  assumes "health_SetTelemetry me hi ot = (hi', ot')" "instr_ok hi"
  shows "instr_ok hi'" "gauge c ot' = gauge c ot"
  using assms
  by (auto simp: health_SetTelemetry_def Let_def case_prod_unfold instr_ok_def meter_ops split: meter.splits
      simp del: meter_Int64Counter.simps meter_Float64Histogram.simps)

text \<open>How many active executions report to an up-down counter.\<close>

definition in_flight :: "nat \<Rightarrow> ('c, 'f) hm_state \<Rightarrow> int" where
  "in_flight c s = int (length (filter (\<lambda>(hi, _). hi_inflight hi = Some (OtelUpDownCounter c)) (hm_active s)))"

definition hm_inv :: "('c, 'f) hm_state \<Rightarrow> bool" where
  "hm_inv s \<longleftrightarrow> instr_ok (hm_instr s) \<and> (\<forall>(hi, _) \<in> set (hm_past s). instr_ok hi) \<and> (\<forall>c. gauge c (hm_otel s) = in_flight c s)"

lemma length_filter_remove1:
  "x \<in> set xs \<Longrightarrow> length (filter P (remove1 x xs)) + (if P x then 1 else 0) = length (filter P xs)"
  by (induction xs) auto

lemma hm_inv_step: "hm_step s s' \<Longrightarrow> hm_inv s \<Longrightarrow> hm_inv s'"
proof (induction rule: hm_step.induct)
  case (hm_set me s hi ot)
  then show ?case using SetTelemetry_effect [OF hm_set.hyps] by (simp add: hm_inv_def in_flight_def)
next
  case (hm_begin s name)
  then show ?case by (auto simp: hm_inv_def in_flight_def gauge_check_begin)
next
  case (hm_end hi name s elapsed)
  have "in_flight c (s\<lparr>hm_active := remove1 (hi, name) (hm_active s), hm_otel := ot\<rparr>) =
      in_flight c s - (if hi_inflight hi = Some (OtelUpDownCounter c) then 1 else 0)" for c and ot :: "('a, 'b) otel"
    using length_filter_remove1 [OF hm_end.hyps, of "\<lambda>(hi, _). hi_inflight hi = Some (OtelUpDownCounter c)"]
    by (auto simp: in_flight_def split: if_splits)
  with hm_end.prems show ?case by (simp add: hm_inv_def gauge_check_end)
next
  case (hm_seen hi name s out deadline)
  then have "instr_ok hi" by (auto simp: hm_inv_def)
  with hm_seen.prems show ?case by (simp add: hm_inv_def gauge_check_seen in_flight_def)
qed

lemma hm_reach_inv: "hm_reach s \<Longrightarrow> hm_inv s"
proof (induction rule: hm_reach.induct)
  case (hm_init n fails)
  show ?case by (simp add: hm_inv_def no_instruments_def instr_ok_def monotonic_def gauge_def in_flight_def)
next
  case (hm_next s s')
  then show ?case by (blast intro: hm_inv_step)
qed

subsection \<open>Properties\<close>

text \<open>C28: The metric of checks in flight is always right: whatever executions overlap and however often
  the meter is replaced, the value of every up-down counter the SDK holds is the number of
  executions that began with it and have not ended, so it is never negative, and zero as soon as
  none is left. An execution decrements the counter it incremented, because it reads the
  instruments once.
\<close>

theorem health_inflight_exact:
  assumes "hm_reach s"
  shows "gauge c (hm_otel s) = in_flight c s \<and> 0 \<le> gauge c (hm_otel s) \<and>
    (hm_active s = [] \<longrightarrow> gauge c (hm_otel s) = 0)"
  using hm_reach_inv [OF assms] by (auto simp: hm_inv_def in_flight_def)

text \<open>A run: the meter is set, a check begins, the meter is taken away, the check ends.\<close>

definition demo_instr :: health_instruments where
  "demo_instr = \<lparr>hi_duration = Some (OtelHistogram 0), hi_timeouts = Some (OtelCounter 1),
     hi_panics = Some (OtelCounter 2), hi_inflight = Some (OtelUpDownCounter 3)\<rparr>"

theorem health_inflight_exact_witness:
  "\<exists>s :: (unit, nat) hm_state. hm_reach s \<and> hm_active s = [(demo_instr, ''db'')] \<and> gauge 3 (hm_otel s) = 1"
proof -
  let ?ot = "\<lparr>ot_calls = [], ot_next = 0, ot_fails = (\<lambda>_ _. False)\<rparr> :: (unit, nat) otel"
  let ?s = "\<lparr>hm_instr = no_instruments, hm_active = [], hm_past = [], hm_otel = ?ot\<rparr>"
  obtain ot where set_ot: "health_SetTelemetry (Some OtelMeter) no_instruments ?ot = (demo_instr, ot)"
  proof -
    have "fst (health_SetTelemetry (Some OtelMeter) no_instruments ?ot) = demo_instr"
      by (simp add: health_SetTelemetry_def sdk_instrument_def ot_call_def meter_Int64UpDownCounter_def
          no_instruments_def demo_instr_def Let_def)
    with that show thesis by (metis prod.collapse)
  qed
  have "hm_reach ?s" by (rule hm_init)
  moreover have "hm_step ?s (?s\<lparr>hm_instr := demo_instr, hm_otel := ot\<rparr>)" using hm_set [of _ ?s] set_ot by simp
  ultimately have "hm_reach (?s\<lparr>hm_instr := demo_instr, hm_otel := ot\<rparr>)" by (rule hm_next)
  moreover have "hm_step (?s\<lparr>hm_instr := demo_instr, hm_otel := ot\<rparr>)
      (?s\<lparr>hm_instr := demo_instr, hm_active := [(demo_instr, ''db'')], hm_past := [(demo_instr, ''db'')],
        hm_otel := check_begin demo_instr ''db'' ot\<rparr>)"
    using hm_begin [of "?s\<lparr>hm_instr := demo_instr, hm_otel := ot\<rparr>" "''db''"] by simp
  ultimately have reach: "hm_reach (?s\<lparr>hm_instr := demo_instr, hm_active := [(demo_instr, ''db'')], hm_past := [(demo_instr, ''db'')],
        hm_otel := check_begin demo_instr ''db'' ot\<rparr>)" by (rule hm_next)
  show ?thesis
  proof (intro exI conjI)
    show "gauge 3 (hm_otel (?s\<lparr>hm_instr := demo_instr, hm_active := [(demo_instr, ''db'')], hm_past := [(demo_instr, ''db'')],
        hm_otel := check_begin demo_instr ''db'' ot\<rparr>)) = 1"
      using health_inflight_exact [OF reach, of 3] by (simp add: in_flight_def demo_instr_def)
  qed (use reach in simp_all)
qed

text \<open>
  The liveness probe answers 200 to every request, with the service's name, and forbids caching;
  it never panics, whatever the state of the registry.
\<close>

theorem live_always_ok:
  assumes "hw_sent w = None" "enc [(''status'', ''ok''), (''service'', service)] = Inr body"
  shows "let out = LiveHandler enc service r w in
    hs_panic out = None \<and> hw_body (hs_world out) = hw_body w @ body \<and>
    (\<exists>headers. hw_sent (hs_world out) = Some (200, headers) \<and> headers ''Cache-Control'' = Some ''no-store'' \<and>
       headers ''Content-Type'' = Some ''application/json; charset=utf-8'')"
  using assms
  by (simp add: LiveHandler_def health_writeJSON_def status_WriteHeader_def raw_WriteHeader_def header_Set_def informational_def
      status_Write_def raw_Write_def body_allowed_def Let_def)

theorem live_always_ok_witness:
  "hs_panic (LiveHandler (\<lambda>_. Inr ''{}'') ''svc'' demo_request fresh_world) = None"
  using live_always_ok [of fresh_world "\<lambda>_. Inr ''{}''" "''svc''" "''{}''" demo_request]
  by (simp add: Let_def fresh_world_def)

end
