(* ===== verification/SchemaCatalog.thy ===== *)
theory SchemaCatalog
  imports Complex_Main SchemaTheorems Migrate "HOL-Library.Product_Lexorder"
begin

text \<open>
  The five catalogue queries of \<open>schema/schema.go\<close> over PostgreSQL's system catalogue: the joins, the
  conditions and the order of each, with the catalogue tables as lists of rows. What the server
  computes from them (\<open>format_type\<close>, \<open>pg_get_expr\<close>, \<open>pg_get_indexdef\<close>, \<open>pg_get_constraintdef\<close>) is given as
  functions. Names are sorted bytewise, as the catalogue's \<open>name\<close> type is.
\<close>

subsection \<open>The catalogue\<close>

type_synonym oid = nat

record pg_namespace =
  ns_oid :: oid
  nspname :: string

record pg_class =
  cl_oid :: oid
  relname :: string
  relnamespace :: oid
  relkind :: char

record pg_attribute =
  attrelid :: oid
  attname :: string
  atttypid :: oid
  atttypmod :: int
  attnotnull :: bool
  attnum :: int
  attisdropped :: bool

record pg_attrdef =
  adrelid :: oid
  adnum :: int
  adbin :: string

record pg_index =
  indexrelid :: oid
  indrelid :: oid
  indisunique :: bool
  indisprimary :: bool
  indkey :: "int list"

record pg_constraint =
  con_oid :: oid
  conname :: string
  conrelid :: oid
  contype :: char

record pg_type =
  ty_oid :: oid
  typname :: string
  typnamespace :: oid

record pg_enum =
  enumtypid :: oid
  enumsortorder :: rat
  enumlabel :: string

record pg_sequence =
  seqrelid :: oid
  seqtypid :: oid
  seqstart :: int
  seqmin :: int
  seqmax :: int
  seqincrement :: int
  seqcycle :: bool
  seqcache :: int

record pg_catalog =
  pg_namespaces :: "pg_namespace list"
  pg_classes :: "pg_class list"
  pg_attributes :: "pg_attribute list"
  pg_attrdefs :: "pg_attrdef list"
  pg_indexes :: "pg_index list"
  pg_constraints :: "pg_constraint list"
  pg_types :: "pg_type list"
  pg_enums :: "pg_enum list"
  pg_sequences :: "pg_sequence list"
  format_type :: "oid \<Rightarrow> int option \<Rightarrow> string"
  pg_get_expr :: "string \<Rightarrow> oid \<Rightarrow> string"
  pg_get_indexdef :: "oid \<Rightarrow> string"
  pg_get_constraintdef :: "oid \<Rightarrow> string"

subsection \<open>The queries\<close>

text \<open>One copy of a row for each schema named \<open>public\<close> with its number.\<close>

definition join_public :: "pg_catalog \<Rightarrow> oid \<Rightarrow> 'r \<Rightarrow> 'r list" where
  "join_public d nsp row = [row. n \<leftarrow> pg_namespaces d, ns_oid n = nsp, nspname n = ''public'']"

definition left_join :: "('a \<Rightarrow> bool) \<Rightarrow> 'a list \<Rightarrow> 'a option list" where
  "left_join on rows = (case filter on rows of [] \<Rightarrow> [None] | matches \<Rightarrow> map Some matches)"

definition query_columns :: "pg_catalog \<Rightarrow> (string \<times> Column) list" where
  "query_columns d =
     map (\<lambda>(a, c, ad). (relname c,
           \<lparr>co_Name = attname a, co_DataType = format_type d (atttypid a) (Some (atttypmod a)),
            co_IsNullable = (\<not> attnotnull a), co_Default = map_option (\<lambda>x. pg_get_expr d (adbin x) (adrelid x)) ad,
            co_Position = attnum a\<rparr>))
       (sort_key (\<lambda>(a, c, ad). (relname c, attnum a))
         [x. a \<leftarrow> pg_attributes d, c \<leftarrow> pg_classes d, cl_oid c = attrelid a,
             relkind c = CHR ''r'', attnum a > 0, \<not> attisdropped a,
             ad \<leftarrow> left_join (\<lambda>ad. adrelid ad = cl_oid c \<and> adnum ad = attnum a) (pg_attrdefs d),
             x \<leftarrow> join_public d (relnamespace c) (a, c, ad)])"

text \<open>The position of an attribute number in an index key.\<close>

fun array_position :: "int list \<Rightarrow> int \<Rightarrow> nat" where
  "array_position [] x = 0"
| "array_position (k # ks) x = (if k = x then 1 else Suc (array_position ks x))"

definition index_columns :: "pg_catalog \<Rightarrow> oid \<Rightarrow> int list \<Rightarrow> string list" where
  "index_columns d t ks =
     map attname (sort_key (\<lambda>a. array_position ks (attnum a))
       (filter (\<lambda>a. attrelid a = t \<and> attnum a \<in> set ks) (pg_attributes d)))"

definition query_indexes :: "pg_catalog \<Rightarrow> (string \<times> Index) list" where
  "query_indexes d =
     map (\<lambda>(t, ix, i). (relname t,
           \<lparr>ix_Name = relname i, ix_Unique = indisunique ix, ix_Primary = indisprimary ix,
            ix_Columns = index_columns d (cl_oid t) (indkey ix), ix_Definition = pg_get_indexdef d (indexrelid ix)\<rparr>))
       (sort_key (\<lambda>(t, ix, i). (relname t, relname i))
         [x. t \<leftarrow> pg_classes d, relkind t = CHR ''r'', ix \<leftarrow> pg_indexes d, indrelid ix = cl_oid t,
             i \<leftarrow> pg_classes d, cl_oid i = indexrelid ix,
             x \<leftarrow> join_public d (relnamespace t) (t, ix, i)])"

definition query_constraints :: "pg_catalog \<Rightarrow> (string \<times> Constraint) list" where
  "query_constraints d =
     map (\<lambda>(con, c). (relname c,
           \<lparr>cn_Name = conname con, cn_Type = [contype con], cn_Definition = pg_get_constraintdef d (con_oid con)\<rparr>))
       (sort_key (\<lambda>(con, c). (relname c, conname con))
         [x. con \<leftarrow> pg_constraints d, contype con \<in> set ''pfuc'', c \<leftarrow> pg_classes d, cl_oid c = conrelid con,
             x \<leftarrow> join_public d (relnamespace c) (con, c)])"

definition query_enums :: "pg_catalog \<Rightarrow> (string \<times> string) list" where
  "query_enums d =
     map (\<lambda>(t, e). (typname t, enumlabel e))
       (sort_key (\<lambda>(t, e). (typname t, enumsortorder e))
         [x. t \<leftarrow> pg_types d, e \<leftarrow> pg_enums d, enumtypid e = ty_oid t, x \<leftarrow> join_public d (typnamespace t) (t, e)])"

definition query_sequences :: "pg_catalog \<Rightarrow> Sequence list" where
  "query_sequences d =
     map (\<lambda>(s, c). \<lparr>sq_Name = relname c, sq_DataType = format_type d (seqtypid s) None, sq_Start = int_dec (seqstart s),
           sq_MinValue = int_dec (seqmin s), sq_MaxValue = int_dec (seqmax s), sq_Increment = int_dec (seqincrement s),
           sq_Cycle = seqcycle s, sq_Cache = int_dec (seqcache s)\<rparr>)
       (sort_key (\<lambda>(s, c). relname c)
         [x. s \<leftarrow> pg_sequences d, c \<leftarrow> pg_classes d, cl_oid c = seqrelid s, x \<leftarrow> join_public d (relnamespace c) (s, c)])"

text \<open>The answers of a server that answers all of them.\<close>

definition catalog_of :: "pg_catalog \<Rightarrow> catalog" where
  "catalog_of d = \<lparr>ct_columns = Inr (map Inr (query_columns d), None), ct_indexes = Inr (map Inr (query_indexes d), None),
     ct_constraints = Inr (map Inr (query_constraints d), None), ct_enums = Inr (map Inr (query_enums d), None),
     ct_sequences = Inr (map Inr (query_sequences d), None)\<rparr>"

subsection \<open>What the queries depend on\<close>

lemma each_row_all: "each_row f (map Inr xs) st = Inr (fold f xs st)"
  by (induction xs arbitrary: st) auto

lemma capture_succeeds: "\<exists>s. schema_Capture now (catalog_of d) = Inr s"
  by (simp add: schema_Capture_def and_then_def wrap_err_def captureColumns_def captureIndexes_def
      captureConstraints_def captureEnums_def captureSequences_def read_rows_def catalog_of_def each_row_all)

lemma concat_map_filter: "(\<And>x. \<not> Q x \<Longrightarrow> f x = []) \<Longrightarrow> concat (map f (filter Q xs)) = concat (map f xs)"
  by (induction xs) auto

lemma concat_map_Nil: "concat (map f xs) = [] \<longleftrightarrow> (\<forall>x \<in> set xs. f x = [])"
  by auto

lemma if_Nil: "(if b then xs else []) = [] \<longleftrightarrow> (b \<longrightarrow> xs = [])"
  by simp

definition is_public :: "pg_catalog \<Rightarrow> oid \<Rightarrow> bool" where
  "is_public d nsp \<longleftrightarrow> (\<exists>n \<in> set (pg_namespaces d). ns_oid n = nsp \<and> nspname n = ''public'')"

lemma join_public_empty: "\<not> is_public d nsp \<Longrightarrow> join_public d nsp x = []"
  by (auto simp: join_public_def is_public_def)

lemma join_public_elem: "y \<in> set (join_public d nsp x) \<Longrightarrow> y = x"
  by (auto simp: join_public_def split: if_splits)

text \<open>The catalogue without the other schemas and the relations and types in them. The class rows of
  indexes are found by their number only, so they stay.\<close>

definition public_part :: "pg_catalog \<Rightarrow> pg_catalog" where
  "public_part d = d\<lparr>pg_namespaces := filter (\<lambda>n. nspname n = ''public'') (pg_namespaces d),
     pg_classes := filter (\<lambda>c. is_public d (relnamespace c) \<or> cl_oid c \<in> indexrelid ` set (pg_indexes d)) (pg_classes d),
     pg_types := filter (\<lambda>t. is_public d (typnamespace t)) (pg_types d)\<rparr>"

lemma join_public_part: "join_public (public_part d) = join_public d"
  unfolding join_public_def public_part_def by (intro ext) (auto intro!: concat_map_filter)

lemma public_part_same [simp]:
  "pg_attributes (public_part d) = pg_attributes d" "pg_attrdefs (public_part d) = pg_attrdefs d"
  "pg_indexes (public_part d) = pg_indexes d" "pg_constraints (public_part d) = pg_constraints d"
  "pg_enums (public_part d) = pg_enums d" "pg_sequences (public_part d) = pg_sequences d"
  "format_type (public_part d) = format_type d" "pg_get_expr (public_part d) = pg_get_expr d"
  "pg_get_indexdef (public_part d) = pg_get_indexdef d" "pg_get_constraintdef (public_part d) = pg_get_constraintdef d"
  by (simp_all add: public_part_def)

lemma classes_public:
  assumes "\<And>c. \<not> is_public d (relnamespace c) \<Longrightarrow> f c = []"
  shows "concat (map f (pg_classes (public_part d))) = concat (map f (pg_classes d))"
  using assms by (auto simp: public_part_def intro!: concat_map_filter)

lemma types_public:
  assumes "\<And>t. \<not> is_public d (typnamespace t) \<Longrightarrow> f t = []"
  shows "concat (map f (pg_types (public_part d))) = concat (map f (pg_types d))"
  using assms by (auto simp: public_part_def intro!: concat_map_filter)

lemma index_classes:
  assumes "ix \<in> set (pg_indexes d)"
  shows "concat (map (\<lambda>i. if cl_oid i = indexrelid ix then f i else []) (pg_classes (public_part d))) =
    concat (map (\<lambda>i. if cl_oid i = indexrelid ix then f i else []) (pg_classes d))"
  using assms by (auto simp: public_part_def intro!: concat_map_filter split: if_splits)

lemma query_public:
  "query_columns (public_part d) = query_columns d" "query_constraints (public_part d) = query_constraints d"
  "query_enums (public_part d) = query_enums d" "query_sequences (public_part d) = query_sequences d"
  unfolding query_columns_def query_constraints_def query_enums_def query_sequences_def join_public_part public_part_same
  by (simp_all add: classes_public types_public join_public_empty concat_map_Nil if_Nil cong: if_cong)

lemma query_indexes_public: "query_indexes (public_part d) = query_indexes d"
proof -
  have inner: "concat (map (\<lambda>ix. if indrelid ix = o' then concat (map (\<lambda>i. if cl_oid i = indexrelid ix then f ix i else [])
        (pg_classes (public_part d))) else []) (pg_indexes d)) =
      concat (map (\<lambda>ix. if indrelid ix = o' then concat (map (\<lambda>i. if cl_oid i = indexrelid ix then f ix i else [])
        (pg_classes d)) else []) (pg_indexes d))" for o' and f :: "pg_index \<Rightarrow> pg_class \<Rightarrow> (pg_class \<times> pg_index \<times> pg_class) list"
    by (intro arg_cong [where f = concat] map_cong refl) (simp add: index_classes)
  have col: "index_columns (public_part d) = index_columns d" by (intro ext) (simp add: index_columns_def)
  show ?thesis
    unfolding query_indexes_def join_public_part col public_part_same inner
    by (subst classes_public) (auto simp: join_public_empty)
qed

lemma catalog_public: "catalog_of (public_part d) = catalog_of d"
  by (simp add: catalog_of_def query_public query_indexes_public)

text \<open>A relation that is not an ordinary table: its columns are in no answer.\<close>

definition without_columns :: "oid \<Rightarrow> pg_catalog \<Rightarrow> pg_catalog" where
  "without_columns rel d = d\<lparr>pg_attributes := filter (\<lambda>a. attrelid a \<noteq> rel) (pg_attributes d)\<rparr>"

lemma without_columns_same [simp]:
  "pg_namespaces (without_columns rel d) = pg_namespaces d" "pg_classes (without_columns rel d) = pg_classes d"
  "pg_attrdefs (without_columns rel d) = pg_attrdefs d" "pg_indexes (without_columns rel d) = pg_indexes d"
  "pg_constraints (without_columns rel d) = pg_constraints d" "pg_types (without_columns rel d) = pg_types d"
  "pg_enums (without_columns rel d) = pg_enums d" "pg_sequences (without_columns rel d) = pg_sequences d"
  "format_type (without_columns rel d) = format_type d" "pg_get_expr (without_columns rel d) = pg_get_expr d"
  "pg_get_indexdef (without_columns rel d) = pg_get_indexdef d"
  "pg_get_constraintdef (without_columns rel d) = pg_get_constraintdef d"
  "join_public (without_columns rel d) = join_public d"
  by (simp_all add: without_columns_def join_public_def [abs_def])

lemma attributes_without:
  assumes "\<And>a. attrelid a = rel \<Longrightarrow> f a = []"
  shows "concat (map f (pg_attributes (without_columns rel d))) = concat (map f (pg_attributes d))"
  using assms by (auto simp: without_columns_def intro!: concat_map_filter)

lemma catalog_without_columns:
  assumes "\<forall>c \<in> set (pg_classes d). cl_oid c = rel \<longrightarrow> relkind c \<noteq> CHR ''r''"
  shows "catalog_of (without_columns rel d) = catalog_of d"
proof -
  have "query_columns (without_columns rel d) = query_columns d"
    unfolding query_columns_def without_columns_same
    by (subst attributes_without) (use assms in \<open>auto simp: concat_map_Nil if_Nil\<close>)
  moreover have "index_columns (without_columns rel d) t ks = index_columns d t ks" if "t \<noteq> rel" for t ks
  proof -
    have "filter (\<lambda>a. attrelid a = t \<and> attnum a \<in> set ks) (pg_attributes (without_columns rel d)) =
        filter (\<lambda>a. attrelid a = t \<and> attnum a \<in> set ks) (pg_attributes d)"
      using that by (auto simp: without_columns_def intro!: filter_cong)
    then show ?thesis by (simp only: index_columns_def)
  qed
  then have "query_indexes (without_columns rel d) = query_indexes d"
    unfolding query_indexes_def without_columns_same
    by (intro map_cong refl) (use assms in \<open>auto split: if_splits dest: join_public_elem\<close>)
  moreover have "query_constraints (without_columns rel d) = query_constraints d"
    "query_enums (without_columns rel d) = query_enums d" "query_sequences (without_columns rel d) = query_sequences d"
    unfolding query_constraints_def query_enums_def query_sequences_def without_columns_same by (rule refl)+
  ultimately show ?thesis by (simp add: catalog_of_def)
qed

subsection \<open>The columns of an ordinary table\<close>

text \<open>What the unique indexes of the catalogue guarantee.\<close>

definition catalog_wf :: "pg_catalog \<Rightarrow> bool" where
  "catalog_wf d \<longleftrightarrow> distinct (map ns_oid (pg_namespaces d)) \<and> distinct (map nspname (pg_namespaces d)) \<and>
     distinct (map cl_oid (pg_classes d)) \<and>
     (\<forall>c \<in> set (pg_classes d). \<forall>c' \<in> set (pg_classes d).
        relnamespace c = relnamespace c' \<and> relname c = relname c' \<longrightarrow> c = c') \<and>
     distinct (map (\<lambda>ad. (adrelid ad, adnum ad)) (pg_attrdefs d))"

definition column_of :: "pg_catalog \<Rightarrow> pg_class \<Rightarrow> pg_attribute \<Rightarrow> Column" where
  "column_of d c a =
     \<lparr>co_Name = attname a, co_DataType = format_type d (atttypid a) (Some (atttypmod a)), co_IsNullable = (\<not> attnotnull a),
      co_Default = map_option (\<lambda>x. pg_get_expr d (adbin x) (adrelid x))
        (find (\<lambda>ad. adrelid ad = cl_oid c \<and> adnum ad = attnum a) (pg_attrdefs d)),
      co_Position = attnum a\<rparr>"

definition live_columns :: "pg_catalog \<Rightarrow> pg_class \<Rightarrow> pg_attribute list" where
  "live_columns d c = filter (\<lambda>a. attrelid a = cl_oid c \<and> 0 < attnum a \<and> \<not> attisdropped a) (pg_attributes d)"

lemma left_join_find:
  assumes "distinct (map f rows)"
  shows "left_join (\<lambda>x. f x = k) rows = [find (\<lambda>x. f x = k) rows]"
  using assms
proof (induction rows)
  case (Cons x rows)
  then show ?case
    by (auto simp: left_join_def split: list.splits) (auto simp: filter_eq_Cons_iff filter_empty_conv)
qed (simp add: left_join_def)

lemma join_public_wf:
  assumes "catalog_wf d"
  shows "join_public d nsp x = (if is_public d nsp then [x] else [])"
proof -
  have "distinct (map ns_oid ns) \<Longrightarrow> [x. n \<leftarrow> ns, ns_oid n = nsp, nspname n = ''public''] =
      (if \<exists>n \<in> set ns. ns_oid n = nsp \<and> nspname n = ''public'' then [x] else [])" for ns :: "pg_namespace list"
    by (induction ns) (auto simp: concat_map_Nil)
  then show ?thesis using assms by (auto simp: join_public_def is_public_def catalog_wf_def)
qed

lemma public_unique:
  assumes "catalog_wf d" "c \<in> set (pg_classes d)" "c' \<in> set (pg_classes d)" "is_public d (relnamespace c)"
    "is_public d (relnamespace c')" "relname c = relname c'"
  shows "c = c'"
proof -
  have "n = n'" if "n \<in> set (pg_namespaces d)" "n' \<in> set (pg_namespaces d)" "nspname n = nspname n'" for n n'
    using assms(1) that unfolding catalog_wf_def distinct_map inj_on_def by blast
  then have "relnamespace c = relnamespace c'" using assms(4,5) unfolding is_public_def by metis
  then show ?thesis using assms(1-3,6) unfolding catalog_wf_def by blast
qed

lemma sort_key_map_mono:
  assumes "\<And>x y. k (g x) \<le> k (g y) \<longleftrightarrow> f x \<le> f y"
  shows "sort_key k (map g xs) = map g (sort_key f xs)"
proof -
  have "insort_key k (g x) (map g ys) = map g (insort_key f x ys)" for x ys
    by (induction ys) (auto simp: assms)
  then show ?thesis by (induction xs) auto
qed

lemma concat_map_single:
  assumes "distinct xs" "c \<in> set xs" "\<And>x. x \<in> set xs \<Longrightarrow> x \<noteq> c \<Longrightarrow> f x = []"
  shows "concat (map f xs) = f c"
  using assms
proof (induction xs)
  case (Cons x xs)
  show ?case
  proof (cases "x = c")
    case True
    with Cons.prems have "\<forall>y \<in> set xs. f y = []" by auto
    with True show ?thesis by (simp add: concat_map_Nil)
  next
    case False
    with Cons.prems have "concat (map f xs) = f c" by (intro Cons.IH) auto
    with False Cons.prems(3) [of x] show ?thesis by simp
  qed
qed simp

lemma concat_map_if: "concat (map (\<lambda>x. if P x then [g x] else []) xs) = map g (filter P xs)"
  by (induction xs) auto

lemma columns_of_table:
  assumes wf: "catalog_wf d" and c: "c \<in> set (pg_classes d)" "is_public d (relnamespace c)" "relkind c = CHR ''r''"
  shows "map snd (filter (\<lambda>(u, _). u = relname c) (query_columns d)) = map (column_of d c) (sort_key attnum (live_columns d c))"
proof -
  define default where "default = (\<lambda>(c' :: pg_class) (a :: pg_attribute). find (\<lambda>ad. (adrelid ad, adnum ad) = (cl_oid c', attnum a)) (pg_attrdefs d))"
  define row where "row = (\<lambda>a (c' :: pg_class). (a, c', default c' a))"
  define ok where "ok = (\<lambda>(a :: pg_attribute) (c' :: pg_class). cl_oid c' = attrelid a \<and> relkind c' = CHR ''r'' \<and> 0 < attnum a \<and> \<not> attisdropped a \<and>
      is_public d (relnamespace c'))"
  let ?named = "\<lambda>(a :: pg_attribute, c' :: pg_class, ad :: pg_attrdef option). relname c' = relname c"
  have lj: "left_join (\<lambda>ad. adrelid ad = cl_oid c' \<and> adnum ad = attnum a) (pg_attrdefs d) = [default c' a]" for c' a
    using left_join_find [of "\<lambda>ad. (adrelid ad, adnum ad)" "pg_attrdefs d" "(cl_oid c', attnum a)"] wf
    by (simp add: catalog_wf_def default_def)
  have joined: "[x. a \<leftarrow> pg_attributes d, c' \<leftarrow> pg_classes d, cl_oid c' = attrelid a,
             relkind c' = CHR ''r'', attnum a > 0, \<not> attisdropped a,
             ad \<leftarrow> left_join (\<lambda>ad. adrelid ad = cl_oid c' \<and> adnum ad = attnum a) (pg_attrdefs d),
             x \<leftarrow> join_public d (relnamespace c') (a, c', ad)] =
      concat (map (\<lambda>a. map (row a) (filter (ok a) (pg_classes d))) (pg_attributes d))"
    unfolding lj join_public_wf [OF wf] concat_map_if [symmetric]
    by (intro arg_cong [where f = concat] map_cong refl) (simp add: ok_def row_def)
  have "filter ?named (map (row a) (filter (ok a) (pg_classes d))) =
      (if attrelid a = cl_oid c \<and> 0 < attnum a \<and> \<not> attisdropped a then [row a c] else [])" for a
  proof -
    have "filter ?named (map (row a) (filter (ok a) (pg_classes d))) =
        concat (map (\<lambda>c'. if ok a c' \<and> relname c' = relname c then [row a c'] else []) (pg_classes d))"
      by (simp add: concat_map_if filter_map comp_def row_def conj_commute)
    also have "\<dots> = (if ok a c \<and> relname c = relname c then [row a c] else [])"
      by (rule concat_map_single)
         (use wf c in \<open>auto simp: catalog_wf_def distinct_map ok_def dest: public_unique [OF wf]\<close>)
    finally show ?thesis using c by (auto simp: ok_def)
  qed
  then have "filter ?named (concat (map (\<lambda>a. map (row a) (filter (ok a) (pg_classes d))) (pg_attributes d))) =
      map (\<lambda>a. row a c) (live_columns d c)"
    by (simp add: filter_concat comp_def concat_map_if live_columns_def)
  moreover have "sort_key (\<lambda>(a, c, ad). (relname c, attnum a)) (map (\<lambda>a. row a c) xs) = map (\<lambda>a. row a c) (sort_key attnum xs)" for xs
    by (rule sort_key_map_mono) (simp add: row_def)
  moreover have "default c a = find (\<lambda>ad. adrelid ad = cl_oid c \<and> adnum ad = attnum a) (pg_attrdefs d)" for a
    by (simp add: default_def)
  ultimately show ?thesis
    unfolding query_columns_def joined
    by (simp add: filter_map comp_def case_prod_unfold filter_sort column_of_def row_def)
qed

subsection \<open>Properties\<close>

text \<open>
  A capture sees the public schema and nothing else: two databases that agree on it, whatever
  tables, types and sequences other schemas hold, give snapshots between which no drift is
  reported.
\<close>

theorem schema_public_only:
  assumes "public_part d = public_part d'" "valid_order ord"
  shows "\<exists>s s' r. schema_Capture now (catalog_of d) = Inr s \<and> schema_Capture later (catalog_of d') = Inr s' \<and>
    schema_Diff ord s s' = Some r \<and> \<not> dr_HasDrift r"
proof -
  have "catalog_of d' = catalog_of d" using assms(1) catalog_public by metis
  then show ?thesis using capture_succeeds [of now d] recapture_clean [OF _ assms(2)] by metis
qed

text \<open>
  The columns of a relation that is not an ordinary table are invisible: a partitioned table
  whose columns all change, or disappear, shows no drift.
\<close>

theorem schema_partitioned_blind:
  assumes "\<forall>c \<in> set (pg_classes d). cl_oid c = rel \<longrightarrow> relkind c \<noteq> CHR ''r''" "valid_order ord"
  shows "\<exists>s s' r. schema_Capture now (catalog_of d) = Inr s \<and>
    schema_Capture later (catalog_of (without_columns rel d)) = Inr s' \<and>
    schema_Diff ord s s' = Some r \<and> \<not> dr_HasDrift r"
  using capture_succeeds [of now d] recapture_clean [OF _ assms(2)] catalog_without_columns [OF assms(1)] by metis

text \<open>C36: What a capture says of an ordinary table of the public schema: its columns are exactly the live
  attributes of the relation (numbered from one, not dropped), in the order of their positions,
  each with its type, nullability and default as the catalogue has them.
\<close>

theorem schema_columns_exact:
  assumes "catalog_wf d" "c \<in> set (pg_classes d)" "is_public d (relnamespace c)" "relkind c = CHR ''r''"
    "\<not> ignoreTable (relname c)" "schema_Capture now (catalog_of d) = Inr s"
  shows "tb_Columns (table_of s (relname c)) = map (column_of d c) (sort_key attnum (live_columns d c))"
proof (rule capture_ok [OF assms(6)])
  fix cols idxs cons labels seqs
  assume cols: "ct_columns (catalog_of d) = Inr (map Inr cols, None)" and s: "s = (constraints_pass.pass cons (indexes_pass.pass idxs (columns_pass.pass cols
       \<lparr>sn_SnapshotVersion = 2, sn_CapturedAt = now, sn_Tables = [], sn_Enums = [], sn_Sequences = []\<rparr>)))
       \<lparr>sn_Enums := fold add_label labels [], sn_Sequences := seqs\<rparr>"
  have "cols = query_columns d" using cols by (auto simp: catalog_of_def inj_map_eq_map)
  then show ?thesis
    using columns_of_table [OF assms(1-4)] capture_contents(6) [OF assms(5)] unfolding s by simp
qed

subsection \<open>The table of applied migrations\<close>

text \<open>\<open>migrate.Runner\<close> and the name of its table; \<open>sanitize\<close> is \<open>pgx.Identifier.Sanitize\<close> on one part, which
  quotes the name for a statement, so the table in the catalogue has the name before it.\<close>

record Runner =
  ru_Pool :: bool
  ru_Sources :: "Source list"
  ru_MetadataTable :: string

definition metadata_name :: "Runner \<Rightarrow> string" where
  "metadata_name r =
     (let trimmed = TrimSpace (ru_MetadataTable r) in if trimmed \<noteq> [] then trimmed else ''_devengine_migrations'')"

definition metadataTable :: "(string \<Rightarrow> string) \<Rightarrow> Runner \<Rightarrow> string" where
  "metadataTable sanitize r = sanitize (metadata_name r)"

lemma capture_sees_table:
  assumes "schema_Capture now (catalog_of d) = Inr s"
  shows "map_of (sn_Tables s) t \<noteq> None \<longleftrightarrow> \<not> ignoreTable t \<and>
    t \<in> fst ` set (query_columns d) \<union> fst ` set (query_indexes d) \<union> fst ` set (query_constraints d)"
proof (rule capture_ok [OF assms])
  fix cols idxs cons labels seqs
  assume rows: "ct_columns (catalog_of d) = Inr (map Inr cols, None)" "ct_indexes (catalog_of d) = Inr (map Inr idxs, None)"
    "ct_constraints (catalog_of d) = Inr (map Inr cons, None)"
    and s: "s = (constraints_pass.pass cons (indexes_pass.pass idxs (columns_pass.pass cols
       \<lparr>sn_SnapshotVersion = 2, sn_CapturedAt = now, sn_Tables = [], sn_Enums = [], sn_Sequences = []\<rparr>)))
       \<lparr>sn_Enums := fold add_label labels [], sn_Sequences := seqs\<rparr>"
  have "cols = query_columns d" "idxs = query_indexes d" "cons = query_constraints d"
    using rows by (auto simp: catalog_of_def inj_map_eq_map)
  then show ?thesis using capture_contents(5) [where cons = cons and idxs = idxs and cols = cols and now = now and labels = labels and seqs = seqs and t = t] unfolding s by simp
qed

text \<open>
  Snapshots leave out the table of applied migrations only under its default name: a runner with
  its own table name has its bookkeeping reported as part of the application's schema.
\<close>

theorem schema_metadata_table:
  assumes "schema_Capture now (catalog_of d) = Inr s" "metadata_name r \<in> fst ` set (query_columns d)"
    "\<not> prefix ''pg_'' (metadata_name r)" "\<not> prefix ''information_schema'' (metadata_name r)"
  shows "map_of (sn_Tables s) (metadata_name r) = None \<longleftrightarrow>
    TrimSpace (ru_MetadataTable r) \<in> {[], ''_devengine_migrations''}"
  using capture_sees_table [OF assms(1), of "metadata_name r"] assms(2-4)
  by (auto simp: ignoreTable_def metadata_name_def Let_def split: if_splits)

text \<open>A database with one public table, one partitioned table and one table in another schema.\<close>

definition demo_pg :: pg_catalog where
  "demo_pg = \<lparr>pg_namespaces = [\<lparr>ns_oid = 1, nspname = ''public''\<rparr>, \<lparr>ns_oid = 2, nspname = ''audit''\<rparr>],
     pg_classes = [\<lparr>cl_oid = 10, relname = ''users'', relnamespace = 1, relkind = CHR ''r''\<rparr>,
       \<lparr>cl_oid = 11, relname = ''events'', relnamespace = 1, relkind = CHR ''p''\<rparr>,
       \<lparr>cl_oid = 12, relname = ''log'', relnamespace = 2, relkind = CHR ''r''\<rparr>],
     pg_attributes =
       [\<lparr>attrelid = 10, attname = ''name'', atttypid = 25, atttypmod = -1, attnotnull = False, attnum = 2, attisdropped = False\<rparr>,
        \<lparr>attrelid = 10, attname = ''id'', atttypid = 23, atttypmod = -1, attnotnull = True, attnum = 1, attisdropped = False\<rparr>,
        \<lparr>attrelid = 10, attname = ''ctid'', atttypid = 27, atttypmod = -1, attnotnull = True, attnum = -1, attisdropped = False\<rparr>,
        \<lparr>attrelid = 11, attname = ''at'', atttypid = 25, atttypmod = -1, attnotnull = True, attnum = 1, attisdropped = False\<rparr>],
     pg_attrdefs = [], pg_indexes = [], pg_constraints = [], pg_types = [], pg_enums = [], pg_sequences = [],
     format_type = (\<lambda>t _. nat_dec t), pg_get_expr = (\<lambda>e _. e), pg_get_indexdef = nat_dec, pg_get_constraintdef = nat_dec\<rparr>"

lemma demo_pg_wf: "catalog_wf demo_pg" "is_public demo_pg 1"
  by (simp_all add: catalog_wf_def demo_pg_def is_public_def)

theorem schema_columns_exact_witness:
  "\<exists>s. schema_Capture 0 (catalog_of demo_pg) = Inr s \<and> map co_Name (tb_Columns (table_of s ''users'')) = [''id'', ''name'']"
proof -
  let ?c = "\<lparr>cl_oid = 10, relname = ''users'', relnamespace = 1, relkind = CHR ''r''\<rparr>"
  obtain s where s: "schema_Capture 0 (catalog_of demo_pg) = Inr s" using capture_succeeds by blast
  have "?c \<in> set (pg_classes demo_pg)" "\<not> ignoreTable ''users''" by (simp_all add: demo_pg_def ignoreTable_def)
  with schema_columns_exact [OF demo_pg_wf(1), of ?c, OF _ _ _ _ s] demo_pg_wf(2)
  have "tb_Columns (table_of s ''users'') = map (column_of demo_pg ?c) (sort_key attnum (live_columns demo_pg ?c))" by simp
  then show ?thesis using s by (simp add: live_columns_def demo_pg_def column_of_def)
qed

theorem schema_public_only_witness:
  "\<exists>s s' r. schema_Capture 3 (catalog_of demo_pg) = Inr s \<and>
     schema_Capture 4 (catalog_of (demo_pg\<lparr>pg_classes := butlast (pg_classes demo_pg)\<rparr>)) = Inr s' \<and>
     schema_Diff demo_order s s' = Some r \<and> \<not> dr_HasDrift r"
  by (rule schema_public_only [OF _ demo_order_valid(1)]) (simp add: public_part_def is_public_def demo_pg_def)

theorem schema_partitioned_blind_witness:
  "\<exists>s s' r. schema_Capture 3 (catalog_of demo_pg) = Inr s \<and>
     schema_Capture 4 (catalog_of (without_columns 11 demo_pg)) = Inr s' \<and>
     schema_Diff demo_order s s' = Some r \<and> \<not> dr_HasDrift r"
  by (rule schema_partitioned_blind [OF _ demo_order_valid(1)]) (simp add: demo_pg_def)

theorem schema_metadata_table_witness:
  "\<exists>s. schema_Capture 0 (catalog_of demo_pg) = Inr s \<and> map_of (sn_Tables s) ''users'' \<noteq> None"
proof -
  let ?r = "\<lparr>ru_Pool = True, ru_Sources = [], ru_MetadataTable = ''users''\<rparr>"
  have t: "TrimSpace ''users'' = ''users''" by code_simp
  then have n: "metadata_name ?r = ''users''" by (simp add: metadata_name_def)
  obtain s where s: "schema_Capture 0 (catalog_of demo_pg) = Inr s" using capture_succeeds by blast
  have "''users'' \<in> fst ` set (query_columns demo_pg)"
    by (simp add: query_columns_def demo_pg_def join_public_def left_join_def)
  with schema_metadata_table [OF s, of ?r] n t s show ?thesis by auto
qed

end
