(* ===== verification/Examples.thy ===== *)
theory Examples
  imports Composition JobsTheorems ClientIP EngineRun OtelAdapter
begin

text \<open>
  The example programs of the repository (\<open>examples/\<close>) over the models of the packages they use: what
  each of them constructs, inserts or prints. The event example is in \<open>Composition\<close>.
\<close>

subsection \<open>Client addresses\<close>

text \<open>\<open>examples/clientip\<close>: \<open>Inl\<close> is the panic, \<open>Inr\<close> what is printed.\<close>

definition clientip_main :: "goerr + string" where
  "clientip_main =
     (case clientip_New [''10.20.0.0/16''] [''CF-Connecting-IP'', ''Forwarded'', ''X-Forwarded-For'', ''X-Real-IP''] of
        Inl err \<Rightarrow> Inl err
      | Inr resolver \<Rightarrow>
          Inr (clientip_Resolve resolver
            (Some \<lparr>rq_RemoteAddr = ''10.20.0.4:443'',
                   rq_Values = (\<lambda>h. if h = ''CF-Connecting-IP'' then [''203.0.113.7''] else [])\<rparr>)))"

subsection \<open>Engines\<close>

text \<open>A worker of the examples waits for the end of its context and returns nil.\<close>

datatype example_code = UntilDone

definition http_main :: "(string list \<Rightarrow> string \<Rightarrow> bool) \<Rightarrow> 's \<Rightarrow> 's \<Rightarrow> 's \<Rightarrow> ('s, 'h, example_code) Engine option" where
  "http_main conflict lg nt nm = engine_Handle conflict ''GET /health'' (engine_New lg nt nm [WithProfile ProfileHTTP])"

definition worker_main :: "'s \<Rightarrow> 's \<Rightarrow> 's \<Rightarrow> ('s, 'h, example_code) Engine \<times> goerr option" where
  "worker_main lg nt nm =
     engine_AddWorker [Some (Worker ''example-worker'' UntilDone)] (engine_New lg nt nm [WithProfile ProfileWorker])"

definition combined_main ::
  "(string list \<Rightarrow> string \<Rightarrow> bool) \<Rightarrow> 's \<Rightarrow> 's \<Rightarrow> 's \<Rightarrow> (('s, 'h, example_code) Engine \<times> goerr option) option" where
  "combined_main conflict lg nt nm =
     (case engine_Handle conflict ''GET /'' (engine_New lg nt nm []) of
        None \<Rightarrow> None
      | Some app \<Rightarrow> Some (engine_AddWorker [Some (Worker ''consumer'' UntilDone)] app))"

text \<open>\<open>examples/otel\<close>: \<open>tr\<close> and \<open>me\<close> embed the adapter's tracer and meter into the engine's values.\<close>

definition otel_main :: "(tracer \<Rightarrow> 's) \<Rightarrow> (meter \<Rightarrow> 's) \<Rightarrow> 's \<Rightarrow> 's \<Rightarrow> 's \<Rightarrow> ('s, 'h, example_code) Engine" where
  "otel_main tr me lg nt nm =
     (case otel_New of (t, m) \<Rightarrow> engine_New lg nt nm [WithTelemetry (Some (tr t)) (Some (me m))])"

subsection \<open>Jobs and transactions\<close>

definition enqueueEmail ::
  "((string \<times> string) list \<Rightarrow> goerr + string) \<Rightarrow> string \<Rightarrow> int \<Rightarrow> int \<Rightarrow> exec_outcome \<Rightarrow> string \<Rightarrow> job_row list
     \<Rightarrow> job_row list \<times> goerr option" where
  "enqueueEmail marshal uuid now db_now out recipient rows =
     jobs_Enqueue marshal uuid now db_now out
       \<lparr>Job_ID = [], Job_Name = ''send-email'', Job_Payload = [(''to'', recipient)],
        Job_RunAt = Some (now + 60 * 1000000), Job_MaxAttempts = 5\<rparr> rows"

text \<open>\<open>examples/transaction\<close>: the callback runs one statement through the querier of its context;
  \<open>insert_account\<close> is what the statement does in a transaction.\<close>

definition create_callback :: "(string \<Rightarrow> 'd \<Rightarrow> 'd \<times> goerr option) \<Rightarrow> string \<Rightarrow> 'd \<Rightarrow> 'd \<times> fn_outcome" where
  "create_callback insert_account email d = (case insert_account email d of (d', err) \<Rightarrow> (d', FnReturned err))"

definition createAccount ::
  "(string \<Rightarrow> 'd \<Rightarrow> 'd \<times> goerr option) \<Rightarrow> string \<Rightarrow> (int \<Rightarrow> 'd attempt_env) \<Rightarrow> 'd \<Rightarrow> 'd \<times> nat \<times> duration list \<times> tx_result" where
  "createAccount insert_account email env db =
     WithTransactionOptions True [] False
       (\<lambda>k. (env k)\<lparr>ae_tx := (ae_tx (env k))\<lparr>te_fn := create_callback insert_account email\<rparr>\<rparr>) db"

subsection \<open>Properties\<close>

lemma example_names:
  "ToLower (TrimSpace ''CF-Connecting-IP'') = ''cf-connecting-ip''" "ToLower (TrimSpace ''Forwarded'') = ''forwarded''"
  "ToLower (TrimSpace ''X-Forwarded-For'') = ''x-forwarded-for''" "ToLower (TrimSpace ''X-Real-IP'') = ''x-real-ip''"
  "TrimSpace ''10.20.0.0/16'' = ''10.20.0.0/16''" "TrimSpace ''203.0.113.7'' = ''203.0.113.7''"
  by code_simp+

lemma example_prefix: "ParsePrefix ''10.20.0.0/16'' = Some (Pfx (V4 0x0A140000) 16)" "prefix_Masked (Pfx (V4 0x0A140000) 16) = Pfx (V4 0x0A140000) 16"
  by (simp_all add: ParsePrefix_def cut_last_def v4_eval addr_Zone_def addr_Is6_def prefix_Masked_def)

text \<open>
  The example resolver trusts the peer, so the address of the header is printed.
\<close>

theorem example_clientip_prints: "clientip_main = Inr ''203.0.113.7''"
proof -
  let ?r = "\<lparr>rv_trusted = [Pfx (V4 0x0A140000) 16],
      rv_priority = [''CF-Connecting-IP'', ''Forwarded'', ''X-Forwarded-For'', ''X-Real-IP'']\<rparr>"
  have new: "clientip_New [''10.20.0.0/16''] [''CF-Connecting-IP'', ''Forwarded'', ''X-Forwarded-For'', ''X-Real-IP''] = Inr ?r"
    by (simp add: clientip_New_def example_names example_prefix supportedHeaders_def)
  have peer: "parseRemoteAddr ''10.20.0.4:443'' = Some (V4 0x0A140004, ''10.20.0.4'')"
    by (simp add: parseRemoteAddr_def v4_eval port_eval addr_Zone_def addr_Unmap_def addr_String_def string4_def
        octets4_def nat_dec.simps char_of_def bit_0)
  have trusted: "rv_contains ?r (V4 0x0A140004)" "\<not> rv_contains ?r (V4 0xCB007107)"
    by (simp_all add: rv_contains_def addr_Unmap_def prefix_Contains_def)
  have header: "parseHeader ''CF-Connecting-IP'' [''203.0.113.7''] = Some [V4 0xCB007107]"
    by (simp add: parseHeader_def example_names parseBareAddr_def contains_any_def v4_eval addr_Zone_def
        addr_IsUnspecified_def addr_Unmap_def)
  have "addr_String (V4 0xCB007107) = ''203.0.113.7''"
    by (simp add: addr_String_def string4_def octets4_def nat_dec.simps char_of_def bit_0)
  then show ?thesis by (simp add: clientip_main_def new clientip_Resolve_def peer trusted header)
qed

text \<open>
  The examples construct what they say, and the errors they ignore are nil: the HTTP engine has its
  route and no worker, the worker engine its worker, the combined one both, and the engine of the
  telemetry example has the adapter's tracer and meter. No route conflicts on an empty router.
\<close>

theorem example_engines:
  assumes "\<And>p. \<not> conflict [] p"
  shows "\<exists>h w c.
     http_main conflict lg nt nm = Some h \<and> eg_profile h = ProfileHTTP \<and> eg_mux h = [''GET /health''] \<and> eg_workers h = [] \<and>
     worker_main lg nt nm = (w, None) \<and> eg_profile w = ProfileWorker \<and> map wk_Name (eg_workers w) = [''example-worker''] \<and>
     combined_main conflict lg nt nm = Some (c, None) \<and> eg_profile c = ProfileHTTPAndWorker \<and>
       eg_mux c = [''GET /''] \<and> map wk_Name (eg_workers c) = [''consumer''] \<and>
     eg_tracer (otel_main tr me lg nt nm) = tr OtelTracer \<and> eg_meter (otel_main tr me lg nt nm) = me OtelMeter"
  using assms
  by (simp add: http_main_def worker_main_def combined_main_def otel_main_def otel_New_def engine_New_def default_engine_def
      engine_Handle_def engine_AddWorker_def)

theorem example_engines_witness:
  "\<exists>h :: (nat, nat, example_code) Engine. http_main (\<lambda>ps p. p \<in> set ps) 0 0 0 = Some h \<and> eg_mux h = [''GET /health'']"
  using example_engines [of "\<lambda>ps p. p \<in> set ps" 0 0 0 "\<lambda>_. 1" "\<lambda>_. 2"] by auto

text \<open>
  The job of the example is inserted once, under the generated identifier, and is due from a
  minute later on, for at most five attempts.
\<close>

theorem example_job_due:
  assumes "enqueueEmail marshal uuid now db_now out recipient rows = (rows', None)"
  shows "\<exists>r. rows' = rows @ [r] \<and> jr_id r = uuid \<and> uuid \<notin> jr_id ` set rows \<and> jr_max_attempts r = 5 \<and>
    (\<forall>t. job_due t r \<longleftrightarrow> now + 60 * 1000000 \<le> t)"
  using assms
  by (auto simp: enqueueEmail_def jobs_Enqueue_def jobs_insert_def job_due_def Let_def split: sum.splits if_splits exec_outcome.splits)

theorem example_job_due_witness:
  "\<exists>r. enqueueEmail (\<lambda>_. Inr ''{}'') ''j1'' 5 5 ExecOk ''a@b'' [] = ([r], None) \<and> job_due 60000005 r"
proof -
  obtain rows where run: "enqueueEmail (\<lambda>_. Inr ''{}'') ''j1'' 5 5 ExecOk ''a@b'' [] = (rows, None)"
    by (simp add: enqueueEmail_def jobs_Enqueue_def jobs_insert_def)
  from example_job_due [OF run] run show ?thesis by auto
qed

text \<open>
  An account is created by exactly one run of the statement or not at all: when no commit reply is
  lost, a nil result means that the last attempt's statement succeeded on the data it found and its
  effect is what was committed, and any other result that the data are as other sessions left them.
\<close>

theorem example_account_atomic:
  assumes "no_lost_reply env" "createAccount insert_account email env db = (db', n, ws, res)"
  shows "if res = TxReturned None
    then insert_account email (others_until env 1 (int n) db) = (db', None)
    else db' = others_until env 1 (int n) db"
proof -
  let ?env = "\<lambda>k. (env k)\<lparr>ae_tx := (ae_tx (env k))\<lparr>te_fn := create_callback insert_account email\<rparr>\<rparr>"
  have lost: "no_lost_reply ?env" using assms(1) by (simp add: no_lost_reply_def)
  have others: "others_until ?env a k d = others_until env a k d" for a k d by (simp add: others_until_def)
  have "tx_loop (effective_config []) ?env 1 (rt_InitialBackoff (effective_config [])) None db = (db', n, ws, res)"
    using assms(2) by (simp add: createAccount_def WithTransactionOptions_def withTransaction_def Let_def)
  from tx_loop_run [OF lost this] show ?thesis
    by (auto simp: others create_callback_def add.commute split: prod.splits)
qed

theorem example_account_atomic_witness:
  "createAccount (\<lambda>email rows. (email # rows, None)) ''a@b''
     (\<lambda>k. \<lparr>ae_ctx = None, ae_tx = \<lparr>te_before = id, te_begin = None, te_fn = (\<lambda>d. (d, FnReturned None)), te_commit = CommitOk\<rparr>,
        ae_draw = 0, ae_done = None\<rparr>) [] = ([''a@b''], 1, [], TxReturned None)"
proof -
  let ?env = "\<lambda>k :: int. \<lparr>ae_ctx = None, ae_tx = \<lparr>te_before = id, te_begin = None, te_fn = (\<lambda>d. (d, FnReturned None)),
      te_commit = CommitOk\<rparr>, ae_draw = 0, ae_done = None\<rparr> :: string list attempt_env"
  have "\<exists>db. createAccount (\<lambda>email rows. (email # rows, None)) ''a@b'' ?env [] = (db, 1, [], TxReturned None)"
    unfolding createAccount_def WithTransactionOptions_def withTransaction_def
    by (subst tx_loop.simps) (simp add: Let_def runInTx_def effective_config_def defaultRetryConfig_def create_callback_def)
  then obtain db where run: "createAccount (\<lambda>email rows. (email # rows, None)) ''a@b'' ?env [] = (db, 1, [], TxReturned None)" ..
  have "no_lost_reply ?env" by (simp add: no_lost_reply_def)
  from example_account_atomic [OF this run] run show ?thesis by simp
qed

end
