(* ===== verification/Renewal.thy ===== *)
theory Renewal
  imports JobsTheorems OutboxTheorems
begin

text \<open>
  What the renewal goroutines of \<open>jobs/worker.go\<close> and \<open>outbox/outbox.go\<close> promise the handler they run
  beside: as long as statements reach the server often enough, the claim is never reported lost
  and its lease never runs out, from the text the lease is sent as (\<open>Interval\<close>) to the row it
  protects. The locale states what one turn of such a goroutine does; the two goroutines interpret it.
\<close>

subsection \<open>The contract of a renewal goroutine\<close>

text \<open>
  What happens between two statements of the goroutine: at most \<open>gap\<close> microseconds pass, and other
  sessions leave a claim alone whose lease covers them (\<open>jobs_lease_protected\<close>).
\<close>

definition waits :: "('db \<Rightarrow> int) \<Rightarrow> ('db \<Rightarrow> int option) \<Rightarrow> int \<Rightarrow> ('db \<Rightarrow> 'db) \<Rightarrow> bool" where
  "waits now lease_of gap during \<longleftrightarrow>
     (\<forall>db u. lease_of db = Some u \<longrightarrow> now db + gap < u \<longrightarrow>
        lease_of (during db) = Some u \<and> now db \<le> now (during db) \<and> now (during db) \<le> now db + gap)"

text \<open>At most \<open>k\<close> statements in a row fail, \<open>c\<close> of them before the list begins.\<close>

primrec misses_ok :: "nat \<Rightarrow> nat \<Rightarrow> ('a \<times> exec_outcome) list \<Rightarrow> bool" where
  "misses_ok k c [] = True"
| "misses_ok k c (e # es) =
     (if snd e = ExecFailed then c < k \<and> misses_ok k (Suc c) es else misses_ok k 0 es)"

locale lease_renewal =
  fixes renewal :: "'ev list \<Rightarrow> 'db \<Rightarrow> 'db \<times> renew_end"
    and stop :: 'ev
    and tick :: "('db \<Rightarrow> 'db) \<Rightarrow> exec_outcome \<Rightarrow> 'ev"
    and now :: "'db \<Rightarrow> int"
    and lease_of :: "'db \<Rightarrow> int option"
    and iv :: int
  assumes idle: "renewal [] db = (db, RenewActive)"
    and stopped: "renewal (stop # evs) db = (db, RenewStopped)"
    and turn: "lease_of (during db) = Some u \<Longrightarrow> now (during db) < u \<Longrightarrow>
      \<exists>db'. renewal (tick during ex # evs) db = renewal evs db' \<and> now db' = now (during db) \<and>
        lease_of db' = Some (if ex = ExecFailed then u else now (during db) + iv)"
begin

lemma lease_kept:
  assumes "lease_of db = Some u" and "now db + iv \<le> u + int c * gap" and "c \<le> k"
    and "0 \<le> gap" and "(int k + 1) * gap < iv"
    and "\<forall>e \<in> set plan. waits now lease_of gap (fst e)" and "misses_ok k c plan"
    and "tail = [] \<or> tail = [stop]"
  shows "\<exists>db' e u'. renewal (map (\<lambda>(during, ex). tick during ex) plan @ tail) db = (db', e) \<and>
    e \<noteq> RenewLost \<and> lease_of db' = Some u' \<and> now db' + gap < u'"
  using assms(1,2,3,6,7)
proof (induction plan arbitrary: db u c)
  case Nil
  have "int c * gap \<le> int k * gap" using Nil.prems(3) assms(4) by (intro mult_right_mono) simp_all
  then have "now db + gap < u" using Nil.prems(2) assms(5) by (simp add: algebra_simps)
  then show ?case using Nil.prems(1) assms(8) idle stopped by auto
next
  case (Cons e plan)
  obtain during ex where e: "e = (during, ex)" by fastforce
  have "int c * gap \<le> int k * gap" using Cons.prems(3) assms(4) by (intro mult_right_mono) simp_all
  then have far: "now db + gap < u" using Cons.prems(2) assms(5) by (simp add: algebra_simps)
  then have w: "lease_of (during db) = Some u" "now (during db) \<le> now db + gap"
    using Cons.prems(1,4) unfolding e waits_def by auto
  from far w(2) have "now (during db) < u" by simp
  from turn [of during db u ex "map (\<lambda>(during, ex). tick during ex) plan @ tail", OF w(1) this]
  obtain db2 where db2: "renewal (tick during ex # map (\<lambda>(during, ex). tick during ex) plan @ tail) db =
      renewal (map (\<lambda>(during, ex). tick during ex) plan @ tail) db2"
    "now db2 = now (during db)" "lease_of db2 = Some (if ex = ExecFailed then u else now (during db) + iv)"
    by blast
  define c' where "c' = (if ex = ExecFailed then Suc c else 0)"
  have "now db2 + iv \<le> (if ex = ExecFailed then u else now (during db) + iv) + int c' * gap"
    using db2(2) w(2) Cons.prems(2) by (simp add: c'_def algebra_simps)
  moreover have "c' \<le> k" "misses_ok k c' plan"
    using Cons.prems(5) by (auto simp: c'_def e split: if_splits)
  ultimately show ?case using Cons.IH [OF db2(3)] Cons.prems(4) db2(1) by (simp add: e)
qed

end

subsection \<open>The goroutine of the jobs worker\<close>

text \<open>The lease a worker holds on a claimed job: the table has the row under the claim's token.\<close>

definition job_lease :: "jobRow \<Rightarrow> jobs_db \<Rightarrow> int option" where
  "job_lease j db =
     (case find_row jr_id (jb_id j) (jd_rows db) of
        None \<Rightarrow> None
      | Some r \<Rightarrow>
         if jobs_pk (jd_rows db) \<and> jr_claim_token r = Some (jb_claimToken j)
         then (case jr_locked_until r of Some (At u) \<Rightarrow> Some u | _ \<Rightarrow> None) else None)"

lemma job_lease_Some:
  "job_lease j db = Some u \<longleftrightarrow>
     jobs_pk (jd_rows db) \<and>
     (\<exists>r. find_row jr_id (jb_id j) (jd_rows db) = Some r \<and> jr_claim_token r = Some (jb_claimToken j) \<and>
        jr_locked_until r = Some (At u))"
  by (auto simp: job_lease_def split: option.splits pgtime.splits)

lemma renew_stmt_count:
  assumes "jobs_pk rows" and "find_row jr_id i rows = Some r" and "jr_claim_token r = Some t"
    and "jr_locked_until r = Some (At u)" and "now < u"
  shows "snd (renew_stmt now iv i t rows) = 1"
proof -
  have "snd (renew_stmt now iv i t rows) = length (filter (\<lambda>r. jr_id r = i \<and> jr_claim_token r = Some t \<and>
      (case jr_locked_until r of None \<Rightarrow> False | Some u \<Rightarrow> At now < u)) rows)"
    by (simp add: renew_stmt_def sql_update_def owned_by_def conj_assoc)
  also have "\<dots> = 1"
    using assms by (subst filter_key_count) (simp_all add: jobs_pk_def)
  finally show ?thesis .
qed

interpretation jobs_renew: lease_renewal "jobs_lease_renewal pgiv lease j" RenewStop RenewTick jd_now
  "job_lease j" "pgiv (jobs_postgresInterval lease)"
proof unfold_locales
  fix during :: "jobs_db \<Rightarrow> jobs_db" and db u ex evs
  assume "job_lease j (during db) = Some u" and now: "jd_now (during db) < u"
  then obtain r where pk: "jobs_pk (jd_rows (during db))"
    and r: "find_row jr_id (jb_id j) (jd_rows (during db)) = Some r"
      "jr_claim_token r = Some (jb_claimToken j)" "jr_locked_until r = Some (At u)"
    by (auto simp: job_lease_Some)
  let ?db = "\<lambda>rows. (during db)\<lparr>jd_rows := rows\<rparr>"
  let ?stmt = "renew_stmt (jd_now (during db)) (pgiv (jobs_postgresInterval lease)) (jb_id j) (jb_claimToken j)"
  have n: "snd (?stmt (jd_rows (during db))) = 1" by (rule renew_stmt_count [OF pk r now])
  define rows' where "rows' = fst (sql_exec ex ?stmt (jd_rows (during db)))"
  have "jobs_lease_renewal pgiv lease j (RenewTick during ex # evs) db =
      jobs_lease_renewal pgiv lease j evs (?db rows')"
    using n by (cases ex) (simp_all add: rows'_def sql_exec_def Let_def)
  moreover have "job_lease j (?db rows') =
      Some (if ex = ExecFailed then u else jd_now (during db) + pgiv (jobs_postgresInterval lease))"
    using pk r now
    by (cases ex) (simp_all add: job_lease_Some rows'_def sql_exec_def renew_stmt_row job_stmt_pk)
  ultimately show "\<exists>db'. jobs_lease_renewal pgiv lease j (RenewTick during ex # evs) db =
      jobs_lease_renewal pgiv lease j evs db' \<and> jd_now db' = jd_now (during db) \<and>
      job_lease j db' =
        Some (if ex = ExecFailed then u else jd_now (during db) + pgiv (jobs_postgresInterval lease))"
    by (intro exI [of _ "?db rows'"]) simp
qed simp_all

subsection \<open>Other sessions leave a running lease alone\<close>

text \<open>The tables of the fleet as a worker sees them, and a run of steps none of which is its own
  renewal or outcome.\<close>

definition fleet_db :: "jobs_sys \<Rightarrow> jobs_db" where
  "fleet_db s = \<lparr>jd_rows = js_rows s, jd_now = js_now s\<rparr>"

definition own_labels :: "jobRow \<Rightarrow> alabel set" where
  "own_labels j =
     {ARenew (jb_id j) (jb_claimToken j), AComplete (jb_id j) (jb_claimToken j),
      AFail (jb_id j) (jb_claimToken j), ARetry (jb_id j) (jb_claimToken j)}"

inductive others_run :: "pg_micros \<Rightarrow> jobRow \<Rightarrow> jobs_sys \<Rightarrow> jobs_sys \<Rightarrow> bool" for iv j s where
  start: "others_run iv j s s"
| step: "others_run iv j s s1 \<Longrightarrow> jobs_step iv s1 l s2 \<Longrightarrow> l \<notin> own_labels j \<Longrightarrow> others_run iv j s s2"

lemma fleet_time: "jobs_step iv s l s' \<Longrightarrow> js_now s \<le> js_now s'"
  by (induction rule: jobs_step.induct) simp_all

lemma fleet_row_kept:
  assumes "jobs_step iv s l s'" and "jobs_pk (js_rows s)"
    and "find_row jr_id i (js_rows s) = Some r" and "jr_claim_token r = Some t"
    and "jr_locked_until r = Some (At u)" and "js_now s < u"
    and "l \<notin> {ARenew i t, AComplete i t, AFail i t, ARetry i t}"
  shows "find_row jr_id i (js_rows s') = Some r"
  using assms
proof (induction rule: jobs_step.induct)
  case (j_enqueue s k nm payload run_at m rows')
  then show ?case by (auto simp: jobs_insert_def split: if_splits)
next
  case (j_claim s lease p limit locked rows' claimed)
  have "i \<notin> set (claim_select (js_now s) limit locked (js_rows s))"
  proof
    assume "i \<in> set (claim_select (js_now s) limit locked (js_rows s))"
    then obtain r' where "r' \<in> set (js_rows s)" "jr_id r' = i" "job_due (js_now s) r'"
      using claim_select_due by blast
    then have "job_due (js_now s) r"
      using find_row_iff [of jr_id "js_rows s" i r'] j_claim.prems(1,2) by (simp add: jobs_pk_def)
    then show False using j_claim.prems(4,5) by (simp add: job_due_def)
  qed
  moreover have "rows' = fst (claim_update (js_now s) lease p (claim_select (js_now s) limit locked (js_rows s)) (js_rows s))"
    using claim_batch_rows j_claim.hyps(1) by (metis fst_conv)
  ultimately show ?case using j_claim.prems(2) by (simp add: claim_update_row)
qed (auto simp: row_simps requeue_stmt_row discard_stmt_row job_failed_def)

text \<open>
  This is what \<open>waits\<close> asks of the sessions around a renewal goroutine, and the fleet gives it.
  Whatever other workers, producers and administrators do meanwhile, a claim whose lease has not
  run out by the end is held under the same token and up to the same instant.
\<close>

theorem fleet_waits:
  assumes "others_run iv j s s'" and "job_lease j (fleet_db s) = Some u" and "js_now s' < u"
  shows "job_lease j (fleet_db s') = Some u \<and> js_now s \<le> js_now s'"
  using assms
proof (induction rule: others_run.induct)
  case (step s1 l s2)
  have "js_now s1 < u" using fleet_time [OF step.hyps(2)] step.prems(2) by simp
  with step.IH step.prems(1) have IH: "job_lease j (fleet_db s1) = Some u" "js_now s \<le> js_now s1" by simp_all
  then obtain r where pk: "jobs_pk (js_rows s1)"
    and r: "find_row jr_id (jb_id j) (js_rows s1) = Some r" "jr_claim_token r = Some (jb_claimToken j)"
      "jr_locked_until r = Some (At u)"
    by (auto simp: job_lease_Some fleet_db_def)
  have "find_row jr_id (jb_id j) (js_rows s2) = Some r"
    using fleet_row_kept [OF step.hyps(2) pk r \<open>js_now s1 < u\<close>] step.hyps(3) by (simp add: own_labels_def)
  then show ?case
    using jobs_pk_step [OF step.hyps(2) pk] r(2,3) fleet_time [OF step.hyps(2)] IH(2)
    by (auto simp: job_lease_Some fleet_db_def)
qed simp

subsection \<open>The goroutine of the relay\<close>

definition message_lease :: "outboxRow \<Rightarrow> outbox_db \<Rightarrow> int option" where
  "message_lease m db =
     (case find_row or_id (ob_id m) (od_rows db) of
        None \<Rightarrow> None
      | Some r \<Rightarrow>
         if outbox_pk (od_rows db) \<and> or_claim_token r = Some (ob_claimToken m) then or_locked_until r else None)"

lemma message_lease_Some:
  "message_lease m db = Some u \<longleftrightarrow>
     outbox_pk (od_rows db) \<and>
     (\<exists>r. find_row or_id (ob_id m) (od_rows db) = Some r \<and> or_claim_token r = Some (ob_claimToken m) \<and>
        or_locked_until r = Some u)"
  by (auto simp: message_lease_def split: option.splits)

lemma relay_renew_stmt_count:
  assumes "outbox_pk rows" and "find_row or_id i rows = Some r" and "or_claim_token r = Some t"
    and "or_locked_until r = Some u" and "now < u"
  shows "snd (relay_renew_stmt now iv i t rows) = 1"
proof -
  have "snd (relay_renew_stmt now iv i t rows) = length (filter (\<lambda>r. or_id r = i \<and> or_claim_token r = Some t \<and>
      (case or_locked_until r of None \<Rightarrow> False | Some u \<Rightarrow> now < u)) rows)"
    by (simp add: relay_renew_stmt_def sql_update_def message_owned_def conj_assoc)
  also have "\<dots> = 1"
    using assms by (subst filter_key_count) (simp_all add: outbox_pk_def)
  finally show ?thesis .
qed

interpretation outbox_renew: lease_renewal "outbox_lease_renewal pgiv lease m" RelayStop RelayTick od_now
  "message_lease m" "pgiv (outbox_postgresInterval lease)"
proof unfold_locales
  fix during :: "outbox_db \<Rightarrow> outbox_db" and db u ex evs
  assume "message_lease m (during db) = Some u" and now: "od_now (during db) < u"
  then obtain r where pk: "outbox_pk (od_rows (during db))"
    and r: "find_row or_id (ob_id m) (od_rows (during db)) = Some r"
      "or_claim_token r = Some (ob_claimToken m)" "or_locked_until r = Some u"
    by (auto simp: message_lease_Some)
  let ?db = "\<lambda>rows. (during db)\<lparr>od_rows := rows\<rparr>"
  let ?stmt = "relay_renew_stmt (od_now (during db)) (pgiv (outbox_postgresInterval lease)) (ob_id m)
    (ob_claimToken m)"
  have n: "snd (?stmt (od_rows (during db))) = 1" by (rule relay_renew_stmt_count [OF pk r now])
  define rows' where "rows' = fst (sql_exec ex ?stmt (od_rows (during db)))"
  have "outbox_lease_renewal pgiv lease m (RelayTick during ex # evs) db =
      outbox_lease_renewal pgiv lease m evs (?db rows')"
    using n by (cases ex) (simp_all add: rows'_def sql_exec_def Let_def)
  moreover have "message_lease m (?db rows') =
      Some (if ex = ExecFailed then u else od_now (during db) + pgiv (outbox_postgresInterval lease))"
    using pk r now
    by (cases ex) (simp_all add: message_lease_Some rows'_def sql_exec_def relay_stmt_rows relay_stmt_pk)
  ultimately show "\<exists>db'. outbox_lease_renewal pgiv lease m (RelayTick during ex # evs) db =
      outbox_lease_renewal pgiv lease m evs db' \<and> od_now db' = od_now (during db) \<and>
      message_lease m db' =
        Some (if ex = ExecFailed then u else od_now (during db) + pgiv (outbox_postgresInterval lease))"
    by (intro exI [of _ "?db rows'"]) simp
qed simp_all

subsection \<open>Leases hold while they are renewed\<close>

text \<open>
  How the server reads an interval: a decimal number of seconds with nine decimals, kept in
  microseconds, so with an error of less than one microsecond in either direction of rounding.
\<close>

definition reads_intervals :: "(string \<Rightarrow> pg_micros) \<Rightarrow> bool" where
  "reads_intervals pgiv \<longleftrightarrow>
     (\<forall>w f. (\<forall>c \<in> set (w @ f). is_digit c) \<longrightarrow> length f = 9 \<longrightarrow> int (dec_val (w @ f)) \<le> 2 ^ 63 + 1000 \<longrightarrow>
        \<bar>1000 * pgiv (w @ ''.'' @ f @ '' seconds'') - int (dec_val (w @ f))\<bar> < 1000)"

lemma interval_read:
  assumes "reads_intervals pgiv" and "0 \<le> d" and "d < 2 ^ 63"
  shows "\<bar>1000 * pgiv (jobs_postgresInterval d) - d\<bar> < 1954"
    and "\<bar>1000 * pgiv (outbox_postgresInterval d) - d\<bar> < 1954"
proof -
  obtain w f where wf: "jobs_postgresInterval d = w @ ''.'' @ f @ '' seconds''" "length f = 9"
      "\<forall>c \<in> set (w @ f). is_digit c" "\<bar>int (dec_val (w @ f)) - d\<bar> \<le> 954"
    using interval_digits [OF assms(2,3)] by blast
  have "int (dec_val (w @ f)) \<le> 2 ^ 63 + 1000" using wf(4) assms(3) by linarith
  then have "\<bar>1000 * pgiv (jobs_postgresInterval d) - int (dec_val (w @ f))\<bar> < 1000"
    using assms(1) wf(1-3) unfolding reads_intervals_def by metis
  then show "\<bar>1000 * pgiv (jobs_postgresInterval d) - d\<bar> < 1954" using wf(4) by linarith
  then show "\<bar>1000 * pgiv (outbox_postgresInterval d) - d\<bar> < 1954"
    by (simp add: jobs_postgresInterval_def outbox_postgresInterval_def)
qed

text \<open>A reading that drops what is below a microsecond, and a passage of time without other sessions.\<close>

definition read_micros :: "string \<Rightarrow> pg_micros" where
  "read_micros s =
     int (dec_val (takeWhile is_digit s @ takeWhile is_digit (tl (dropWhile is_digit s)))) div 1000"

definition pass :: "int \<Rightarrow> jobs_db \<Rightarrow> jobs_db" where
  "pass n db = db\<lparr>jd_now := jd_now db + n\<rparr>"

lemma reads_intervals_micros: "reads_intervals read_micros"
proof -
  have "read_micros (w @ ''.'' @ f @ '' seconds'') = int (dec_val (w @ f)) div 1000"
    if "\<forall>c \<in> set (w @ f). is_digit c" for w f
  proof -
    have "\<not> is_digit (CHR ''.'')" "\<not> is_digit (CHR '' '')" by (simp_all add: is_digit_def)
    then show ?thesis using that
      by (simp add: read_micros_def takeWhile_append2 dropWhile_append2)
  qed
  then show ?thesis by (simp add: reads_intervals_def) linarith
qed

lemma waits_pass: "0 \<le> n \<Longrightarrow> n \<le> gap \<Longrightarrow> waits jd_now (job_lease j) gap (pass n)"
  by (simp add: waits_def pass_def job_lease_Some)

text \<open>C8: a worker keeps the job it runs. With at most \<open>gap\<close> microseconds between two statements of the
  renewal goroutine, at most \<open>k\<close> failing ones in a row and a lease longer than \<open>k + 1\<close> gaps (and the
  two microseconds its text may be off by), the goroutine never reports the claim lost, and
  whenever it stops the row is still under the worker's token with more than a gap of lease left.
\<close>

theorem jobs_renewal_keeps_lease:
  assumes "reads_intervals pgiv" and "lease < 2 ^ 63"
    and "0 \<le> gap" and "1000 * ((int k + 1) * gap) + 1954 \<le> lease"
    and "job_lease j db = Some u" and "jd_now db + pgiv (jobs_postgresInterval lease) \<le> u"
    and "\<forall>e \<in> set plan. waits jd_now (job_lease j) gap (fst e)" and "misses_ok k 0 plan"
    and "tail = [] \<or> tail = [RenewStop]"
  shows "\<exists>db' e u'. jobs_lease_renewal pgiv lease j (map (\<lambda>(during, ex). RenewTick during ex) plan @ tail) db =
      (db', e) \<and> e \<noteq> RenewLost \<and> job_lease j db' = Some u' \<and> jd_now db' + gap < u'"
proof -
  have "0 \<le> (int k + 1) * gap" using assms(3) by simp
  then have "0 \<le> lease" using assms(4) by linarith
  then have "(int k + 1) * gap < pgiv (jobs_postgresInterval lease)"
    using interval_read(1) [OF assms(1) _ assms(2)] assms(4) by linarith
  then show ?thesis using assms by (intro jobs_renew.lease_kept [where c = 0 and k = k]) simp_all
qed

text \<open>Five minutes of lease, a statement every hundred seconds, the first of which fails.\<close>

theorem jobs_renewal_keeps_lease_witness:
  "\<exists>db' e u'. jobs_lease_renewal read_micros 300000000000 demo_claimed
      [RenewTick (pass 100000000) ExecFailed, RenewTick (pass 100000000) ExecOk, RenewStop]
      \<lparr>jd_rows = [demo_held\<lparr>jr_locked_until := Some (At 300000010)\<rparr>], jd_now = 0\<rparr> = (db', e) \<and>
    e \<noteq> RenewLost \<and> job_lease demo_claimed db' = Some u' \<and> jd_now db' + 100000000 < u'"
proof -
  let ?db = "\<lparr>jd_rows = [demo_held\<lparr>jr_locked_until := Some (At 300000010)\<rparr>], jd_now = 0\<rparr>"
  have "job_lease demo_claimed ?db = Some 300000010"
    by (simp add: job_lease_def demo_defs jobs_pk_def)
  moreover have "read_micros (jobs_postgresInterval 300000000000) \<le> 300000010"
    using interval_read(1) [OF reads_intervals_micros, of 300000000000] by simp
  ultimately show ?thesis
    using jobs_renewal_keeps_lease [OF reads_intervals_micros, of 300000000000 100000000 1 demo_claimed ?db
        300000010 "[(pass 100000000, ExecFailed), (pass 100000000, ExecOk)]" "[RenewStop]"] waits_pass
    by simp
qed

text \<open>The same of a relay and the message it delivers.\<close>

theorem outbox_renewal_keeps_lease:
  assumes "reads_intervals pgiv" and "lease < 2 ^ 63"
    and "0 \<le> gap" and "1000 * ((int k + 1) * gap) + 1954 \<le> lease"
    and "message_lease m db = Some u" and "od_now db + pgiv (outbox_postgresInterval lease) \<le> u"
    and "\<forall>e \<in> set plan. waits od_now (message_lease m) gap (fst e)" and "misses_ok k 0 plan"
    and "tail = [] \<or> tail = [RelayStop]"
  shows "\<exists>db' e u'. outbox_lease_renewal pgiv lease m (map (\<lambda>(during, ex). RelayTick during ex) plan @ tail) db =
      (db', e) \<and> e \<noteq> RenewLost \<and> message_lease m db' = Some u' \<and> od_now db' + gap < u'"
proof -
  have "0 \<le> (int k + 1) * gap" using assms(3) by simp
  then have "0 \<le> lease" using assms(4) by linarith
  then have "(int k + 1) * gap < pgiv (outbox_postgresInterval lease)"
    using interval_read(2) [OF assms(1) _ assms(2)] assms(4) by linarith
  then show ?thesis using assms by (intro outbox_renew.lease_kept [where c = 0 and k = k]) simp_all
qed

end
