(* ===== verification/ResponseTyping.thy ===== *)
theory ResponseTyping
  imports Middleware
begin

text \<open>
  A type discipline for responses (\<open>httpx/\<close>): what a response may look like at any moment, how it may
  change, and that every writer and every middleware of the repository, in any order, keeps to it
  around a handler that does.
\<close>

subsection \<open>Well-formed responses and their growth\<close>

fun response_ok :: "(int \<times> (string \<rightharpoonup> string)) option \<Rightarrow> string \<Rightarrow> bool" where
  "response_ok None body \<longleftrightarrow> body = []"
| "response_ok (Some (c, _)) body \<longleftrightarrow>
     100 \<le> c \<and> c \<le> 999 \<and> \<not> informational c \<and> (body_allowed c \<or> body = [])"

definition world_ok :: "http_world \<Rightarrow> bool" where
  "world_ok w \<longleftrightarrow> response_ok (hw_sent w) (hw_body w) \<and> (\<forall>c \<in> set (hw_info w). informational c)"

definition grows :: "http_world \<Rightarrow> http_world \<Rightarrow> bool" where
  "grows w w' \<longleftrightarrow>
     (hw_sent w \<noteq> None \<longrightarrow> hw_sent w' = hw_sent w \<and> hw_info w' = hw_info w) \<and>
     list_all2 (\<lambda>s s'. s \<noteq> 0 \<longrightarrow> s' = s) (hw_status w) (hw_status w') \<and>
     prefix (hw_info w) (hw_info w') \<and> prefix (hw_body w) (hw_body w') \<and> prefix (hw_logs w) (hw_logs w') \<and>
     prefix (hw_spans w) (hw_spans w') \<and> prefix (hw_metrics w) (hw_metrics w')"

definition moves :: "http_world \<Rightarrow> http_world \<Rightarrow> bool" where
  "moves w w' \<longleftrightarrow> (world_ok w \<longrightarrow> world_ok w') \<and> grows w w'"

definition typed_handler :: "handler \<Rightarrow> bool" where
  "typed_handler h \<longleftrightarrow> (\<forall>r w. moves w (hs_world (h r w)))"

lemma grows_refl [simp]: "grows w w"
  by (simp add: grows_def list_all2_refl)

lemma status_trans:
  "list_all2 (\<lambda>s s'. s \<noteq> 0 \<longrightarrow> s' = s) xs ys \<Longrightarrow> list_all2 (\<lambda>s s'. s \<noteq> 0 \<longrightarrow> s' = s) ys zs \<Longrightarrow>
   list_all2 (\<lambda>s s'. s \<noteq> 0 \<longrightarrow> s' = s) xs (zs :: int list)"
  by (rule list_all2_trans [where ?P1.0 = "\<lambda>s s'. s \<noteq> 0 \<longrightarrow> s' = s"]) auto

lemma grows_trans: "grows u v \<Longrightarrow> grows v w \<Longrightarrow> grows u w"
  unfolding grows_def using status_trans prefix_order.trans by (metis (no_types, lifting))

lemma moves_trans: "moves u v \<Longrightarrow> moves v w \<Longrightarrow> moves u w"
  unfolding moves_def using grows_trans by blast

lemma moves_refl [simp]: "moves w w"
  by (simp add: moves_def)

subsection \<open>Writers\<close>

lemma status_refl: "list_all2 (\<lambda>s s'. s \<noteq> 0 \<longrightarrow> s' = s) xs xs"
  by (simp add: list_all2_refl)

lemma status_fill: "list_all2 (\<lambda>s s'. s \<noteq> 0 \<longrightarrow> s' = s) xs (map (\<lambda>s. if s = 0 then c else s) xs)"
  by (simp add: list_all2_map2 list_all2_refl)

lemma header_Set_moves: "moves w (header_Set k v w)"
  by (simp add: header_Set_def moves_def world_ok_def grows_def status_refl)

lemma header_Set_after: "moves w v \<Longrightarrow> moves w (header_Set k x v)"
  by (rule moves_trans [OF _ header_Set_moves])

lemma raw_WriteHeader_moves: "moves w (fst (raw_WriteHeader c w))"
  by (cases "hw_sent w") (simp_all add: raw_WriteHeader_def moves_def world_ok_def grows_def status_refl)

lemma status_WriteHeader_moves: "moves w (fst (status_WriteHeader c w))"
proof -
  have "moves w (w\<lparr>hw_status := map (\<lambda>s. if s = 0 then c else s) (hw_status w)\<rparr>)"
    by (simp add: moves_def world_ok_def grows_def status_fill)
  then show ?thesis unfolding status_WriteHeader_def by (rule moves_trans) (rule raw_WriteHeader_moves)
qed

lemma raw_Write_moves: "moves w (raw_Write p w)"
proof (cases "hw_sent w")
  case None
  then show ?thesis
    by (simp add: raw_Write_def moves_def world_ok_def grows_def status_refl body_allowed_def informational_def)
next
  case (Some x)
  then show ?thesis
    by (cases x) (simp add: raw_Write_def moves_def world_ok_def grows_def status_refl)
qed

lemma status_Write_moves: "moves w (status_Write p w)"
  unfolding status_Write_def
  by (rule moves_trans [OF _ raw_Write_moves]) (simp add: status_WriteHeader_moves)

lemma problem_Write_moves: "moves w (fst (problem_Write enc p w))"
proof -
  define p' where "p' = (if pb_Status p = 0 then p\<lparr>pb_Status := 500\<rparr> else p)"
  define w1 where "w1 = header_Set ''X-Content-Type-Options'' ''nosniff''
    (header_Set ''Content-Type'' ''application/problem+json; charset=utf-8'' w)"
  obtain w2 b where w2: "status_WriteHeader (pb_Status p') w1 = (w2, b)" by fastforce
  have "moves w w1" unfolding w1_def by (rule moves_trans [OF header_Set_moves header_Set_moves])
  then have m2: "moves w w2"
    by (rule moves_trans) (use status_WriteHeader_moves [of w1 "pb_Status p'"] w2 in simp)
  have "fst (problem_Write enc p w) = (if b then w2 else status_Write (enc p') w2)"
    using w2 by (simp add: problem_Write_def Let_def flip: p'_def w1_def split: bool.split)
  then show ?thesis using m2 moves_trans [OF m2 status_Write_moves] by simp
qed

lemma httpx_Encode_moves: "moves w (fst (httpx_Encode enc status payload w))"
proof -
  define w1 where "w1 = header_Set ''X-Content-Type-Options'' ''nosniff''
    (header_Set ''Content-Type'' ''application/json; charset=utf-8'' w)"
  obtain w2 b where w2: "status_WriteHeader status w1 = (w2, b)" by fastforce
  have "moves w w1" unfolding w1_def by (rule moves_trans [OF header_Set_moves header_Set_moves])
  then have m2: "moves w w2"
    by (rule moves_trans) (use status_WriteHeader_moves [of w1 status] w2 in simp)
  have "fst (httpx_Encode enc status payload w) = w2 \<or>
      (\<exists>p. fst (httpx_Encode enc status payload w) = status_Write p w2)"
    using w2 by (simp add: httpx_Encode_def flip: w1_def split: bool.split sum.split) blast
  then show ?thesis using m2 moves_trans [OF m2 status_Write_moves] by metis
qed

subsection \<open>Middleware\<close>

lemma typed_handlerD: "typed_handler h \<Longrightarrow> moves w (hs_world (h r w))"
  unfolding typed_handler_def by blast

lemma with_status_moves:
  assumes "typed_handler h"
  shows "moves w (hs_world (fst (with_status h r w)))"
proof -
  define w0 where "w0 = w\<lparr>hw_status := 0 # hw_status w\<rparr>"
  define w1 where "w1 = hs_world (h r w0)"
  have m: "moves w0 w1" unfolding w1_def by (rule typed_handlerD [OF assms])
  have "world_ok w0 = world_ok w" by (simp add: w0_def world_ok_def)
  moreover have "world_ok (w1\<lparr>hw_status := tl (hw_status w1)\<rparr>) = world_ok w1" by (simp add: world_ok_def)
  moreover have "grows w (w1\<lparr>hw_status := tl (hw_status w1)\<rparr>)"
    using m by (auto simp: w0_def moves_def grows_def list_all2_Cons1)
  ultimately show ?thesis using m by (simp add: moves_def with_status_def Let_def flip: w0_def w1_def)
qed

lemma observe_moves:
  "moves w v \<Longrightarrow> moves w (v\<lparr>hw_logs := hw_logs v @ l\<rparr>)"
  "moves w v \<Longrightarrow> moves w (v\<lparr>hw_spans := hw_spans v @ s\<rparr>)"
  "moves w v \<Longrightarrow> moves w (v\<lparr>hw_spans := hw_spans v @ s, hw_metrics := hw_metrics v @ m\<rparr>)"
  by (auto simp: moves_def world_ok_def grows_def)

text \<open>The contract of a middleware, and what it gives for a chain of them.\<close>

locale typed_middleware =
  fixes m :: middleware
  assumes typed: "typed_handler h \<Longrightarrow> typed_handler (m h)"
begin

lemma after_chain: "typed_handler (Chain h ms) \<Longrightarrow> typed_handler (Chain h (Some m # ms))"
  by (simp add: typed)

end

interpretation sec: typed_middleware SecurityHeaders
proof
  fix h :: handler
  assume h: "typed_handler h"
  have "moves w (hs_world (SecurityHeaders h r w))" for r w
    unfolding SecurityHeaders_def
    by (rule moves_trans [OF _ typed_handlerD [OF h]]) (intro header_Set_after moves_refl)
  then show "typed_handler (SecurityHeaders h)" by (simp add: typed_handler_def)
qed

interpretation rid: typed_middleware "RequestID uuid"
proof
  fix h :: handler
  assume h: "typed_handler h"
  show "typed_handler (RequestID uuid h)"
    unfolding typed_handler_def RequestID_def Let_def
    using moves_trans [OF header_Set_moves typed_handlerD [OF h]]
    by (simp split: option.split)
qed

interpretation cip: typed_middleware "ClientIP from_request"
  by unfold_locales (simp add: typed_handler_def ClientIP_def)

interpretation rec: typed_middleware "Recover logger enc"
proof
  fix h :: handler
  assume h: "typed_handler h"
  have "moves w (hs_world (Recover logger enc h r w))" for r w
  proof (cases "hs_panic (h r w)")
    case None
    then show ?thesis using typed_handlerD [OF h] by (simp add: Recover_def Let_def)
  next
    case (Some v)
    define w1 where "w1 = (if logger then (hs_world (h r w))\<lparr>hw_logs := hw_logs (hs_world (h r w)) @
      [PanicLog v (requestid_FromContext r)]\<rparr> else hs_world (h r w))"
    have "moves w w1" using typed_handlerD [OF h] observe_moves(1) by (simp add: w1_def)
    then have "moves w (fst (problem_InternalServerError enc r w1))"
      unfolding problem_InternalServerError_def problem_Error_def
      by (rule moves_trans) (rule problem_Write_moves)
    moreover have "hs_world (Recover logger enc h r w) = fst (problem_InternalServerError enc r w1)"
      using Some by (simp add: Recover_def Let_def case_prod_beta flip: w1_def)
    ultimately show ?thesis by simp
  qed
  then show "typed_handler (Recover logger enc h)" by (simp add: typed_handler_def)
qed

interpretation logging: typed_middleware "Logging logger"
proof
  fix h :: handler
  assume h: "typed_handler h"
  show "typed_handler (Logging logger h)"
    unfolding typed_handler_def Logging_def Let_def case_prod_beta
    using with_status_moves [OF h] observe_moves(1) by simp
qed

interpretation tel: typed_middleware "Telemetry named"
proof
  fix h :: handler
  assume h: "typed_handler h"
  show "typed_handler (Telemetry named h)"
    unfolding typed_handler_def Telemetry_def Let_def case_prod_beta
    using observe_moves(2,3) [OF with_status_moves [OF h]] by simp
qed

lemma routed_typed: "typed_handler h \<Longrightarrow> typed_handler (routed pattern h)"
  by (simp add: typed_handler_def routed_def)

subsection \<open>Chains\<close>

definition repository_middleware :: "middleware option \<Rightarrow> bool" where
  "repository_middleware m \<longleftrightarrow>
     m = None \<or> m = Some SecurityHeaders \<or> (\<exists>uuid. m = Some (RequestID uuid)) \<or>
     (\<exists>from_request. m = Some (ClientIP from_request)) \<or> (\<exists>logger enc. m = Some (Recover logger enc)) \<or>
     (\<exists>logger. m = Some (Logging logger)) \<or> (\<exists>named. m = Some (Telemetry named))"

lemma chain_typed:
  "\<forall>m \<in> set ms. repository_middleware m \<Longrightarrow> typed_handler h \<Longrightarrow> typed_handler (Chain h ms)"
proof (induction ms)
  case (Cons m ms)
  then have "typed_handler (Chain h ms)" "repository_middleware m" by simp_all
  then show ?case unfolding repository_middleware_def
    by (elim disjE exE)
      (simp_all only: Chain_simps sec.typed rid.typed cip.typed rec.typed logging.typed tel.typed)
qed simp

text \<open>C21: responses are well typed. Around a handler that keeps to the discipline, every chain of the
  repository's middleware, in any order and number, keeps to it too, panics included: a status
  that is sent is a final one between 100 and 999 and is never changed, a body is sent only under a
  status that allows one, informational responses precede the final one, and no recorded
  status, log line, span or metric is ever taken back.
\<close>

theorem responses_well_typed:
  assumes "\<And>r w. moves w (hs_world (h r w))" and "\<forall>m \<in> set ms. repository_middleware m" and "world_ok w"
  shows "world_ok (hs_world (Chain h ms r w)) \<and> grows w (hs_world (Chain h ms r w))"
  using typed_handlerD [OF chain_typed [OF assms(2)]] assms(1,3) by (simp add: typed_handler_def moves_def)

theorem responses_well_typed_witness:
  "world_ok (hs_world (Chain replying (Some (Telemetry True) # default_chain (Some ''i'') (\<lambda>_. ''P'')) demo_request fresh_world)) \<and>
   grows fresh_world
     (hs_world (Chain replying (Some (Telemetry True) # default_chain (Some ''i'') (\<lambda>_. ''P'')) demo_request fresh_world))"
proof (rule responses_well_typed)
  show "moves w (hs_world (replying r w))" for r w by (simp add: replying_def status_Write_moves)
  show "\<forall>m \<in> set (Some (Telemetry True) # default_chain (Some ''i'') (\<lambda>_. ''P'')). repository_middleware m"
    by (auto simp: default_chain_def repository_middleware_def)
  show "world_ok fresh_world" by (simp add: world_ok_def fresh_world_def)
qed

end
