(* ===== verification/Spec2Isabelle.thy ===== *)
theory Spec2Isabelle
  imports JobsTheorems OutboxTheorems PostgresTx Migrate ClientIP Health SchemaTheorems EngineRun Middleware Config Secrets MailTheorems ScaffoldTheorems ClientIPLegacy Composition Capabilities TestDb HealthTelemetry SchemaCatalog Examples Renewal ResponseTyping
begin

text \<open>
  \<^bold>\<open>A verification of devengine.\<close> devengine is a Go library for services over PostgreSQL. An
  application builds an engine (\<open>engine/\<close>), registers modules and workers, and runs an HTTP
  server and workers side by side. Two of the workers are the library's own: the jobs worker
  (\<open>jobs/\<close>), which delivers persistent jobs, and the outbox relay (\<open>outbox/\<close>), which delivers
  events recorded in the transaction that caused them to handlers of the event registry
  (\<open>events/\<close>). Both keep their state in one table and coordinate through it only: a worker
  claims rows for a lease under a claim token, renews the lease while it works, and records
  the outcome with a statement guarded by the token. Around them are transactions with retry
  and savepoints (\<open>postgres/\<close>), migrations (\<open>migrate/\<close>), readiness (\<open>health/\<close>), the resolution
  of client addresses behind proxies (\<open>httpx/clientip/\<close>) and smaller packages.

  \<^bold>\<open>How code becomes definitions.\<close> Go strings are byte lists, so \<^const>\<open>length\<close> is \<open>len\<close>; a Go error is
  a value of \<open>goerr\<close> with the sentinels the program tests for, call-site errors, wrapped and
  joined errors; a function with an error result returns a sum, \<open>Inl\<close> being the error. An
  \<open>int\<close> or a \<open>time.Duration\<close> is an \<^typ>\<open>int\<close>, with the wrap-around at 64 bits written out where
  the code can reach it (\<open>double64\<close>). A table is a list of rows; an \<open>UPDATE\<close> or \<open>DELETE\<close> is a
  guard and a row function (\<open>sql_update\<close>, \<open>sql_delete\<close>), with the number of affected rows. What
  runs concurrently is an inductive step relation over a state record; what runs in one
  goroutine is a function. Code outside the repository is an argument: \<open>pgiv\<close> is how the
  database reads the text of an interval (microseconds), \<open>render\<close> the text of an error, \<open>text_ok\<close> which text
  parameters the server accepts, \<open>run\<close> and \<open>handle\<close> the application's handlers, \<open>sha\<close> the hash of
  a migration, \<open>run_sql\<close> the effect of its SQL, and the transaction attempts of pgx.

  \<^bold>\<open>The theories.\<close>

  \<^item> \<open>Prelude\<close>: fact collections, Go errors, 64-bit integers, random draws, SQL statements on
    lists of rows and their laws. \<open>GoStrings\<close>: \<open>strings\<close> and \<open>unicode/utf8\<close> as far as the
    program uses them (trimming, splitting, UTF-8 validity, decimal text).

  \<^item> \<open>Lease\<close>: the abstract machine of a leased queue. Its invariant gives exclusive ownership,
    protection of a live lease, no loss and finality of outcomes. The locale
    \<open>lease_refinement\<close> fixes a concrete step relation, an abstraction function and an
    invariant, assumes simulation, and transfers the theorems.

  \<^item> \<open>Jobs\<close> (\<open>jobs/jobs.go\<close>, \<open>jobs/repository.go\<close>): \<open>Enqueue\<close>, the registry, the repository of failed
    jobs. \<open>JobsWorker\<close> (\<open>jobs/worker.go\<close>): claim, renewal, outcome, \<open>processBatch\<close>, the renewal
    goroutine, \<open>Run\<close>, the retry delay. \<open>JobsFleet\<close>: any number of workers and administrators as
    steps over one table, and the interpretation \<open>jobs_lease\<close>; a claim step draws a prefix that was
    never drawn before, as UUIDs are, and each worker has a lease of its own. \<open>JobsTheorems\<close>: the
    properties.

  \<^item> \<open>Interval\<close> (\<open>postgresInterval\<close> of both queues): 64-bit floating-point rounding on rational numbers, the
    text of a lease and how far it is from the lease. \<open>Renewal\<close>: the locale \<open>lease_renewal\<close>, which the
    renewal goroutines of both queues interpret; a lease that is renewed often enough is never lost,
    and the other sessions of a fleet leave it alone.

  \<^item> \<open>Events\<close> (\<open>events/events.go\<close>), \<open>Outbox\<close> (\<open>outbox/outbox.go\<close>), \<open>OutboxFleet\<close> with the
    interpretation \<open>outbox_lease\<close>, and \<open>OutboxTheorems\<close>, in the same order. The two queues differ
    in one law: the outbox never revives a failed row, the jobs queue can. A delivery records the
    calls its loop makes.

  \<^item> \<open>PostgresTx\<close> (\<open>postgres/tx.go\<close>, \<open>postgres/postgres.go\<close>): the retry loop, savepoints, SQLSTATE
    predicates, pool options. \<open>Migrate\<close> (\<open>migrate/migrate.go\<close>): loading, applying, status.
    \<open>Capabilities\<close> (\<open>jobs/migrations.go\<close>, \<open>outbox/migrations.go\<close>): the SQL files the library ships and
    how they load with an application's own. \<open>Composition\<close>: a transaction that enqueues an event
    (\<open>examples/outbox\<close>). \<open>TestDb\<close> (\<open>testutil/postgres/postgres.go\<close>): databases for tests, and the
    pools of \<open>postgres/postgres.go\<close>.

  \<^item> \<open>Schema\<close>, \<open>SchemaDrift\<close> and \<open>SchemaTheorems\<close> (\<open>schema/schema.go\<close>): capturing a snapshot, comparing two,
    and the reference definition of drift the comparison implements, stated over the snapshots alone;
    the two agree on enums whose labels have no comma, and the comparison is blind to the others
    (\<open>schema_enum_comma_blind\<close>). The locale \<open>table_pass\<close> is the
    contract of the passes over the result of a catalogue query. \<open>SchemaCatalog\<close>: the five queries
    over PostgreSQL's system catalogue.

  \<^item> \<open>Netip\<close> (the standard library's \<open>net/netip\<close>), \<open>ClientIP\<close> and \<open>ClientIPLegacy\<close>
    (\<open>httpx/clientip/clientip.go\<close>); \<open>Httpx\<close> (\<open>httpx/json.go\<close>, \<open>httpx/problem\<close>, \<open>httpx/requestid\<close>): the
    response writer, JSON bodies, problem responses; \<open>Middleware\<close> (\<open>httpx/middleware\<close>): every
    middleware as a function on handlers. \<open>OtelAdapter\<close> (\<open>telemetry/telemetry.go\<close>,
    \<open>telemetry/otel/otel.go\<close>): the adapter and the telemetry middleware as calls to the SDK, a
    refinement of the one in \<open>Middleware\<close>. \<open>ResponseTyping\<close>: what a response may look like and how it may
    change; the locale \<open>typed_middleware\<close> is interpreted by every middleware.

  \<^item> \<open>Health\<close> (\<open>health/registry.go\<close>): registration with generations, the readiness handler and
    its concurrent checks as steps, with a record of what the goroutine of each check found, against
    which the answer of a request is stated, and the log of transitions. \<open>HealthTelemetry\<close>: its metrics and the
    liveness handler.

  \<^item> \<open>Engine\<close> and \<open>EngineRun\<close> (\<open>engine/\<close>): construction and registration, and the lifecycle of
    \<open>Run\<close> as steps of the main goroutine, the workers and the environment; a worker's return and the
    look at the context that follows it are two steps.

  \<^item> \<open>Uuid\<close> (\<open>id/uuidv7.go\<close>), \<open>Config\<close> (\<open>config/env.go\<close>).

  \<^item> \<open>Crypto\<close> (the parts of Go's \<open>crypto\<close> the program uses: SHA-256, AES-256, GCM, base64) and \<open>Secrets\<close>
    (\<open>secrets/secrets.go\<close>). The locales \<open>aead\<close> and \<open>block_cipher\<close> state what authenticated encryption
    and its block cipher promise; GCM over any block cipher is an instance of the first, AES of the
    second.

  \<^item> \<open>Mail\<close> and \<open>MailTheorems\<close> (\<open>mail/\<close>): the message, the SMTP dialogue beside the
    goroutine that closes the connection when the context ends, and what reaches the network.

  \<^item> \<open>Scaffold\<close> and \<open>ScaffoldTheorems\<close> (\<open>cmd/devengine/main.go\<close>): the command line, the templates and the
    files it writes.

  \<^item> \<open>Examples\<close> (\<open>examples/\<close>): what the example programs construct, insert or print.

  \<^bold>\<open>Fuel and loops.\<close> The polling loops of the worker and the relay run until their context
  ends; they are driven by the finite list of things that happen to them, one element for each
  pass. The retry loop of \<open>postgres\<close> recurses on the attempts that remain. All other recursions
  are structural or have a termination measure. Floating-point numbers have no bound on the
  exponent: durations are far from its limits.

  \<^bold>\<open>Not modelled.\<close> The text of log records, the wire protocol of PostgreSQL and pgx, the effect of SQL
  statements other than the library's own (migrations run through an argument), the JSON codec,
  HTTP and TLS below the response writer. Metrics and traces of the jobs worker and the outbox
  relay have no effect on what is proved; the status label of a delivery metric is kept.
\<close>

end
